(* ===== verification/Prelude.thy ===== *)
theory Prelude
  imports Main "HOL-Library.Word" "HOL-Library.List_Lexorder" "HOL-Library.Char_ord"
begin

text \<open>
  Shared vocabulary of the development: results, Rust strings as UTF-8 byte lists, the casts
  between machine integers, association lists that stand for hash maps, and the list lemmas
  several components use.
\<close>

named_theorems store_simps \<open>unfolding equations of the event stores\<close>
named_theorems fleet_simps \<open>unfolding equations of the fleet manager\<close>
named_theorems auth_simps \<open>unfolding equations of the inbound authentication\<close>

section \<open>Results\<close>

text \<open>A Rust \<open>Result<T, E>\<close> is \<open>'e + 'a\<close> with \<open>Inl\<close> the error.\<close>

definition rbind :: "'e + 'a \<Rightarrow> ('a \<Rightarrow> 'e + 'b) \<Rightarrow> 'e + 'b" where
  "rbind r f = (case r of Inl e \<Rightarrow> Inl e | Inr a \<Rightarrow> f a)"

lemma rbind_simps [simp]:
  "rbind (Inl e) f = Inl e"
  "rbind (Inr a) f = f a"
  by (simp_all add: rbind_def)

lemma rbind_Inr_iff: "rbind r f = Inr b \<longleftrightarrow> (\<exists>a. r = Inr a \<and> f a = Inr b)"
  by (cases r) auto

definition is_ok :: "'e + 'a \<Rightarrow> bool" where
  "is_ok r = (case r of Inl _ \<Rightarrow> False | Inr _ \<Rightarrow> True)"

lemma is_ok_simps [simp]: "is_ok (Inr a)" "\<not> is_ok (Inl e)"
  by (simp_all add: is_ok_def)

definition ok_or :: "'a option \<Rightarrow> 'e \<Rightarrow> 'e + 'a" where
  "ok_or o' e = (case o' of None \<Rightarrow> Inl e | Some a \<Rightarrow> Inr a)"

lemma ok_or_simps [simp]: "ok_or None e = Inl e" "ok_or (Some a) e = Inr a"
  by (simp_all add: ok_or_def)

definition unwrap_or :: "'e + 'a \<Rightarrow> 'a \<Rightarrow> 'a" where
  "unwrap_or r d = (case r of Inl _ \<Rightarrow> d | Inr a \<Rightarrow> a)"

lemma unwrap_or_simps [simp]: "unwrap_or (Inl e) d = d" "unwrap_or (Inr a) d = a"
  by (simp_all add: unwrap_or_def)

section \<open>Machine integers\<close>

text \<open>
  Sequence numbers, cursors and counters of the source are \<open>u64\<close>; they are natural numbers
  here, and the casts between \<open>u64\<close> and \<open>i64\<close>, where the source writes \<open>as\<close>, wrap as the
  language does. An \<open>f64\<close> is its 64-bit pattern (\<open>0.0\<close> is the zero pattern); floating-point
  addition is a parameter of the definitions that add.
\<close>

type_synonym f64 = "64 word"

definition as_i64 :: "nat \<Rightarrow> int" where
  "as_i64 n = (let m = n mod 2 ^ 64 in if m < 2 ^ 63 then int m else int m - 2 ^ 64)"

definition as_u64 :: "int \<Rightarrow> nat" where
  "as_u64 i = nat (i mod 2 ^ 64)"

lemma as_i64_small: "n < 2 ^ 63 \<Longrightarrow> as_i64 n = int n"
  by (simp add: as_i64_def Let_def)

lemma as_u64_as_i64: "n < 2 ^ 64 \<Longrightarrow> as_u64 (as_i64 n) = n"
proof -
  assume n: "n < 2 ^ 64"
  have "(int n - 2 ^ 64) mod 2 ^ 64 = int n mod 2 ^ 64"
    by (rule minus_mod_self2)
  also have "\<dots> = int n"
    using n by simp
  finally have "nat ((int n - 2 ^ 64) mod 2 ^ 64) = n"
    by (metis nat_int)
  then show ?thesis using n by (simp add: as_i64_def as_u64_def Let_def)
qed

lemma as_u64_small: "0 \<le> i \<Longrightarrow> i < 2 ^ 64 \<Longrightarrow> as_u64 i = nat i"
  by (simp add: as_u64_def)

section \<open>Lists\<close>

lemma length_dropWhile_less [termination_simp]: "length (dropWhile P xs) < Suc (length xs)"
  by (simp add: le_imp_less_Suc length_dropWhile_le)

text \<open>The first record of a list with a given key.\<close>

lemma find_key_Some: "find (\<lambda>r. key r = i) rows = Some x \<Longrightarrow> x \<in> set rows \<and> key x = i"
  by (auto simp: find_Some_iff)

lemma find_key_None: "find (\<lambda>r. key r = i) rows = None \<longleftrightarrow> i \<notin> key ` set rows"
  by (auto simp: find_None_iff)

lemma find_key_distinct:
  "distinct (map key rows) \<Longrightarrow> x \<in> set rows \<Longrightarrow> find (\<lambda>r. key r = key x) rows = Some x"
  by (induction rows) (auto simp: image_iff)

end
