(* ===== verification/Rust_Str.thy ===== *)
theory Rust_Str
  imports Prelude
begin

text \<open>
  Rust strings. A \<open>String\<close> or \<open>&str\<close> is the list of its UTF-8 bytes (one \<open>char\<close> of HOL is one
  byte), so \<open>len()\<close> is \<open>length\<close>, \<open>==\<close> is equality and \<open><\<close> is the bytewise lexicographic order of
  \<open>List_Lexorder\<close>. The operations that count or classify Unicode characters work on the byte
  groups of \<open>utf8_chars\<close>.
\<close>

section \<open>Characters of a UTF-8 string\<close>

text \<open>A continuation byte is \<open>10xxxxxx\<close>.\<close>

definition is_cont_byte :: "char \<Rightarrow> bool" where
  "is_cont_byte c \<longleftrightarrow> digit7 c \<and> \<not> digit6 c"

fun utf8_chars :: "string \<Rightarrow> string list" where
  "utf8_chars [] = []"
| "utf8_chars (b # bs) =
     (b # takeWhile is_cont_byte bs) # utf8_chars (dropWhile is_cont_byte bs)"

lemma concat_utf8_chars [simp]: "concat (utf8_chars s) = s"
  by (induction s rule: utf8_chars.induct) simp_all

lemma utf8_chars_nonempty: "c \<in> set (utf8_chars s) \<Longrightarrow> c \<noteq> []"
  by (induction s rule: utf8_chars.induct) auto

definition char_count :: "string \<Rightarrow> nat" where
  "char_count s = length (utf8_chars s)"

text \<open>\<open>str::is_char_boundary\<close>.\<close>

definition is_char_boundary :: "string \<Rightarrow> nat \<Rightarrow> bool" where
  "is_char_boundary s i \<longleftrightarrow>
     i = 0 \<or> i = length s \<or> (i < length s \<and> \<not> is_cont_byte (s ! i))"

text \<open>\<open>s.get(..n)\<close>: the first \<open>n\<close> bytes when \<open>n\<close> is a character boundary of \<open>s\<close>.\<close>

definition str_get_to :: "string \<Rightarrow> nat \<Rightarrow> string option" where
  "str_get_to s n = (if is_char_boundary s n then Some (take n s) else None)"

text \<open>
  \<open>str::trim\<close> strips the characters with the Unicode \<open>White_Space\<close> property at both ends; these
  are their UTF-8 encodings.
\<close>

definition is_whitespace :: "string \<Rightarrow> bool" where
  "is_whitespace c \<longleftrightarrow>
     c \<in> set [[CHR 0x09], [CHR 0x0A], [CHR 0x0B], [CHR 0x0C], [CHR 0x0D], [CHR 0x20],
             [CHR 0xC2, CHR 0x85], [CHR 0xC2, CHR 0xA0], [CHR 0xE1, CHR 0x9A, CHR 0x80],
             [CHR 0xE2, CHR 0x80, CHR 0x80], [CHR 0xE2, CHR 0x80, CHR 0x81],
             [CHR 0xE2, CHR 0x80, CHR 0x82], [CHR 0xE2, CHR 0x80, CHR 0x83],
             [CHR 0xE2, CHR 0x80, CHR 0x84], [CHR 0xE2, CHR 0x80, CHR 0x85],
             [CHR 0xE2, CHR 0x80, CHR 0x86], [CHR 0xE2, CHR 0x80, CHR 0x87],
             [CHR 0xE2, CHR 0x80, CHR 0x88], [CHR 0xE2, CHR 0x80, CHR 0x89],
             [CHR 0xE2, CHR 0x80, CHR 0x8A], [CHR 0xE2, CHR 0x80, CHR 0xA8],
             [CHR 0xE2, CHR 0x80, CHR 0xA9], [CHR 0xE2, CHR 0x80, CHR 0xAF],
             [CHR 0xE2, CHR 0x81, CHR 0x9F], [CHR 0xE3, CHR 0x80, CHR 0x80]]"

text \<open>\<open>char::is_control\<close>: the general category Cc, U+0000 to U+001F and U+007F to U+009F.\<close>

definition is_control :: "string \<Rightarrow> bool" where
  "is_control c \<longleftrightarrow>
     (case c of
        [b] \<Rightarrow> of_char b < (32 :: nat) \<or> of_char b = (127 :: nat)
      | [a, b] \<Rightarrow> of_char a = (0xC2 :: nat) \<and> of_char b \<le> (0x9F :: nat)
      | _ \<Rightarrow> False)"

definition drop_while_end :: "('a \<Rightarrow> bool) \<Rightarrow> 'a list \<Rightarrow> 'a list" where
  "drop_while_end p xs = rev (dropWhile p (rev xs))"

definition trim_end :: "string \<Rightarrow> string" where
  "trim_end s = concat (drop_while_end is_whitespace (utf8_chars s))"

definition trim :: "string \<Rightarrow> string" where
  "trim s = concat (drop_while_end is_whitespace (dropWhile is_whitespace (utf8_chars s)))"

text \<open>\<open>split_whitespace\<close>: the maximal runs of non-whitespace characters.\<close>

function split_ws :: "string list \<Rightarrow> string list" where
  "split_ws cs =
     (case dropWhile is_whitespace cs of
        [] \<Rightarrow> []
      | c # rest \<Rightarrow>
          concat (c # takeWhile (\<lambda>x. \<not> is_whitespace x) rest)
            # split_ws (dropWhile (\<lambda>x. \<not> is_whitespace x) rest))"
  by pat_completeness auto
termination
proof (relation "measure length")
  fix cs c rest
  assume "dropWhile is_whitespace cs = c # rest"
  then have "Suc (length rest) \<le> length cs"
    by (metis length_Cons length_dropWhile_le)
  moreover have "length (dropWhile (\<lambda>x. \<not> is_whitespace x) rest) \<le> length rest"
    by (rule length_dropWhile_le)
  ultimately show "(dropWhile (\<lambda>x. \<not> is_whitespace x) rest, cs) \<in> measure length"
    by simp
qed simp

declare split_ws.simps [simp del]

definition split_whitespace :: "string \<Rightarrow> string list" where
  "split_whitespace s = split_ws (utf8_chars s)"

section \<open>Searching and splitting\<close>

text \<open>\<open>split(c)\<close> for an ASCII separator: the fields between the separators, empty ones included.\<close>

fun split_on :: "char \<Rightarrow> string \<Rightarrow> string list" where
  "split_on d [] = [[]]"
| "split_on d (c # cs) =
     (if c = d then [] # split_on d cs
      else case split_on d cs of [] \<Rightarrow> [[c]] | f # fs \<Rightarrow> (c # f) # fs)"

text \<open>\<open>splitn(n, c)\<close>: at most \<open>n\<close> fields, the last one holding the rest.\<close>

fun splitn :: "nat \<Rightarrow> char \<Rightarrow> string \<Rightarrow> string list" where
  "splitn 0 d s = []"
| "splitn (Suc 0) d s = [s]"
| "splitn (Suc (Suc n)) d s =
     (case dropWhile (\<lambda>c. c \<noteq> d) s of
        [] \<Rightarrow> [s]
      | _ # rest \<Rightarrow> takeWhile (\<lambda>c. c \<noteq> d) s # splitn (Suc n) d rest)"

definition strip_prefix :: "string \<Rightarrow> string \<Rightarrow> string option" where
  "strip_prefix p s = (if take (length p) s = p then Some (drop (length p) s) else None)"

text \<open>\<open>s.find(pat)\<close>: the byte index of the first occurrence.\<close>

fun str_find :: "string \<Rightarrow> string \<Rightarrow> nat option" where
  "str_find p [] = (if p = [] then Some 0 else None)"
| "str_find p (c # cs) =
     (if take (length p) (c # cs) = p then Some 0 else map_option Suc (str_find p cs))"

text \<open>\<open>s.split_once(pat)\<close> and \<open>s.rsplit_once(c)\<close>.\<close>

definition split_once :: "string \<Rightarrow> string \<Rightarrow> (string \<times> string) option" where
  "split_once p s = map_option (\<lambda>i. (take i s, drop (i + length p) s)) (str_find p s)"

definition rsplit_once :: "char \<Rightarrow> string \<Rightarrow> (string \<times> string) option" where
  "rsplit_once d s =
     (let tail = takeWhile (\<lambda>c. c \<noteq> d) (rev s)
      in if length tail = length s then None
         else Some (take (length s - length tail - 1) s, rev tail))"

text \<open>
  \<open>str::lines\<close> and \<open>BufRead::lines\<close>: split at line feeds, the carriage return before a line feed
  stripped, a final empty line left out.
\<close>

definition strip_cr :: "string \<Rightarrow> string" where
  "strip_cr s = (if s \<noteq> [] \<and> last s = CHR 0x0D then butlast s else s)"

definition str_lines :: "string \<Rightarrow> string list" where
  "str_lines s =
     (let fs = split_on (CHR 0x0A) s
      in map strip_cr (butlast fs) @ (if last fs = [] then [] else [last fs]))"

text \<open>Well-formed UTF-8 (what \<open>String::from_utf8\<close> accepts).\<close>

definition in_range :: "char \<Rightarrow> nat \<Rightarrow> nat \<Rightarrow> bool" where
  "in_range c lo hi \<longleftrightarrow> lo \<le> of_char c \<and> of_char c \<le> hi"

fun utf8_valid :: "string \<Rightarrow> bool" where
  "utf8_valid [] = True"
| "utf8_valid (a # s) =
     (if in_range a 0x00 0x7F then utf8_valid s
      else case s of
        [] \<Rightarrow> False
      | b # s1 \<Rightarrow>
          if in_range a 0xC2 0xDF then in_range b 0x80 0xBF \<and> utf8_valid s1
          else case s1 of
            [] \<Rightarrow> False
          | c # s2 \<Rightarrow>
              if in_range a 0xE0 0xEF
              then in_range c 0x80 0xBF \<and> utf8_valid s2 \<and>
                   in_range b (if in_range a 0xE0 0xE0 then 0xA0 else 0x80)
                              (if in_range a 0xED 0xED then 0x9F else 0xBF)
              else case s2 of
                [] \<Rightarrow> False
              | d # s3 \<Rightarrow>
                  in_range a 0xF0 0xF4 \<and> in_range c 0x80 0xBF \<and> in_range d 0x80 0xBF \<and>
                  in_range b (if in_range a 0xF0 0xF0 then 0x90 else 0x80)
                             (if in_range a 0xF4 0xF4 then 0x8F else 0xBF) \<and>
                  utf8_valid s3)"

declare utf8_valid.simps(2) [simp del]

section \<open>Numbers\<close>

definition byte :: "nat \<Rightarrow> char" where
  "byte n = char_of n"

fun show_nat :: "nat \<Rightarrow> string" where
  "show_nat n = (if n < 10 then [byte (48 + n)] else show_nat (n div 10) @ [byte (48 + n mod 10)])"

declare show_nat.simps [simp del]

definition show_int :: "int \<Rightarrow> string" where
  "show_int i = (if i < 0 then CHR ''-'' # show_nat (nat (- i)) else show_nat (nat i))"

definition is_ascii_digit :: "char \<Rightarrow> bool" where
  "is_ascii_digit c \<longleftrightarrow> 48 \<le> (of_char c :: nat) \<and> of_char c \<le> (57 :: nat)"

definition is_ascii_lowercase :: "char \<Rightarrow> bool" where
  "is_ascii_lowercase c \<longleftrightarrow> 97 \<le> (of_char c :: nat) \<and> of_char c \<le> (122 :: nat)"

definition is_ascii_uppercase :: "char \<Rightarrow> bool" where
  "is_ascii_uppercase c \<longleftrightarrow> 65 \<le> (of_char c :: nat) \<and> of_char c \<le> (90 :: nat)"

definition digits_value :: "string \<Rightarrow> nat" where
  "digits_value s = foldl (\<lambda>n c. 10 * n + (of_char c - 48)) 0 s"

definition parse_digits :: "string \<Rightarrow> nat option" where
  "parse_digits s = (if s \<noteq> [] \<and> list_all is_ascii_digit s then Some (digits_value s) else None)"

text \<open>\<open>str::parse::<u64>\<close> and \<open>str::parse::<i64>\<close>: an optional sign, digits, the range of the type.\<close>

definition parse_u64 :: "string \<Rightarrow> nat option" where
  "parse_u64 s =
     (case parse_digits (case strip_prefix ''+'' s of Some r \<Rightarrow> r | None \<Rightarrow> s) of
        Some n \<Rightarrow> if n < 2 ^ 64 then Some n else None
      | None \<Rightarrow> None)"

definition parse_i64 :: "string \<Rightarrow> int option" where
  "parse_i64 s =
     (case strip_prefix ''-'' s of
        Some r \<Rightarrow> (case parse_digits r of
            Some n \<Rightarrow> if n \<le> 2 ^ 63 then Some (- int n) else None
          | None \<Rightarrow> None)
      | None \<Rightarrow> (case parse_digits (case strip_prefix ''+'' s of Some r \<Rightarrow> r | None \<Rightarrow> s) of
            Some n \<Rightarrow> if n < 2 ^ 63 then Some (int n) else None
          | None \<Rightarrow> None))"

section \<open>Lemmas\<close>

lemma byte_of_char [simp]: "n < 256 \<Longrightarrow> of_char (byte n) = (n :: nat)"
  by (simp add: byte_def)

lemma show_nat_nonempty [simp]: "show_nat n \<noteq> []"
  by (subst show_nat.simps) simp

lemma digit_byte: "n < 10 \<Longrightarrow> is_ascii_digit (byte (48 + n))"
  by (simp add: is_ascii_digit_def)

lemma show_nat_digits: "list_all is_ascii_digit (show_nat n)"
proof (induction n rule: show_nat.induct)
  case (1 n)
  then show ?case
    by (subst show_nat.simps) (auto simp: digit_byte)
qed

lemma digits_value_snoc: "digits_value (s @ [c]) = 10 * digits_value s + (of_char c - 48)"
  by (simp add: digits_value_def)

lemma digits_value_show_nat: "digits_value (show_nat n) = n"
proof (induction n rule: show_nat.induct)
  case (1 n)
  show ?case
  proof (cases "n < 10")
    case True
    then show ?thesis by (subst show_nat.simps) (simp add: digits_value_def)
  next
    case False
    with 1 show ?thesis
      by (subst show_nat.simps) (simp add: digits_value_snoc)
  qed
qed

lemma parse_digits_show_nat [simp]: "parse_digits (show_nat n) = Some n"
  by (simp add: parse_digits_def show_nat_digits digits_value_show_nat)

lemma is_ascii_digit_simps [simp]:
  "\<not> is_ascii_digit (CHR ''-'')" "\<not> is_ascii_digit (CHR ''+'')" "\<not> is_ascii_digit (CHR ''.'')"
  "\<not> is_ascii_digit (CHR '':'')"
  by (simp_all add: is_ascii_digit_def)

lemma strip_prefix_show_nat:
  "\<not> is_ascii_digit c \<Longrightarrow> strip_prefix [c] (show_nat n) = None"
  using show_nat_digits [of n]
  by (cases "show_nat n") (auto simp: strip_prefix_def)

lemma strip_prefix_append [simp]: "strip_prefix p (p @ s) = Some s"
  by (simp add: strip_prefix_def)

lemma strip_prefix_Some: "strip_prefix p s = Some r \<longleftrightarrow> s = p @ r"
  by (auto simp: strip_prefix_def) (metis append_take_drop_id)

text \<open>Printing then parsing an \<open>i64\<close> gives it back.\<close>

lemma parse_i64_show_int:
  assumes "- (2 ^ 63) \<le> i" "i < 2 ^ 63"
  shows "parse_i64 (show_int i) = Some i"
proof (cases "i < 0")
  case True
  have "strip_prefix ''-'' (show_int i) = Some (show_nat (nat (- i)))"
    using True strip_prefix_append [of "''-''"] by (simp add: show_int_def)
  then show ?thesis using True assms by (simp add: parse_i64_def)
next
  case False
  then show ?thesis
    using assms by (simp add: parse_i64_def show_int_def strip_prefix_show_nat)
qed

lemma parse_u64_show_nat: "n < 2 ^ 64 \<Longrightarrow> parse_u64 (show_nat n) = Some n"
  by (simp add: parse_u64_def strip_prefix_show_nat)

lemma takeWhile_neq_append [simp]:
  "d \<notin> set t \<Longrightarrow> takeWhile (\<lambda>c. c \<noteq> d) (t @ d # s) = t"
  by (induction t) auto

lemma dropWhile_neq_append [simp]:
  "d \<notin> set t \<Longrightarrow> dropWhile (\<lambda>c. c \<noteq> d) (t @ d # s) = d # s"
  by (induction t) auto

lemma rsplit_once_append:
  assumes "d \<notin> set t"
  shows "rsplit_once d (s @ d # t) = Some (s, t)"
proof -
  have "takeWhile (\<lambda>c. c \<noteq> d) (rev (s @ d # t)) = rev t"
    using assms by simp
  then show ?thesis by (simp add: rsplit_once_def)
qed

lemma split_on_nonempty [simp]: "split_on d s \<noteq> []"
  by (induction s) (auto split: list.splits)

lemma split_on_append: "split_on d (a @ d # b) = split_on d a @ split_on d b"
  by (induction a) (auto split: list.splits)

lemma split_on_fresh [simp]: "d \<notin> set s \<Longrightarrow> split_on d s = [s]"
  by (induction s) auto

lemma str_lines_snoc:
  assumes "s = [] \<or> last s = CHR 0x0A" "CHR 0x0A \<notin> set l"
  shows "str_lines (s @ l @ [CHR 0x0A]) = str_lines s @ [strip_cr l]"
proof (cases "s = []")
  case True
  have "split_on (CHR 0x0A) (l @ [CHR 0x0A]) = [l, []]"
    using assms(2) by (simp add: split_on_append)
  then show ?thesis using True by (simp add: str_lines_def)
next
  case False
  then obtain t where s: "s = t @ [CHR 0x0A]"
    using assms(1) by (metis append_butlast_last_id)
  have "split_on (CHR 0x0A) s = split_on (CHR 0x0A) t @ [[]]"
    unfolding s by (simp add: split_on_append)
  moreover have "split_on (CHR 0x0A) (s @ l @ [CHR 0x0A]) = split_on (CHR 0x0A) t @ [l, []]"
    unfolding s using assms(2) by (simp add: split_on_append)
  ultimately show ?thesis by (simp add: str_lines_def butlast_append)
qed

lemma str_lines_tail:
  assumes "s = [] \<or> last s = CHR 0x0A" "CHR 0x0A \<notin> set l" "l \<noteq> []"
  shows "str_lines (s @ l) = str_lines s @ [l]"
proof (cases "s = []")
  case False
  then obtain t where s: "s = t @ [CHR 0x0A]"
    using assms(1) by (metis append_butlast_last_id)
  show ?thesis unfolding s using assms(2,3)
    by (simp add: str_lines_def split_on_append butlast_append)
qed (use assms in \<open>simp add: str_lines_def\<close>)

lemma str_lines_Nil [simp]: "str_lines [] = []"
  by (simp add: str_lines_def)

lemma char_boundary_take: "is_char_boundary s n \<Longrightarrow> n \<le> length s"
  by (auto simp: is_char_boundary_def)

lemma utf8_chars_ascii:
  "list_all (\<lambda>c. \<not> is_cont_byte c) s \<Longrightarrow> utf8_chars s = map (\<lambda>c. [c]) s"
proof (induction s rule: utf8_chars.induct)
  case (2 b bs)
  then show ?case by (cases bs) auto
qed simp

lemma utf8_chars_seven_bit: "list_all (\<lambda>c. \<not> digit7 c) t \<Longrightarrow> utf8_chars t = map (\<lambda>c. [c]) t"
  by (rule utf8_chars_ascii) (auto simp: list_all_iff is_cont_byte_def)

lemma concat_singletons [simp]: "concat (map (\<lambda>c. [c]) w) = w"
  by (induction w) auto


end
