(* ===== verification/Json.thy ===== *)
theory Json
  imports Rust_Str
begin

text \<open>
  JSON values as \<open>serde_json::Value\<close> holds them: numbers keep the three internal forms, an
  object is the list of its entries in key order. Parsing and printing belong to the
  \<open>serde_json\<close> crate and stay parameters of the definitions that use them; the accessors are
  the ones the source calls.
\<close>

datatype json_number = PosInt nat | NegInt int | Float f64

datatype json =
    JNull
  | JBool bool
  | JNumber json_number
  | JString string
  | JArray "json list"
  | JObject "(string \<times> json) list"

fun as_object :: "json \<Rightarrow> (string \<times> json) list option" where
  "as_object (JObject m) = Some m"
| "as_object _ = None"

fun as_str :: "json \<Rightarrow> string option" where
  "as_str (JString s) = Some s"
| "as_str _ = None"

fun as_bool :: "json \<Rightarrow> bool option" where
  "as_bool (JBool b) = Some b"
| "as_bool _ = None"

fun as_u64_json :: "json \<Rightarrow> nat option" where
  "as_u64_json (JNumber (PosInt n)) = Some n"
| "as_u64_json _ = None"

text \<open>\<open>Value::get\<close> with a string index: a member of an object, nothing for other values.\<close>

definition json_get :: "json \<Rightarrow> string \<Rightarrow> json option" where
  "json_get v k = Option.bind (as_object v) (\<lambda>m. map_of m k)"

lemma json_get_simps [simp]:
  "json_get (JObject m) k = map_of m k"
  "json_get JNull k = None" "json_get (JBool b) k = None" "json_get (JNumber n) k = None"
  "json_get (JString s) k = None" "json_get (JArray a) k = None"
  by (simp_all add: json_get_def)

end
