(* ===== verification/Fleet_Types.thy ===== *)
theory Fleet_Types
  imports Json
begin

text \<open>
  The shared data model (\<open>crates/types/src\<close>): the fleet read model, the event vocabulary, the
  automation and authentication types, and the two operations defined beside them, \<open>find_agent\<close>
  and \<open>stream_key_for\<close>. Field names carry a prefix where two structs share one. A path is the
  string of its bytes.
\<close>

type_synonym path = string

section \<open>Workspaces and agents (\<open>types/src/model.rs\<close>)\<close>

record source_checkout =
  source_name :: string
  source_path :: path

record repo_provider_config =
  provider :: "string option"
  base_url :: "string option"
  api_key_from_env :: "string option"
  env :: "string \<rightharpoonup> string"

definition default_provider_config :: repo_provider_config where
  "default_provider_config =
     \<lparr>provider = None, base_url = None, api_key_from_env = None, env = Map.empty\<rparr>"

record workspace_source_spec =
  wss_name :: string
  wss_repo :: string
  wss_ref :: "string option"
  wss_path :: string

record credentials_ref =
  secret_name :: string
  secret_key :: string

record provider_spec =
  ps_name :: string
  ps_kind :: string
  ps_base_url :: "string option"
  ps_model :: "string option"
  ps_credentials_ref :: "credentials_ref option"

record isolation_config =
  runtime_class :: "string option"
  worktrees :: "string option"

record workspace_config =
  wc_display_name :: "string option"
  wc_sources :: "workspace_source_spec list"
  wc_providers :: "provider_spec list"
  wc_default_provider :: "string option"
  wc_isolation :: "isolation_config option"
  wc_local :: repo_provider_config

record provider_info =
  pi_name :: string
  pi_kind :: string
  pi_base_url :: "string option"
  pi_model :: "string option"
  pi_has_credentials :: bool

record workspace_status_info =
  wsi_phase :: string
  wsi_message :: "string option"

record workspace_info =
  wi_name :: string
  wi_display_name :: "string option"
  wi_sources :: "workspace_source_spec list"
  wi_providers :: "provider_info list"
  wi_default_provider :: "string option"
  wi_status :: "workspace_status_info option"

record readiness =
  ready :: bool
  store_writable :: bool
  workspaces_total :: nat
  workspaces_healthy :: nat
  workspaces_unreachable :: nat

datatype permission_posture = Supervised | Unattended

datatype agent_status = Spawning | Running | Idle | Killed | Done | Failed | Crashed

fun is_terminal :: "agent_status \<Rightarrow> bool" where
  "is_terminal Killed = True"
| "is_terminal Done = True"
| "is_terminal Failed = True"
| "is_terminal Crashed = True"
| "is_terminal _ = False"

fun is_active :: "agent_status \<Rightarrow> bool" where
  "is_active Spawning = True"
| "is_active Running = True"
| "is_active _ = False"

datatype workspace_health = Healthy | Unreachable string

record agent =
  agent_id :: string
  agent_name :: string
  agent_workspace :: string
  agent_status :: agent_status
  started_at :: string
  isolated :: bool
  agent_interactive :: bool
  session_dir :: path
  agent_posture :: permission_posture
  agent_reason :: "string option"
  agent_detail :: "string option"

record workspace =
  ws_name :: string
  ws_root :: path
  ws_sources :: "source_checkout list"
  ws_health :: workspace_health
  ws_config :: repo_provider_config
  ws_agents :: "agent list"

record fleet_snapshot =
  host :: string
  workspaces :: "workspace list"

text \<open>\<open>Iterator::find_map\<close>: the first \<open>Some\<close> a function yields on the elements.\<close>

fun find_map :: "('a \<Rightarrow> 'b option) \<Rightarrow> 'a list \<Rightarrow> 'b option" where
  "find_map f [] = None"
| "find_map f (x # xs) = (case f x of Some y \<Rightarrow> Some y | None \<Rightarrow> find_map f xs)"

definition find_agent :: "fleet_snapshot \<Rightarrow> string \<Rightarrow> (string \<times> agent) option" where
  "find_agent snap i =
     find_map (\<lambda>r. map_option (\<lambda>a. (ws_name r, a)) (find (\<lambda>a. agent_id a = i) (ws_agents r)))
       (workspaces snap)"

section \<open>Events (\<open>types/src/event.rs\<close>)\<close>

datatype output_stream = Stdout | Thinking

datatype event_kind =
    AgentSpawned
  | AgentDiscovered
  | AgentInit string "string list" string
  | StatusChanged agent_status agent_status
  | Output output_stream string
  | ToolStarted string string json
  | ToolFinished string string bool "string option" bool
  | AgentFinished string f64 nat
  | AgentGone
  | StorePersistFailed nat string
  | DeadlineSet string
  | AgentTimedOut string
  | RepoHealth workspace_health

definition stream_key_for :: "string \<Rightarrow> string \<Rightarrow> string" where
  "stream_key_for repo i =
     (if i \<noteq> [] then i else if repo \<noteq> [] then ''repo:'' @ repo else ''fleet'')"

record fleet_event =
  seq :: nat
  ts :: string
  ev_repo :: string
  ev_agent :: string
  kind :: event_kind
  actor :: "string option"
  on_behalf_of :: "string option"

definition stream_key :: "fleet_event \<Rightarrow> string" where
  "stream_key e = stream_key_for (ev_repo e) (ev_agent e)"

section \<open>Authentication (\<open>types/src/auth.rs\<close>)\<close>

datatype scope = Read | Operate | Admin

text \<open>The derived order of the enum: \<open>Read < Operate < Admin\<close>.\<close>

fun scope_rank :: "scope \<Rightarrow> nat" where
  "scope_rank Read = 0"
| "scope_rank Operate = 1"
| "scope_rank Admin = 2"

lemma scope_rank_inj: "scope_rank a = scope_rank b \<Longrightarrow> a = b"
  by (cases a; cases b) simp_all

instantiation scope :: linorder
begin
definition "(a :: scope) \<le> b \<longleftrightarrow> scope_rank a \<le> scope_rank b"
definition "(a :: scope) < b \<longleftrightarrow> scope_rank a < scope_rank b"
instance
  by standard (auto simp: less_eq_scope_def less_scope_def intro: scope_rank_inj)
end

fun scope_as_str :: "scope \<Rightarrow> string" where
  "scope_as_str Read = ''read''"
| "scope_as_str Operate = ''operate''"
| "scope_as_str Admin = ''admin''"

definition scope_parse :: "string \<Rightarrow> scope option" where
  "scope_parse s =
     (if s = ''read'' then Some Read
      else if s = ''operate'' then Some Operate
      else if s = ''admin'' then Some Admin
      else None)"

section \<open>Automations (\<open>types/src/automation.rs\<close>)\<close>

datatype trigger = Cron string | Webhook

record spawn_template =
  t_task :: string
  t_label :: "string option"
  t_model :: "string option"
  t_tool_allowlist :: "string list option"
  t_frontmatter_path :: "string option"
  t_provider_ref :: "string option"
  t_timeout_secs :: "nat option"
  t_isolation_worktree :: bool
  t_posture :: permission_posture

record automation =
  auto_id :: string
  auto_workspace :: string
  auto_trigger :: trigger
  auto_template :: spawn_template
  auto_enabled :: bool
  auto_created_at :: string
  auto_last_fired_at :: "string option"

datatype run_source = Schedule | WebhookRun | Manual

record automation_run =
  run_automation_id :: string
  run_fired_at :: string
  run_source :: run_source
  run_agent_id :: "string option"
  run_error :: "string option"

record create_automation_body =
  cab_id :: string
  cab_workspace :: string
  cab_trigger :: trigger
  cab_template :: spawn_template
  cab_enabled :: bool

section \<open>API payloads (\<open>types/src/api.rs\<close>)\<close>

record spawn_body =
  sb_prompt :: string
  sb_label :: "string option"
  sb_model :: "string option"
  sb_isolation :: "string option"
  sb_tool_allowlist :: "string list option"
  sb_interactive :: bool
  sb_frontmatter_path :: "string option"
  sb_provider_ref :: "string option"
  sb_timeout_secs :: "nat option"
  sb_posture :: permission_posture

definition body_isolation_worktree :: "spawn_body \<Rightarrow> bool" where
  "body_isolation_worktree b \<longleftrightarrow> sb_isolation b \<noteq> Some ''shared''"

record outcome_counts =
  oc_done :: nat
  oc_failed :: nat
  oc_killed :: nat
  oc_crashed :: nat
  oc_timed_out :: nat

definition outcome_total :: "outcome_counts \<Rightarrow> nat" where
  "outcome_total c = oc_done c + oc_failed c + oc_killed c + oc_crashed c"

record usage_bucket =
  ub_day :: string
  ub_cost_usd :: f64
  ub_turns :: nat
  ub_outcomes :: outcome_counts

record usage_group =
  ug_workspace :: string
  ug_cost_usd :: f64
  ug_turns :: nat
  ug_outcomes :: outcome_counts
  ug_series :: "usage_bucket list"

record usage_report =
  ur_since :: string
  ur_until :: string
  ur_groups :: "usage_group list"

definition MAX_USAGE_WINDOW_DAYS :: int where
  "MAX_USAGE_WINDOW_DAYS = 36500"

section \<open>Lemmas\<close>

lemma scope_parse_as_str [simp]: "scope_parse (scope_as_str s) = Some s"
  by (cases s) (simp_all add: scope_parse_def)

lemma scope_parse_Some: "scope_parse t = Some s \<Longrightarrow> t = scope_as_str s"
  by (auto simp: scope_parse_def split: if_splits)

lemma scope_less_simps [simp]:
  "Read < Operate" "Operate < Admin" "Read < Admin" "\<not> a < Read" "\<not> Admin < a"
  by (cases a; simp add: less_scope_def)+

lemma not_active_terminal: "is_active s \<Longrightarrow> \<not> is_terminal s"
  by (cases s) simp_all

lemma stream_key_agent: "i \<noteq> [] \<Longrightarrow> stream_key_for repo i = i"
  by (simp add: stream_key_for_def)

lemma stream_key_nonempty: "stream_key_for repo i \<noteq> []"
  by (simp add: stream_key_for_def)

lemma find_map_Some_in: "find_map f xs = Some y \<Longrightarrow> \<exists>x \<in> set xs. f x = Some y"
  by (induction xs) (auto split: option.splits)

lemma find_map_None_iff: "find_map f xs = None \<longleftrightarrow> (\<forall>x \<in> set xs. f x = None)"
  by (induction xs) (auto split: option.splits)

lemma find_agent_Some:
  assumes "find_agent snap i = Some (w, a)"
  shows "\<exists>r \<in> set (workspaces snap). ws_name r = w \<and> a \<in> set (ws_agents r) \<and> agent_id a = i"
  using find_map_Some_in [OF assms [unfolded find_agent_def]]
  by (auto simp: find_Some_iff)

lemma find_agent_None:
  "find_agent snap i = None \<longleftrightarrow>
     (\<forall>r \<in> set (workspaces snap). \<forall>a \<in> set (ws_agents r). agent_id a \<noteq> i)"
  by (auto simp: find_agent_def find_map_None_iff find_None_iff)

end
