(* ===== verification/Core_Error.thy ===== *)
theory Core_Error
  imports Fleet_Types
begin

text \<open>
  The error type of the core (\<open>core/src/error.rs\<close>), its rendered form, and the HTTP responses the
  API derives from it (\<open>api/src/error.rs\<close>). Errors of other crates (I/O, JSON, sqlx) appear as
  their rendered text.
\<close>

datatype core_error =
    CalibandUnreachable string string
  | Protocol string
  | AgentNotFound string
  | InvalidState string string string
  | Discovery string
  | StoreError string
  | SeqConflict
  | WorkspaceNotFound string
  | AutomationNotFound string
  | Unauthorized string
  | Conflict string
  | ProviderMisconfigured string
  | InvalidConfig string
  | FleetError string
  | IoError string
  | JsonError string

type_synonym 'a result = "core_error + 'a"

fun error_display :: "core_error \<Rightarrow> string" where
  "error_display (CalibandUnreachable ep src) = ''caliband unreachable at '' @ ep @ '': '' @ src"
| "error_display (Protocol m) = ''caliband protocol error: '' @ m"
| "error_display (AgentNotFound i) = ''agent not found: '' @ i"
| "error_display (InvalidState op' i st) =
     ''invalid state for '' @ op' @ '': agent '' @ i @ '' is '' @ st"
| "error_display (Discovery m) = ''discovery error: '' @ m"
| "error_display (StoreError m) = ''store error: '' @ m"
| "error_display SeqConflict = ''event seq conflict''"
| "error_display (WorkspaceNotFound w) = ''workspace not registered: '' @ w"
| "error_display (AutomationNotFound i) = ''automation not found: '' @ i"
| "error_display (Unauthorized m) = ''unauthorized: '' @ m"
| "error_display (Conflict m) = m"
| "error_display (ProviderMisconfigured m) = ''provider misconfigured: '' @ m"
| "error_display (InvalidConfig m) = ''invalid config: '' @ m"
| "error_display (FleetError m) = ''fleet backend error: '' @ m"
| "error_display (IoError m) = ''io error: '' @ m"
| "error_display (JsonError m) = ''json error: '' @ m"

section \<open>HTTP responses\<close>

datatype api_error =
    ApiCore core_error
  | MethodNotAllowed string
  | ApiUnauthorized
  | Forbidden string
  | NotFound string
  | BadRequest string

text \<open>The rendered error: status code, \<open>kind\<close>, \<open>error\<close> text, and whether \<open>WWW-Authenticate\<close> is set.\<close>

record error_response =
  status :: nat
  err_kind :: string
  err_text :: string
  www_authenticate :: bool

fun core_status :: "core_error \<Rightarrow> nat \<times> string" where
  "core_status (AgentNotFound _) = (404, ''not_found'')"
| "core_status (WorkspaceNotFound _) = (404, ''not_found'')"
| "core_status (AutomationNotFound _) = (404, ''not_found'')"
| "core_status (Unauthorized _) = (401, ''unauthorized'')"
| "core_status (InvalidState _ _ _) = (409, ''invalid_state'')"
| "core_status (Conflict _) = (409, ''conflict'')"
| "core_status (ProviderMisconfigured _) = (400, ''provider_misconfigured'')"
| "core_status (InvalidConfig _) = (400, ''invalid_config'')"
| "core_status (CalibandUnreachable _ _) = (503, ''unreachable'')"
| "core_status (Discovery _) = (503, ''unreachable'')"
| "core_status (FleetError _) = (503, ''unreachable'')"
| "core_status (Protocol _) = (502, ''protocol'')"
| "core_status (StoreError _) = (500, ''internal'')"
| "core_status SeqConflict = (500, ''internal'')"
| "core_status (IoError _) = (500, ''internal'')"
| "core_status (JsonError _) = (500, ''internal'')"

fun into_response :: "api_error \<Rightarrow> error_response" where
  "into_response (MethodNotAllowed m) =
     \<lparr>status = 405, err_kind = ''method_not_allowed'', err_text = m, www_authenticate = False\<rparr>"
| "into_response ApiUnauthorized =
     \<lparr>status = 401, err_kind = ''unauthorized'', err_text = ''unauthorized'', www_authenticate = True\<rparr>"
| "into_response (Forbidden m) =
     \<lparr>status = 403, err_kind = ''forbidden'', err_text = m, www_authenticate = False\<rparr>"
| "into_response (NotFound m) =
     \<lparr>status = 404, err_kind = ''not_found'', err_text = m, www_authenticate = False\<rparr>"
| "into_response (BadRequest m) =
     \<lparr>status = 400, err_kind = ''bad_request'', err_text = m, www_authenticate = False\<rparr>"
| "into_response (ApiCore e) =
     \<lparr>status = fst (core_status e), err_kind = snd (core_status e),
      err_text = error_display e, www_authenticate = False\<rparr>"

lemma into_response_is_error: "400 \<le> status (into_response e) \<and> status (into_response e) \<le> 503"
proof (cases e)
  case (ApiCore x1)
  then show ?thesis by (cases x1) simp_all
qed simp_all

end
