(* ===== verification/Event_Store.thy ===== *)
theory Event_Store
  imports Core_Error
begin

text \<open>
  The durable event log (\<open>core/src/store.rs\<close>): the \<open>Store\<close> trait as a record of operations over an
  abstract state, its contract as the locale \<open>event_store\<close>, the append-only \<open>JsonlStore\<close> that
  implements it, and the usage aggregation \<open>aggregate_usage\<close>.

  A store operation that talks to the outside (a file, a database) may fail: the state carries the
  schedule of the failures to come, which every theorem quantifies over.
\<close>

section \<open>The trait\<close>

record cursored_event =
  cursor :: nat
  cur_event :: fleet_event

record usage_row =
  u_workspace :: string
  u_day :: string
  u_cost_usd :: f64
  u_turns :: nat
  u_done :: nat
  u_failed :: nat
  u_killed :: nat
  u_crashed :: nat
  u_timed_out :: nat

text \<open>A \<open>dyn Store\<close>: its methods as functions that take and return the backend's state.\<close>

record 's store_ops =
  st_append :: "'s \<Rightarrow> fleet_event \<Rightarrow> unit result \<times> 's"
  st_replay :: "'s \<Rightarrow> string \<Rightarrow> nat \<Rightarrow> fleet_event list result \<times> 's"
  st_replay_fleet :: "'s \<Rightarrow> nat \<Rightarrow> nat \<Rightarrow> cursored_event list result \<times> 's"
  st_latest_fleet_cursor :: "'s \<Rightarrow> nat result \<times> 's"
  st_high_water :: "'s \<Rightarrow> string \<Rightarrow> nat result \<times> 's"
  st_writable :: "'s \<Rightarrow> bool \<times> 's"
  st_prune :: "'s \<Rightarrow> string \<Rightarrow> nat result \<times> 's"
  st_usage :: "'s \<Rightarrow> string \<Rightarrow> string \<Rightarrow> usage_row list result \<times> 's"

section \<open>What the trait promises\<close>

text \<open>
  The history a stream's reader sees: the events of the key from a sequence number on, ordered by
  sequence number.
\<close>

definition stream_history :: "fleet_event list \<Rightarrow> string \<Rightarrow> nat \<Rightarrow> fleet_event list" where
  "stream_history es k n = sort_key seq (filter (\<lambda>e. stream_key e = k \<and> n \<le> seq e) es)"

text \<open>The largest sequence number of a stream, 0 when it has no event.\<close>

definition stream_max :: "fleet_event list \<Rightarrow> string \<Rightarrow> nat" where
  "stream_max es k = foldr max (map seq (filter (\<lambda>e. stream_key e = k) es)) 0"

lemma foldr_max_upper: "x \<in> set xs \<Longrightarrow> x \<le> foldr max xs (0 :: nat)"
  by (induction xs) auto

lemma foldr_max_in: "foldr max xs (0 :: nat) = 0 \<or> foldr max xs 0 \<in> set xs"
  by (induction xs) (auto simp: max_def)

lemma stream_max_upper: "e \<in> set es \<Longrightarrow> stream_key e = k \<Longrightarrow> seq e \<le> stream_max es k"
  unfolding stream_max_def by (rule foldr_max_upper) auto

lemma stream_max_attained:
  "stream_max es k \<noteq> 0 \<Longrightarrow> \<exists>e \<in> set es. stream_key e = k \<and> seq e = stream_max es k"
  using foldr_max_in [of "map seq (filter (\<lambda>e. stream_key e = k) es)"]
  by (auto simp: stream_max_def)

lemma stream_max_le: "(\<And>e. e \<in> set es \<Longrightarrow> seq e \<le> b) \<Longrightarrow> stream_max es k \<le> b"
  using stream_max_attained [of es k] by (cases "stream_max es k = 0") force+

lemma stream_history_set:
  "set (stream_history es k n) = {e \<in> set es. stream_key e = k \<and> n \<le> seq e}"
  by (auto simp: stream_history_def)

lemma stream_history_sorted: "sorted (map seq (stream_history es k n))"
  by (simp add: stream_history_def)

text \<open>
  The contract: \<open>hist\<close> is the durable log in insertion order, \<open>inv\<close> the backend's invariant and
  \<open>good\<close> the events the backend stores losslessly (they survive the serialiser's round trip, and
  the sequence number fits the column). Every operation, failed or not, keeps the log and the
  invariant, except a successful \<open>append\<close>, which adds its event at the end, and \<open>prune\<close>, which
  drops exactly the events older than its bound.
\<close>

locale event_store =
  fixes ops :: "'s store_ops"
    and hist :: "'s \<Rightarrow> fleet_event list"
    and inv :: "'s \<Rightarrow> bool"
    and good :: "fleet_event \<Rightarrow> bool"
  assumes append_ok:
      "inv s \<Longrightarrow> good e \<Longrightarrow> st_append ops s e = (Inr u, s') \<Longrightarrow> hist s' = hist s @ [e] \<and> inv s'"
    and append_err:
      "inv s \<Longrightarrow> good e \<Longrightarrow> st_append ops s e = (Inl x, s') \<Longrightarrow> hist s' = hist s \<and> inv s'"
    and append_conflict:
      "inv s \<Longrightarrow> good e \<Longrightarrow> st_append ops s e = (Inl SeqConflict, s') \<Longrightarrow>
         \<exists>e' \<in> set (hist s). stream_key e' = stream_key e \<and> seq e' = seq e"
    and replay_ok:
      "inv s \<Longrightarrow> n < 2 ^ 63 \<Longrightarrow> st_replay ops s k n = (Inr es, s') \<Longrightarrow>
         es = stream_history (hist s) k n"
    and replay_key:
      "inv s \<Longrightarrow> st_replay ops s k n = (Inr es, s') \<Longrightarrow> e \<in> set es \<Longrightarrow>
         stream_key e = k \<and> e \<in> set (hist s)"
    and replay_frame:
      "inv s \<Longrightarrow> st_replay ops s k n = (r, s') \<Longrightarrow> hist s' = hist s \<and> inv s'"
    and high_water_ok:
      "inv s \<Longrightarrow> st_high_water ops s k = (Inr m, s') \<Longrightarrow> m = stream_max (hist s) k"
    and high_water_frame:
      "inv s \<Longrightarrow> st_high_water ops s k = (rh, s') \<Longrightarrow> hist s' = hist s \<and> inv s'"
    and writable_frame:
      "inv s \<Longrightarrow> st_writable ops s = (w, s') \<Longrightarrow> hist s' = hist s \<and> inv s'"
    and prune_ok:
      "inv s \<Longrightarrow> st_prune ops s t = (Inr m, s') \<Longrightarrow>
         hist s' = filter (\<lambda>e. t \<le> ts e) (hist s) \<and> inv s' \<and>
         m = length (filter (\<lambda>e. ts e < t) (hist s))"
begin

lemma append_mono:
  assumes "inv s" "good e" "st_append ops s e = (r, s')"
  shows "set (hist s) \<subseteq> set (hist s') \<and> inv s'"
proof (cases r)
  case (Inl x)
  then show ?thesis using append_err [OF assms(1,2)] assms(3) by auto
next
  case (Inr u)
  then show ?thesis using append_ok [OF assms(1,2)] assms(3) by auto
qed

lemma append_then_replay:
  assumes "inv s" "good e" "st_append ops s e = (Inr u, s')" "n < 2 ^ 63" "n \<le> seq e"
    and "st_replay ops s' (stream_key e) n = (Inr es, s'')"
  shows "e \<in> set es \<and> sorted (map seq es)"
  using append_ok [OF assms(1-3)] replay_ok [OF _ assms(4) assms(6)] assms(5)
  by (simp add: stream_history_set stream_history_sorted)

end

text \<open>
  The SQL backends add the \<open>UNIQUE(stream_key, seq)\<close> constraint: an append that would repeat a
  sequence number of its stream does not succeed.
\<close>

locale unique_event_store = event_store ops hist inv good
  for ops :: "'s store_ops" and hist :: "'s \<Rightarrow> fleet_event list" and inv :: "'s \<Rightarrow> bool"
    and good :: "fleet_event \<Rightarrow> bool" +
  assumes append_unique:
    "inv s \<Longrightarrow> good e \<Longrightarrow> st_append ops s e = (Inr u, s') \<Longrightarrow> e' \<in> set (hist s) \<Longrightarrow>
       stream_key e' = stream_key e \<Longrightarrow> seq e' \<noteq> seq e"
begin

lemma append_keeps_distinct:
  assumes "inv s" "good e" "st_append ops s e = (Inr u, s')"
    and "distinct (map (\<lambda>e. (stream_key e, seq e)) (hist s))"
  shows "distinct (map (\<lambda>e. (stream_key e, seq e)) (hist s'))"
  using assms(4) append_ok [OF assms(1-3)] append_unique [OF assms(1-3)] by fastforce

end

text \<open>
  The fleet-wide log: every stored event has a cursor; cursors increase strictly along the log, an
  append takes a cursor above all of them, and the readers return the events past a cursor in
  order.
\<close>

definition last_cursor :: "cursored_event list \<Rightarrow> nat" where
  "last_cursor cs = (if cs = [] then 0 else cursor (last cs))"

definition after_cursor :: "cursored_event list \<Rightarrow> nat \<Rightarrow> cursored_event list" where
  "after_cursor cs a = filter (\<lambda>c. a < cursor c) cs"

locale fleet_log =
  fixes ops :: "'s store_ops"
    and clog :: "'s \<Rightarrow> cursored_event list"
    and inv :: "'s \<Rightarrow> bool"
  assumes clog_sorted: "inv s \<Longrightarrow> sorted_wrt (<) (map cursor (clog s))"
    and clog_bounds: "inv s \<Longrightarrow> c \<in> set (clog s) \<Longrightarrow> 0 < cursor c \<and> cursor c < 2 ^ 63"
    and replay_fleet_ok:
      "inv s \<Longrightarrow> a < 2 ^ 63 \<Longrightarrow> n < 2 ^ 63 \<Longrightarrow> st_replay_fleet ops s a n = (Inr cs, s') \<Longrightarrow>
         cs = take n (after_cursor (clog s) a)"
    and replay_fleet_frame:
      "inv s \<Longrightarrow> st_replay_fleet ops s a n = (r, s') \<Longrightarrow> clog s' = clog s \<and> inv s'"
    and latest_ok:
      "inv s \<Longrightarrow> st_latest_fleet_cursor ops s = (Inr m, s') \<Longrightarrow> m = last_cursor (clog s)"
    and latest_frame:
      "inv s \<Longrightarrow> st_latest_fleet_cursor ops s = (rl, s') \<Longrightarrow> clog s' = clog s \<and> inv s'"

section \<open>Usage aggregation\<close>

text \<open>\<open>day_of\<close>: the first ten bytes of the timestamp.\<close>

definition day_of :: "string \<Rightarrow> string option" where
  "day_of t = str_get_to t 10"

text \<open>Which events open a row.\<close>

fun usage_interesting :: "event_kind \<Rightarrow> bool" where
  "usage_interesting (AgentFinished _ _ _) = True"
| "usage_interesting (StatusChanged _ to) = is_terminal to"
| "usage_interesting (AgentTimedOut _) = True"
| "usage_interesting _ = False"

definition empty_usage_row :: "string \<Rightarrow> string \<Rightarrow> usage_row" where
  "empty_usage_row w d =
     \<lparr>u_workspace = w, u_day = d, u_cost_usd = 0, u_turns = 0, u_done = 0, u_failed = 0,
      u_killed = 0, u_crashed = 0, u_timed_out = 0\<rparr>"

text \<open>Floating-point addition \<open>fadd\<close> is a parameter; everything else is counted exactly.\<close>

fun bump_usage :: "(f64 \<Rightarrow> f64 \<Rightarrow> f64) \<Rightarrow> event_kind \<Rightarrow> usage_row \<Rightarrow> usage_row" where
  "bump_usage fadd (AgentFinished _ c n) row =
     row\<lparr>u_cost_usd := fadd (u_cost_usd row) c, u_turns := u_turns row + n\<rparr>"
| "bump_usage fadd (StatusChanged _ Done) row = row\<lparr>u_done := Suc (u_done row)\<rparr>"
| "bump_usage fadd (StatusChanged _ Failed) row = row\<lparr>u_failed := Suc (u_failed row)\<rparr>"
| "bump_usage fadd (StatusChanged _ Killed) row = row\<lparr>u_killed := Suc (u_killed row)\<rparr>"
| "bump_usage fadd (StatusChanged _ Crashed) row = row\<lparr>u_crashed := Suc (u_crashed row)\<rparr>"
| "bump_usage fadd (AgentTimedOut _) row = row\<lparr>u_timed_out := Suc (u_timed_out row)\<rparr>"
| "bump_usage fadd _ row = row"

text \<open>
  The \<open>BTreeMap\<close> keyed by (workspace, day): a list of rows kept in key order. \<open>upsert_usage\<close> is
  \<open>entry(..).or_insert_with(..)\<close> followed by the update of the row.
\<close>

fun upsert_usage ::
  "string \<Rightarrow> string \<Rightarrow> (usage_row \<Rightarrow> usage_row) \<Rightarrow> usage_row list \<Rightarrow> usage_row list" where
  "upsert_usage w d f [] = [f (empty_usage_row w d)]"
| "upsert_usage w d f (r # rs) =
     (if u_workspace r = w \<and> u_day r = d then f r # rs
      else if w < u_workspace r \<or> w = u_workspace r \<and> d < u_day r
           then f (empty_usage_row w d) # r # rs
      else r # upsert_usage w d f rs)"

definition usage_step ::
  "(f64 \<Rightarrow> f64 \<Rightarrow> f64) \<Rightarrow> usage_row list \<Rightarrow> fleet_event \<Rightarrow> usage_row list" where
  "usage_step fadd rs e =
     (case day_of (ts e) of
        None \<Rightarrow> rs
      | Some d \<Rightarrow>
          if \<not> usage_interesting (kind e) then rs
          else upsert_usage (ev_repo e) d (bump_usage fadd (kind e)) rs)"

definition aggregate_usage ::
  "(f64 \<Rightarrow> f64 \<Rightarrow> f64) \<Rightarrow> fleet_event list \<Rightarrow> usage_row list" where
  "aggregate_usage fadd es = foldl (usage_step fadd) [] es"

end
