(* ===== verification/Sql_Store.thy ===== *)
theory Sql_Store
  imports Event_Store
begin

text \<open>
  The SQL event stores (\<open>core/src/sqlite_store.rs\<close>, \<open>core/src/postgres_store.rs\<close>). The database is the
  \<open>events\<close> table: its rows in insertion order, the counter behind \<open>global_ordinal\<close>, and a schedule of
  the driver's errors; each statement takes the next entry. \<open>enc\<close> and \<open>dec\<close> stand for
  \<open>serde_json\<close> on the \<open>kind\<close> column, with \<open>dec\<close> giving the text of the error when the column does
  not parse. Integers are bound and read with the \<open>as\<close> casts of the source.
\<close>

section \<open>The table\<close>

record event_row =
  row_ordinal :: int
  row_key :: string
  row_seq :: int
  row_ts :: string
  row_repo :: string
  row_agent :: string
  row_kind :: string
  row_actor :: "string option"
  row_obo :: "string option"

record events_db =
  db_rows :: "event_row list"
  db_next :: int
  db_faults :: "string option list"

type_synonym kind_enc = "event_kind \<Rightarrow> string"
type_synonym kind_dec = "string \<Rightarrow> string + event_kind"

text \<open>One statement: its outcome and the database with the schedule advanced.\<close>

definition statement :: "events_db \<Rightarrow> string option \<times> events_db" where
  "statement db =
     (case db_faults db of
        [] \<Rightarrow> (None, db)
      | f # fs \<Rightarrow> (f, db\<lparr>db_faults := fs\<rparr>))"

text \<open>\<open>map_append_error\<close>: the unique violation is told apart from every other failure.\<close>

datatype sqlx_error = UniqueViolation | DbError string

fun map_append_error :: "sqlx_error \<Rightarrow> core_error" where
  "map_append_error UniqueViolation = SeqConflict"
| "map_append_error (DbError e) = StoreError (''append: '' @ e)"

definition to_row :: "kind_enc \<Rightarrow> fleet_event \<Rightarrow> int \<Rightarrow> event_row" where
  "to_row enc e ordinal =
     \<lparr>row_ordinal = ordinal, row_key = stream_key e, row_seq = as_i64 (seq e), row_ts = ts e,
      row_repo = ev_repo e, row_agent = ev_agent e, row_kind = enc (kind e),
      row_actor = actor e, row_obo = on_behalf_of e\<rparr>"

definition of_row :: "kind_dec \<Rightarrow> event_row \<Rightarrow> fleet_event result" where
  "of_row dec r =
     (case dec (row_kind r) of
        Inl e \<Rightarrow> Inl (JsonError e)
      | Inr k \<Rightarrow>
          Inr \<lparr>seq = as_u64 (row_seq r), ts = row_ts r, ev_repo = row_repo r,
               ev_agent = row_agent r, kind = k, actor = row_actor r, on_behalf_of = row_obo r\<rparr>)"

text \<open>The decoding loop: the first row that fails ends it.\<close>

fun map_result :: "('a \<Rightarrow> 'e + 'b) \<Rightarrow> 'a list \<Rightarrow> 'e + 'b list" where
  "map_result f [] = Inr []"
| "map_result f (x # xs) = rbind (f x) (\<lambda>y. rbind (map_result f xs) (\<lambda>ys. Inr (y # ys)))"

definition key_taken :: "events_db \<Rightarrow> string \<Rightarrow> int \<Rightarrow> bool" where
  "key_taken db k n \<longleftrightarrow> list_ex (\<lambda>r. row_key r = k \<and> row_seq r = n) (db_rows db)"

section \<open>Operations\<close>

text \<open>
  \<open>INSERT\<close>: sqlite takes the ordinal only for a row that lands; Postgres draws it from the sequence
  first, so a rejected row leaves a gap.
\<close>

definition sqlite_append ::
  "kind_enc \<Rightarrow> events_db \<Rightarrow> fleet_event \<Rightarrow> unit result \<times> events_db" where
  "sqlite_append enc db event =
     (case statement db of
        (Some e, db) \<Rightarrow> (Inl (map_append_error (DbError e)), db)
      | (None, db) \<Rightarrow>
          if key_taken db (stream_key event) (as_i64 (seq event))
          then (Inl (map_append_error UniqueViolation), db)
          else (Inr (), db\<lparr>db_rows := db_rows db @ [to_row enc event (db_next db)],
                            db_next := db_next db + 1\<rparr>))"

definition pg_append ::
  "kind_enc \<Rightarrow> events_db \<Rightarrow> fleet_event \<Rightarrow> unit result \<times> events_db" where
  "pg_append enc db event =
     (case statement db of
        (Some e, db) \<Rightarrow> (Inl (map_append_error (DbError e)), db)
      | (None, db) \<Rightarrow>
          if key_taken db (stream_key event) (as_i64 (seq event))
          then (Inl (map_append_error UniqueViolation), db\<lparr>db_next := db_next db + 1\<rparr>)
          else (Inr (), db\<lparr>db_rows := db_rows db @ [to_row enc event (db_next db)],
                            db_next := db_next db + 1\<rparr>))"

definition sql_replay ::
  "kind_dec \<Rightarrow> events_db \<Rightarrow> string \<Rightarrow> nat \<Rightarrow> fleet_event list result \<times> events_db" where
  "sql_replay dec db k from_seq =
     (case statement db of
        (Some e, db) \<Rightarrow> (Inl (StoreError (''replay: '' @ e)), db)
      | (None, db) \<Rightarrow>
          (map_result (of_row dec)
             (sort_key row_seq
                (filter (\<lambda>r. row_key r = k \<and> as_i64 from_seq \<le> row_seq r) (db_rows db))), db))"

definition of_cursor_row :: "kind_dec \<Rightarrow> event_row \<Rightarrow> cursored_event result" where
  "of_cursor_row dec r =
     rbind (of_row dec r) (\<lambda>e. Inr \<lparr>cursor = as_u64 (row_ordinal r), cur_event = e\<rparr>)"

text \<open>\<open>LIMIT\<close>: sqlite reads a negative limit as no limit; Postgres rejects it.\<close>

definition sql_limit :: "int \<Rightarrow> 'a list \<Rightarrow> 'a list" where
  "sql_limit n xs = (if n < 0 then xs else take (nat n) xs)"

definition sql_replay_fleet ::
  "kind_dec \<Rightarrow> events_db \<Rightarrow> nat \<Rightarrow> nat \<Rightarrow> cursored_event list result \<times> events_db" where
  "sql_replay_fleet dec db after limit =
     (case statement db of
        (Some e, db) \<Rightarrow> (Inl (StoreError (''replay_fleet: '' @ e)), db)
      | (None, db) \<Rightarrow>
          (map_result (of_cursor_row dec)
             (sql_limit (as_i64 limit)
                (sort_key row_ordinal
                   (filter (\<lambda>r. as_i64 after < row_ordinal r) (db_rows db)))), db))"

definition pg_replay_fleet ::
  "kind_dec \<Rightarrow> events_db \<Rightarrow> nat \<Rightarrow> nat \<Rightarrow> cursored_event list result \<times> events_db" where
  "pg_replay_fleet dec db after limit =
     (if as_i64 limit < 0
      then (Inl (StoreError (''replay_fleet: LIMIT must not be negative'')), snd (statement db))
      else sql_replay_fleet dec db after limit)"

text \<open>\<open>COALESCE(MAX(x), 0)\<close>.\<close>

definition max_or_zero :: "int list \<Rightarrow> int" where
  "max_or_zero xs = (if xs = [] then 0 else fold max (tl xs) (hd xs))"

definition sql_latest_fleet_cursor :: "events_db \<Rightarrow> nat result \<times> events_db" where
  "sql_latest_fleet_cursor db =
     (case statement db of
        (Some e, db) \<Rightarrow> (Inl (StoreError (''latest_fleet_cursor: '' @ e)), db)
      | (None, db) \<Rightarrow> (Inr (as_u64 (max_or_zero (map row_ordinal (db_rows db)))), db))"

definition sql_high_water :: "events_db \<Rightarrow> string \<Rightarrow> nat result \<times> events_db" where
  "sql_high_water db k =
     (case statement db of
        (Some e, db) \<Rightarrow> (Inl (StoreError (''high_water: '' @ e)), db)
      | (None, db) \<Rightarrow>
          (Inr (as_u64 (max_or_zero (map row_seq (filter (\<lambda>r. row_key r = k) (db_rows db))))), db))"

text \<open>
  The write probe: begin, insert a row with \<open>seq = -1\<close>, roll back whatever the insert said. On
  Postgres the rolled-back insert has used up an ordinal; on sqlite it has not.
\<close>

definition sqlite_writable :: "events_db \<Rightarrow> bool \<times> events_db" where
  "sqlite_writable db =
     (case statement db of
        (Some e, db) \<Rightarrow> (False, db)
      | (None, db) \<Rightarrow>
          (case statement db of
             (f, db') \<Rightarrow>
               (let ok = (f = None \<and> \<not> key_taken db' ''__writable_probe__'' (-1))
                in case statement db' of (_, db'') \<Rightarrow> (ok, db''))))"

definition pg_writable :: "events_db \<Rightarrow> bool \<times> events_db" where
  "pg_writable db =
     (case statement db of
        (Some e, db) \<Rightarrow> (False, db)
      | (None, db) \<Rightarrow>
          (case statement db of
             (f, db') \<Rightarrow>
               (let ok = (f = None \<and> \<not> key_taken db' ''__writable_probe__'' (-1));
                    db1 = (if f = None then db'\<lparr>db_next := db_next db' + 1\<rparr> else db')
                in case statement db1 of (_, db'') \<Rightarrow> (ok, db''))))"

definition sql_prune :: "events_db \<Rightarrow> string \<Rightarrow> nat result \<times> events_db" where
  "sql_prune db before_ts =
     (case statement db of
        (Some e, db) \<Rightarrow> (Inl (StoreError (''prune: '' @ e)), db)
      | (None, db) \<Rightarrow>
          (Inr (length (filter (\<lambda>r. row_ts r < before_ts) (db_rows db))),
           db\<lparr>db_rows := filter (\<lambda>r. \<not> row_ts r < before_ts) (db_rows db)\<rparr>))"

section \<open>Usage in SQL\<close>

text \<open>
  \<open>kind ->> 'kind'\<close> is the serde tag, \<open>kind ->> 'to'\<close> the target status of a transition. \<open>fsum\<close>
  stands for the engine's \<open>SUM\<close> over doubles.
\<close>

fun kind_tag :: "event_kind \<Rightarrow> string" where
  "kind_tag AgentSpawned = ''agent_spawned''"
| "kind_tag AgentDiscovered = ''agent_discovered''"
| "kind_tag (AgentInit _ _ _) = ''agent_init''"
| "kind_tag (StatusChanged _ _) = ''status_changed''"
| "kind_tag (Output _ _) = ''output''"
| "kind_tag (ToolStarted _ _ _) = ''tool_started''"
| "kind_tag (ToolFinished _ _ _ _ _) = ''tool_finished''"
| "kind_tag (AgentFinished _ _ _) = ''agent_finished''"
| "kind_tag AgentGone = ''agent_gone''"
| "kind_tag (StorePersistFailed _ _) = ''store_persist_failed''"
| "kind_tag (DeadlineSet _) = ''deadline_set''"
| "kind_tag (AgentTimedOut _) = ''agent_timed_out''"
| "kind_tag (RepoHealth _) = ''repo_health''"

fun status_text :: "agent_status \<Rightarrow> string" where
  "status_text Spawning = ''spawning''"
| "status_text Running = ''running''"
| "status_text Idle = ''idle''"
| "status_text Killed = ''killed''"
| "status_text Done = ''done''"
| "status_text Failed = ''failed''"
| "status_text Crashed = ''crashed''"

fun kind_to :: "event_kind \<Rightarrow> string option" where
  "kind_to (StatusChanged _ to) = Some (status_text to)"
| "kind_to _ = None"

fun kind_cost :: "event_kind \<Rightarrow> f64 option" where
  "kind_cost (AgentFinished _ c _) = Some c"
| "kind_cost _ = None"

fun kind_turns :: "event_kind \<Rightarrow> nat option" where
  "kind_turns (AgentFinished _ _ n) = Some n"
| "kind_turns _ = None"

definition usage_where :: "string \<Rightarrow> string \<Rightarrow> fleet_event \<Rightarrow> bool" where
  "usage_where since until' e \<longleftrightarrow>
     since \<le> ts e \<and> ts e < until' \<and>
     (kind_tag (kind e) = ''agent_finished'' \<or>
      kind_tag (kind e) = ''status_changed'' \<and>
        kind_to (kind e) \<in> {Some ''done'', Some ''failed'', Some ''killed'', Some ''crashed''} \<or>
      kind_tag (kind e) = ''agent_timed_out'')"

text \<open>\<open>substr(ts, 1, 10)\<close>: the first ten characters, fewer when there are fewer.\<close>

definition sql_day :: "fleet_event \<Rightarrow> string" where
  "sql_day e = concat (take 10 (utf8_chars (ts e)))"

definition count_to :: "string \<Rightarrow> fleet_event list \<Rightarrow> nat" where
  "count_to t es = length (filter (\<lambda>e. kind_to (kind e) = Some t) es)"

definition usage_group_row ::
  "(f64 list \<Rightarrow> f64) \<Rightarrow> fleet_event list \<Rightarrow> string \<times> string \<Rightarrow> usage_row" where
  "usage_group_row fsum es wd =
     (let g = filter (\<lambda>e. ev_repo e = fst wd \<and> sql_day e = snd wd) es;
          costs = List.map_filter (\<lambda>e. kind_cost (kind e)) g
      in \<lparr>u_workspace = fst wd, u_day = snd wd,
          u_cost_usd = (if costs = [] then 0 else fsum costs),
          u_turns = sum_list (List.map_filter (\<lambda>e. kind_turns (kind e)) g),
          u_done = count_to ''done'' g, u_failed = count_to ''failed'' g,
          u_killed = count_to ''killed'' g, u_crashed = count_to ''crashed'' g,
          u_timed_out = length (filter (\<lambda>e. kind_tag (kind e) = ''agent_timed_out'') g)\<rparr>)"

text \<open>\<open>GROUP BY repo, day ORDER BY repo, day\<close>.\<close>

fun insert_key :: "string \<times> string \<Rightarrow> (string \<times> string) list \<Rightarrow> (string \<times> string) list" where
  "insert_key k [] = [k]"
| "insert_key k (x # xs) =
     (if k = x then x # xs
      else if fst k < fst x \<or> fst k = fst x \<and> snd k < snd x then k # x # xs
      else x # insert_key k xs)"

definition usage_groups ::
  "(f64 list \<Rightarrow> f64) \<Rightarrow> fleet_event list \<Rightarrow> usage_row list" where
  "usage_groups fsum es =
     map (usage_group_row fsum es) (foldl (\<lambda>ks e. insert_key (ev_repo e, sql_day e) ks) [] es)"

definition sql_usage ::
  "(f64 list \<Rightarrow> f64) \<Rightarrow> kind_dec \<Rightarrow> events_db \<Rightarrow> string \<Rightarrow> string \<Rightarrow>
     usage_row list result \<times> events_db" where
  "sql_usage fsum dec db since until' =
     (case statement db of
        (Some e, db) \<Rightarrow> (Inl (StoreError (''usage: '' @ e)), db)
      | (None, db) \<Rightarrow>
          (case map_result (of_row dec)
                  (filter (\<lambda>r. since \<le> row_ts r \<and> row_ts r < until') (db_rows db)) of
             Inl e \<Rightarrow> (Inl (StoreError (''usage: malformed JSON'')), db)
           | Inr es \<Rightarrow> (Inr (usage_groups fsum (filter (usage_where since until') es)), db)))"

definition sqlite_ops ::
  "(f64 list \<Rightarrow> f64) \<Rightarrow> kind_enc \<Rightarrow> kind_dec \<Rightarrow> events_db store_ops" where
  "sqlite_ops fsum enc dec =
     \<lparr>st_append = sqlite_append enc, st_replay = sql_replay dec,
      st_replay_fleet = sql_replay_fleet dec, st_latest_fleet_cursor = sql_latest_fleet_cursor,
      st_high_water = sql_high_water, st_writable = sqlite_writable, st_prune = sql_prune,
      st_usage = sql_usage fsum dec\<rparr>"

definition pg_ops ::
  "(f64 list \<Rightarrow> f64) \<Rightarrow> kind_enc \<Rightarrow> kind_dec \<Rightarrow> events_db store_ops" where
  "pg_ops fsum enc dec =
     \<lparr>st_append = pg_append enc, st_replay = sql_replay dec,
      st_replay_fleet = pg_replay_fleet dec, st_latest_fleet_cursor = sql_latest_fleet_cursor,
      st_high_water = sql_high_water, st_writable = pg_writable, st_prune = sql_prune,
      st_usage = sql_usage fsum dec\<rparr>"

section \<open>The invariant and the contract\<close>

text \<open>
  A row is well formed when its kind decodes, its sequence number is that of a \<open>u64\<close> below \<open>2 ^ 63\<close>
  and its key is the stream key of its event.
\<close>

definition row_event :: "kind_dec \<Rightarrow> event_row \<Rightarrow> fleet_event" where
  "row_event dec r =
     \<lparr>seq = as_u64 (row_seq r), ts = row_ts r, ev_repo = row_repo r, ev_agent = row_agent r,
      kind = unwrap_or (dec (row_kind r)) AgentGone, actor = row_actor r, on_behalf_of = row_obo r\<rparr>"

definition row_ok :: "kind_dec \<Rightarrow> event_row \<Rightarrow> bool" where
  "row_ok dec r \<longleftrightarrow>
     is_ok (dec (row_kind r)) \<and> 0 \<le> row_seq r \<and> row_seq r < 2 ^ 63 \<and>
     row_key r = stream_key_for (row_repo r) (row_agent r)"

definition sql_hist :: "kind_dec \<Rightarrow> events_db \<Rightarrow> fleet_event list" where
  "sql_hist dec db = map (row_event dec) (db_rows db)"

definition sql_inv :: "kind_dec \<Rightarrow> events_db \<Rightarrow> bool" where
  "sql_inv dec db \<longleftrightarrow>
     list_all (row_ok dec) (db_rows db) \<and>
     sorted_wrt (<) (map row_ordinal (db_rows db)) \<and>
     list_all (\<lambda>r. 1 \<le> row_ordinal r \<and> row_ordinal r < db_next db) (db_rows db) \<and>
     1 \<le> db_next db"

definition storable :: "kind_enc \<Rightarrow> kind_dec \<Rightarrow> fleet_event \<Rightarrow> bool" where
  "storable enc dec e \<longleftrightarrow> seq e < 2 ^ 63 \<and> dec (enc (kind e)) = Inr (kind e)"

lemma of_row_ok: "row_ok dec r \<Longrightarrow> of_row dec r = Inr (row_event dec r)"
  by (auto simp: row_ok_def of_row_def row_event_def is_ok_def split: sum.splits)

lemma row_ok_seq:
  assumes "row_ok dec r"
  shows "as_u64 (row_seq r) = nat (row_seq r)" "0 \<le> row_seq r"
  using assms by (simp_all add: row_ok_def as_u64_small)

lemma map_result_all:
  "(\<And>x. x \<in> set xs \<Longrightarrow> f x = Inr (g x)) \<Longrightarrow> map_result f xs = Inr (map g xs)"
  by (induction xs) auto

lemma map_result_rows:
  "list_all (row_ok dec) rs \<Longrightarrow> map_result (of_row dec) rs = Inr (map (row_event dec) rs)"
  by (rule map_result_all) (simp add: list_all_iff of_row_ok)

lemma insort_key_map:
  "(\<And>y. y \<in> set xs \<Longrightarrow> (f x \<le> f y) = (h (g x) \<le> h (g y))) \<Longrightarrow>
     map g (insort_key f x xs) = insort_key h (g x) (map g xs)"
  by (induction xs) auto

lemma sort_key_map:
  assumes "\<And>x y. x \<in> set xs \<Longrightarrow> y \<in> set xs \<Longrightarrow> (f x \<le> f y) = (h (g x) \<le> h (g y))"
  shows "map g (sort_key f xs) = sort_key h (map g xs)"
  using assms
proof (induction xs)
  case (Cons x xs)
  then have "map g (insort_key f x (sort_key f xs)) = insort_key h (g x) (map g (sort_key f xs))"
    by (intro insort_key_map) simp
  then show ?case using Cons by simp
qed simp

lemma row_event_simps [simp]:
  "ts (row_event dec r) = row_ts r"
  "seq (row_event dec r) = as_u64 (row_seq r)"
  "stream_key (row_event dec r) = stream_key_for (row_repo r) (row_agent r)"
  by (simp_all add: row_event_def stream_key_def)

lemma row_event_to_row:
  "storable enc dec e \<Longrightarrow> row_event dec (to_row enc e n) = e"
  by (simp add: storable_def to_row_def row_event_def as_u64_as_i64)

lemma row_ok_to_row: "storable enc dec e \<Longrightarrow> row_ok dec (to_row enc e n)"
  by (simp add: storable_def to_row_def row_ok_def as_i64_small stream_key_def)

lemma statement_facts:
  assumes "statement db = (f, db')"
  shows "db_rows db' = db_rows db" "db_next db' = db_next db"
    "sql_inv dec db' = sql_inv dec db" "sql_hist dec db' = sql_hist dec db"
  using assms by (auto simp: statement_def sql_inv_def sql_hist_def split: list.splits)

lemma sql_inv_snoc:
  assumes "sql_inv dec db" "storable enc dec e"
  shows "sql_inv dec (db\<lparr>db_rows := db_rows db @ [to_row enc e (db_next db)],
                         db_next := db_next db + 1\<rparr>)"
  using assms row_ok_to_row [OF assms(2)]
  by (fastforce simp: sql_inv_def sorted_wrt_append list_all_iff to_row_def)

lemma sql_hist_snoc:
  "storable enc dec e \<Longrightarrow>
     sql_hist dec (db\<lparr>db_rows := db_rows db @ [to_row enc e n], db_next := m\<rparr>) = sql_hist dec db @ [e]"
  by (simp add: sql_hist_def row_event_to_row)

lemma key_taken_hist:
  assumes "sql_inv dec db" "seq e < 2 ^ 63"
  shows "key_taken db (stream_key e) (as_i64 (seq e)) \<longleftrightarrow>
    (\<exists>e' \<in> set (sql_hist dec db). stream_key e' = stream_key e \<and> seq e' = seq e)"
proof -
  have "row_key r = stream_key e \<and> row_seq r = as_i64 (seq e) \<longleftrightarrow>
      stream_key (row_event dec r) = stream_key e \<and> seq (row_event dec r) = seq e"
    if "r \<in> set (db_rows db)" for r
  proof -
    have "row_ok dec r" using assms(1) that by (simp add: sql_inv_def list_all_iff)
    then show ?thesis using assms(2) by (auto simp: row_ok_def as_u64_small as_i64_small)
  qed
  then show ?thesis by (auto simp: key_taken_def list_ex_iff sql_hist_def)
qed

lemma next_inv: "sql_inv dec db \<Longrightarrow> sql_inv dec (db\<lparr>db_next := db_next db + 1\<rparr>)"
  by (auto simp: sql_inv_def list_all_iff)

lemma next_hist [simp]: "sql_hist dec (db\<lparr>db_next := n\<rparr>) = sql_hist dec db"
  by (simp add: sql_hist_def)

text \<open>Both dialects' inserts satisfy one contract.\<close>

lemma append_contract:
  assumes "app = sqlite_append enc \<or> app = pg_append enc"
    and "sql_inv dec db" "storable enc dec e" "app db e = (r, db')"
  shows "sql_inv dec db'"
    and "r = Inr u \<Longrightarrow> sql_hist dec db' = sql_hist dec db @ [e] \<and>
           (\<forall>e' \<in> set (sql_hist dec db). stream_key e' = stream_key e \<longrightarrow> seq e' \<noteq> seq e)"
    and "r = Inl x \<Longrightarrow> sql_hist dec db' = sql_hist dec db"
    and "r = Inl SeqConflict \<Longrightarrow>
           \<exists>e' \<in> set (sql_hist dec db). stream_key e' = stream_key e \<and> seq e' = seq e"
proof -
  obtain f db1 where 1: "statement db = (f, db1)" by fastforce
  note st = statement_facts [OF 1]
  have inv1: "sql_inv dec db1" using st(3) assms(2) by simp
  have kt: "key_taken db1 (stream_key e) (as_i64 (seq e)) \<longleftrightarrow>
    (\<exists>e' \<in> set (sql_hist dec db). stream_key e' = stream_key e \<and> seq e' = seq e)"
    using key_taken_hist [OF inv1] assms(3) st(4) by (simp add: storable_def)
  note facts = inv1 next_inv [OF inv1] sql_inv_snoc [OF inv1 assms(3)] sql_hist_snoc [OF assms(3)]
    st(4) kt
  have "sql_inv dec db' \<and>
    (r = Inr u \<longrightarrow> sql_hist dec db' = sql_hist dec db @ [e] \<and>
       (\<forall>e' \<in> set (sql_hist dec db). stream_key e' = stream_key e \<longrightarrow> seq e' \<noteq> seq e)) \<and>
    (r = Inl x \<longrightarrow> sql_hist dec db' = sql_hist dec db) \<and>
    (r = Inl SeqConflict \<longrightarrow>
       (\<exists>e' \<in> set (sql_hist dec db). stream_key e' = stream_key e \<and> seq e' = seq e))"
    using assms(1)
  proof
    assume "app = sqlite_append enc"
    then show ?thesis using assms(4) 1 facts
      by (cases f) (auto simp: sqlite_append_def split: if_splits)
  next
    assume "app = pg_append enc"
    then show ?thesis using assms(4) 1 facts
      by (cases f) (auto simp: pg_append_def split: if_splits)
  qed
  then show "sql_inv dec db'"
    and "r = Inr u \<Longrightarrow> sql_hist dec db' = sql_hist dec db @ [e] \<and>
           (\<forall>e' \<in> set (sql_hist dec db). stream_key e' = stream_key e \<longrightarrow> seq e' \<noteq> seq e)"
    and "r = Inl x \<Longrightarrow> sql_hist dec db' = sql_hist dec db"
    and "r = Inl SeqConflict \<Longrightarrow>
           \<exists>e' \<in> set (sql_hist dec db). stream_key e' = stream_key e \<and> seq e' = seq e"
    by auto
qed

lemma sql_replay_facts:
  assumes "sql_inv dec db" "sql_replay dec db k n = (r, db')"
  shows "sql_inv dec db'" "sql_hist dec db' = sql_hist dec db"
    "n < 2 ^ 63 \<Longrightarrow> r = Inr es \<Longrightarrow> es = stream_history (sql_hist dec db) k n"
proof -
  obtain f db1 where 1: "statement db = (f, db1)" by fastforce
  note st = statement_facts [OF 1]
  show "sql_inv dec db'" "sql_hist dec db' = sql_hist dec db"
    using assms 1 st by (cases f; auto simp: sql_replay_def)+
  assume n: "n < 2 ^ 63" and r: "r = Inr es"
  let ?sel = "filter (\<lambda>r. row_key r = k \<and> as_i64 n \<le> row_seq r) (db_rows db)"
  have ok: "list_all (row_ok dec) (db_rows db)" using assms(1) by (simp add: sql_inv_def)
  then have ok': "list_all (row_ok dec) (sort_key row_seq ?sel)"
    by (auto simp: list_all_iff)
  have "es = map (row_event dec) (sort_key row_seq ?sel)"
    using assms(2) 1 st r map_result_rows [OF ok'] by (cases f) (auto simp: sql_replay_def)
  also have "\<dots> = sort_key seq (map (row_event dec) ?sel)"
    using ok row_ok_seq [of dec] by (intro sort_key_map) (simp add: list_all_iff nat_le_eq_zle)
  also have "map (row_event dec) ?sel =
    filter (\<lambda>e. stream_key e = k \<and> n \<le> seq e) (sql_hist dec db)"
    unfolding sql_hist_def filter_map comp_def using ok n
    by (intro arg_cong [where f = "map (row_event dec)"] filter_cong)
       (auto simp: list_all_iff row_ok_def as_u64_small as_i64_small)
  finally show "es = stream_history (sql_hist dec db) k n"
    by (simp add: stream_history_def)
qed

lemma sql_replay_no_fault:
  assumes "sql_inv dec db" "db_faults db = []" "n < 2 ^ 63"
  shows "sql_replay dec db k n = (Inr (stream_history (sql_hist dec db) k n), db)"
proof -
  let ?sel = "sort_key row_seq (filter (\<lambda>r. row_key r = k \<and> as_i64 n \<le> row_seq r) (db_rows db))"
  have "list_all (row_ok dec) ?sel" using assms(1) by (auto simp: sql_inv_def list_all_iff)
  then have eq: "sql_replay dec db k n = (Inr (map (row_event dec) ?sel), db)"
    using assms(2) map_result_rows [of dec ?sel] by (simp add: sql_replay_def statement_def)
  show ?thesis using sql_replay_facts(3) [OF assms(1) eq assms(3) refl] eq by simp
qed

lemma fold_max_nat:
  "(\<And>x. x \<in> set xs \<Longrightarrow> 0 \<le> x) \<Longrightarrow> 0 \<le> a \<Longrightarrow>
     fold max xs a = max a (int (foldr max (map nat xs) 0))"
  by (induction xs arbitrary: a) (auto simp: max_def)

lemma max_or_zero_nat:
  "(\<And>x. x \<in> set xs \<Longrightarrow> 0 \<le> x) \<Longrightarrow> max_or_zero xs = int (foldr max (map nat xs) 0)"
  by (cases xs) (auto simp: max_or_zero_def fold_max_nat max_def)

lemma sql_high_water_facts:
  assumes "sql_inv dec db" "sql_high_water db k = (r, db')"
  shows "sql_inv dec db'" "sql_hist dec db' = sql_hist dec db"
    "r = Inr m \<Longrightarrow> m = stream_max (sql_hist dec db) k"
proof -
  obtain f db1 where 1: "statement db = (f, db1)" by fastforce
  note st = statement_facts [OF 1]
  show "sql_inv dec db'" "sql_hist dec db' = sql_hist dec db"
    using assms 1 st by (cases f; auto simp: sql_high_water_def)+
  assume r: "r = Inr m"
  have ok: "\<forall>r \<in> set (db_rows db). row_ok dec r"
    using assms(1) by (simp add: sql_inv_def list_all_iff)
  let ?rs = "filter (\<lambda>r. row_key r = k) (db_rows db)"
  have "map (nat \<circ> row_seq) ?rs = map seq (filter (\<lambda>e. stream_key e = k) (sql_hist dec db))"
    unfolding sql_hist_def filter_map map_map comp_def using ok
    by (intro map_cong filter_cong) (auto simp: row_ok_def as_u64_small)
  moreover have "max_or_zero (map row_seq ?rs) = int (foldr max (map nat (map row_seq ?rs)) 0)"
    using ok by (intro max_or_zero_nat) (auto simp: row_ok_def)
  ultimately have "max_or_zero (map row_seq ?rs) = int (stream_max (sql_hist dec db) k)"
    by (simp add: stream_max_def)
  moreover have "stream_max (sql_hist dec db) k < 2 ^ 63"
    using ok by (intro le_less_trans [OF stream_max_le [where b = "2 ^ 63 - 1"]])
      (auto simp: sql_hist_def row_ok_def as_u64_small)
  ultimately show "m = stream_max (sql_hist dec db) k"
    using assms(2) 1 st r by (cases f) (auto simp: sql_high_water_def as_u64_small)
qed

lemma writable_facts:
  assumes "wr = sqlite_writable \<or> wr = pg_writable" "sql_inv dec db" "wr db = (w, db')"
  shows "sql_inv dec db'" "sql_hist dec db' = sql_hist dec db"
proof -
  obtain f db1 where 1: "statement db = (f, db1)" by fastforce
  obtain g db2 where 2: "statement db1 = (g, db2)" by fastforce
  let ?db3 = "db2\<lparr>db_next := db_next db2 + 1\<rparr>"
  obtain h db4 where 4: "statement db2 = (h, db4)" by fastforce
  obtain i db5 where 5: "statement ?db3 = (i, db5)" by fastforce
  note st = statement_facts(3,4) [OF 1] statement_facts(3,4) [OF 2] statement_facts(3,4) [OF 4]
    statement_facts(3,4) [OF 5]
  have inv2: "sql_inv dec db2" using st assms(2) by simp
  have "sql_inv dec db' \<and> sql_hist dec db' = sql_hist dec db"
    using assms 1 2 4 5 st next_inv [OF inv2]
    by (cases f; cases g) (auto simp: sqlite_writable_def pg_writable_def Let_def)
  then show "sql_inv dec db'" "sql_hist dec db' = sql_hist dec db" by auto
qed

lemma sql_prune_facts:
  assumes "sql_inv dec db" "sql_prune db t = (Inr m, db')"
  shows "sql_inv dec db'" "sql_hist dec db' = filter (\<lambda>e. t \<le> ts e) (sql_hist dec db)"
    "m = length (filter (\<lambda>e. ts e < t) (sql_hist dec db))"
    "db_rows db' = filter (\<lambda>r. t \<le> row_ts r) (db_rows db)" "db_next db' = db_next db"
proof -
  obtain f db1 where 1: "statement db = (f, db1)" by fastforce
  note st = statement_facts [OF 1]
  have "f = None" using assms(2) 1 by (cases f) (auto simp: sql_prune_def)
  then have db': "db' = db1\<lparr>db_rows := filter (\<lambda>r. \<not> row_ts r < t) (db_rows db1)\<rparr>"
    and m: "m = length (filter (\<lambda>r. row_ts r < t) (db_rows db1))"
    using assms(2) 1 by (auto simp: sql_prune_def)
  show rows: "db_rows db' = filter (\<lambda>r. t \<le> row_ts r) (db_rows db)" "db_next db' = db_next db"
    using db' st by (simp_all add: not_less)
  show "sql_hist dec db' = filter (\<lambda>e. t \<le> ts e) (sql_hist dec db)"
    using rows by (simp add: sql_hist_def filter_map comp_def)
  show "m = length (filter (\<lambda>e. ts e < t) (sql_hist dec db))"
    using m st by (simp add: sql_hist_def filter_map comp_def)
  have "sorted_wrt (<) (map row_ordinal (filter P (db_rows db)))" for P
    using assms(1) by (simp add: sql_inv_def sorted_wrt_map sorted_wrt_filter)
  then show "sql_inv dec db'"
    using assms(1) rows by (auto simp: sql_inv_def list_all_iff)
qed

lemma sql_replay_key:
  assumes "sql_inv dec db" "sql_replay dec db k n = (Inr es, db')" "e \<in> set es"
  shows "stream_key e = k \<and> e \<in> set (sql_hist dec db)"
proof -
  obtain f db1 where 1: "statement db = (f, db1)" by fastforce
  note st = statement_facts [OF 1]
  let ?sel = "filter (\<lambda>r. row_key r = k \<and> as_i64 n \<le> row_seq r) (db_rows db)"
  have ok: "list_all (row_ok dec) (db_rows db)" using assms(1) by (simp add: sql_inv_def)
  then have ok': "list_all (row_ok dec) (sort_key row_seq ?sel)"
    by (auto simp: list_all_iff)
  have "es = map (row_event dec) (sort_key row_seq ?sel)"
    using assms(2) 1 st map_result_rows [OF ok'] by (cases f) (auto simp: sql_replay_def)
  then show ?thesis
    using assms(3) ok by (auto simp: sql_hist_def list_all_iff row_ok_def)
qed

lemma sql_unique_event_store:
  assumes app: "st_append ops = sqlite_append enc \<or> st_append ops = pg_append enc"
    and rep: "st_replay ops = sql_replay dec"
    and hw: "st_high_water ops = sql_high_water"
    and wr: "st_writable ops = sqlite_writable \<or> st_writable ops = pg_writable"
    and pr: "st_prune ops = sql_prune"
  shows "unique_event_store ops (sql_hist dec) (sql_inv dec) (storable enc dec)"
proof (unfold_locales, goal_cases)
  case (1 s e u s')
  then show ?case using append_contract(1,2) [OF app] by blast
next
  case (2 s e x s')
  then show ?case using append_contract(1,3) [OF app] by blast
next
  case (3 s e s')
  then show ?case using append_contract(4) [OF app] by blast
next
  case (4 s n k es s')
  then show ?case using sql_replay_facts(3) unfolding rep by blast
next
  case (5 s k n es s' e)
  then show ?case using sql_replay_key unfolding rep by blast
next
  case (6 s k n r s')
  then show ?case using sql_replay_facts(1,2) unfolding rep by blast
next
  case (7 s k m s')
  then show ?case using sql_high_water_facts(3) unfolding hw by blast
next
  case (8 s k r s')
  then show ?case using sql_high_water_facts(1,2) unfolding hw by blast
next
  case (9 s w s')
  then show ?case using writable_facts [OF wr] by blast
next
  case (10 s t m s')
  then show ?case using sql_prune_facts(1-3) unfolding pr by blast
next
  case (11 s e u s' e')
  then show ?case using append_contract(2) [OF app] by blast
qed

interpretation sqlite: unique_event_store "sqlite_ops fsum enc dec" "sql_hist dec" "sql_inv dec"
  "storable enc dec" for fsum enc dec
  by (rule sql_unique_event_store) (simp_all add: sqlite_ops_def)

interpretation postgres: unique_event_store "pg_ops fsum enc dec" "sql_hist dec" "sql_inv dec"
  "storable enc dec" for fsum enc dec
  by (rule sql_unique_event_store) (simp_all add: pg_ops_def)

section \<open>The cursor log\<close>

definition row_cursored :: "kind_dec \<Rightarrow> event_row \<Rightarrow> cursored_event" where
  "row_cursored dec r = \<lparr>cursor = nat (row_ordinal r), cur_event = row_event dec r\<rparr>"

definition sql_clog :: "kind_dec \<Rightarrow> events_db \<Rightarrow> cursored_event list" where
  "sql_clog dec db = map (row_cursored dec) (db_rows db)"

text \<open>The ordinals also stay inside the column's range.\<close>

definition sql_log_inv :: "kind_dec \<Rightarrow> events_db \<Rightarrow> bool" where
  "sql_log_inv dec db \<longleftrightarrow> sql_inv dec db \<and> db_next db \<le> 2 ^ 63"

lemma sql_ordinal_bounds:
  "sql_log_inv dec db \<Longrightarrow> r \<in> set (db_rows db) \<Longrightarrow>
     1 \<le> row_ordinal r \<and> row_ordinal r < 2 ^ 63 \<and> row_ok dec r"
  by (fastforce simp: sql_log_inv_def sql_inv_def list_all_iff)

lemma of_cursor_row_ok:
  "sql_log_inv dec db \<Longrightarrow> r \<in> set (db_rows db) \<Longrightarrow> of_cursor_row dec r = Inr (row_cursored dec r)"
  using sql_ordinal_bounds [of dec db r]
  by (simp add: of_cursor_row_def row_cursored_def of_row_ok as_u64_small)

lemma statement_log:
  assumes "statement db = (f, db')"
  shows "sql_log_inv dec db' = sql_log_inv dec db" "sql_clog dec db' = sql_clog dec db"
  using statement_facts [OF assms] by (simp_all add: sql_log_inv_def sql_clog_def)

lemma sorted_wrt_sort_key:
  "sorted_wrt (<) (map f xs) \<Longrightarrow> sort_key f xs = xs" for f :: "'a \<Rightarrow> int"
  by (simp add: sorted_sort_id sort_key_id_if_sorted strict_sorted_imp_sorted)

lemma sql_replay_fleet_facts:
  assumes "sql_log_inv dec db" "sql_replay_fleet dec db a n = (r, db')"
  shows "sql_log_inv dec db'" "sql_clog dec db' = sql_clog dec db"
    "a < 2 ^ 63 \<Longrightarrow> n < 2 ^ 63 \<Longrightarrow> r = Inr cs \<Longrightarrow> cs = take n (after_cursor (sql_clog dec db) a)"
proof -
  obtain f db1 where 1: "statement db = (f, db1)" by fastforce
  note st = statement_facts(1,2) [OF 1] statement_log [OF 1]
  show "sql_log_inv dec db'" "sql_clog dec db' = sql_clog dec db"
    using assms 1 st by (cases f; auto simp: sql_replay_fleet_def)+
  assume a: "a < 2 ^ 63" and n: "n < 2 ^ 63" and r: "r = Inr cs"
  let ?sel = "filter (\<lambda>r. as_i64 a < row_ordinal r) (db_rows db)"
  have "sorted_wrt (<) (map row_ordinal ?sel)"
    using assms(1) by (simp add: sql_log_inv_def sql_inv_def sorted_wrt_map sorted_wrt_filter)
  then have srt: "sort_key row_ordinal ?sel = ?sel" by (rule sorted_wrt_sort_key)
  have "map_result (of_cursor_row dec) (take n ?sel) = Inr (map (row_cursored dec) (take n ?sel))"
    by (rule map_result_all) (use of_cursor_row_ok [OF assms(1)] in \<open>auto dest: in_set_takeD\<close>)
  then have "cs = map (row_cursored dec) (take n ?sel)"
    using assms(2) 1 st r n srt
    by (cases f) (auto simp: sql_replay_fleet_def sql_limit_def as_i64_small)
  also have "\<dots> = take n (after_cursor (sql_clog dec db) a)"
    unfolding after_cursor_def sql_clog_def filter_map comp_def take_map
    using sql_ordinal_bounds [OF assms(1)] a
    by (intro arg_cong [where f = "\<lambda>xs. map (row_cursored dec) (take n xs)"] filter_cong)
       (auto simp: row_cursored_def as_i64_small)
  finally show "cs = take n (after_cursor (sql_clog dec db) a)" .
qed

lemma sql_replay_fleet_no_fault:
  assumes "sql_log_inv dec db" "db_faults db = []" "a < 2 ^ 63" "n < 2 ^ 63"
  shows "sql_replay_fleet dec db a n = (Inr (take n (after_cursor (sql_clog dec db) a)), db)"
proof -
  let ?sel = "filter (\<lambda>r. as_i64 a < row_ordinal r) (db_rows db)"
  have "sorted_wrt (<) (map row_ordinal ?sel)"
    using assms(1) by (simp add: sql_log_inv_def sql_inv_def sorted_wrt_map sorted_wrt_filter)
  then have srt: "sort_key row_ordinal ?sel = ?sel" by (rule sorted_wrt_sort_key)
  have "map_result (of_cursor_row dec) (take n ?sel) = Inr (map (row_cursored dec) (take n ?sel))"
    by (rule map_result_all) (use of_cursor_row_ok [OF assms(1)] in \<open>auto dest: in_set_takeD\<close>)
  then have eq: "sql_replay_fleet dec db a n = (Inr (map (row_cursored dec) (take n ?sel)), db)"
    using assms(2,4) srt
    by (simp add: sql_replay_fleet_def sql_limit_def as_i64_small statement_def)
  show ?thesis
    using sql_replay_fleet_facts(3) [OF assms(1) eq assms(3,4) refl] eq by simp
qed

lemma foldr_max_sorted:
  "sorted_wrt (<) xs \<Longrightarrow> foldr max xs 0 = (if xs = [] then 0 else last xs)" for xs :: "nat list"
proof (induction xs)
  case (Cons x xs)
  then have "xs \<noteq> [] \<Longrightarrow> max x (last xs) = last xs" by (auto intro: max_absorb2 less_imp_le)
  then show ?case using Cons by auto
qed simp

lemma sql_clog_sorted:
  assumes "sql_log_inv dec db"
  shows "sorted_wrt (<) (map cursor (sql_clog dec db))"
proof -
  have "sorted_wrt (\<lambda>x y. row_ordinal x < row_ordinal y) (db_rows db)"
    using assms by (simp add: sql_log_inv_def sql_inv_def sorted_wrt_map)
  then have "sorted_wrt (\<lambda>x y. nat (row_ordinal x) < nat (row_ordinal y)) (db_rows db)"
    by (rule sorted_wrt_mono_rel [rotated]) (use sql_ordinal_bounds [OF assms] in force)
  then show ?thesis by (simp add: sql_clog_def row_cursored_def sorted_wrt_map comp_def)
qed

lemma sql_clog_bounds:
  "sql_log_inv dec db \<Longrightarrow> c \<in> set (sql_clog dec db) \<Longrightarrow> 0 < cursor c \<and> cursor c < 2 ^ 63"
  using sql_ordinal_bounds [of dec db] by (force simp: sql_clog_def row_cursored_def)

lemma sql_latest_facts:
  assumes "sql_log_inv dec db" "sql_latest_fleet_cursor db = (r, db')"
  shows "sql_log_inv dec db'" "sql_clog dec db' = sql_clog dec db"
    "r = Inr m \<Longrightarrow> m = last_cursor (sql_clog dec db)"
proof -
  obtain f db1 where 1: "statement db = (f, db1)" by fastforce
  note st = statement_facts(1,2) [OF 1] statement_log [OF 1]
  show "sql_log_inv dec db'" "sql_clog dec db' = sql_clog dec db"
    using assms 1 st by (cases f; auto simp: sql_latest_fleet_cursor_def)+
  assume r: "r = Inr m"
  let ?os = "map row_ordinal (db_rows db)"
  have "max_or_zero ?os = int (foldr max (map nat ?os) 0)"
    using sql_ordinal_bounds [OF assms(1)] by (intro max_or_zero_nat) force
  also have "map nat ?os = map cursor (sql_clog dec db)"
    by (simp add: sql_clog_def row_cursored_def)
  also have "foldr max (map cursor (sql_clog dec db)) 0 = last_cursor (sql_clog dec db)"
    using foldr_max_sorted [OF sql_clog_sorted [OF assms(1)]]
    by (simp add: last_cursor_def last_map)
  finally have "max_or_zero ?os = int (last_cursor (sql_clog dec db))" .
  moreover have "last_cursor (sql_clog dec db) < 2 ^ 63"
    using sql_clog_bounds [OF assms(1), of "last (sql_clog dec db)"] by (simp add: last_cursor_def)
  ultimately have "as_u64 (max_or_zero ?os) = last_cursor (sql_clog dec db)"
    by (simp add: as_u64_small)
  then show "m = last_cursor (sql_clog dec db)"
    using assms(2) 1 st r by (cases f) (auto simp: sql_latest_fleet_cursor_def)
qed

lemma next_above_cursor:
  assumes "sql_log_inv dec db"
  shows "last_cursor (sql_clog dec db) < nat (db_next db)"
proof (cases "db_rows db = []")
  case False
  then have "row_ordinal (last (db_rows db)) < db_next db" "1 \<le> row_ordinal (last (db_rows db))"
    using assms by (auto simp: sql_log_inv_def sql_inv_def list_all_iff)
  then show ?thesis
    using False by (simp add: last_cursor_def sql_clog_def last_map row_cursored_def)
qed (use assms in \<open>auto simp: last_cursor_def sql_clog_def sql_log_inv_def sql_inv_def\<close>)

lemma statement_next:
  assumes "sql_latest_fleet_cursor db = (Inr c, db0)"
  shows "db_next db0 = db_next db"
  using assms statement_facts(2) [of db]
  by (auto simp: sql_latest_fleet_cursor_def split: prod.splits option.splits)

lemma sorted_wrt_less_last:
  "sorted_wrt (<) xs \<Longrightarrow> x \<in> set xs \<Longrightarrow> x \<le> last xs" for xs :: "nat list"
  by (induction xs) (auto intro: less_imp_le)

lemma pg_replay_fleet_eq: "n < 2 ^ 63 \<Longrightarrow> pg_replay_fleet dec db a n = sql_replay_fleet dec db a n"
  by (simp add: pg_replay_fleet_def as_i64_small)

lemma pg_replay_fleet_frame:
  assumes "sql_log_inv dec db" "pg_replay_fleet dec db a n = (r, db')"
  shows "sql_log_inv dec db'" "sql_clog dec db' = sql_clog dec db"
proof -
  obtain f db1 where 1: "statement db = (f, db1)" by fastforce
  show "sql_log_inv dec db'" "sql_clog dec db' = sql_clog dec db"
    using assms 1 statement_log [OF 1] sql_replay_fleet_facts(1,2)
    by (auto simp: pg_replay_fleet_def split: if_splits)
qed

lemma sql_fleet_log:
  assumes rf: "st_replay_fleet ops = sql_replay_fleet dec \<or> st_replay_fleet ops = pg_replay_fleet dec"
    and lt: "st_latest_fleet_cursor ops = sql_latest_fleet_cursor"
  shows "fleet_log ops (sql_clog dec) (sql_log_inv dec)"
proof (unfold_locales, goal_cases)
  case (1 s)
  then show ?case by (rule sql_clog_sorted)
next
  case (2 s c)
  then show ?case by (rule sql_clog_bounds)
next
  case (3 s a n cs s')
  from rf have "sql_replay_fleet dec s a n = (Inr cs, s')"
    using 3 pg_replay_fleet_eq by auto
  then show ?case using sql_replay_fleet_facts(3) 3(1-3) by blast
next
  case (4 s a n r s')
  from rf show ?case
  proof
    assume "st_replay_fleet ops = sql_replay_fleet dec"
    then show ?thesis using sql_replay_fleet_facts(1,2) 4 by metis
  next
    assume "st_replay_fleet ops = pg_replay_fleet dec"
    then show ?thesis using pg_replay_fleet_frame 4 by metis
  qed
next
  case (5 s m s')
  then show ?case using sql_latest_facts(3) unfolding lt by blast
next
  case (6 s r s')
  then show ?case using sql_latest_facts(1,2) unfolding lt by blast
qed

interpretation sqlite_log: fleet_log "sqlite_ops fsum enc dec" "sql_clog dec" "sql_log_inv dec"
  for fsum enc dec
  by (rule sql_fleet_log) (simp_all add: sqlite_ops_def)

interpretation postgres_log: fleet_log "pg_ops fsum enc dec" "sql_clog dec" "sql_log_inv dec"
  for fsum enc dec
  by (rule sql_fleet_log) (simp_all add: pg_ops_def)

section \<open>Properties\<close>

text \<open>
  Pruning keeps the cursors of the SQL stores: after any prune, and an append that follows it, a
  client that resumes from the newest cursor it had seen receives exactly the appended event.
\<close>

theorem sql_prune_keeps_cursors:
  assumes inv: "sql_log_inv dec db"
    and latest: "sql_latest_fleet_cursor db = (Inr c, db0)"
    and prune: "sql_prune db0 t = (Inr m, db1)"
    and app: "storable enc dec e" "sqlite_append enc db1 e = (Inr (), db2)" "db_next db2 \<le> 2 ^ 63"
    and resume: "sql_replay_fleet dec db2 c limit = (Inr cs, db3)" "0 < limit" "limit < 2 ^ 63"
  shows "map cur_event cs = [e]"
proof -
  note l = sql_latest_facts [OF inv latest]
  have i0: "sql_inv dec db0" using l(1) by (simp add: sql_log_inv_def)
  note p = sql_prune_facts [OF i0 prune]
  obtain f db' where 1: "statement db1 = (f, db')" by fastforce
  note st = statement_facts(1,2) [OF 1]
  have db2: "db_rows db2 = db_rows db1 @ [to_row enc e (db_next db1)]"
    using app(2) 1 st by (cases f) (auto simp: sqlite_append_def split: if_splits)
  have i2: "sql_log_inv dec db2"
    using append_contract(1) [of "sqlite_append enc", OF _ p(1) app(1,2)] app(3)
    by (simp add: sql_log_inv_def)
  have c: "c = last_cursor (sql_clog dec db)" "c < 2 ^ 63"
    using l(3) sql_clog_bounds [OF inv, of "last (sql_clog dec db)"] by (auto simp: last_cursor_def)
  have "cursor x \<le> c" if "x \<in> set (sql_clog dec db)" for x
    using sorted_wrt_less_last [OF sql_clog_sorted [OF inv]] that c(1)
    by (force simp: last_cursor_def last_map)
  then have "cursor (row_cursored dec r) \<le> c" if "r \<in> set (db_rows db0)" for r
    using that unfolding l(2) [symmetric] by (simp add: sql_clog_def)
  then have old: "row_ordinal r \<le> int c" if "r \<in> set (db_rows db1)" for r
    using that p(4) by (force simp: row_cursored_def)
  have "c < nat (db_next db1)"
    using next_above_cursor [OF inv] c(1) p(5) statement_next [OF latest] by simp
  then have "after_cursor (sql_clog dec db2) c = [row_cursored dec (to_row enc e (db_next db1))]"
    using old by (force simp: after_cursor_def sql_clog_def db2 row_cursored_def to_row_def filter_empty_conv)
  then show ?thesis
    using sql_replay_fleet_facts(3) [OF i2 resume(1) c(2) resume(3)] resume(2)
    by (simp add: row_cursored_def row_event_to_row [OF app(1)])
qed

theorem sql_prune_keeps_cursors_witness:
  "\<exists>cs db3. sql_replay_fleet (\<lambda>_. Inr AgentGone)
       \<lparr>db_rows = [to_row (\<lambda>_. [])
          \<lparr>seq = 2, ts = ''9'', ev_repo = ''r'', ev_agent = ''a'', kind = AgentGone, actor = None,
           on_behalf_of = None\<rparr> 2], db_next = 3, db_faults = []\<rparr> 1 10 = (Inr cs, db3) \<and>
     length cs = 1"
proof -
  let ?e = "\<lambda>n t. \<lparr>seq = n, ts = t, ev_repo = ''r'', ev_agent = ''a'', kind = AgentGone,
    actor = None, on_behalf_of = None\<rparr>"
  let ?enc = "\<lambda>_ :: event_kind. [] :: string"
  let ?dec = "\<lambda>_ :: string. Inr AgentGone :: string + event_kind"
  let ?db = "\<lparr>db_rows = [to_row ?enc (?e 1 ''1'') 1], db_next = 2, db_faults = []\<rparr>"
  let ?db1 = "\<lparr>db_rows = [], db_next = 2, db_faults = []\<rparr>"
  let ?db2 = "\<lparr>db_rows = [to_row ?enc (?e 2 ''9'') 2], db_next = 3, db_faults = []\<rparr>"
  let ?cs = "[\<lparr>cursor = 2, cur_event = ?e 2 ''9''\<rparr>]"
  note ev = to_row_def as_i64_def as_u64_def Let_def stream_key_def stream_key_for_def
  have 1: "sql_log_inv ?dec ?db"
    by (simp add: sql_log_inv_def sql_inv_def row_ok_def ev)
  have 2: "sql_latest_fleet_cursor ?db = (Inr 1, ?db)"
    by (simp add: sql_latest_fleet_cursor_def statement_def max_or_zero_def ev)
  have 3: "sql_prune ?db ''5'' = (Inr 1, ?db1)"
    by (simp add: sql_prune_def statement_def ev)
  have 4: "storable ?enc ?dec (?e 2 ''9'')" by (simp add: storable_def)
  have 5: "sqlite_append ?enc ?db1 (?e 2 ''9'') = (Inr (), ?db2)"
    by (simp add: sqlite_append_def statement_def key_taken_def)
  have 6: "sql_replay_fleet ?dec ?db2 1 10 = (Inr ?cs, ?db2)"
    by (simp add: sql_replay_fleet_def statement_def sql_limit_def of_cursor_row_def of_row_def ev)
  have "map cur_event ?cs = [?e 2 ''9'']"
    by (rule sql_prune_keeps_cursors [OF 1 2 3 4 5 _ 6]) simp_all
  with 6 show ?thesis by (metis length_map length_Cons list.size(3) One_nat_def)
qed

end
