(* ===== verification/Jsonl_Store.thy ===== *)
theory Jsonl_Store
  imports Event_Store
begin

text \<open>
  \<open>JsonlStore\<close> (\<open>core/src/store.rs\<close>): one append-only file of JSON lines. The file is its bytes,
  absent until the first append. \<open>to_str\<close> and \<open>from_str\<close> stand for \<open>serde_json\<close> on a
  \<open>FleetEvent\<close>. Every system call takes the next entry of a schedule of faults: it succeeds, it
  fails, or, for a write, it fails after some of the bytes reached the file.
\<close>

datatype io_fault = Fail string | Tear nat string

fun fault_text :: "io_fault \<Rightarrow> string" where
  "fault_text (Fail e) = e"
| "fault_text (Tear _ e) = e"

record jsonl_store =
  jl_file :: "string option"
  jl_poisoned :: bool
  jl_faults :: "io_fault option list"

definition syscall :: "jsonl_store \<Rightarrow> io_fault option \<times> jsonl_store" where
  "syscall s =
     (case jl_faults s of
        [] \<Rightarrow> (None, s)
      | f # fs \<Rightarrow> (f, s\<lparr>jl_faults := fs\<rparr>))"

definition LF :: char where "LF = CHR 0x0A"

section \<open>Operations\<close>

text \<open>The loop of \<open>read_all\<close>: a line that is not UTF-8 is an error, one that does not parse is skipped.\<close>

fun parse_lines ::
  "(string \<Rightarrow> fleet_event option) \<Rightarrow> string list \<Rightarrow> fleet_event list result" where
  "parse_lines from_str [] = Inr []"
| "parse_lines from_str (l # ls) =
     (if \<not> utf8_valid l then Inl (IoError ''stream did not contain valid UTF-8'')
      else if trim l = [] then parse_lines from_str ls
      else case from_str l of
             Some ev \<Rightarrow> rbind (parse_lines from_str ls) (\<lambda>es. Inr (ev # es))
           | None \<Rightarrow> parse_lines from_str ls)"

definition read_all ::
  "(string \<Rightarrow> fleet_event option) \<Rightarrow> jsonl_store \<Rightarrow> fleet_event list result \<times> jsonl_store" where
  "read_all from_str s =
     (case syscall s of
        (Some f, s) \<Rightarrow> (Inl (IoError (fault_text f)), s)
      | (None, s) \<Rightarrow>
          (case jl_file s of
             None \<Rightarrow> (Inr [], s)
           | Some content \<Rightarrow>
               (case syscall s of
                  (Some f, s) \<Rightarrow> (Inl (IoError (fault_text f)), s)
                | (None, s) \<Rightarrow> (parse_lines from_str (str_lines content), s))))"

text \<open>\<open>open\<close> with \<open>create\<close> and \<open>append\<close>: the file exists afterwards, its content is kept.\<close>

definition open_append :: "jsonl_store \<Rightarrow> io_fault option \<times> jsonl_store" where
  "open_append s =
     (case syscall s of
        (Some f, s) \<Rightarrow> (Some f, s)
      | (None, s) \<Rightarrow>
          (None, s\<lparr>jl_file := Some (case jl_file s of None \<Rightarrow> [] | Some c \<Rightarrow> c)\<rparr>))"

text \<open>\<open>write_all\<close> at the end of the file.\<close>

definition write_all :: "jsonl_store \<Rightarrow> string \<Rightarrow> io_fault option \<times> jsonl_store" where
  "write_all s bytes =
     (let old = (case jl_file s of None \<Rightarrow> [] | Some c \<Rightarrow> c)
      in case syscall s of
           (None, s) \<Rightarrow> (None, s\<lparr>jl_file := Some (old @ bytes)\<rparr>)
         | (Some (Fail e), s) \<Rightarrow> (Some (Fail e), s)
         | (Some (Tear n e), s) \<Rightarrow>
             (Some (Tear n e), s\<lparr>jl_file := Some (old @ take n bytes)\<rparr>))"

definition poisoned_error :: core_error where
  "poisoned_error = StoreError ''event store write lock poisoned''"

definition jsonl_append ::
  "(fleet_event \<Rightarrow> string) \<Rightarrow> jsonl_store \<Rightarrow> fleet_event \<Rightarrow> unit result \<times> jsonl_store" where
  "jsonl_append to_str s event =
     (let line = to_str event @ [LF]
      in if jl_poisoned s then (Inl poisoned_error, s)
         else case open_append s of
           (Some f, s) \<Rightarrow> (Inl (IoError (fault_text f)), s)
         | (None, s) \<Rightarrow>
             (case write_all s line of
                (Some f, s) \<Rightarrow> (Inl (IoError (fault_text f)), s)
              | (None, s) \<Rightarrow> (Inr (), s)))"

definition jsonl_replay ::
  "(string \<Rightarrow> fleet_event option) \<Rightarrow> jsonl_store \<Rightarrow> string \<Rightarrow> nat \<Rightarrow>
     fleet_event list result \<times> jsonl_store" where
  "jsonl_replay from_str s k from_seq =
     (case read_all from_str s of
        (r, s) \<Rightarrow>
          (rbind r (\<lambda>es. Inr (sort_key seq
             (filter (\<lambda>e. stream_key e = k \<and> from_seq \<le> seq e) es))), s))"

text \<open>The cursor is the 1-based position among the events of the file.\<close>

definition enumerate_events :: "fleet_event list \<Rightarrow> cursored_event list" where
  "enumerate_events es =
     map (\<lambda>(i, e). \<lparr>cursor = i + 1, cur_event = e\<rparr>) (enumerate 0 es)"

definition jsonl_replay_fleet ::
  "(string \<Rightarrow> fleet_event option) \<Rightarrow> jsonl_store \<Rightarrow> nat \<Rightarrow> nat \<Rightarrow>
     cursored_event list result \<times> jsonl_store" where
  "jsonl_replay_fleet from_str s after limit =
     (case read_all from_str s of
        (r, s) \<Rightarrow>
          (rbind r (\<lambda>es. Inr (take limit
             (filter (\<lambda>c. after < cursor c) (enumerate_events es)))), s))"

definition jsonl_latest_fleet_cursor ::
  "(string \<Rightarrow> fleet_event option) \<Rightarrow> jsonl_store \<Rightarrow> nat result \<times> jsonl_store" where
  "jsonl_latest_fleet_cursor from_str s =
     (case read_all from_str s of (r, s) \<Rightarrow> (rbind r (\<lambda>es. Inr (length es)), s))"

definition jsonl_high_water ::
  "(string \<Rightarrow> fleet_event option) \<Rightarrow> jsonl_store \<Rightarrow> string \<Rightarrow> nat result \<times> jsonl_store" where
  "jsonl_high_water from_str s k =
     (case read_all from_str s of
        (r, s) \<Rightarrow>
          (rbind r (\<lambda>es.
             let seqs = map seq (filter (\<lambda>e. stream_key e = k) es)
             in Inr (if seqs = [] then 0 else fold max (tl seqs) (hd seqs))), s))"

definition jsonl_writable :: "jsonl_store \<Rightarrow> bool \<times> jsonl_store" where
  "jsonl_writable s = (case open_append s of (f, s) \<Rightarrow> (f = None, s))"

text \<open>
  \<open>prune\<close> rewrites the file with \<open>std::fs::write\<close>, which truncates it first and then writes: a
  fault between the two leaves the file empty.
\<close>

definition fs_write :: "jsonl_store \<Rightarrow> string \<Rightarrow> io_fault option \<times> jsonl_store" where
  "fs_write s bytes =
     (case syscall s of
        (Some f, s) \<Rightarrow> (Some f, s)
      | (None, s) \<Rightarrow> write_all (s\<lparr>jl_file := Some []\<rparr>) bytes)"

definition jsonl_prune ::
  "(fleet_event \<Rightarrow> string) \<Rightarrow> (string \<Rightarrow> fleet_event option) \<Rightarrow> jsonl_store \<Rightarrow> string \<Rightarrow>
     nat result \<times> jsonl_store" where
  "jsonl_prune to_str from_str s before_ts =
     (if jl_poisoned s then (Inl poisoned_error, s)
      else case read_all from_str s of
        (Inl e, s) \<Rightarrow> (Inl e, s)
      | (Inr es, s) \<Rightarrow>
          (let kept = filter (\<lambda>e. before_ts \<le> ts e) es;
               removed = length es - length kept
           in if removed = 0 then (Inr 0, s)
              else case fs_write s (concat (map (\<lambda>e. to_str e @ [LF]) kept)) of
                (Some f, s) \<Rightarrow> (Inl (IoError (fault_text f)), s)
              | (None, s) \<Rightarrow> (Inr removed, s)))"

definition jsonl_usage ::
  "(f64 \<Rightarrow> f64 \<Rightarrow> f64) \<Rightarrow> (string \<Rightarrow> fleet_event option) \<Rightarrow> jsonl_store \<Rightarrow> string \<Rightarrow> string \<Rightarrow>
     usage_row list result \<times> jsonl_store" where
  "jsonl_usage fadd from_str s since until' =
     (case read_all from_str s of
        (r, s) \<Rightarrow>
          (rbind r (\<lambda>es. Inr (aggregate_usage fadd
             (filter (\<lambda>e. since \<le> ts e \<and> ts e < until') es))), s))"

definition jsonl_ops ::
  "(f64 \<Rightarrow> f64 \<Rightarrow> f64) \<Rightarrow> (fleet_event \<Rightarrow> string) \<Rightarrow> (string \<Rightarrow> fleet_event option) \<Rightarrow>
     jsonl_store store_ops" where
  "jsonl_ops fadd to_str from_str =
     \<lparr>st_append = jsonl_append to_str,
      st_replay = jsonl_replay from_str,
      st_replay_fleet = jsonl_replay_fleet from_str,
      st_latest_fleet_cursor = jsonl_latest_fleet_cursor from_str,
      st_high_water = jsonl_high_water from_str,
      st_writable = jsonl_writable,
      st_prune = jsonl_prune to_str from_str,
      st_usage = jsonl_usage fadd from_str\<rparr>"

text \<open>
  \<open>prune_store_older_than\<close>: the bound is the clock less the age, in the text form the events
  carry. An age \<open>chrono\<close> cannot represent counts as zero. Ages are in nanoseconds; \<open>now_minus\<close> stands
  for \<open>(Utc::now() - d).to_rfc3339()\<close>, which panics (\<open>None\<close>) below the calendar's range.
\<close>

definition duration_from_std :: "nat \<Rightarrow> nat option" where
  "duration_from_std ns = (if ns \<le> (2 ^ 63 - 1) * 1000000 then Some ns else None)"

definition prune_store_older_than ::
  "(nat \<Rightarrow> string option) \<Rightarrow> 's store_ops \<Rightarrow> 's \<Rightarrow> nat \<Rightarrow> (nat result \<times> 's) option" where
  "prune_store_older_than now_minus ops s max_age =
     map_option (st_prune ops s)
       (now_minus (case duration_from_std max_age of Some d \<Rightarrow> d | None \<Rightarrow> 0))"

section \<open>The invariant and the contract\<close>

text \<open>
  An intact file is a sequence of whole lines of valid UTF-8, and no torn write is to come. An
  event is stored losslessly when its line reads back as the event.
\<close>

definition whole_lines :: "string \<Rightarrow> bool" where
  "whole_lines c \<longleftrightarrow> (c = [] \<or> last c = LF) \<and> list_all utf8_valid (str_lines c)"

definition jl_content :: "jsonl_store \<Rightarrow> string" where
  "jl_content s = (case jl_file s of None \<Rightarrow> [] | Some c \<Rightarrow> c)"

fun is_tear :: "io_fault option \<Rightarrow> bool" where
  "is_tear (Some (Tear _ _)) = True"
| "is_tear _ = False"

definition line_ok ::
  "(fleet_event \<Rightarrow> string) \<Rightarrow> (string \<Rightarrow> fleet_event option) \<Rightarrow> fleet_event \<Rightarrow> bool" where
  "line_ok to_str from_str e \<longleftrightarrow>
     LF \<notin> set (to_str e) \<and> utf8_valid (strip_cr (to_str e)) \<and> trim (strip_cr (to_str e)) \<noteq> [] \<and>
     from_str (strip_cr (to_str e)) = Some e"

definition file_events :: "(string \<Rightarrow> fleet_event option) \<Rightarrow> string \<Rightarrow> fleet_event list" where
  "file_events from_str c =
     concat (map (\<lambda>l. if trim l = [] then [] else case from_str l of None \<Rightarrow> [] | Some e \<Rightarrow> [e])
                 (str_lines c))"

definition jl_hist :: "(string \<Rightarrow> fleet_event option) \<Rightarrow> jsonl_store \<Rightarrow> fleet_event list" where
  "jl_hist from_str s = file_events from_str (jl_content s)"

definition jl_inv ::
  "(fleet_event \<Rightarrow> string) \<Rightarrow> (string \<Rightarrow> fleet_event option) \<Rightarrow> jsonl_store \<Rightarrow> bool" where
  "jl_inv to_str from_str s \<longleftrightarrow>
     whole_lines (jl_content s) \<and> \<not> list_ex is_tear (jl_faults s) \<and>
     list_all (line_ok to_str from_str) (jl_hist from_str s)"

lemma parse_lines_valid:
  "list_all utf8_valid ls \<Longrightarrow>
     parse_lines from_str ls =
       Inr (concat (map (\<lambda>l. if trim l = [] then [] else case from_str l of None \<Rightarrow> [] | Some e \<Rightarrow> [e]) ls))"
  by (induction ls) (auto split: option.splits)

lemma parse_lines_invalid:
  "\<not> list_all utf8_valid ls \<Longrightarrow> \<exists>y. parse_lines from_str ls = Inl y"
  by (induction ls) (auto split: option.splits)

lemma syscall_facts:
  assumes "syscall s = (f, s')"
  shows "jl_file s' = jl_file s" "jl_poisoned s' = jl_poisoned s"
    "\<not> list_ex is_tear (jl_faults s) \<Longrightarrow> \<not> list_ex is_tear (jl_faults s') \<and> \<not> is_tear f"
  using assms by (auto simp: syscall_def split: list.splits)

lemma is_tear_None [simp]: "\<not> is_tear None"
  by simp

lemma jl_inv_cong:
  "jl_content s' = jl_content s \<Longrightarrow> \<not> list_ex is_tear (jl_faults s') \<Longrightarrow>
     jl_inv to_str from_str s \<Longrightarrow>
     jl_inv to_str from_str s' \<and> jl_hist from_str s' = jl_hist from_str s"
  by (simp add: jl_inv_def jl_hist_def)

lemma syscall_inv:
  assumes "jl_inv to_str from_str s" "syscall s = (f, s')"
  shows "jl_inv to_str from_str s'" "jl_hist from_str s' = jl_hist from_str s"
    "jl_content s' = jl_content s" "\<not> is_tear f" "jl_file s' = jl_file s"
  using jl_inv_cong [of s' s to_str from_str] syscall_facts [OF assms(2)] assms(1)
  by (auto simp: jl_content_def jl_inv_def)

lemma read_all_inv:
  assumes "jl_inv to_str from_str s" "read_all from_str s = (r, s')"
  shows "jl_inv to_str from_str s'" "jl_content s' = jl_content s"
    "jl_hist from_str s' = jl_hist from_str s" "r = Inr es \<Longrightarrow> es = jl_hist from_str s"
    "r \<noteq> Inl SeqConflict"
proof -
  obtain f s1 where 1: "syscall s = (f, s1)" by fastforce
  obtain g s2 where 2: "syscall s1 = (g, s2)" by fastforce
  note i1 = syscall_inv [OF assms(1) 1]
  note i2 = syscall_inv [OF i1(1) 2]
  have "list_all utf8_valid (str_lines (jl_content s))"
    using assms(1) by (simp add: jl_inv_def whole_lines_def)
  note p = parse_lines_valid [OF this, of from_str, folded file_events_def]
  have "jl_inv to_str from_str s' \<and> jl_content s' = jl_content s \<and>
    jl_hist from_str s' = jl_hist from_str s \<and> (r = Inr es \<longrightarrow> es = jl_hist from_str s) \<and>
    r \<noteq> Inl SeqConflict"
    using assms(2) 1 2 i1 i2 p
    by (auto simp: read_all_def jl_content_def jl_hist_def file_events_def split: option.splits)
  then show "jl_inv to_str from_str s'" "jl_content s' = jl_content s"
    "jl_hist from_str s' = jl_hist from_str s" "r = Inr es \<Longrightarrow> es = jl_hist from_str s"
    "r \<noteq> Inl SeqConflict"
    by auto
qed

lemma open_append_inv:
  assumes "jl_inv to_str from_str s" "open_append s = (f, s')"
  shows "jl_inv to_str from_str s'" "jl_content s' = jl_content s"
    "jl_hist from_str s' = jl_hist from_str s"
proof -
  obtain f' s1 where 1: "syscall s = (f', s1)" by fastforce
  note i1 = syscall_inv [OF assms(1) 1]
  have "jl_content s' = jl_content s \<and> \<not> list_ex is_tear (jl_faults s')"
    using assms(2) 1 i1 by (auto simp: open_append_def jl_content_def jl_inv_def split: option.splits)
  then show "jl_inv to_str from_str s'" "jl_content s' = jl_content s"
    "jl_hist from_str s' = jl_hist from_str s"
    using jl_inv_cong assms(1) by auto
qed

lemma file_events_snoc:
  assumes "c = [] \<or> last c = LF" "line_ok to_str from_str e"
  shows "file_events from_str (c @ to_str e @ [LF]) = file_events from_str c @ [e]"
    and "whole_lines c \<Longrightarrow> whole_lines (c @ to_str e @ [LF])"
  using assms str_lines_snoc [of c "to_str e"]
  by (auto simp: file_events_def line_ok_def LF_def whole_lines_def)

lemma jsonl_append_inv:
  assumes "jl_inv to_str from_str s" "line_ok to_str from_str e"
    and "jsonl_append to_str s e = (r, s')"
  shows "jl_inv to_str from_str s'" "r \<noteq> Inl SeqConflict"
    "r = Inr u \<Longrightarrow> jl_hist from_str s' = jl_hist from_str s @ [e]"
    "r = Inl x \<Longrightarrow> jl_hist from_str s' = jl_hist from_str s"
proof -
  obtain f s1 where 1: "open_append s = (f, s1)" by fastforce
  obtain g s2 where 2: "syscall s1 = (g, s2)" by fastforce
  note i1 = open_append_inv [OF assms(1) 1]
  note i2 = syscall_inv [OF i1(1) 2]
  have wl: "whole_lines (jl_content s)" using assms(1) by (simp add: jl_inv_def)
  then have c: "jl_content s = [] \<or> last (jl_content s) = LF" by (simp add: whole_lines_def)
  note snoc = file_events_snoc(1) [OF c assms(2)] file_events_snoc(2) [OF c assms(2) wl]
  have w: "write_all s1 (to_str e @ [LF]) =
    (case g of None \<Rightarrow> (None, s2\<lparr>jl_file := Some (jl_content s @ to_str e @ [LF])\<rparr>)
      | Some (Fail x) \<Rightarrow> (Some (Fail x), s2)
      | Some (Tear n x) \<Rightarrow> (Some (Tear n x), s2\<lparr>jl_file := Some (jl_content s @ take n (to_str e @ [LF]))\<rparr>))"
    using 2 i1(2)
    by (cases g) (simp_all add: write_all_def jl_content_def Let_def split: io_fault.split)
  have "jl_inv to_str from_str s' \<and> r \<noteq> Inl SeqConflict \<and>
    (r = Inr u \<longrightarrow> jl_hist from_str s' = jl_hist from_str s @ [e]) \<and>
    (r = Inl x \<longrightarrow> jl_hist from_str s' = jl_hist from_str s)"
  proof (cases "jl_poisoned s \<or> f \<noteq> None")
    case True
    then show ?thesis
      using assms(1,3) 1 i1
      by (auto simp: jsonl_append_def Let_def poisoned_error_def split: if_splits)
  next
    case False
    then have eq: "jsonl_append to_str s e =
      (case write_all s1 (to_str e @ [LF]) of
         (Some f, s) \<Rightarrow> (Inl (IoError (fault_text f)), s) | (None, s) \<Rightarrow> (Inr (), s))"
      using 1 by (simp add: jsonl_append_def)
    show ?thesis
    proof (cases g)
      case None
      then have "s' = s2\<lparr>jl_file := Some (jl_content s @ to_str e @ [LF])\<rparr>" "r = Inr ()"
        using eq w assms(3) by auto
      then show ?thesis
        using i2 i1 snoc assms(2) by (simp add: jl_inv_def jl_hist_def jl_content_def)
    next
      case (Some h)
      then obtain t where "h = Fail t" using i2(4) by (cases h) auto
      then have "s' = s2" "r = Inl (IoError t)"
        using eq w assms(3) Some by auto
      then show ?thesis using i2 i1 by auto
    qed
  qed
  then show "jl_inv to_str from_str s'" "r \<noteq> Inl SeqConflict"
    "r = Inr u \<Longrightarrow> jl_hist from_str s' = jl_hist from_str s @ [e]"
    "r = Inl x \<Longrightarrow> jl_hist from_str s' = jl_hist from_str s"
    by auto
qed

text \<open>A file made of the lines of some events holds exactly these events.\<close>

lemma file_events_concat:
  "list_all (line_ok to_str from_str) es \<Longrightarrow>
     file_events from_str (concat (map (\<lambda>e. to_str e @ [LF]) es)) = es \<and>
     whole_lines (concat (map (\<lambda>e. to_str e @ [LF]) es))"
proof (induction es rule: rev_induct)
  case Nil
  then show ?case by (simp add: file_events_def whole_lines_def)
next
  case (snoc e es)
  then have "line_ok to_str from_str e" "whole_lines (concat (map (\<lambda>e. to_str e @ [LF]) es))"
    by simp_all
  with snoc file_events_snoc [of "concat (map (\<lambda>e. to_str e @ [LF]) es)" to_str from_str e]
  show ?case by (simp add: whole_lines_def)
qed

lemma length_filter_not: "length xs - length (filter P xs) = length (filter (\<lambda>x. \<not> P x) xs)"
  using sum_length_filter_compl [of P xs] by linarith

lemma jsonl_prune_ok:
  assumes "jl_inv to_str from_str s" "jsonl_prune to_str from_str s t = (Inr m, s')"
  shows "jl_hist from_str s' = filter (\<lambda>e. t \<le> ts e) (jl_hist from_str s)"
    "jl_inv to_str from_str s'" "m = length (filter (\<lambda>e. ts e < t) (jl_hist from_str s))"
proof -
  let ?H = "jl_hist from_str s"
  let ?kept = "filter (\<lambda>e. t \<le> ts e) ?H"
  let ?body = "concat (map (\<lambda>e. to_str e @ [LF]) ?kept)"
  obtain r s1 where 1: "read_all from_str s = (r, s1)" by fastforce
  with assms(2) obtain es where es: "r = Inr es" and np: "\<not> jl_poisoned s"
    by (cases r) (auto simp: jsonl_prune_def split: if_splits)
  note i1 = read_all_inv [OF assms(1) 1]
  have esH: "es = ?H" using i1(4) es by simp
  have removed: "length ?H - length ?kept = length (filter (\<lambda>e. ts e < t) ?H)"
    by (simp add: length_filter_not not_le)
  have ok: "list_all (line_ok to_str from_str) ?kept"
    using assms(1) by (auto simp: jl_inv_def list_all_iff)
  have "jl_hist from_str s' = ?kept \<and> jl_inv to_str from_str s' \<and>
    m = length (filter (\<lambda>e. ts e < t) ?H)"
  proof (cases "length ?H - length ?kept = 0")
    case True
    then have "s' = s1" "m = 0"
      using assms(2) 1 es esH np by (auto simp: jsonl_prune_def Let_def)
    moreover have "?kept = ?H"
      using True removed by (simp add: filter_id_conv filter_empty_conv not_less)
    ultimately show ?thesis using i1 True removed by simp
  next
    case False
    then have "fs_write s1 ?body = (None, s')" "m = length ?H - length ?kept"
      using assms(2) 1 es esH np
      by (auto simp: jsonl_prune_def Let_def split: prod.splits option.splits)
    moreover obtain f s2 where 2: "syscall s1 = (f, s2)" by fastforce
    moreover obtain g s3 where 3: "syscall (s2\<lparr>jl_file := Some []\<rparr>) = (g, s3)" by fastforce
    ultimately have "s' = s3\<lparr>jl_file := Some ?body\<rparr>"
      by (auto simp: fs_write_def write_all_def Let_def split: option.splits io_fault.splits)
    moreover have "\<not> list_ex is_tear (jl_faults s3)"
      using syscall_inv [OF i1(1) 2] syscall_facts [OF 3] by (simp add: jl_inv_def)
    ultimately show ?thesis
      using file_events_concat [OF ok] ok removed \<open>m = _\<close>
      by (simp add: jl_inv_def jl_hist_def jl_content_def)
  qed
  then show "jl_hist from_str s' = ?kept" "jl_inv to_str from_str s'"
    "m = length (filter (\<lambda>e. ts e < t) ?H)"
    by auto
qed

lemma fold_max_foldr: "fold max xs a = max a (foldr max xs (0 :: nat))"
  by (induction xs arbitrary: a) auto

lemma fold_max_stream:
  "(let seqs = map seq (filter (\<lambda>e. stream_key e = k) es)
    in if seqs = [] then 0 else fold max (tl seqs) (hd seqs)) = stream_max es k"
  by (cases "map seq (filter (\<lambda>e. stream_key e = k) es)")
     (auto simp: stream_max_def fold_max_foldr)

lemmas jsonl_op_defs = jsonl_ops_def jsonl_replay_def jsonl_high_water_def jsonl_writable_def
  jsonl_replay_fleet_def jsonl_latest_fleet_cursor_def

interpretation jsonl: event_store "jsonl_ops fadd to_str from_str" "jl_hist from_str"
  "jl_inv to_str from_str" "line_ok to_str from_str" for fadd to_str from_str
proof (unfold_locales, goal_cases)
  case (1 s e u s')
  then show ?case using jsonl_append_inv by (simp add: jsonl_ops_def)
next
  case (2 s e x s')
  then show ?case using jsonl_append_inv by (simp add: jsonl_ops_def)
next
  case (3 s e s')
  then show ?case using jsonl_append_inv(2) by (fastforce simp: jsonl_ops_def)
next
  case (4 s n k es s')
  obtain r s1 where 1: "read_all from_str s = (r, s1)" by fastforce
  with 4 read_all_inv [OF 4(1) 1] show ?case
    by (cases r) (auto simp: jsonl_op_defs stream_history_def)
next
  case (5 s k n es s' e)
  obtain r s1 where 1: "read_all from_str s = (r, s1)" by fastforce
  with 5 read_all_inv [OF 5(1) 1] show ?case
    by (cases r) (auto simp: jsonl_op_defs)
next
  case (6 s k n r s')
  obtain r' s1 where 1: "read_all from_str s = (r', s1)" by fastforce
  with 6 read_all_inv [OF 6(1) 1] show ?case by (auto simp: jsonl_op_defs)
next
  case (7 s k m s')
  obtain r s1 where 1: "read_all from_str s = (r, s1)" by fastforce
  with 7 read_all_inv [OF 7(1) 1] fold_max_stream [of k] show ?case
    by (cases r) (auto simp: jsonl_op_defs Let_def)
next
  case (8 s k r s')
  obtain r' s1 where 1: "read_all from_str s = (r', s1)" by fastforce
  with 8 read_all_inv [OF 8(1) 1] show ?case by (auto simp: jsonl_op_defs)
next
  case (9 s w s')
  obtain f s1 where 1: "open_append s = (f, s1)" by fastforce
  with 9 open_append_inv [OF 9(1) 1] show ?case by (auto simp: jsonl_op_defs)
next
  case (10 s t m s')
  then show ?case using jsonl_prune_ok by (auto simp: jsonl_ops_def)
qed

section \<open>The cursor log\<close>

definition jl_clog :: "(string \<Rightarrow> fleet_event option) \<Rightarrow> jsonl_store \<Rightarrow> cursored_event list" where
  "jl_clog from_str s = enumerate_events (jl_hist from_str s)"

lemma cursors_enumerate [simp]: "map cursor (enumerate_events es) = [1..<Suc (length es)]"
proof -
  have "map cursor (enumerate_events es) = map Suc (map fst (enumerate 0 es))"
    unfolding enumerate_events_def map_map by (rule map_cong) auto
  then show ?thesis by (simp add: map_Suc_upt del: upt_Suc)
qed

lemma length_enumerate_events [simp]: "length (enumerate_events es) = length es"
  by (simp add: enumerate_events_def)

lemma last_cursor_enumerate [simp]: "last_cursor (enumerate_events es) = length es"
proof (cases "es = []")
  case False
  then have ne: "enumerate_events es \<noteq> []" by (metis length_enumerate_events length_0_conv)
  then have "cursor (last (enumerate_events es)) = last (map cursor (enumerate_events es))"
    by (rule last_map [symmetric])
  also have "\<dots> = length es" using False unfolding cursors_enumerate by (simp add: Suc_le_eq)
  finally show ?thesis using ne by (simp add: last_cursor_def)
qed (simp add: last_cursor_def enumerate_events_def)

lemma events_enumerate [simp]: "map cur_event (enumerate_events es) = es"
proof -
  have "map cur_event (enumerate_events es) = map snd (enumerate 0 es)"
    unfolding enumerate_events_def map_map by (rule map_cong) auto
  then show ?thesis by simp
qed

lemma cursor_enumerate_bounds:
  "c \<in> set (enumerate_events es) \<Longrightarrow> 0 < cursor c \<and> cursor c \<le> length es"
proof -
  assume "c \<in> set (enumerate_events es)"
  then have "cursor c \<in> set (map cursor (enumerate_events es))" unfolding set_map by (rule imageI)
  then show ?thesis by (auto simp del: upt_Suc)
qed

interpretation jsonl_log: fleet_log "jsonl_ops fadd to_str from_str" "jl_clog from_str"
  "\<lambda>s. jl_inv to_str from_str s \<and> length (jl_hist from_str s) < 2 ^ 63"
  for fadd to_str from_str
proof (unfold_locales, goal_cases)
  case (1 s)
  then show ?case by (simp add: jl_clog_def del: upt_Suc)
next
  case (2 s c)
  then show ?case using cursor_enumerate_bounds [of c "jl_hist from_str s"] by (simp add: jl_clog_def)
next
  case (3 s a n cs s')
  obtain r s1 where 1: "read_all from_str s = (r, s1)" by fastforce
  from 3 have inv: "jl_inv to_str from_str s" by simp
  from 3 read_all_inv(4) [OF inv 1] 1 show ?case
    by (cases r) (auto simp: jsonl_op_defs jl_clog_def after_cursor_def)
next
  case (4 s a n r s')
  obtain r' s1 where 1: "read_all from_str s = (r', s1)" by fastforce
  from 4 have inv: "jl_inv to_str from_str s" by simp
  from 4 read_all_inv(1,3) [OF inv 1] 1 show ?case
    by (auto simp: jsonl_op_defs jl_clog_def)
next
  case (5 s m s')
  obtain r s1 where 1: "read_all from_str s = (r, s1)" by fastforce
  from 5 have inv: "jl_inv to_str from_str s" by simp
  from 5 read_all_inv(4) [OF inv 1] 1 show ?case
    by (cases r) (auto simp: jsonl_op_defs jl_clog_def)
next
  case (6 s r s')
  obtain r' s1 where 1: "read_all from_str s = (r', s1)" by fastforce
  from 6 have inv: "jl_inv to_str from_str s" by simp
  from 6 read_all_inv(1,3) [OF inv 1] 1 show ?case
    by (auto simp: jsonl_op_defs jl_clog_def)
qed

section \<open>Properties\<close>

text \<open>
  Pruning renumbers the cursors: a client that had read the whole log resumes past the next
  event. The comment of \<open>replay_fleet\<close> calls the renumbering harmless because only pruned history
  is missed; after a prune that removed at least one event, an event appended later is skipped.
\<close>

theorem jsonl_prune_skips_new_event:
  assumes inv: "jl_inv to_str from_str s"
    and latest: "jsonl_latest_fleet_cursor from_str s = (Inr c, s0)"
    and prune: "jsonl_prune to_str from_str s0 t = (Inr m, s1)" "0 < m"
    and append: "line_ok to_str from_str e" "jsonl_append to_str s1 e = (Inr (), s2)"
    and resume: "jsonl_replay_fleet from_str s2 c limit = (Inr cs, s3)"
  shows "e \<in> set (jl_hist from_str s2) \<and> cs = []"
proof -
  obtain r s' where 1: "read_all from_str s = (r, s')" by fastforce
  with latest read_all_inv [OF inv 1]
  have c: "c = length (jl_hist from_str s)" and i0: "jl_inv to_str from_str s0"
    and h0: "jl_hist from_str s0 = jl_hist from_str s"
    by (cases r; auto simp: jsonl_latest_fleet_cursor_def)+
  note p = jsonl_prune_ok [OF i0 prune(1)]
  note a = jsonl_append_inv(1,3) [OF p(2) append]
  have "m + length (jl_hist from_str s1) = c"
    using p(1,3) c h0 sum_length_filter_compl [of "\<lambda>e. ts e < t" "jl_hist from_str s"]
    by (simp add: not_less)
  then have len: "length (jl_hist from_str s2) \<le> c"
    using prune(2) a(2) by simp
  have "filter (\<lambda>x. c < cursor x) (enumerate_events (jl_hist from_str s2)) = []"
    using cursor_enumerate_bounds [of _ "jl_hist from_str s2"] len
    by (fastforce simp: filter_empty_conv)
  moreover obtain r' s'' where 2: "read_all from_str s2 = (r', s'')" by fastforce
  ultimately show ?thesis
    using resume read_all_inv [OF a(1) 2] a(2)
    by (cases r') (auto simp: jsonl_replay_fleet_def)
qed

definition sample_event :: "nat \<Rightarrow> string \<Rightarrow> fleet_event" where
  "sample_event n t =
     \<lparr>seq = n, ts = t, ev_repo = ''r'', ev_agent = ''a'', kind = AgentGone, actor = None,
      on_behalf_of = None\<rparr>"

definition sample_to_str :: "fleet_event \<Rightarrow> string" where
  "sample_to_str e = byte (48 + seq e) # ts e"

definition sample_from_str :: "string \<Rightarrow> fleet_event option" where
  "sample_from_str l = (case l of [] \<Rightarrow> None | c # t \<Rightarrow> Some (sample_event (of_char c - 48) t))"

theorem jsonl_prune_skips_new_event_witness:
  "\<exists>s2 s3. sample_event 2 ''9'' \<in> set (jl_hist sample_from_str s2) \<and>
     jsonl_replay_fleet sample_from_str s2 1 10 = (Inr [], s3)"
proof -
  let ?s = "\<lparr>jl_file = Some (''11'' @ [LF]), jl_poisoned = False, jl_faults = []\<rparr>"
  let ?s1 = "\<lparr>jl_file = Some [], jl_poisoned = False, jl_faults = []\<rparr>"
  let ?s2 = "\<lparr>jl_file = Some (''29'' @ [LF]), jl_poisoned = False, jl_faults = []\<rparr>"
  have "jl_inv sample_to_str sample_from_str ?s" by code_simp
  moreover have "jsonl_latest_fleet_cursor sample_from_str ?s = (Inr 1, ?s)" by code_simp
  moreover have "jsonl_prune sample_to_str sample_from_str ?s ''5'' = (Inr 1, ?s1)" by code_simp
  moreover have "line_ok sample_to_str sample_from_str (sample_event 2 ''9'')" by code_simp
  moreover have "jsonl_append sample_to_str ?s1 (sample_event 2 ''9'') = (Inr (), ?s2)" by code_simp
  moreover have r: "jsonl_replay_fleet sample_from_str ?s2 1 10 = (Inr [], ?s2)" by code_simp
  ultimately have "sample_event 2 ''9'' \<in> set (jl_hist sample_from_str ?s2)"
    using jsonl_prune_skips_new_event
      [of sample_to_str sample_from_str ?s 1 ?s "''5''" 1 ?s1 "sample_event 2 ''9''" ?s2 10 "[]" ?s2]
    by simp
  with r show ?thesis by blast
qed

text \<open>
  A write torn inside a multi-byte character leaves a line that is not UTF-8, and from then on
  every read of the log fails: the tolerance of \<open>read_all\<close> covers lines that do not parse, not lines
  that do not decode.
\<close>

theorem jsonl_torn_character_breaks_replay:
  assumes content: "jl_file s = Some c" "c = [] \<or> last c = LF"
    and torn: "jl_faults s = [None, Some (Tear n x)]" "\<not> jl_poisoned s"
    and cut: "take n (to_str e @ [LF]) = p" "LF \<notin> set p" "p \<noteq> []" "\<not> utf8_valid p"
    and run: "jsonl_append to_str s e = (r, s')"
  shows "r = Inl (IoError x) \<and> (\<exists>y. fst (jsonl_replay from_str s' k m) = Inl y)"
proof -
  have s': "s' = s\<lparr>jl_file := Some (c @ p), jl_faults := []\<rparr>" and r: "r = Inl (IoError x)"
    using run torn content(1) cut(1)
    by (auto simp: jsonl_append_def open_append_def write_all_def syscall_def Let_def)
  have "\<not> list_all utf8_valid (str_lines (c @ p))"
    using content(2) cut str_lines_tail [of c p] by (auto simp: LF_def)
  then have "\<exists>y. parse_lines from_str (str_lines (c @ p)) = Inl y"
    by (rule parse_lines_invalid)
  then show ?thesis
    using r s' by (auto simp: jsonl_replay_def read_all_def syscall_def)
qed

theorem jsonl_torn_character_breaks_replay_witness:
  "\<exists>y s'. jsonl_append (\<lambda>e. [CHR 0xC3, CHR 0xA9])
       \<lparr>jl_file = Some [], jl_poisoned = False, jl_faults = [None, Some (Tear 1 ''disk full'')]\<rparr>
       (sample_event 1 ''1'') = (Inl (IoError ''disk full''), s') \<and>
     fst (jsonl_replay sample_from_str s' ''a'' 0) = Inl y"
proof -
  let ?s = "\<lparr>jl_file = Some [], jl_poisoned = False, jl_faults = [None, Some (Tear 1 ''disk full'')]\<rparr>"
  let ?s' = "\<lparr>jl_file = Some [CHR 0xC3], jl_poisoned = False, jl_faults = []\<rparr>"
  have run: "jsonl_append (\<lambda>e. [CHR 0xC3, CHR 0xA9]) ?s (sample_event 1 ''1'') =
    (Inl (IoError ''disk full''), ?s')" by code_simp
  have "\<not> utf8_valid [CHR 0xC3]" "LF \<notin> set [CHR 0xC3]" by code_simp+
  with run jsonl_torn_character_breaks_replay
    [of ?s "[]" 1 "''disk full''" "\<lambda>e. [CHR 0xC3, CHR 0xA9]" "sample_event 1 ''1''" "[CHR 0xC3]"
      "Inl (IoError ''disk full'')" ?s' sample_from_str "''a''" 0]
  show ?thesis by auto
qed

end
