(* ===== verification/Usage_Sql.thy ===== *)
theory Usage_Sql
  imports Sql_Store Jsonl_Store
begin

text \<open>
  The two ways the usage rows are computed agree: the \<open>GROUP BY\<close> of the SQL stores and the fold
  \<open>aggregate_usage\<close> of the JSON-lines store.
\<close>

text \<open>Timestamps are ASCII and long enough to carry a day, as RFC 3339 texts are.\<close>

definition ts_ok :: "string \<Rightarrow> bool" where
  "ts_ok t \<longleftrightarrow> 10 \<le> length t \<and> list_all (\<lambda>c. \<not> digit7 c) t"

lemma day_of_ts_ok: "ts_ok (ts e) \<Longrightarrow> day_of (ts e) = Some (sql_day e)"
proof -
  assume ok: "ts_ok (ts e)"
  then have "sql_day e = take 10 (ts e)"
    by (simp add: ts_ok_def sql_day_def utf8_chars_seven_bit take_map)
  moreover have "is_char_boundary (ts e) 10"
    using ok by (auto simp: ts_ok_def is_char_boundary_def is_cont_byte_def list_all_length)
  ultimately show ?thesis by (simp add: day_of_def str_get_to_def)
qed

lemma status_text_simps:
  "Some (status_text st) \<in> {Some ''done'', Some ''failed'', Some ''killed'', Some ''crashed''} \<longleftrightarrow>
     is_terminal st"
  by (cases st) simp_all

lemma usage_where_interesting:
  "usage_where since until' e \<longleftrightarrow> since \<le> ts e \<and> ts e < until' \<and> usage_interesting (kind e)"
  by (cases "kind e") (simp_all add: usage_where_def status_text_simps del: insert_iff)

section \<open>Keys\<close>

definition key_less :: "string \<times> string \<Rightarrow> string \<times> string \<Rightarrow> bool" where
  "key_less a b \<longleftrightarrow> fst a < fst b \<or> fst a = fst b \<and> snd a < snd b"

definition usage_keys :: "fleet_event list \<Rightarrow> (string \<times> string) list" where
  "usage_keys es = foldl (\<lambda>ks e. insert_key (ev_repo e, sql_day e) ks) [] es"

lemma usage_keys_snoc: "usage_keys (es @ [e]) = insert_key (ev_repo e, sql_day e) (usage_keys es)"
  by (simp add: usage_keys_def)

lemma insert_key_set [simp]: "set (insert_key k ks) = insert k (set ks)"
  by (induction ks) auto

lemma key_less_order:
  "\<not> key_less a a" "key_less a b \<Longrightarrow> key_less b c \<Longrightarrow> key_less a c"
  "a \<noteq> b \<Longrightarrow> \<not> key_less a b \<Longrightarrow> key_less b a"
  by (cases a; cases b; cases c; auto simp: key_less_def)+

lemma insert_key_Cons:
  "insert_key k (x # xs) =
     (if k = x then x # xs else if key_less k x then k # x # xs else x # insert_key k xs)"
  by (simp add: key_less_def)

lemma upsert_Cons:
  assumes "u_workspace r = fst x" "u_day r = snd x"
  shows "upsert_usage (fst k) (snd k) f (r # rs) =
    (if k = x then f r # rs
     else if key_less k x then f (empty_usage_row (fst k) (snd k)) # r # rs
     else r # upsert_usage (fst k) (snd k) f rs)"
  using assms by (auto simp: key_less_def prod_eq_iff)

declare insert_key.simps(2) [simp del] upsert_usage.simps(2) [simp del]

lemma insert_key_sorted: "sorted_wrt key_less ks \<Longrightarrow> sorted_wrt key_less (insert_key k ks)"
  by (induction ks) (auto simp: insert_key_Cons intro: key_less_order)

lemma usage_keys_sorted: "sorted_wrt key_less (usage_keys es)"
  by (induction es rule: rev_induct) (simp_all add: usage_keys_snoc insert_key_sorted usage_keys_def)

lemma usage_keys_set: "set (usage_keys es) = (\<lambda>e. (ev_repo e, sql_day e)) ` set es"
  by (induction es rule: rev_induct) (simp_all add: usage_keys_snoc, simp add: usage_keys_def)

section \<open>One step\<close>

lemma upsert_map:
  assumes "sorted_wrt key_less ks"
    and "\<And>k. u_workspace (G k) = fst k \<and> u_day (G k) = snd k"
    and "k \<notin> set ks \<Longrightarrow> G k = empty_usage_row (fst k) (snd k)"
    and "G' k = f (G k)" "\<And>x. x \<noteq> k \<Longrightarrow> G' x = G x"
  shows "upsert_usage (fst k) (snd k) f (map G ks) = map G' (insert_key k ks)"
  using assms(1,3)
proof (induction ks)
  case Nil
  then show ?case using assms(4) by simp
next
  case (Cons x xs)
  have rest: "map G' xs = map G xs" if "k \<notin> set xs"
    using that assms(5) by (metis map_cong)
  have tail: "k \<notin> set xs" if "k = x \<or> key_less k x"
  proof
    assume "k \<in> set xs"
    then have "key_less x k" using Cons.prems(1) by simp
    then show False
      using that key_less_order(1) [of k] key_less_order(2) [of k x k] by auto
  qed
  note up = upsert_Cons [of "G x" x k f "map G xs"]
  consider (eq) "k = x" | (lt) "k \<noteq> x" "key_less k x" | (gt) "k \<noteq> x" "\<not> key_less k x" by blast
  then show ?case
  proof cases
    case eq
    then show ?thesis using up assms(2,4) rest tail by (simp add: insert_key_Cons)
  next
    case lt
    then have "G k = empty_usage_row (fst k) (snd k)" using Cons.prems(2) tail by simp
    then show ?thesis
      using lt up assms(2,4) assms(5) [of x] rest tail by (simp add: insert_key_Cons)
  next
    case gt
    then show ?thesis
      using Cons up assms(2) assms(5) [of x] by (simp add: insert_key_Cons)
  qed
qed

lemma group_row_key: "u_workspace (usage_group_row fsum es k) = fst k \<and> u_day (usage_group_row fsum es k) = snd k"
  by (simp add: usage_group_row_def Let_def)

lemma group_row_absent:
  "k \<notin> set (usage_keys es) \<Longrightarrow> usage_group_row fsum es k = empty_usage_row (fst k) (snd k)"
proof -
  assume "k \<notin> set (usage_keys es)"
  then have "filter (\<lambda>e. ev_repo e = fst k \<and> sql_day e = snd k) es = []"
    by (auto simp: usage_keys_set filter_empty_conv image_iff prod_eq_iff)
  then show ?thesis
    by (simp add: usage_group_row_def empty_usage_row_def count_to_def map_filter_def)
qed

lemma group_row_other:
  "x \<noteq> (ev_repo e, sql_day e) \<Longrightarrow> usage_group_row fsum (es @ [e]) x = usage_group_row fsum es x"
  by (auto simp: usage_group_row_def Let_def prod_eq_iff)

lemma group_row_bump:
  assumes "usage_interesting (kind e)" "\<And>cs. fsum cs = foldl fadd 0 cs"
  shows "usage_group_row fsum (es @ [e]) (ev_repo e, sql_day e) =
    bump_usage fadd (kind e) (usage_group_row fsum es (ev_repo e, sql_day e))"
proof (cases "kind e")
  case (StatusChanged f t)
  then show ?thesis using assms
    by (cases t) (simp_all add: usage_group_row_def Let_def count_to_def map_filter_def)
qed (use assms in \<open>simp_all add: usage_group_row_def Let_def count_to_def map_filter_def\<close>)

lemma aggregate_usage_groups:
  assumes "\<And>cs. fsum cs = foldl fadd 0 cs"
    and "list_all (\<lambda>e. ts_ok (ts e) \<and> usage_interesting (kind e)) es"
  shows "aggregate_usage fadd es = usage_groups fsum es"
  using assms(2)
proof (induction es rule: rev_induct)
  case Nil
  then show ?case by (simp add: aggregate_usage_def usage_groups_def)
next
  case (snoc e es)
  then have ok: "ts_ok (ts e)" "usage_interesting (kind e)"
    and IH: "aggregate_usage fadd es = map (usage_group_row fsum es) (usage_keys es)"
    by (simp_all add: usage_groups_def usage_keys_def)
  let ?k = "(ev_repo e, sql_day e)"
  have "aggregate_usage fadd (es @ [e]) = upsert_usage (fst ?k) (snd ?k) (bump_usage fadd (kind e))
    (map (usage_group_row fsum es) (usage_keys es))"
    using ok IH by (simp add: aggregate_usage_def usage_step_def day_of_ts_ok)
  also have "\<dots> = map (usage_group_row fsum (es @ [e])) (insert_key ?k (usage_keys es))"
    using usage_keys_sorted group_row_key group_row_absent group_row_bump [OF ok(2) assms(1)]
      group_row_other [of _ e]
    by (intro upsert_map) blast+
  finally show ?case by (simp add: usage_groups_def usage_keys_def)
qed

lemma aggregate_usage_filter:
  "aggregate_usage fadd es = aggregate_usage fadd (filter (\<lambda>e. usage_interesting (kind e)) es)"
  by (induction es rule: rev_induct)
     (auto simp: aggregate_usage_def usage_step_def split: option.splits)

section \<open>Properties\<close>



end
