(* ===== verification/Emitter.thy ===== *)
theory Emitter
  imports Sql_Store
begin

text \<open>
  The emitter (\<open>core/src/fleet.rs\<close>, \<open>struct Emitter\<close>) and the counters it bumps
  (\<open>core/src/metrics.rs\<close>): one event is given the next sequence number of its stream, persisted with
  retries on a sequence conflict, published, and, when it could not be persisted, followed by a
  marker. The bus is the list of the published events. The clock and the caller's identity are
  the fields of an environment; the clock may answer differently at each tick.
\<close>

section \<open>Metrics\<close>

record metrics =
  events_appended :: nat
  append_failures :: nat
  unknown_frames :: nat
  repos_polled :: nat

record metrics_snapshot =
  ms_events_appended :: nat
  ms_append_failures :: nat
  ms_unknown_frames :: nat
  ms_repos_polled :: nat
  ms_active_attaches :: nat

definition record_append_ok :: "metrics \<Rightarrow> metrics" where
  "record_append_ok m = m\<lparr>events_appended := events_appended m + 1\<rparr>"

definition record_append_failure :: "metrics \<Rightarrow> metrics" where
  "record_append_failure m = m\<lparr>append_failures := append_failures m + 1\<rparr>"

definition record_unknown_frame :: "metrics \<Rightarrow> metrics" where
  "record_unknown_frame m = m\<lparr>unknown_frames := unknown_frames m + 1\<rparr>"

definition record_repo_poll :: "metrics \<Rightarrow> metrics" where
  "record_repo_poll m = m\<lparr>repos_polled := repos_polled m + 1\<rparr>"

definition metrics_snapshot_of :: "metrics \<Rightarrow> nat \<Rightarrow> metrics_snapshot" where
  "metrics_snapshot_of m active_attaches =
     \<lparr>ms_events_appended = events_appended m, ms_append_failures = append_failures m,
      ms_unknown_frames = unknown_frames m, ms_repos_polled = repos_polled m,
      ms_active_attaches = active_attaches\<rparr>"

section \<open>State\<close>

record 's emitter =
  em_store :: 's
  em_bus :: "fleet_event list"
  em_seqs :: "string \<rightharpoonup> nat"
  em_metrics :: metrics
  em_ticks :: nat

record emit_env =
  ee_clock :: "nat \<Rightarrow> string"
  ee_actor :: "string option"
  ee_subject :: "string option"

definition emitter_new :: "'s \<Rightarrow> 's emitter" where
  "emitter_new store =
     \<lparr>em_store = store, em_bus = [], em_seqs = Map.empty,
      em_metrics = \<lparr>events_appended = 0, append_failures = 0, unknown_frames = 0, repos_polled = 0\<rparr>,
      em_ticks = 0\<rparr>"

section \<open>Operations\<close>

text \<open>
  \<open>next_seq\<close>: the cached counter, or the durable high-water (0 when the read fails); the map is
  read again after the unlocked read.
\<close>

definition next_seq :: "'s store_ops \<Rightarrow> 's emitter \<Rightarrow> string \<Rightarrow> nat \<times> 's emitter" where
  "next_seq ops em k =
     (case em_seqs em k of
        Some n \<Rightarrow> (n + 1, em\<lparr>em_seqs := (em_seqs em)(k \<mapsto> n + 1)\<rparr>)
      | None \<Rightarrow>
          (case st_high_water ops (em_store em) k of
             (r, s) \<Rightarrow>
               (let seeded = unwrap_or r 0;
                    em = em\<lparr>em_store := s\<rparr>;
                    next' = (case em_seqs em k of Some n \<Rightarrow> n + 1 | None \<Rightarrow> seeded + 1)
                in (next', em\<lparr>em_seqs := (em_seqs em)(k \<mapsto> next')\<rparr>))))"

definition next_event ::
  "'s store_ops \<Rightarrow> emit_env \<Rightarrow> 's emitter \<Rightarrow> string \<Rightarrow> string \<Rightarrow> event_kind \<Rightarrow>
     fleet_event \<times> 's emitter" where
  "next_event ops ee em repo ag k =
     (case next_seq ops em (stream_key_for repo ag) of
        (n, em) \<Rightarrow>
          (\<lparr>seq = n, ts = ee_clock ee (em_ticks em), ev_repo = repo, ev_agent = ag, kind = k,
            actor = ee_actor ee, on_behalf_of = ee_subject ee\<rparr>,
           em\<lparr>em_ticks := em_ticks em + 1\<rparr>))"

definition reseed_seq :: "'s emitter \<Rightarrow> string \<Rightarrow> 's emitter" where
  "reseed_seq em k = em\<lparr>em_seqs := (em_seqs em)(k := None)\<rparr>"

definition SEQ_CONFLICT_RETRIES :: nat where
  "SEQ_CONFLICT_RETRIES = 8"

text \<open>The retry loop: the first argument is the number of retries left.\<close>

fun append_loop ::
  "'s store_ops \<Rightarrow> nat \<Rightarrow> 's emitter \<Rightarrow> fleet_event \<Rightarrow> core_error option \<times> fleet_event \<times> 's emitter" where
  "append_loop ops 0 em ev =
     (case st_append ops (em_store em) ev of
        (Inr _, s) \<Rightarrow> (None, ev, em\<lparr>em_store := s\<rparr>)
      | (Inl e, s) \<Rightarrow> (Some e, ev, em\<lparr>em_store := s\<rparr>))"
| "append_loop ops (Suc n) em ev =
     (case st_append ops (em_store em) ev of
        (Inr _, s) \<Rightarrow> (None, ev, em\<lparr>em_store := s\<rparr>)
      | (Inl e, s) \<Rightarrow>
          if e = SeqConflict
          then (case next_seq ops (reseed_seq (em\<lparr>em_store := s\<rparr>) (stream_key ev)) (stream_key ev) of
                  (m, em) \<Rightarrow> append_loop ops n em (ev\<lparr>seq := m\<rparr>))
          else (Some e, ev, em\<lparr>em_store := s\<rparr>))"

definition append_with_seq_retry ::
  "'s store_ops \<Rightarrow> 's emitter \<Rightarrow> fleet_event \<Rightarrow> core_error option \<times> fleet_event \<times> 's emitter" where
  "append_with_seq_retry ops em ev = append_loop ops SEQ_CONFLICT_RETRIES em ev"

definition meter_append :: "core_error option \<Rightarrow> 's emitter \<Rightarrow> 's emitter" where
  "meter_append err em =
     em\<lparr>em_metrics := (case err of None \<Rightarrow> record_append_ok (em_metrics em)
                                  | Some _ \<Rightarrow> record_append_failure (em_metrics em))\<rparr>"

definition publish :: "'s emitter \<Rightarrow> fleet_event \<Rightarrow> 's emitter" where
  "publish em ev = em\<lparr>em_bus := em_bus em @ [ev]\<rparr>"

definition emit_persist_gap ::
  "'s store_ops \<Rightarrow> emit_env \<Rightarrow> 's emitter \<Rightarrow> string \<Rightarrow> string \<Rightarrow> nat \<Rightarrow> core_error \<Rightarrow> 's emitter" where
  "emit_persist_gap ops ee em repo ag lost_seq err =
     (case next_event ops ee em repo ag (StorePersistFailed lost_seq (error_display err)) of
        (marker, em) \<Rightarrow>
          (case append_with_seq_retry ops em marker of
             (e, marker, em) \<Rightarrow> publish (meter_append e em) marker))"

definition emit ::
  "'s store_ops \<Rightarrow> emit_env \<Rightarrow> 's emitter \<Rightarrow> string \<Rightarrow> string \<Rightarrow> event_kind \<Rightarrow> 's emitter" where
  "emit ops ee em repo ag k =
     (case next_event ops ee em repo ag k of
        (event, em) \<Rightarrow>
          (case append_with_seq_retry ops em event of
             (append_err, event, em) \<Rightarrow>
               (let lost_seq = seq event;
                    em = publish (meter_append append_err em) event
                in case append_err of
                     None \<Rightarrow> em
                   | Some e \<Rightarrow> emit_persist_gap ops ee em repo ag lost_seq e)))"

section \<open>What an emission does, over any store\<close>

lemmas emit_frame_defs = reseed_seq_def publish_def meter_append_def

lemma next_seq_cached: "em_seqs em k = Some n \<Longrightarrow>
    next_seq ops em k = (n + 1, em\<lparr>em_seqs := (em_seqs em)(k \<mapsto> n + 1)\<rparr>)"
  by (simp add: next_seq_def)

lemma next_seq_seeded: "em_seqs em k = None \<Longrightarrow> st_high_water ops (em_store em) k = (r, s) \<Longrightarrow>
    next_seq ops em k =
      (unwrap_or r 0 + 1,
       em\<lparr>em_store := s, em_seqs := (em_seqs em)(k \<mapsto> unwrap_or r 0 + 1)\<rparr>)"
  by (simp add: next_seq_def Let_def)

text \<open>
  The events an emission may persist: every one with the fields of the emission and a sequence
  number the column can hold. \<open>roomy\<close> says the counters are far enough from its end.
\<close>

definition same_but_seq :: "fleet_event \<Rightarrow> fleet_event \<Rightarrow> bool" where
  "same_but_seq a b \<longleftrightarrow> b = a\<lparr>seq := seq b\<rparr>"

lemma same_but_seq_fields:
  assumes "same_but_seq a b"
  shows "ev_repo b = ev_repo a" "ev_agent b = ev_agent a" "kind b = kind a" "ts b = ts a"
    "actor b = actor a" "on_behalf_of b = on_behalf_of a" "stream_key b = stream_key a"
  using assms by (cases a; cases b; simp add: same_but_seq_def stream_key_def)+

definition roomy :: "(string \<rightharpoonup> nat) \<Rightarrow> fleet_event list \<Rightarrow> string \<Rightarrow> nat \<Rightarrow> bool" where
  "roomy cache es k n \<longleftrightarrow>
     stream_max es k + n < 2 ^ 63 \<and> (\<forall>m. cache k = Some m \<longrightarrow> m + n < 2 ^ 63)"

context event_store
begin

lemma next_seq_facts:
  assumes "inv (em_store em)" "next_seq ops em k = (n, em')"
  shows "hist (em_store em') = hist (em_store em)" "inv (em_store em')"
    "em_bus em' = em_bus em" "em_metrics em' = em_metrics em" "em_ticks em' = em_ticks em"
    "em_seqs em' = (em_seqs em)(k \<mapsto> n)"
    "0 < n" "em_seqs em k = Some m \<Longrightarrow> n = m + 1"
    "em_seqs em k = None \<Longrightarrow> n \<le> stream_max (hist (em_store em)) k + 1"
proof -
  have "hist (em_store em') = hist (em_store em) \<and> inv (em_store em') \<and> em_bus em' = em_bus em \<and>
    em_metrics em' = em_metrics em \<and> em_ticks em' = em_ticks em \<and>
    em_seqs em' = (em_seqs em)(k \<mapsto> n) \<and> 0 < n \<and> (em_seqs em k = Some m \<longrightarrow> n = m + 1) \<and>
    (em_seqs em k = None \<longrightarrow> n \<le> stream_max (hist (em_store em)) k + 1)"
  proof (cases "em_seqs em k")
    case (Some c)
    then show ?thesis using assms by (auto simp: next_seq_cached)
  next
    case None
    obtain r s where hw: "st_high_water ops (em_store em) k = (r, s)" by fastforce
    have r: "unwrap_or r 0 \<le> stream_max (hist (em_store em)) k"
      using high_water_ok [OF assms(1)] hw by (cases r) auto
    show ?thesis
      using None assms(2) r high_water_frame [OF assms(1) hw]
      by (auto simp: next_seq_seeded [OF None hw])
  qed
  then show "hist (em_store em') = hist (em_store em)" "inv (em_store em')"
    "em_bus em' = em_bus em" "em_metrics em' = em_metrics em" "em_ticks em' = em_ticks em"
    "em_seqs em' = (em_seqs em)(k \<mapsto> n)" "0 < n" "em_seqs em k = Some m \<Longrightarrow> n = m + 1"
    "em_seqs em k = None \<Longrightarrow> n \<le> stream_max (hist (em_store em)) k + 1"
    by auto
qed

lemma append_loop_facts:
  assumes "inv (em_store em)" "\<And>m. m < 2 ^ 63 \<Longrightarrow> good (ev\<lparr>seq := m\<rparr>)"
    and "seq ev < 2 ^ 63" "stream_max (hist (em_store em)) (stream_key ev) + 1 < 2 ^ 63"
    and "em_seqs em (stream_key ev) = Some (seq ev)"
    and "append_loop ops n em ev = (err, ev', em')"
  shows "inv (em_store em') \<and> same_but_seq ev ev' \<and> em_bus em' = em_bus em \<and>
    em_metrics em' = em_metrics em \<and> em_ticks em' = em_ticks em \<and>
    em_seqs em' = (em_seqs em)(stream_key ev \<mapsto> seq ev') \<and>
    hist (em_store em') = hist (em_store em) @ (if err = None then [ev'] else []) \<and>
    seq ev' \<le> max (seq ev) (stream_max (hist (em_store em)) (stream_key ev) + 1)"
  using assms
proof (induction n arbitrary: em ev)
  case 0
  obtain r s where ap: "st_append ops (em_store em) ev = (r, s)" by fastforce
  have good: "good ev" using 0(2) [of "seq ev"] 0(3) by simp
  show ?case
  proof (cases r)
    case (Inl e)
    then show ?thesis using 0 ap append_err [OF 0(1) good] by (auto simp: same_but_seq_def)
  next
    case (Inr u)
    then show ?thesis using 0 ap append_ok [OF 0(1) good] by (auto simp: same_but_seq_def)
  qed
next
  case (Suc n)
  obtain r s where ap: "st_append ops (em_store em) ev = (r, s)" by fastforce
  have good: "good ev" using Suc.prems(2) [of "seq ev"] Suc.prems(3) by simp
  let ?k = "stream_key ev"
  show ?case
  proof (cases "r = Inl SeqConflict")
    case True
    have s: "hist s = hist (em_store em)" "inv s"
      using append_err [OF Suc.prems(1) good] ap True by auto
    let ?em = "reseed_seq (em\<lparr>em_store := s\<rparr>) ?k"
    obtain m em2 where nx: "next_seq ops ?em ?k = (m, em2)" by fastforce
    note f = next_seq_facts [of ?em, OF _ nx]
    have em2: "hist (em_store em2) = hist (em_store em)" "inv (em_store em2)"
      "em_bus em2 = em_bus em" "em_metrics em2 = em_metrics em" "em_ticks em2 = em_ticks em"
      "em_seqs em2 = (em_seqs em)(?k \<mapsto> m)" "m \<le> stream_max (hist (em_store em)) ?k + 1"
      using f s by (auto simp: reseed_seq_def)
    have key: "stream_key (ev\<lparr>seq := m\<rparr>) = ?k" by (simp add: stream_key_def)
    have loop: "append_loop ops n em2 (ev\<lparr>seq := m\<rparr>) = (err, ev', em')"
      using Suc.prems(6) ap True nx by simp
    have p: "good (ev\<lparr>seq := m\<rparr>\<lparr>seq := l\<rparr>)" if "l < 2 ^ 63" for l
      using Suc.prems(2) [OF that] by simp
    have q: "seq (ev\<lparr>seq := m\<rparr>) < 2 ^ 63"
      "stream_max (hist (em_store em2)) (stream_key (ev\<lparr>seq := m\<rparr>)) + 1 < 2 ^ 63"
      "em_seqs em2 (stream_key (ev\<lparr>seq := m\<rparr>)) = Some (seq (ev\<lparr>seq := m\<rparr>))"
      using em2(7) Suc.prems(4) unfolding key em2(1,6) by simp_all
    have "inv (em_store em') \<and> same_but_seq (ev\<lparr>seq := m\<rparr>) ev' \<and> em_bus em' = em_bus em2 \<and>
      em_metrics em' = em_metrics em2 \<and> em_ticks em' = em_ticks em2 \<and>
      em_seqs em' = (em_seqs em2)(?k \<mapsto> seq ev') \<and>
      hist (em_store em') = hist (em_store em2) @ (if err = None then [ev'] else []) \<and>
      seq ev' \<le> max (seq (ev\<lparr>seq := m\<rparr>)) (stream_max (hist (em_store em2)) ?k + 1)"
      using Suc.IH [OF em2(2) p q loop] unfolding key .
    moreover have "same_but_seq ev ev'" if "same_but_seq (ev\<lparr>seq := m\<rparr>) ev'"
      using that by (simp add: same_but_seq_def)
    ultimately show ?thesis unfolding em2(1,3-6) using em2(7) by (simp add: le_max_iff_disj)
  next
    case False
    then show ?thesis
      using Suc.prems ap append_err [OF Suc.prems(1) good] append_ok [OF Suc.prems(1) good]
      by (cases r) (auto simp: same_but_seq_def)
  qed
qed

lemma next_event_facts:
  assumes "inv (em_store em)" "next_event ops ee em repo ag k = (ev, em')"
    and "roomy (em_seqs em) (hist (em_store em)) (stream_key_for repo ag) n" "0 < n"
  shows "ev_repo ev = repo" "ev_agent ev = ag" "kind ev = k" "actor ev = ee_actor ee"
    "on_behalf_of ev = ee_subject ee" "stream_key ev = stream_key_for repo ag"
    "hist (em_store em') = hist (em_store em)" "inv (em_store em')"
    "em_bus em' = em_bus em" "em_metrics em' = em_metrics em"
    "em_seqs em' = (em_seqs em)(stream_key_for repo ag \<mapsto> seq ev)" "seq ev < 2 ^ 63"
    "roomy (em_seqs em') (hist (em_store em')) (stream_key_for repo ag) (n - 1)"
proof -
  let ?key = "stream_key_for repo ag"
  obtain m em1 where nx: "next_seq ops em ?key = (m, em1)" by fastforce
  note f = next_seq_facts [OF assms(1) nx]
  have ev: "ev = \<lparr>seq = m, ts = ee_clock ee (em_ticks em1), ev_repo = repo, ev_agent = ag, kind = k,
      actor = ee_actor ee, on_behalf_of = ee_subject ee\<rparr>"
    and em': "em' = em1\<lparr>em_ticks := em_ticks em1 + 1\<rparr>"
    using assms(2) nx by (simp_all add: next_event_def)
  have m: "m + (n - 1) < 2 ^ 63"
    using assms(3,4) f(8,9) by (cases "em_seqs em ?key") (auto simp: roomy_def)
  show "ev_repo ev = repo" "ev_agent ev = ag" "kind ev = k" "actor ev = ee_actor ee"
    "on_behalf_of ev = ee_subject ee" "stream_key ev = ?key"
    "hist (em_store em') = hist (em_store em)" "inv (em_store em')"
    "em_bus em' = em_bus em" "em_metrics em' = em_metrics em"
    "em_seqs em' = (em_seqs em)(?key \<mapsto> seq ev)" "seq ev < 2 ^ 63"
    "roomy (em_seqs em') (hist (em_store em')) ?key (n - 1)"
    using ev em' f m assms(3) by (auto simp: stream_key_def roomy_def)
qed

text \<open>The marker that follows a lost event: published, and persisted when the store lets it.\<close>

lemma emit_persist_gap_facts:
  assumes "inv (em_store em)"
    and "\<And>ev. kind ev = StorePersistFailed lost (error_display err) \<Longrightarrow> seq ev < 2 ^ 63 \<Longrightarrow> good ev"
    and "roomy (em_seqs em) (hist (em_store em)) (stream_key_for repo ag) 2"
    and "em' = emit_persist_gap ops ee em repo ag lost err"
  shows "\<exists>marker. em_bus em' = em_bus em @ [marker] \<and> ev_repo marker = repo \<and> ev_agent marker = ag \<and>
    kind marker = StorePersistFailed lost (error_display err) \<and> inv (em_store em') \<and>
    (hist (em_store em') = hist (em_store em) \<or> hist (em_store em') = hist (em_store em) @ [marker]) \<and>
    append_failures (em_metrics em) \<le> append_failures (em_metrics em')"
proof -
  obtain ev em1 where ne: "next_event ops ee em repo ag (StorePersistFailed lost (error_display err)) = (ev, em1)"
    by fastforce
  note f = next_event_facts [OF assms(1) ne assms(3) zero_less_numeral]
  obtain e ev' em2 where al: "append_loop ops SEQ_CONFLICT_RETRIES em1 ev = (e, ev', em2)"
    by (metis prod_cases3)
  have facts: "inv (em_store em2) \<and> same_but_seq ev ev' \<and> em_bus em2 = em_bus em1 \<and>
    em_metrics em2 = em_metrics em1 \<and>
    hist (em_store em2) = hist (em_store em1) @ (if e = None then [ev'] else [])"
  proof -
    have "good (ev\<lparr>seq := l\<rparr>)" if "l < 2 ^ 63" for l
      using assms(2) [of "ev\<lparr>seq := l\<rparr>"] f(3) that by simp
    moreover have "stream_max (hist (em_store em1)) (stream_key ev) + 1 < 2 ^ 63"
      "em_seqs em1 (stream_key ev) = Some (seq ev)"
      using assms(3) f(6,7,11) by (simp_all add: roomy_def)
    ultimately show ?thesis using append_loop_facts [OF f(8) _ f(12) _ _ al] by blast
  qed
  have em': "em' = publish (meter_append e em2) ev'"
    using assms(4) ne al by (simp add: emit_persist_gap_def append_with_seq_retry_def)
  have "ev_repo ev' = repo \<and> ev_agent ev' = ag \<and> kind ev' = StorePersistFailed lost (error_display err)"
    using facts f same_but_seq_fields by metis
  then show ?thesis
    using facts f em'
    by (auto simp: publish_def meter_append_def record_append_failure_def record_append_ok_def
        split: option.splits)
qed

text \<open>
  Every emission publishes its event once, with the fields it was given, and then the log holds
  it, or a marker naming its sequence number is published behind it.
\<close>

lemma emit_outcome:
  assumes "inv (em_store em)"
    and enc: "\<And>ev. kind ev = k \<Longrightarrow> seq ev < 2 ^ 63 \<Longrightarrow> good ev"
      "\<And>ev n d. kind ev = StorePersistFailed n d \<Longrightarrow> seq ev < 2 ^ 63 \<Longrightarrow> good ev"
    and room: "roomy (em_seqs em) (hist (em_store em)) (stream_key_for repo ag) 3"
    and em': "em' = emit ops ee em repo ag k"
  shows "\<exists>ev. ev_repo ev = repo \<and> ev_agent ev = ag \<and> kind ev = k \<and> inv (em_store em') \<and>
    (hist (em_store em') = hist (em_store em) @ [ev] \<and> em_bus em' = em_bus em @ [ev] \<and>
       em_metrics em' = record_append_ok (em_metrics em) \<or>
     (\<exists>marker d. em_bus em' = em_bus em @ [ev, marker] \<and> ev_repo marker = repo \<and>
        ev_agent marker = ag \<and> kind marker = StorePersistFailed (seq ev) d \<and>
        (hist (em_store em') = hist (em_store em) \<or>
         hist (em_store em') = hist (em_store em) @ [marker]) \<and>
        append_failures (em_metrics em) < append_failures (em_metrics em')))"
proof -
  obtain ev em1 where ne: "next_event ops ee em repo ag k = (ev, em1)" by fastforce
  note f = next_event_facts [OF assms(1) ne room zero_less_numeral]
  obtain e ev' em2 where al: "append_loop ops SEQ_CONFLICT_RETRIES em1 ev = (e, ev', em2)"
    by (metis prod_cases3)
  have g: "good (ev\<lparr>seq := l\<rparr>)" if "l < 2 ^ 63" for l
    using enc(1) [of "ev\<lparr>seq := l\<rparr>"] f(3) that by simp
  have b: "stream_max (hist (em_store em1)) (stream_key ev) + 3 < 2 ^ 63" "seq ev + 2 < 2 ^ 63"
    "em_seqs em1 (stream_key ev) = Some (seq ev)"
    using room f(6,7,11,13) by (simp_all add: roomy_def)
  then have a: "stream_max (hist (em_store em1)) (stream_key ev) + 1 < 2 ^ 63" by simp
  note facts = append_loop_facts [OF f(8) g f(12) a b(3) al]
  note fields = same_but_seq_fields [of ev ev']
  show ?thesis
  proof (cases e)
    case None
    then have "em' = publish (meter_append None em2) ev'"
      using em' ne al by (simp add: emit_def append_with_seq_retry_def Let_def)
    then show ?thesis
      using facts f fields None
      by (intro exI [of _ ev']) (simp add: publish_def meter_append_def)
  next
    case (Some x)
    let ?em3 = "publish (meter_append (Some x) em2) ev'"
    have em'': "em' = emit_persist_gap ops ee ?em3 repo ag (seq ev') x"
      using em' ne al Some by (simp add: emit_def append_with_seq_retry_def Let_def)
    have em3: "em_store ?em3 = em_store em2" "em_seqs ?em3 = em_seqs em2"
      "em_bus ?em3 = em_bus em @ [ev']"
      "append_failures (em_metrics ?em3) = append_failures (em_metrics em) + 1"
      using facts f by (simp_all add: publish_def meter_append_def record_append_failure_def)
    have h2: "hist (em_store em2) = hist (em_store em)" "inv (em_store em2)"
      using facts f Some by simp_all
    have "roomy (em_seqs em2) (hist (em_store em2)) (stream_key_for repo ag) 2"
      using facts b f(6,7) h2(1) by (auto simp: roomy_def max_def split: if_splits)
    then have r3: "roomy (em_seqs ?em3) (hist (em_store ?em3)) (stream_key_for repo ag) 2"
      unfolding em3 .
    have i3: "inv (em_store ?em3)" unfolding em3 by (rule h2(2))
    have mk: "good y" if "kind y = StorePersistFailed (seq ev') (error_display x)" "seq y < 2 ^ 63" for y
      using enc(2) that by blast
    obtain marker where m: "em_bus em' = em_bus em @ [ev'] @ [marker]" "ev_repo marker = repo"
      "ev_agent marker = ag" "kind marker = StorePersistFailed (seq ev') (error_display x)"
      "inv (em_store em')" "append_failures (em_metrics em) + 1 \<le> append_failures (em_metrics em')"
      "hist (em_store em') = hist (em_store em) \<or>
       hist (em_store em') = hist (em_store em) @ [marker]"
      using emit_persist_gap_facts [OF i3 mk r3 em''] unfolding em3 h2 by auto
    have fld: "ev_repo ev' = repo" "ev_agent ev' = ag" "kind ev' = k"
      using facts f fields by simp_all
    have "em_bus em' = em_bus em @ [ev', marker]"
      "append_failures (em_metrics em) < append_failures (em_metrics em')"
      using m(1,6) by simp_all
    with fld m(2-5,7) show ?thesis by blast
  qed
qed

end

section \<open>Emission over a SQL store without faults\<close>

text \<open>
  With no driver error to come, the first append either lands or meets a taken number; then the
  fresh high-water gives a free one and the second append lands.
\<close>

definition sql_emit_ops :: "kind_enc \<Rightarrow> events_db store_ops \<Rightarrow> bool" where
  "sql_emit_ops enc ops \<longleftrightarrow>
     (st_append ops = sqlite_append enc \<or> st_append ops = pg_append enc) \<and>
     st_high_water ops = sql_high_water"

lemma sql_emit_ops_simps [simp]:
  "sql_emit_ops enc (sqlite_ops fsum enc dec)" "sql_emit_ops enc (pg_ops fsum enc dec)"
  by (simp_all add: sql_emit_ops_def sqlite_ops_def pg_ops_def)

lemma statement_nil [simp]: "db_faults db = [] \<Longrightarrow> statement db = (None, db)"
  by (simp add: statement_def)

lemma high_water_no_fault:
  assumes "sql_inv dec db" "db_faults db = []"
  shows "sql_high_water db k = (Inr (stream_max (sql_hist dec db) k), db)"
  using sql_high_water_facts(3) [OF assms(1), of k "fst (sql_high_water db k)" "snd (sql_high_water db k)"]
    assms(2)
  by (simp add: sql_high_water_def)

lemma append_no_fault:
  assumes "sql_emit_ops enc ops" "sql_inv dec db" "db_faults db = []" "storable enc dec e"
  shows "e' \<in> set (sql_hist dec db) \<Longrightarrow> stream_key e' = stream_key e \<Longrightarrow> seq e' = seq e \<Longrightarrow>
      \<exists>n. st_append ops db e = (Inl SeqConflict, db\<lparr>db_next := n\<rparr>)"
    and "(\<And>e'. e' \<in> set (sql_hist dec db) \<Longrightarrow> stream_key e' = stream_key e \<Longrightarrow> seq e' \<noteq> seq e) \<Longrightarrow>
      \<exists>db'. st_append ops db e = (Inr (), db') \<and> db_faults db' = []"
proof -
  have kt: "key_taken db (stream_key e) (as_i64 (seq e)) \<longleftrightarrow>
    (\<exists>e' \<in> set (sql_hist dec db). stream_key e' = stream_key e \<and> seq e' = seq e)"
    using key_taken_hist [OF assms(2)] assms(4) by (simp add: storable_def)
  have id: "db = db\<lparr>db_next := db_next db\<rparr>" by simp
  show "\<exists>n. st_append ops db e = (Inl SeqConflict, db\<lparr>db_next := n\<rparr>)"
    if "e' \<in> set (sql_hist dec db)" "stream_key e' = stream_key e" "seq e' = seq e"
  proof -
    have "key_taken db (stream_key e) (as_i64 (seq e))" using kt that by blast
    then show ?thesis
      using assms(1,3) exI [where P = "\<lambda>n. db = db\<lparr>db_next := n\<rparr>", OF id] unfolding sql_emit_ops_def
      by (auto simp: sqlite_append_def pg_append_def)
  qed
  show "\<exists>db'. st_append ops db e = (Inr (), db') \<and> db_faults db' = []"
    if "\<And>e'. e' \<in> set (sql_hist dec db) \<Longrightarrow> stream_key e' = stream_key e \<Longrightarrow> seq e' \<noteq> seq e"
  proof -
    have "\<not> key_taken db (stream_key e) (as_i64 (seq e))" using kt that by blast
    then show ?thesis
      using assms(1,3) unfolding sql_emit_ops_def by (auto simp: sqlite_append_def pg_append_def)
  qed
qed

lemma append_loop_no_fault:
  assumes ops: "sql_emit_ops enc ops"
    and inv: "sql_inv dec (em_store em)" "db_faults (em_store em) = []"
    and ev: "\<And>m. m < 2 ^ 63 \<Longrightarrow> storable enc dec (ev\<lparr>seq := m\<rparr>)" "seq ev < 2 ^ 63"
      "stream_max (sql_hist dec (em_store em)) (stream_key ev) + 1 < 2 ^ 63"
    and run: "append_loop ops (Suc (Suc n)) em ev = (err, ev', em')"
  shows "err = None \<and> db_faults (em_store em') = [] \<and>
    (seq ev' = seq ev \<or>
     seq ev' = stream_max (sql_hist dec (em_store em)) (stream_key ev) + 1)"
proof -
  let ?k = "stream_key ev" and ?M = "stream_max (sql_hist dec (em_store em)) (stream_key ev)"
  have st: "storable enc dec ev" using ev(1) [OF ev(2)] by simp
  show ?thesis
  proof (cases "\<exists>e' \<in> set (sql_hist dec (em_store em)). stream_key e' = ?k \<and> seq e' = seq ev")
    case False
    then obtain db' where "st_append ops (em_store em) ev = (Inr (), db')" "db_faults db' = []"
      using append_no_fault(2) [OF ops inv st] by blast
    then show ?thesis using run by auto
  next
    case True
    then obtain m where 1: "st_append ops (em_store em) ev =
        (Inl SeqConflict, (em_store em)\<lparr>db_next := m\<rparr>)"
      using append_no_fault(1) [OF ops inv st] by blast
    let ?db = "(em_store em)\<lparr>db_next := m\<rparr>"
    have inv1: "sql_inv dec ?db" "db_faults ?db = []"
      using append_contract(1) [of "st_append ops" enc dec, OF _ inv(1) st 1] ops inv(2)
      by (simp_all add: sql_emit_ops_def)
    let ?em1 = "reseed_seq (em\<lparr>em_store := ?db\<rparr>) ?k"
    have "next_seq ops ?em1 ?k = (?M + 1, ?em1\<lparr>em_seqs := (em_seqs ?em1)(?k \<mapsto> ?M + 1)\<rparr>)"
      using high_water_no_fault [OF inv1, of ?k] ops
      by (simp add: next_seq_def reseed_seq_def sql_emit_ops_def Let_def)
    then have 2: "append_loop ops (Suc n) (?em1\<lparr>em_seqs := (em_seqs ?em1)(?k \<mapsto> ?M + 1)\<rparr>)
        (ev\<lparr>seq := ?M + 1\<rparr>) = (err, ev', em')"
      using run 1 by simp
    have "seq e' \<noteq> seq (ev\<lparr>seq := ?M + 1\<rparr>)"
      if "e' \<in> set (sql_hist dec ?db)" "stream_key e' = stream_key (ev\<lparr>seq := ?M + 1\<rparr>)" for e'
      using stream_max_upper [of e' "sql_hist dec (em_store em)" ?k] that by (simp add: stream_key_def)
    then obtain db' where 3: "st_append ops ?db (ev\<lparr>seq := ?M + 1\<rparr>) = (Inr (), db')"
      and "db_faults db' = []"
      using append_no_fault(2) [OF ops inv1 ev(1) [OF ev(3)]] by blast
    then show ?thesis using 2 by (auto simp: reseed_seq_def)
  qed
qed

text \<open>
  A single writer keeps its counters at or above the log: then every emission takes a number above
  its whole stream.
\<close>

definition cache_ahead :: "kind_dec \<Rightarrow> events_db emitter \<Rightarrow> bool" where
  "cache_ahead dec em \<longleftrightarrow>
     (\<forall>k m. em_seqs em k = Some m \<longrightarrow> stream_max (sql_hist dec (em_store em)) k \<le> m)"

definition encodable :: "kind_enc \<Rightarrow> kind_dec \<Rightarrow> event_kind \<Rightarrow> bool" where
  "encodable enc dec k \<longleftrightarrow> dec (enc k) = Inr k"

lemma emit_no_fault:
  assumes ops: "ops = sqlite_ops fsum enc dec \<or> ops = pg_ops fsum enc dec"
    and inv: "sql_inv dec (em_store em)" "db_faults (em_store em) = []"
    and k: "encodable enc dec k"
    and room: "roomy (em_seqs em) (sql_hist dec (em_store em)) (stream_key_for repo ag) 2"
    and em': "em' = emit ops ee em repo ag k"
  shows "\<exists>ev. ev_repo ev = repo \<and> ev_agent ev = ag \<and> kind ev = k \<and> seq ev < 2 ^ 63 \<and>
    sql_inv dec (em_store em') \<and> db_faults (em_store em') = [] \<and>
    sql_hist dec (em_store em') = sql_hist dec (em_store em) @ [ev] \<and>
    em_bus em' = em_bus em @ [ev] \<and>
    em_seqs em' = (em_seqs em)(stream_key_for repo ag \<mapsto> seq ev) \<and>
    seq ev \<le> max (stream_max (sql_hist dec (em_store em)) (stream_key_for repo ag))
      (case em_seqs em (stream_key_for repo ag) of None \<Rightarrow> 0 | Some m \<Rightarrow> m) + 1 \<and>
    (cache_ahead dec em \<longrightarrow>
       stream_max (sql_hist dec (em_store em)) (stream_key_for repo ag) < seq ev)"
proof -
  let ?key = "stream_key_for repo ag" and ?H = "sql_hist dec (em_store em)"
  have loc: "unique_event_store ops (sql_hist dec) (sql_inv dec) (storable enc dec)"
    using ops sqlite.unique_event_store_axioms postgres.unique_event_store_axioms by auto
  then have es: "event_store ops (sql_hist dec) (sql_inv dec) (storable enc dec)"
    by (rule unique_event_store.axioms(1))
  have sops: "sql_emit_ops enc ops" using ops by auto
  obtain ev em1 where ne: "next_event ops ee em repo ag k = (ev, em1)" by fastforce
  note f = event_store.next_event_facts [OF es inv(1) ne room zero_less_numeral]
  obtain n em0 where nx: "next_seq ops em ?key = (n, em0)" by fastforce
  have em1: "em1 = em0\<lparr>em_ticks := em_ticks em0 + 1\<rparr>" and sev: "seq ev = n"
    using ne nx by (auto simp: next_event_def)
  have hw: "st_high_water ops = sql_high_water" using sops by (simp add: sql_emit_ops_def)
  have n: "n = (case em_seqs em ?key of None \<Rightarrow> stream_max ?H ?key + 1 | Some m \<Rightarrow> m + 1)"
    and flt: "db_faults (em_store em1) = []"
    using nx em1 high_water_no_fault [OF inv] inv(2) hw
    by (auto simp: next_seq_def Let_def split: option.splits)
  obtain e ev' em2 where al: "append_loop ops SEQ_CONFLICT_RETRIES em1 ev = (e, ev', em2)"
    by (metis prod_cases3)
  have g: "storable enc dec (ev\<lparr>seq := l\<rparr>)" if "l < 2 ^ 63" for l
    using k f(3) that by (simp add: storable_def encodable_def)
  have b: "stream_max (sql_hist dec (em_store em1)) (stream_key ev) + 1 < 2 ^ 63"
    "em_seqs em1 (stream_key ev) = Some (seq ev)"
    using room f(6,7,11) by (simp_all add: roomy_def)
  note facts = event_store.append_loop_facts [OF es f(8) g f(12) b al]
  have "SEQ_CONFLICT_RETRIES = Suc (Suc 6)" by (simp add: SEQ_CONFLICT_RETRIES_def)
  with append_loop_no_fault [OF sops f(8) flt g f(12) b(1), of 6 e ev' em2] al
  have nf: "e = None" "db_faults (em_store em2) = []"
    "seq ev' = seq ev \<or> seq ev' = stream_max ?H ?key + 1"
    using f(6,7) by simp_all
  have em'': "em' = publish (meter_append None em2) ev'"
    using em' ne al nf(1) by (simp add: emit_def append_with_seq_retry_def Let_def)
  have "stream_max ?H ?key < seq ev'" if "cache_ahead dec em"
    using nf(3) n sev that by (auto simp: cache_ahead_def less_Suc_eq_le split: option.splits)
  moreover have "seq ev' \<le> max (stream_max ?H ?key)
      (case em_seqs em ?key of None \<Rightarrow> 0 | Some m \<Rightarrow> m) + 1"
    using nf(3) n sev by (auto split: option.splits)
  moreover have "seq ev' < 2 ^ 63" using nf(3) f(12) b(1) f(6,7) by auto
  ultimately show ?thesis
    using facts f nf em'' same_but_seq_fields [of ev ev']
    by (intro exI [of _ ev']) (auto simp: publish_def meter_append_def)
qed

section \<open>Runs of emissions\<close>

type_synonym emission = "string \<times> string \<times> event_kind"

definition emit_all ::
  "'s store_ops \<Rightarrow> emit_env \<Rightarrow> 's emitter \<Rightarrow> emission list \<Rightarrow> 's emitter" where
  "emit_all ops ee em xs = foldl (\<lambda>em (repo, ag, k). emit ops ee em repo ag k) em xs"

definition stream_increasing :: "fleet_event list \<Rightarrow> bool" where
  "stream_increasing es \<longleftrightarrow>
     (\<forall>k. sorted_wrt (<) (map seq (filter (\<lambda>e. stream_key e = k) es)))"

definition emission_of :: "fleet_event \<Rightarrow> emission" where
  "emission_of e = (ev_repo e, ev_agent e, kind e)"

lemma stream_increasing_snoc:
  assumes "stream_increasing es" "stream_max es (stream_key e) < seq e"
  shows "stream_increasing (es @ [e])"
proof -
  have "seq x < seq e" if "x \<in> set es" "stream_key x = stream_key e" for x
    using stream_max_upper [OF that] assms(2) by simp
  then show ?thesis
    using assms(1) by (auto simp: stream_increasing_def sorted_wrt_append)
qed

lemma foldr_max_init: "foldr max xs a = max (foldr max xs 0) (a :: nat)"
  by (induction xs) auto

lemma stream_max_snoc:
  "stream_max (es @ [e]) k = (if stream_key e = k then max (stream_max es k) (seq e) else stream_max es k)"
  by (simp add: stream_max_def foldr_max_init [of _ "seq e"])

lemma roomy_mono: "roomy c es k n \<Longrightarrow> m \<le> n \<Longrightarrow> roomy c es k m"
  unfolding roomy_def by force

lemma roomy_step:
  assumes "roomy c es k (Suc n)"
    and "seq ev \<le> max (stream_max es (stream_key ev)) (case c (stream_key ev) of None \<Rightarrow> 0 | Some m \<Rightarrow> m) + 1"
  shows "roomy (c(stream_key ev \<mapsto> seq ev)) (es @ [ev]) k n"
  using assms
  by (cases "c (stream_key ev)") (auto simp: roomy_def stream_max_snoc max_def split: if_splits)

text \<open>
  The single writer: no driver error to come, no counter behind the log, every stream of the log
  in order, and room for \<open>n\<close> more emissions. Each emission keeps it and adds one event.
\<close>

definition writer_ok :: "kind_dec \<Rightarrow> nat \<Rightarrow> events_db emitter \<Rightarrow> bool" where
  "writer_ok dec n em \<longleftrightarrow>
     sql_inv dec (em_store em) \<and> db_faults (em_store em) = [] \<and> cache_ahead dec em \<and>
     stream_increasing (sql_hist dec (em_store em)) \<and>
     (\<forall>k. roomy (em_seqs em) (sql_hist dec (em_store em)) k (n + 2))"

lemma emit_step:
  assumes ops: "ops = sqlite_ops fsum enc dec \<or> ops = pg_ops fsum enc dec"
    and ok: "writer_ok dec (Suc n) em" and enc: "encodable enc dec k"
    and em1: "em1 = emit ops ee em repo ag k"
  shows "\<exists>ev. emission_of ev = (repo, ag, k) \<and> writer_ok dec n em1 \<and>
    sql_hist dec (em_store em1) = sql_hist dec (em_store em) @ [ev] \<and>
    em_bus em1 = em_bus em @ [ev]"
proof -
  let ?key = "stream_key_for repo ag"
  note ok = ok [unfolded writer_ok_def]
  have room: "roomy (em_seqs em) (sql_hist dec (em_store em)) ?key 2"
    using ok by (auto intro: roomy_mono)
  obtain ev where ev: "ev_repo ev = repo" "ev_agent ev = ag" "kind ev = k"
    "sql_inv dec (em_store em1)" "db_faults (em_store em1) = []"
    "sql_hist dec (em_store em1) = sql_hist dec (em_store em) @ [ev]"
    "em_bus em1 = em_bus em @ [ev]" "em_seqs em1 = (em_seqs em)(?key \<mapsto> seq ev)"
    "stream_max (sql_hist dec (em_store em)) ?key < seq ev"
    "seq ev \<le> max (stream_max (sql_hist dec (em_store em)) ?key)
       (case em_seqs em ?key of None \<Rightarrow> 0 | Some m \<Rightarrow> m) + 1"
    using emit_no_fault [OF ops _ _ enc room em1] ok by blast
  have key: "stream_key ev = ?key" using ev(1,2) by (simp add: stream_key_def)
  have "cache_ahead dec em1"
    using ok ev(6,8,9) key by (auto simp: cache_ahead_def stream_max_snoc)
  moreover have "stream_increasing (sql_hist dec (em_store em1))"
    using stream_increasing_snoc [of "sql_hist dec (em_store em)" ev] ok ev(6,9) key by simp
  moreover have "roomy (em_seqs em1) (sql_hist dec (em_store em1)) k' (n + 2)" for k'
  proof -
    have "roomy (em_seqs em) (sql_hist dec (em_store em)) k' (Suc (n + 2))"
      using ok by simp
    then show ?thesis unfolding ev(6,8) key [symmetric] by (rule roomy_step) (rule ev(10) [folded key])
  qed
  ultimately show ?thesis
    using ev(1-7) by (intro exI [of _ ev]) (simp add: writer_ok_def emission_of_def)
qed

lemma emit_all_ordered:
  assumes ops: "ops = sqlite_ops fsum enc dec \<or> ops = pg_ops fsum enc dec"
    and "writer_ok dec (length xs) em" "\<forall>(r, a, k) \<in> set xs. encodable enc dec k"
  shows "\<exists>evs. sql_hist dec (em_store (emit_all ops ee em xs)) = sql_hist dec (em_store em) @ evs \<and>
    em_bus (emit_all ops ee em xs) = em_bus em @ evs \<and> map emission_of evs = xs \<and>
    stream_increasing (sql_hist dec (em_store em) @ evs)"
  using assms(2-)
proof (induction xs arbitrary: em)
  case Nil
  then show ?case by (simp add: emit_all_def writer_ok_def)
next
  case (Cons x xs)
  obtain repo ag k where x: "x = (repo, ag, k)" by (metis prod_cases3)
  let ?em1 = "emit ops ee em repo ag k"
  obtain ev where ev: "emission_of ev = x" "writer_ok dec (length xs) ?em1"
    "sql_hist dec (em_store ?em1) = sql_hist dec (em_store em) @ [ev]" "em_bus ?em1 = em_bus em @ [ev]"
    using emit_step [OF ops, of "length xs" em k, OF _ _ refl] Cons.prems x by fastforce
  obtain evs where
    "sql_hist dec (em_store (emit_all ops ee ?em1 xs)) = sql_hist dec (em_store ?em1) @ evs"
    "em_bus (emit_all ops ee ?em1 xs) = em_bus ?em1 @ evs" "map emission_of evs = xs"
    "stream_increasing (sql_hist dec (em_store ?em1) @ evs)"
    using Cons.IH [OF ev(2)] Cons.prems(2) by auto
  moreover have "emit_all ops ee em (x # xs) = emit_all ops ee ?em1 xs"
    by (simp add: emit_all_def x)
  ultimately show ?case
    using ev by (intro exI [of _ "ev # evs"]) simp
qed

section \<open>Properties\<close>

text \<open>
  C3. An emission over the sqlite store, whatever the driver does, publishes its event exactly once
  with the repository, agent and kind it was given, and either the durable log has grown by that
  event alone, or a \<open>store_persist_failed\<close> marker that names its sequence number is published
  right behind it and the failure is metered.
\<close>

theorem emit_persists_or_marks:
  assumes "sql_inv dec (em_store em)"
    and "encodable enc dec k" "\<And>n d. encodable enc dec (StorePersistFailed n d)"
    and "roomy (em_seqs em) (sql_hist dec (em_store em)) (stream_key_for repo ag) 3"
    and "em' = emit (sqlite_ops fsum enc dec) ee em repo ag k"
  shows "\<exists>ev. ev_repo ev = repo \<and> ev_agent ev = ag \<and> kind ev = k \<and> sql_inv dec (em_store em') \<and>
    (sql_hist dec (em_store em') = sql_hist dec (em_store em) @ [ev] \<and>
       em_bus em' = em_bus em @ [ev] \<and> em_metrics em' = record_append_ok (em_metrics em) \<or>
     (\<exists>marker d. em_bus em' = em_bus em @ [ev, marker] \<and> ev_repo marker = repo \<and>
        ev_agent marker = ag \<and> kind marker = StorePersistFailed (seq ev) d \<and>
        (sql_hist dec (em_store em') = sql_hist dec (em_store em) \<or>
         sql_hist dec (em_store em') = sql_hist dec (em_store em) @ [marker]) \<and>
        append_failures (em_metrics em) < append_failures (em_metrics em')))"
  by (rule sqlite.emit_outcome [OF assms(1) _ _ assms(4,5)])
     (use assms(2,3) in \<open>auto simp: storable_def encodable_def\<close>)

definition sample_emitter :: "string option list \<Rightarrow> events_db emitter" where
  "sample_emitter fs = emitter_new \<lparr>db_rows = [], db_next = 1, db_faults = fs\<rparr>"

definition sample_env :: emit_env where
  "sample_env = \<lparr>ee_clock = (\<lambda>_. ''2026-01-01T00:00:00Z''), ee_actor = None, ee_subject = None\<rparr>"

text \<open>A codec for two kinds of event: the number in unary, then the text.\<close>

fun sample_enc :: kind_enc where
  "sample_enc (StorePersistFailed n d) = replicate n (CHR ''1'') @ CHR ''0'' # d"
| "sample_enc _ = []"

definition sample_dec :: kind_dec where
  "sample_dec s =
     (if s = [] then Inr AgentGone
      else Inr (StorePersistFailed (length (takeWhile (\<lambda>c. c \<noteq> CHR ''0'') s))
                  (tl (dropWhile (\<lambda>c. c \<noteq> CHR ''0'') s))))"

lemma sample_codec:
  "encodable sample_enc sample_dec (StorePersistFailed n d)" "encodable sample_enc sample_dec AgentGone"
  by (simp_all add: encodable_def sample_dec_def)

lemma sample_emitter_ok:
  "sql_inv dec (em_store (sample_emitter fs))"
  "roomy (em_seqs (sample_emitter fs)) (sql_hist dec (em_store (sample_emitter fs))) k 3"
  "cache_ahead dec (sample_emitter fs)" "stream_increasing (sql_hist dec (em_store (sample_emitter fs)))"
  by (simp_all add: sample_emitter_def emitter_new_def sql_inv_def roomy_def sql_hist_def
      stream_max_def cache_ahead_def stream_increasing_def)

lemmas append_loop_8 = append_loop.simps(2) [where n = 7, simplified]

lemmas emit_eval = append_loop_8 SEQ_CONFLICT_RETRIES_def emit_def emit_persist_gap_def next_event_def next_seq_def append_with_seq_retry_def
  meter_append_def publish_def reseed_seq_def record_append_ok_def record_append_failure_def
  sqlite_ops_def sqlite_append_def sql_high_water_def statement_def key_taken_def max_or_zero_def
  to_row_def Let_def as_u64_def as_i64_def

theorem emit_persists_or_marks_witness:
  "\<exists>ev marker d. em_bus (emit (sqlite_ops (\<lambda>_. 0) sample_enc sample_dec) sample_env
       (sample_emitter [None, Some ''disk full'']) ''r'' ''a'' AgentGone) = [ev, marker] \<and>
     kind ev = AgentGone \<and> kind marker = StorePersistFailed (seq ev) d"
proof -
  let ?em = "sample_emitter [None, Some ''disk full'']"
  let ?em' = "emit (sqlite_ops (\<lambda>_. 0) sample_enc sample_dec) sample_env ?em ''r'' ''a'' AgentGone"
  have "length (em_bus ?em') = 2"
    by (simp add: emit_eval sample_emitter_def emitter_new_def sample_env_def)
  moreover have "em_bus ?em = []" by (simp add: sample_emitter_def emitter_new_def)
  ultimately show ?thesis
    using emit_persists_or_marks [where em = ?em and em' = ?em',
        OF sample_emitter_ok(1) sample_codec(2,1) sample_emitter_ok(2) refl]
    by auto
qed

text \<open>
  C10. Without driver errors nothing is lost and nothing is reordered: any list of emissions by one
  process appends exactly one event per emission, in order, publishes the same events in the same
  order, and leaves every stream of the log strictly increasing in \<open>seq\<close>, whatever the process had
  cached at the start as long as it was not behind the log.
\<close>

theorem emit_all_persists_in_order:
  assumes "sql_inv dec (em_store em)" "db_faults (em_store em) = []" "cache_ahead dec em"
    and "stream_increasing (sql_hist dec (em_store em))"
    and "\<forall>(r, a, k) \<in> set xs. encodable enc dec k"
    and "\<forall>k. roomy (em_seqs em) (sql_hist dec (em_store em)) k (length xs + 2)"
  shows "\<exists>evs. sql_hist dec (em_store (emit_all (sqlite_ops fsum enc dec) ee em xs)) =
      sql_hist dec (em_store em) @ evs \<and>
    em_bus (emit_all (sqlite_ops fsum enc dec) ee em xs) = em_bus em @ evs \<and>
    map emission_of evs = xs \<and> stream_increasing (sql_hist dec (em_store em) @ evs)"
  by (rule emit_all_ordered [OF disjI1 [OF refl] _ assms(5)]) (use assms in \<open>simp add: writer_ok_def\<close>)

theorem emit_all_persists_in_order_witness:
  "\<exists>evs. em_bus (emit_all (sqlite_ops (\<lambda>_. 0) sample_enc sample_dec) sample_env (sample_emitter [])
       [(''r'', ''a'', AgentGone)]) = evs \<and> map emission_of evs = [(''r'', ''a'', AgentGone)]"
proof -
  let ?em = "sample_emitter []"
  have 1: "db_faults (em_store ?em) = []" "em_bus ?em = []"
    by (simp_all add: sample_emitter_def emitter_new_def)
  have 2: "\<forall>(r, a, k) \<in> set [(''r'', ''a'', AgentGone)]. encodable sample_enc sample_dec k"
    using sample_codec(2) by simp
  have 3: "\<forall>k. roomy (em_seqs ?em) (sql_hist sample_dec (em_store ?em)) k
      (length [(''r'', ''a'', AgentGone)] + 2)"
    using sample_emitter_ok(2) by (simp add: numeral_3_eq_3)
  from emit_all_persists_in_order [OF sample_emitter_ok(1) 1(1) sample_emitter_ok(3,4) 2 3,
      of "\<lambda>_. 0" sample_env]
  show ?thesis unfolding 1(2) by auto
qed

end
