(* ===== verification/Live_Tail.thy ===== *)
theory Live_Tail
  imports Sql_Store
begin

text \<open>
  Live distribution and the server-sent event streams: the in-process bus (\<open>core/src/bus.rs\<close>), the
  Postgres doorbell (\<open>core/src/distributed_bus.rs\<close>), the tail state machine (\<open>api/src/sse/tail.rs\<close>)
  and the two stream handlers (\<open>api/src/sse.rs\<close>). What a channel or a listener delivers is an input:
  the list of the outcomes of its \<open>recv\<close>. A stream is the list of the items it yields.
\<close>

section \<open>The in-process bus\<close>

datatype bus_event = BusEvent fleet_event | Lagged nat

datatype recv_outcome = RecvOk fleet_event | RecvLagged nat | RecvClosed

fun bus_subscribe :: "string \<Rightarrow> recv_outcome list \<Rightarrow> bus_event list" where
  "bus_subscribe k [] = []"
| "bus_subscribe k (RecvOk ev # rs) =
     (if stream_key_for (ev_repo ev) (ev_agent ev) = k then BusEvent ev # bus_subscribe k rs
      else bus_subscribe k rs)"
| "bus_subscribe k (RecvLagged n # rs) = Lagged n # bus_subscribe k rs"
| "bus_subscribe k (RecvClosed # rs) = []"

fun bus_subscribe_all :: "recv_outcome list \<Rightarrow> bus_event list" where
  "bus_subscribe_all [] = []"
| "bus_subscribe_all (RecvOk ev # rs) = BusEvent ev # bus_subscribe_all rs"
| "bus_subscribe_all (RecvLagged n # rs) = Lagged n # bus_subscribe_all rs"
| "bus_subscribe_all (RecvClosed # rs) = []"

section \<open>The doorbell bus\<close>

text \<open>\<open>publish\<close> rings the doorbell with a pointer to the event.\<close>

definition doorbell_payload :: "fleet_event \<Rightarrow> string" where
  "doorbell_payload ev = stream_key ev @ '':'' @ show_nat (seq ev)"

text \<open>The loop over the replayed delta, shared by the two subscriptions.\<close>

fun dedup :: "nat \<Rightarrow> fleet_event list \<Rightarrow> nat \<times> fleet_event list" where
  "dedup cur [] = (cur, [])"
| "dedup cur (ev # es) =
     (if seq ev \<le> cur then dedup cur es
      else case dedup (seq ev) es of (cur', ys) \<Rightarrow> (cur', ev # ys))"

text \<open>
  One notification. The listener's connection error ends the subscription; it is the end of the
  input here. \<open>last_seq\<close> is the per-key high-water of \<open>drain_doorbell\<close>.
\<close>

definition doorbell_step ::
  "'s store_ops \<Rightarrow> (string \<Rightarrow> nat) \<Rightarrow> 's \<Rightarrow> string \<Rightarrow> fleet_event list \<times> (string \<Rightarrow> nat) \<times> 's" where
  "doorbell_step ops last_seq s payload =
     (case rsplit_once (CHR '':'') payload of
        None \<Rightarrow> ([], last_seq, s)
      | Some (nkey, _) \<Rightarrow>
          (case st_replay ops s nkey (last_seq nkey + 1) of
             (Inl e, s) \<Rightarrow> ([], last_seq, s)
           | (Inr events, s) \<Rightarrow>
               (case dedup (last_seq nkey) events of
                  (cur, ys) \<Rightarrow> (ys, last_seq(nkey := cur), s))))"

text \<open>Between two notifications other processes change the store: \<open>g\<close> is that change.\<close>

fun drain_doorbell ::
  "'s store_ops \<Rightarrow> (string \<Rightarrow> nat) \<Rightarrow> 's \<Rightarrow> (('s \<Rightarrow> 's) \<times> string) list \<Rightarrow> fleet_event list" where
  "drain_doorbell ops last_seq s [] = []"
| "drain_doorbell ops last_seq s ((g, payload) # ns) =
     (case doorbell_step ops last_seq (g s) payload of
        (ys, last_seq', s') \<Rightarrow> ys @ drain_doorbell ops last_seq' s' ns)"

fun doorbell_subscribe ::
  "'s store_ops \<Rightarrow> string \<Rightarrow> nat \<Rightarrow> 's \<Rightarrow> (('s \<Rightarrow> 's) \<times> string) list \<Rightarrow> fleet_event list" where
  "doorbell_subscribe ops k last_seq s [] = []"
| "doorbell_subscribe ops k last_seq s ((g, payload) # ns) =
     (case rsplit_once (CHR '':'') payload of
        None \<Rightarrow> doorbell_subscribe ops k last_seq (g s) ns
      | Some (nkey, _) \<Rightarrow>
          if nkey \<noteq> k then doorbell_subscribe ops k last_seq (g s) ns
          else case st_replay ops (g s) k (last_seq + 1) of
             (Inl e, s') \<Rightarrow> doorbell_subscribe ops k last_seq s' ns
           | (Inr events, s') \<Rightarrow>
               (case dedup last_seq events of
                  (cur, ys) \<Rightarrow> ys @ doorbell_subscribe ops k cur s' ns))"

section \<open>The tail of one agent\<close>

datatype frame = EventFrame fleet_event | Gap nat nat

datatype tail_step = Emit "frame list" | EmitAndClose "frame list" | Skip | Close

fun is_terminal_kind :: "event_kind \<Rightarrow> bool" where
  "is_terminal_kind (AgentFinished _ _ _) = True"
| "is_terminal_kind _ = False"

definition is_terminal_event :: "fleet_event \<Rightarrow> bool" where
  "is_terminal_event ev = is_terminal_kind (kind ev)"

record tailer =
  tl_agent :: string
  last_delivered :: nat

text \<open>The self-heal loop: dedup, and stop after a terminal event.\<close>

fun heal_loop :: "nat \<Rightarrow> fleet_event list \<Rightarrow> nat \<times> fleet_event list \<times> bool" where
  "heal_loop cur [] = (cur, [], False)"
| "heal_loop cur (ev # es) =
     (if seq ev \<le> cur then heal_loop cur es
      else if is_terminal_event ev then (seq ev, [ev], True)
      else case heal_loop (seq ev) es of (cur', ys, t) \<Rightarrow> (cur', ev # ys, t))"

definition history :: "'s store_ops \<Rightarrow> 's \<Rightarrow> string \<Rightarrow> nat \<Rightarrow> fleet_event list \<times> 's" where
  "history ops s ag from =
     (case st_replay ops s ag from of (r, s) \<Rightarrow> (unwrap_or r [], s))"

fun on_recv ::
  "'s store_ops \<Rightarrow> tailer \<Rightarrow> 's \<Rightarrow> bus_event option \<Rightarrow> tail_step \<times> tailer \<times> 's" where
  "on_recv ops t s (Some (BusEvent ev)) =
     (if ev_agent ev = tl_agent t \<and> last_delivered t < seq ev
      then (if is_terminal_event ev then EmitAndClose [EventFrame ev] else Emit [EventFrame ev],
            t\<lparr>last_delivered := seq ev\<rparr>, s)
      else (Skip, t, s))"
| "on_recv ops t s (Some (Lagged skipped)) =
     (case history ops s (tl_agent t) (last_delivered t + 1) of
        (es, s) \<Rightarrow>
          (case heal_loop (last_delivered t) es of
             (cur, ys, terminal) \<Rightarrow>
               (let frames = Gap skipped (last_delivered t) # map EventFrame ys
                in (if terminal then EmitAndClose frames else Emit frames,
                    t\<lparr>last_delivered := cur\<rparr>, s))))"
| "on_recv ops t s None = (Close, t, s)"

text \<open>The loop of \<open>agent_stream\<close>; the store may change between two items.\<close>

fun tail_loop ::
  "'s store_ops \<Rightarrow> tailer \<Rightarrow> 's \<Rightarrow> (('s \<Rightarrow> 's) \<times> bus_event) list \<Rightarrow> frame list" where
  "tail_loop ops t s [] = []"
| "tail_loop ops t s ((g, item) # items) =
     (case on_recv ops t (g s) (Some item) of
        (Emit frames, t', s') \<Rightarrow> frames @ tail_loop ops t' s' items
      | (EmitAndClose frames, t', s') \<Rightarrow> frames
      | (Skip, t', s') \<Rightarrow> tail_loop ops t' s' items
      | (Close, t', s') \<Rightarrow> [])"

text \<open>The replay part of \<open>agent_stream\<close>: up to and including a terminal event.\<close>

fun history_part :: "nat \<Rightarrow> fleet_event list \<Rightarrow> fleet_event list \<times> nat \<times> bool" where
  "history_part ld [] = ([], ld, False)"
| "history_part ld (ev # es) =
     (if is_terminal_event ev then ([ev], seq ev, True)
      else case history_part (seq ev) es of (ys, ld', t) \<Rightarrow> (ev # ys, ld', t))"

definition agent_stream ::
  "'s store_ops \<Rightarrow> string \<Rightarrow> nat \<Rightarrow> 's \<Rightarrow> (('s \<Rightarrow> 's) \<times> bus_event) list \<Rightarrow> frame list" where
  "agent_stream ops i from s items =
     (case history ops s i from of
        (hs, s) \<Rightarrow>
          (case history_part (from - 1) hs of
             (ys, ld, closed) \<Rightarrow>
               map EventFrame ys @
               (if closed then []
                else tail_loop ops \<lparr>tl_agent = i, last_delivered = ld\<rparr> s items)))"

section \<open>The fleet stream\<close>

definition FLEET_BATCH :: nat where
  "FLEET_BATCH = 256"

datatype from_param = FromOmitted | FromNow | FromText string

definition start_cursor :: "'s store_ops \<Rightarrow> 's \<Rightarrow> from_param \<Rightarrow> nat \<times> 's" where
  "start_cursor ops s from =
     (case from of
        FromNow \<Rightarrow> (case st_latest_fleet_cursor ops s of (r, s) \<Rightarrow> (unwrap_or r 0, s))
      | FromText t \<Rightarrow> (case parse_u64 t of Some n \<Rightarrow> n | None \<Rightarrow> 0, s)
      | FromOmitted \<Rightarrow> (0, s))"

text \<open>
  The inner loop: batches until a read returns nothing. \<open>fuel\<close> bounds the reads; \<open>None\<close> says the
  bound was too small.
\<close>

fun fleet_drain ::
  "'s store_ops \<Rightarrow> nat \<Rightarrow> nat \<Rightarrow> 's \<Rightarrow> (cursored_event list \<times> nat \<times> 's) option" where
  "fleet_drain ops 0 c s = None"
| "fleet_drain ops (Suc fuel) c s =
     (case st_replay_fleet ops s c FLEET_BATCH of
        (r, s) \<Rightarrow>
          (let batch = unwrap_or r []
           in if batch = [] then Some ([], c, s)
              else map_option (\<lambda>(ys, c', s'). (batch @ ys, c', s'))
                     (fleet_drain ops fuel (cursor (last batch)) s)))"

text \<open>One drain, then one per doorbell; \<open>g\<close> is the change of the store before a doorbell.\<close>

fun fleet_loop ::
  "'s store_ops \<Rightarrow> nat \<Rightarrow> nat \<Rightarrow> 's \<Rightarrow> ('s \<Rightarrow> 's) list \<Rightarrow> (cursored_event list \<times> nat \<times> 's) option" where
  "fleet_loop ops fuel c s [] = fleet_drain ops fuel c s"
| "fleet_loop ops fuel c s (g # gs) =
     (case fleet_drain ops fuel c s of
        None \<Rightarrow> None
      | Some (ys, c', s') \<Rightarrow>
          map_option (\<lambda>(zs, c'', s''). (ys @ zs, c'', s'')) (fleet_loop ops fuel c' (g s') gs))"

definition fleet_stream ::
  "'s store_ops \<Rightarrow> nat \<Rightarrow> from_param \<Rightarrow> 's \<Rightarrow> ('s \<Rightarrow> 's) list \<Rightarrow>
     (cursored_event list \<times> nat \<times> 's) option" where
  "fleet_stream ops fuel from s gs =
     (case start_cursor ops s from of (c, s) \<Rightarrow> fleet_loop ops fuel c s gs)"

section \<open>Deduplication\<close>

lemma dedup_facts:
  "dedup cur es = (cur', ys) \<Longrightarrow>
     sorted_wrt (<) (map seq ys) \<and> (\<forall>y \<in> set ys. cur < seq y \<and> seq y \<le> cur') \<and> cur \<le> cur' \<and>
     set ys \<subseteq> set es"
proof (induction cur es arbitrary: cur' ys rule: dedup.induct)
  case (2 cur ev es)
  show ?case
  proof (cases "seq ev \<le> cur")
    case True
    with 2 show ?thesis by auto
  next
    case False
    obtain c zs where d: "dedup (seq ev) es = (c, zs)" by fastforce
    with False 2(3) have "cur' = c" "ys = ev # zs" by auto
    with 2(2) [OF False d] False show ?thesis by fastforce
  qed
qed simp

lemma dedup_strict:
  "sorted_wrt (<) (map seq es) \<Longrightarrow> (\<And>e. e \<in> set es \<Longrightarrow> cur < seq e) \<Longrightarrow> snd (dedup cur es) = es"
proof (induction es arbitrary: cur)
  case (Cons ev es)
  then have "snd (dedup (seq ev) es) = es" by simp
  then show ?case using Cons.prems(2) [of ev] by (simp add: case_prod_beta)
qed simp

lemma heal_loop_facts:
  "heal_loop cur es = (cur', ys, t) \<Longrightarrow>
     sorted_wrt (<) (map seq ys) \<and> (\<forall>y \<in> set ys. cur < seq y \<and> seq y \<le> cur') \<and> cur \<le> cur' \<and>
     set ys \<subseteq> set es \<and> (\<forall>y \<in> set (butlast ys). \<not> is_terminal_event y) \<and>
     (t \<longleftrightarrow> ys \<noteq> [] \<and> is_terminal_event (last ys))"
proof (induction cur es arbitrary: cur' ys t rule: heal_loop.induct)
  case (2 cur ev es)
  show ?case
  proof (cases "seq ev \<le> cur")
    case True
    with 2 show ?thesis by auto
  next
    case gt: False
    show ?thesis
    proof (cases "is_terminal_event ev")
      case True
      with gt 2(3) show ?thesis by auto
    next
      case False
      obtain c zs u where d: "heal_loop (seq ev) es = (c, zs, u)" by (metis prod_cases3)
      with gt False 2(3) have "cur' = c" "ys = ev # zs" "t = u" by auto
      moreover note IH = 2(2) [OF gt False d]
      moreover from IH gt have "\<forall>y \<in> set zs. cur < seq y \<and> seq y \<le> c" "cur \<le> c" by auto
      ultimately show ?thesis using gt False by (simp add: subset_insertI2)
    qed
  qed
qed simp

text \<open>A stream whose numbers are distinct is replayed in strictly increasing order.\<close>

definition uniq_log :: "fleet_event list \<Rightarrow> bool" where
  "uniq_log es \<longleftrightarrow> distinct (map (\<lambda>e. (stream_key e, seq e)) es)"

lemma stream_history_strict:
  assumes "uniq_log es"
  shows "sorted_wrt (<) (map seq (stream_history es k n))"
proof -
  let ?f = "filter (\<lambda>e. stream_key e = k \<and> n \<le> seq e) es"
  have "distinct (map (\<lambda>e. (stream_key e, seq e)) ?f)"
    using assms by (simp add: uniq_log_def distinct_map inj_on_def)
  moreover have "map (\<lambda>e. (stream_key e, seq e)) ?f = map (Pair k) (map seq ?f)"
    by (simp cong: map_cong)
  ultimately have "distinct (map seq ?f)"
    by (metis distinct_map)
  then have "distinct (map seq (stream_history es k n))"
    by (simp add: stream_history_def distinct_map)
  then show ?thesis
    using stream_history_sorted by (simp add: strict_sorted_iff)
qed

section \<open>Doorbell subscriptions, over any store\<close>

context event_store
begin

lemma doorbell_step_facts:
  assumes "inv s" "doorbell_step ops ls s p = (ys, ls', s')"
  shows "inv s'" "hist s' = hist s" "ls k \<le> ls' k"
    "sorted_wrt (<) (map seq (filter (\<lambda>e. stream_key e = k) ys))"
    "\<forall>y \<in> set ys. stream_key y = k \<longrightarrow> ls k < seq y \<and> seq y \<le> ls' k"
proof -
  have "inv s' \<and> hist s' = hist s \<and> ls k \<le> ls' k \<and>
    sorted_wrt (<) (map seq (filter (\<lambda>e. stream_key e = k) ys)) \<and>
    (\<forall>y \<in> set ys. stream_key y = k \<longrightarrow> ls k < seq y \<and> seq y \<le> ls' k)"
  proof (cases "rsplit_once (CHR '':'') p")
    case None
    then show ?thesis using assms by (simp add: doorbell_step_def)
  next
    case (Some nk)
    obtain nkey x where nk: "nk = (nkey, x)" by fastforce
    obtain r s1 where rp: "st_replay ops s nkey (ls nkey + 1) = (r, s1)" by fastforce
    note fr = replay_frame [OF assms(1) rp]
    show ?thesis
    proof (cases r)
      case (Inl e)
      then show ?thesis using assms(2) Some nk rp fr by (auto simp: doorbell_step_def)
    next
      case (Inr es)
      obtain c zs where d: "dedup (ls nkey) es = (c, zs)" by fastforce
      have res: "ys = zs" "ls' = ls(nkey := c)" "s' = s1"
        using assms(2) Some nk rp Inr d by (auto simp: doorbell_step_def)
      note df = dedup_facts [OF d]
      have key: "stream_key y = nkey" if "y \<in> set zs" for y
        using replay_key [OF assms(1)] rp Inr df that by blast
      then have flt: "filter (\<lambda>e. stream_key e = k) zs = (if k = nkey then zs else [])"
        by (auto simp: filter_id_conv filter_empty_conv)
      show ?thesis
        unfolding res flt using fr df key by auto
    qed
  qed
  then show "inv s'" "hist s' = hist s" "ls k \<le> ls' k"
    "sorted_wrt (<) (map seq (filter (\<lambda>e. stream_key e = k) ys))"
    "\<forall>y \<in> set ys. stream_key y = k \<longrightarrow> ls k < seq y \<and> seq y \<le> ls' k"
    by auto
qed

lemma drain_doorbell_increasing:
  assumes "inv s" "\<And>g p s. (g, p) \<in> set ns \<Longrightarrow> inv s \<Longrightarrow> inv (g s)"
  shows "sorted_wrt (<) (map seq (filter (\<lambda>e. stream_key e = k) (drain_doorbell ops ls s ns))) \<and>
    (\<forall>y \<in> set (drain_doorbell ops ls s ns). stream_key y = k \<longrightarrow> ls k < seq y)"
  using assms
proof (induction ns arbitrary: ls s)
  case (Cons n ns)
  obtain g p where n: "n = (g, p)" by fastforce
  obtain ys ls' s' where st: "doorbell_step ops ls (g s) p = (ys, ls', s')" by (metis prod_cases3)
  have "inv (g s)" using Cons.prems n by auto
  note f = doorbell_step_facts(1,2) [OF this st] doorbell_step_facts(3-5) [OF this st, of k]
  have IH: "sorted_wrt (<) (map seq (filter (\<lambda>e. stream_key e = k) (drain_doorbell ops ls' s' ns))) \<and>
    (\<forall>y \<in> set (drain_doorbell ops ls' s' ns). stream_key y = k \<longrightarrow> ls' k < seq y)"
    by (rule Cons.IH) (use f(1) Cons.prems(2) in auto)
  show ?case
    unfolding n drain_doorbell.simps st prod.case filter_append map_append sorted_wrt_append
    using f(3-5) IH by fastforce
qed simp

text \<open>A doorbell that finds the store answering delivers everything durable past the high-water.\<close>

lemma doorbell_step_delivers:
  assumes "inv s" "uniq_log (hist s)" "rsplit_once (CHR '':'') p = Some (k, x)" "ls k + 1 < 2 ^ 63"
    and "st_replay ops s k (ls k + 1) = (Inr es, s1)"
  shows "fst (doorbell_step ops ls s p) = stream_history (hist s) k (ls k + 1)"
proof -
  have es: "es = stream_history (hist s) k (ls k + 1)"
    using replay_ok [OF assms(1,4,5)] .
  have "snd (dedup (ls k) es) = es"
    using stream_history_strict [OF assms(2)] stream_history_set unfolding es
    by (intro dedup_strict) auto
  then show ?thesis using assms(3,5) es by (simp add: doorbell_step_def case_prod_beta)
qed

end

section \<open>Agent streams\<close>

fun frame_events :: "frame list \<Rightarrow> fleet_event list" where
  "frame_events [] = []"
| "frame_events (EventFrame ev # fs) = ev # frame_events fs"
| "frame_events (Gap _ _ # fs) = frame_events fs"

lemma frame_events_append [simp]: "frame_events (a @ b) = frame_events a @ frame_events b"
  by (induction a rule: frame_events.induct) auto

lemma frame_events_map [simp]: "frame_events (map EventFrame es) = es"
  by (induction es) auto

text \<open>Strictly increasing numbers above a floor, and nothing behind a terminal event.\<close>

definition ordered_above :: "nat \<Rightarrow> fleet_event list \<Rightarrow> bool" where
  "ordered_above n es \<longleftrightarrow>
     sorted_wrt (<) (map seq es) \<and> (\<forall>e \<in> set es. n < seq e) \<and>
     (\<forall>e \<in> set (butlast es). \<not> is_terminal_event e)"

lemma ordered_above_append:
  assumes "sorted_wrt (<) (map seq xs)" "\<forall>x \<in> set xs. n < seq x \<and> seq x \<le> m \<and> \<not> is_terminal_event x"
    and "ordered_above m ys" "n \<le> m"
  shows "ordered_above n (xs @ ys)"
proof -
  have "sorted_wrt (<) (map seq (xs @ ys))"
    using assms(1-3) unfolding ordered_above_def map_append sorted_wrt_append by fastforce
  moreover have "\<forall>e \<in> set (xs @ ys). n < seq e"
    using assms(2-4) unfolding ordered_above_def by fastforce
  moreover have "\<forall>e \<in> set (butlast (xs @ ys)). \<not> is_terminal_event e"
    using assms(2,3) by (cases "ys = []") (auto simp: ordered_above_def butlast_append dest: in_set_butlastD)
  ultimately show ?thesis by (simp add: ordered_above_def)
qed

lemma tail_loop_ordered: "ordered_above (last_delivered t) (frame_events (tail_loop ops t s items))"
proof (induction items arbitrary: t s)
  case Nil
  then show ?case by (simp add: ordered_above_def)
next
  case (Cons x items)
  obtain g item where x: "x = (g, item)" by fastforce
  show ?case
  proof (cases item)
    case (BusEvent ev)
    let ?t = "t\<lparr>last_delivered := seq ev\<rparr>"
    show ?thesis
    proof (cases "ev_agent ev = tl_agent t \<and> last_delivered t < seq ev \<and> \<not> is_terminal_event ev")
      case True
      have "ordered_above (last_delivered t) ([ev] @ frame_events (tail_loop ops ?t (g s) items))"
        using Cons.IH [of ?t "g s"] True by (intro ordered_above_append [where m = "seq ev"]) auto
      then show ?thesis using True x BusEvent by simp
    next
      case False
      then show ?thesis using x BusEvent Cons.IH [of t "g s"] by (auto simp: ordered_above_def)
    qed
  next
    case (Lagged n)
    obtain es s1 where h: "history ops (g s) (tl_agent t) (last_delivered t + 1) = (es, s1)"
      by fastforce
    obtain c ys u where hl: "heal_loop (last_delivered t) es = (c, ys, u)" by (metis prod_cases3)
    let ?t = "t\<lparr>last_delivered := c\<rparr>"
    note f = heal_loop_facts [OF hl]
    show ?thesis
    proof (cases u)
      case True
      then show ?thesis using x Lagged h hl f by (simp add: Let_def ordered_above_def)
    next
      case False
      then have "\<forall>y \<in> set ys. \<not> is_terminal_event y"
        using f by (metis append_butlast_last_id in_set_conv_decomp_last insert_iff list.set(2)
            rotate1.simps(2) set_append set_rotate1 empty_iff list.set(1) Un_iff)
      then have "ordered_above (last_delivered t) (ys @ frame_events (tail_loop ops ?t s1 items))"
        using f Cons.IH [of ?t s1] by (intro ordered_above_append [where m = c]) auto
      then show ?thesis using False x Lagged h hl by (simp add: Let_def)
    qed
  qed
qed

lemma history_part_facts:
  assumes "history_part ld hs = (ys, ld', closed)" "sorted_wrt (<) (map seq hs)"
    "\<forall>h \<in> set hs. ld \<le> seq h"
  shows "sorted_wrt (<) (map seq ys) \<and> set ys \<subseteq> set hs \<and> ld \<le> ld' \<and> (\<forall>y \<in> set ys. seq y \<le> ld') \<and>
    (\<forall>y \<in> set (butlast ys). \<not> is_terminal_event y) \<and>
    (\<not> closed \<longrightarrow> (\<forall>y \<in> set ys. \<not> is_terminal_event y))"
  using assms
proof (induction ld hs arbitrary: ys ld' closed rule: history_part.induct)
  case (2 ld ev es)
  show ?case
  proof (cases "is_terminal_event ev")
    case True
    with 2 show ?thesis by auto
  next
    case False
    obtain zs l c where h: "history_part (seq ev) es = (zs, l, c)" by (metis prod_cases3)
    with False 2(2) have eq: "ys = ev # zs" "ld' = l" "closed = c" by auto
    have IH: "sorted_wrt (<) (map seq zs) \<and> set zs \<subseteq> set es \<and> seq ev \<le> l \<and> (\<forall>y \<in> set zs. seq y \<le> l) \<and>
      (\<forall>y \<in> set (butlast zs). \<not> is_terminal_event y) \<and>
      (\<not> c \<longrightarrow> (\<forall>y \<in> set zs. \<not> is_terminal_event y))"
      by (rule 2(1) [OF False h]) (use 2(3) in \<open>auto intro: less_imp_le\<close>)
    then show ?thesis
      using eq 2(3,4) False by auto
  qed
qed simp

context event_store
begin

lemma agent_stream_ordered:
  assumes "inv s" "uniq_log (hist s)" "from < 2 ^ 63"
  shows "let es = frame_events (agent_stream ops i from s items)
    in sorted_wrt (<) (map seq es) \<and> (\<forall>e \<in> set es. from \<le> seq e) \<and>
       (\<forall>e \<in> set (butlast es). \<not> is_terminal_event e)"
proof -
  obtain hs s1 where h: "history ops s i from = (hs, s1)" by fastforce
  obtain ys ld closed where p: "history_part (from - 1) hs = (ys, ld, closed)" by (metis prod_cases3)
  obtain r where r: "st_replay ops s i from = (r, s1)" "hs = unwrap_or r []"
    using h by (auto simp: history_def split: prod.splits)
  have hs: "hs = [] \<or> hs = stream_history (hist s) i from"
    using r replay_ok [OF assms(1,3)] by (cases r) auto
  then have srt: "sorted_wrt (<) (map seq hs)" and ge: "\<forall>x \<in> set hs. from \<le> seq x"
    using stream_history_strict [OF assms(2)] stream_history_set by auto
  have ge': "\<forall>x \<in> set hs. from - 1 \<le> seq x" using ge by auto
  note f = history_part_facts [OF p srt ge']
  let ?t = "tail_loop ops \<lparr>tl_agent = i, last_delivered = ld\<rparr> s1 items"
  have t: "ordered_above ld (frame_events ?t)"
    using tail_loop_ordered [of "\<lparr>tl_agent = i, last_delivered = ld\<rparr>" ops s1 items] by simp
  let ?es = "frame_events (agent_stream ops i from s items)"
  define T where "T = (if closed then [] else frame_events ?t)"
  have es: "?es = ys @ T"
    using h p by (simp add: agent_stream_def T_def)
  have T: "sorted_wrt (<) (map seq T)" "\<forall>e \<in> set T. ld < seq e"
    "\<forall>e \<in> set (butlast T). \<not> is_terminal_event e"
    using t by (simp_all add: ordered_above_def T_def)
  have "\<forall>x \<in> set ys. \<forall>y \<in> set T. seq x < seq y"
    using f T(2) le_less_trans by blast
  then have "sorted_wrt (<) (map seq ?es)"
    using f T(1) unfolding es by (simp add: sorted_wrt_append)
  moreover have "from \<le> seq e" if "e \<in> set ?es" for e
  proof (cases "e \<in> set ys")
    case True
    then show ?thesis using f ge by blast
  next
    case False
    then have "ld < seq e" using that T(2) es by simp
    then show ?thesis using f by linarith
  qed
  moreover have "\<forall>e \<in> set (butlast ?es). \<not> is_terminal_event e"
  proof (cases "T = []")
    case False
    then have "\<not> closed" by (auto simp: T_def)
    then show ?thesis using f T(3) False unfolding es by (auto simp: butlast_append)
  qed (use f es in auto)
  ultimately show ?thesis by (simp add: Let_def)
qed

end

section \<open>Fleet streams\<close>

lemma after_cursor_after: "c \<le> c' \<Longrightarrow> after_cursor L c' = filter (\<lambda>x. c' < cursor x) (after_cursor L c)"
  by (auto simp: after_cursor_def intro: filter_cong)

lemma sorted_split_last:
  assumes "sorted_wrt (<) (map cursor xs)" "xs \<noteq> []" "0 < n"
  shows "filter (\<lambda>x. cursor (last (take n xs)) < cursor x) xs = drop n xs"
proof -
  let ?a = "take n xs" and ?b = "drop n xs"
  have ne: "?a \<noteq> []" using assms(2,3) by (cases n) auto
  have split: "sorted_wrt (<) (map cursor ?a @ map cursor ?b)"
    using assms(1) by (metis append_take_drop_id map_append)
  have "x = last ?a \<or> cursor x < cursor (last ?a)" if "x \<in> set ?a" for x
  proof -
    obtain ys where ys: "?a = ys @ [last ?a]" using ne by (metis append_butlast_last_id)
    have "sorted_wrt (<) (map cursor (ys @ [last ?a]))"
      using split unfolding ys [symmetric] by (simp add: sorted_wrt_append)
    moreover have "x \<in> set (ys @ [last ?a])" using that ys by metis
    ultimately show ?thesis by (auto simp: sorted_wrt_append)
  qed
  then have "filter (\<lambda>x. cursor (last ?a) < cursor x) ?a = []"
    by (fastforce simp: filter_empty_conv)
  moreover have "filter (\<lambda>x. cursor (last ?a) < cursor x) ?b = ?b"
    using split ne last_in_set [OF ne] by (auto simp: filter_id_conv sorted_wrt_append)
  ultimately show ?thesis
    by (metis append_take_drop_id filter_append self_append_conv2)
qed

context fleet_log
begin

lemma after_cursor_sorted: "inv s \<Longrightarrow> sorted_wrt (<) (map cursor (after_cursor (clog s) c))"
  using clog_sorted by (simp add: after_cursor_def sorted_wrt_map sorted_wrt_filter)

lemma fleet_batch_step:
  assumes "inv s" "c < 2 ^ 63" "st_replay_fleet ops s c FLEET_BATCH = (r, s1)"
    and "batch = unwrap_or r []" "batch \<noteq> []"
  shows "batch @ after_cursor (clog s) (cursor (last batch)) = after_cursor (clog s) c"
    "cursor (last batch) < 2 ^ 63" "c < cursor (last batch)" "last batch \<in> set (clog s)"
proof -
  let ?A = "after_cursor (clog s) c"
  obtain cs where r: "r = Inr cs" using assms(4,5) by (cases r) auto
  have b: "batch = take FLEET_BATCH ?A"
    using replay_fleet_ok [OF assms(1,2)] assms(3,4) r by (simp add: FLEET_BATCH_def)
  have "last batch \<in> set ?A" using last_in_set [OF assms(5)] b by (metis in_set_takeD)
  then show in_log: "last batch \<in> set (clog s)" and gt: "c < cursor (last batch)"
    by (auto simp: after_cursor_def)
  show "cursor (last batch) < 2 ^ 63" using clog_bounds [OF assms(1) in_log] by simp
  have "after_cursor (clog s) (cursor (last batch)) = drop FLEET_BATCH ?A"
    unfolding after_cursor_after [OF less_imp_le [OF gt]] unfolding b
    using assms(5) b by (intro sorted_split_last after_cursor_sorted [OF assms(1)]) (auto simp: FLEET_BATCH_def)
  then show "batch @ after_cursor (clog s) (cursor (last batch)) = ?A" using b by simp
qed

text \<open>A drain delivers a prefix of what is past the cursor and stops exactly there.\<close>

lemma fleet_drain_facts:
  assumes "inv s" "c < 2 ^ 63" "fleet_drain ops fuel c s = Some (ys, c', s')"
  shows "inv s' \<and> clog s' = clog s \<and> ys @ after_cursor (clog s) c' = after_cursor (clog s) c \<and>
    c' < 2 ^ 63 \<and> c \<le> c' \<and> (c' = c \<or> (\<exists>x \<in> set (clog s). cursor x = c'))"
  using assms
proof (induction fuel arbitrary: c s ys)
  case (Suc fuel)
  obtain r s1 where rf: "st_replay_fleet ops s c FLEET_BATCH = (r, s1)" by fastforce
  note fr = replay_fleet_frame [OF Suc.prems(1) rf]
  show ?case
  proof (cases "unwrap_or r [] = []")
    case True
    then show ?thesis using Suc.prems rf fr by simp
  next
    case False
    note b = fleet_batch_step [OF Suc.prems(1,2) rf refl False]
    let ?b = "unwrap_or r []"
    obtain zs where d: "fleet_drain ops fuel (cursor (last ?b)) s1 = Some (zs, c', s')" "ys = ?b @ zs"
      using Suc.prems(3) rf False by (auto simp: Let_def)
    have "inv s' \<and> clog s' = clog s1 \<and>
      zs @ after_cursor (clog s1) c' = after_cursor (clog s1) (cursor (last ?b)) \<and>
      c' < 2 ^ 63 \<and> cursor (last ?b) \<le> c' \<and>
      (c' = cursor (last ?b) \<or> (\<exists>x \<in> set (clog s1). cursor x = c'))"
      by (rule Suc.IH) (use fr b d in auto)
    then show ?thesis using fr b d by auto
  qed
qed simp

text \<open>More fuel than events past the cursor is enough.\<close>

lemma fleet_drain_terminates:
  assumes "inv s" "c < 2 ^ 63" "length (after_cursor (clog s) c) < fuel"
  shows "\<exists>ys c' s'. fleet_drain ops fuel c s = Some (ys, c', s')"
  using assms
proof (induction fuel arbitrary: c s)
  case (Suc fuel)
  obtain r s1 where rf: "st_replay_fleet ops s c FLEET_BATCH = (r, s1)" by fastforce
  note fr = replay_fleet_frame [OF Suc.prems(1) rf]
  show ?case
  proof (cases "unwrap_or r [] = []")
    case True
    then show ?thesis using rf by simp
  next
    case False
    let ?b = "unwrap_or r []"
    note b = fleet_batch_step [OF Suc.prems(1,2) rf refl False]
    have "length ?b + length (after_cursor (clog s) (cursor (last ?b))) = length (after_cursor (clog s) c)"
      by (metis b(1) length_append)
    then have "length (after_cursor (clog s1) (cursor (last ?b))) < fuel"
      using Suc.prems(3) fr False by (cases ?b) auto
    then obtain ys c' s' where "fleet_drain ops fuel (cursor (last ?b)) s1 = Some (ys, c', s')"
      using Suc.IH fr b(2) by blast
    then show ?thesis using rf False by (simp add: Let_def)
  qed
qed simp

end

definition grows :: "('s \<Rightarrow> bool) \<Rightarrow> ('s \<Rightarrow> cursored_event list) \<Rightarrow> ('s \<Rightarrow> 's) \<Rightarrow> bool" where
  "grows I L g \<longleftrightarrow> (\<forall>s. I s \<longrightarrow> I (g s) \<and> (\<exists>new. L (g s) = L s @ new))"

context fleet_log
begin

lemma extension_keeps_split:
  assumes "inv s'" "clog s' = clog s @ new" "c \<le> c'"
    and "c' = c \<or> (\<exists>x \<in> set (clog s). cursor x = c')"
    and "ys @ after_cursor (clog s) c' = after_cursor (clog s) c"
  shows "ys @ after_cursor (clog s') c' = after_cursor (clog s') c"
proof -
  have "sorted_wrt (<) (map cursor (clog s) @ map cursor new)"
    using clog_sorted [OF assms(1)] assms(2) by simp
  then have "c' < cursor y" if "y \<in> set new" "c' \<noteq> c" for y
    using assms(4) that by (auto simp: sorted_wrt_append)
  then have "after_cursor new c' = after_cursor new c"
    using assms(3) unfolding after_cursor_def by (intro filter_cong refl) (metis le_less_trans)
  then show ?thesis
    using assms(5) unfolding assms(2) by (simp add: after_cursor_def)
qed

lemma fleet_loop_exact:
  assumes "inv s" "c < 2 ^ 63" "list_all (grows inv clog) gs"
    and "fleet_loop ops fuel c s gs = Some (ys, c', s')"
  shows "inv s' \<and> ys @ after_cursor (clog s') c' = after_cursor (clog s') c \<and>
    (\<exists>new. clog s' = clog s @ new)"
  using assms
proof (induction gs arbitrary: c s ys)
  case Nil
  then show ?case using fleet_drain_facts [of s c fuel ys c' s'] by simp
next
  case (Cons g gs)
  obtain zs c1 s1 where d: "fleet_drain ops fuel c s = Some (zs, c1, s1)"
    using Cons.prems(4) by (auto split: option.splits)
  obtain ws where l: "fleet_loop ops fuel c1 (g s1) gs = Some (ws, c', s')" "ys = zs @ ws"
    using Cons.prems(4) d by auto
  note f = fleet_drain_facts [OF Cons.prems(1,2) d]
  obtain new where inv1: "inv (g s1)" and new: "clog (g s1) = clog s @ new"
    using Cons.prems(3) f by (simp add: grows_def) metis
  have IH: "inv s' \<and> ws @ after_cursor (clog s') c' = after_cursor (clog s') c1 \<and>
    (\<exists>new. clog s' = clog (g s1) @ new)"
    by (rule Cons.IH) (use inv1 f Cons.prems(3) l in auto)
  then obtain new' where ext: "clog s' = clog s @ new'" using new by auto
  have "zs @ after_cursor (clog s') c1 = after_cursor (clog s') c"
    by (rule extension_keeps_split [OF _ ext]) (use IH f in auto)
  then show ?case using IH ext l(2) by auto
qed

end

section \<open>Properties\<close>


text \<open>
  A drain of the fleet stream ends: with more rounds than there are events past the cursor it
  returns, and when the driver has no error to come it has delivered all of them.
\<close>

theorem fleet_drain_ends:
  assumes "sql_log_inv dec db" "c < 2 ^ 63" "length (after_cursor (sql_clog dec db) c) < fuel"
    and "db_faults db = []"
  shows "\<exists>c'. fleet_drain (sqlite_ops fsum enc dec) fuel c db =
    Some (after_cursor (sql_clog dec db) c, c', db)"
  using assms(2,3)
proof (induction fuel arbitrary: c)
  case (Suc fuel)
  let ?A = "after_cursor (sql_clog dec db) c" and ?ops = "sqlite_ops fsum enc dec"
  have rf: "st_replay_fleet ?ops db c FLEET_BATCH = (Inr (take FLEET_BATCH ?A), db)"
    using sql_replay_fleet_no_fault [OF assms(1,4) Suc.prems(1)]
    by (simp add: sqlite_ops_def FLEET_BATCH_def)
  show ?case
  proof (cases "?A = []")
    case True
    then show ?thesis using rf by simp
  next
    case False
    let ?b = "take FLEET_BATCH ?A"
    have ne: "unwrap_or (Inr ?b) [] \<noteq> []" using False by (simp add: FLEET_BATCH_def)
    note b = sqlite_log.fleet_batch_step [OF assms(1) Suc.prems(1) rf refl ne, simplified]
    have "length ?b + length (after_cursor (sql_clog dec db) (cursor (last ?b))) = length ?A"
      by (metis b(1) length_append)
    moreover have "0 < length ?b" using ne by simp
    ultimately have "length (after_cursor (sql_clog dec db) (cursor (last ?b))) < fuel"
      using Suc.prems(2) by linarith
    then obtain c' where "fleet_drain ?ops fuel (cursor (last ?b)) db =
      Some (after_cursor (sql_clog dec db) (cursor (last ?b)), c', db)"
      using Suc.IH b(2) by fastforce
    then show ?thesis using rf ne b(1) by simp
  qed
qed simp

theorem fleet_drain_ends_witness:
  "\<exists>c'. fleet_drain (sqlite_ops (\<lambda>_. 0) (\<lambda>_. []) (\<lambda>_. Inr AgentGone)) 1 0
     \<lparr>db_rows = [], db_next = 1, db_faults = []\<rparr> =
     Some ([], c', \<lparr>db_rows = [], db_next = 1, db_faults = []\<rparr>)"
  using fleet_drain_ends [of "\<lambda>_. Inr AgentGone" "\<lparr>db_rows = [], db_next = 1, db_faults = []\<rparr>" 0 1
      "\<lambda>_. 0" "\<lambda>_. []"]
  by (simp add: sql_log_inv_def sql_inv_def sql_clog_def after_cursor_def)

text \<open>
  The doorbell names its stream: the payload splits at its last colon into the stream key, colons
  and all, and the sequence number.
\<close>

theorem doorbell_payload_roundtrip:
  "rsplit_once (CHR '':'') (doorbell_payload ev) = Some (stream_key ev, show_nat (seq ev))"
proof -
  have "CHR '':'' \<notin> set (show_nat (seq ev))"
    using show_nat_digits [of "seq ev"] by (auto simp: list_all_iff dest: bspec)
  then show ?thesis by (simp add: doorbell_payload_def rsplit_once_append)
qed

text \<open>
  A subscription to all streams over the Postgres store yields each stream in strictly increasing
  sequence order, never twice, and never at or below the high-water it has already passed,
  whatever the doorbells say and however the store changes between them.
\<close>

theorem doorbells_strictly_increasing:
  assumes "sql_inv dec db" "\<And>g p db. (g, p) \<in> set ns \<Longrightarrow> sql_inv dec db \<Longrightarrow> sql_inv dec (g db)"
  shows "sorted_wrt (<) (map seq (filter (\<lambda>e. stream_key e = k)
      (drain_doorbell (pg_ops fsum enc dec) last_seq db ns))) \<and>
    (\<forall>y \<in> set (drain_doorbell (pg_ops fsum enc dec) last_seq db ns).
       stream_key y = k \<longrightarrow> last_seq k < seq y)"
  by (rule postgres.drain_doorbell_increasing) (use assms in blast)+

text \<open>
  A doorbell whose replay succeeds delivers every durable event of its stream past the high-water,
  so a lost doorbell costs latency and no event.
\<close>

theorem doorbell_delivers_backlog:
  assumes "sql_inv dec db" "uniq_log (sql_hist dec db)" "last_seq (stream_key ev) + 1 < 2 ^ 63"
    and "sql_replay dec db (stream_key ev) (last_seq (stream_key ev) + 1) = (Inr es, db')"
  shows "fst (doorbell_step (pg_ops fsum enc dec) last_seq db (doorbell_payload ev)) =
    stream_history (sql_hist dec db) (stream_key ev) (last_seq (stream_key ev) + 1)"
proof -
  have "CHR '':'' \<notin> set (show_nat (seq ev))"
    using show_nat_digits [of "seq ev"] by (auto simp: list_all_iff dest: bspec)
  then have "rsplit_once (CHR '':'') (doorbell_payload ev) = Some (stream_key ev, show_nat (seq ev))"
    by (simp add: doorbell_payload_def rsplit_once_append)
  moreover have "st_replay (pg_ops fsum enc dec) = sql_replay dec" by (simp add: pg_ops_def)
  ultimately show ?thesis
    using assms by (intro postgres.doorbell_step_delivers) simp_all
qed

text \<open>
  The stream of one agent, over the sqlite store: history then live tail, lag repairs included,
  is strictly increasing in \<open>seq\<close> (no event twice), holds nothing below the floor the client
  asked for, and nothing follows a terminal event.
\<close>

theorem agent_stream_is_ordered:
  assumes "sql_inv dec db" "uniq_log (sql_hist dec db)" "from < 2 ^ 63"
  shows "let es = frame_events (agent_stream (sqlite_ops fsum enc dec) i from db items)
    in sorted_wrt (<) (map seq es) \<and> (\<forall>e \<in> set es. from \<le> seq e) \<and>
       (\<forall>e \<in> set (butlast es). \<not> is_terminal_event e)"
  by (rule sqlite.agent_stream_ordered [OF assms])

section \<open>Witnesses\<close>

definition sample_row :: "nat \<Rightarrow> event_row" where
  "sample_row n =
     \<lparr>row_ordinal = int n, row_key = ''a'', row_seq = int n, row_ts = ''t'', row_repo = ''r'',
      row_agent = ''a'', row_kind = [], row_actor = None, row_obo = None\<rparr>"

definition sample_db :: events_db where
  "sample_db = \<lparr>db_rows = [sample_row 1, sample_row 2], db_next = 3, db_faults = []\<rparr>"

abbreviation gone_dec :: kind_dec where
  "gone_dec \<equiv> (\<lambda>_. Inr AgentGone)"

abbreviation gone_ops :: "events_db store_ops" where
  "gone_ops \<equiv> sqlite_ops (\<lambda>_. 0) (\<lambda>_. []) gone_dec"

lemma sample_db_ok:
  "sql_inv gone_dec sample_db" "sql_log_inv gone_dec sample_db"
  "uniq_log (sql_hist gone_dec sample_db)" "length (sql_clog gone_dec sample_db) = 2"
  by (simp_all add: sample_db_def sample_row_def sql_inv_def sql_log_inv_def row_ok_def
      stream_key_for_def uniq_log_def sql_hist_def sql_clog_def as_u64_def)


theorem doorbells_strictly_increasing_witness:
  "sorted_wrt (<) (map seq (filter (\<lambda>e. stream_key e = ''a'')
     (drain_doorbell (pg_ops (\<lambda>_. 0) (\<lambda>_. []) gone_dec) (\<lambda>_. 0) sample_db [(id, ''a:1''), (id, ''a:2'')])))"
  by (rule doorbells_strictly_increasing [THEN conjunct1]) (auto simp: sample_db_ok)

theorem doorbell_delivers_backlog_witness:
  "map seq (fst (doorbell_step (pg_ops (\<lambda>_. 0) (\<lambda>_. []) gone_dec) (\<lambda>_. 0) sample_db
     (doorbell_payload (row_event gone_dec (sample_row 2))))) = [1, 2]"
proof -
  let ?ev = "row_event gone_dec (sample_row 2)"
  have key: "stream_key ?ev = ''a''" by (simp add: sample_row_def stream_key_for_def)
  have "\<exists>es db'. sql_replay gone_dec sample_db ''a'' 1 = (Inr es, db')"
    by (simp add: sql_replay_def statement_def sample_db_def sample_row_def as_i64_def of_row_def)
  then obtain es db' where "sql_replay gone_dec sample_db (stream_key ?ev) (0 + 1) = (Inr es, db')"
    using key by auto
  from doorbell_delivers_backlog [OF sample_db_ok(1,3) _ this, where fsum = "\<lambda>_. 0" and enc = "\<lambda>_. []"]
  show ?thesis
    by (simp add: stream_history_def sql_hist_def sample_db_def sample_row_def stream_key_for_def
        as_u64_def)
qed

theorem agent_stream_is_ordered_witness:
  "sorted_wrt (<) (map seq (frame_events (agent_stream gone_ops ''a'' 1 sample_db
     [(id, Lagged 3), (id, BusEvent (row_event gone_dec (sample_row 2)))])))"
  using agent_stream_is_ordered [OF sample_db_ok(1,3), of 1 "\<lambda>_. 0" "\<lambda>_. []" "''a''"
      "[(id, Lagged 3), (id, BusEvent (row_event gone_dec (sample_row 2)))]"]
  unfolding Let_def by simp

end
