(* ===== verification/Emitter_Race.thy ===== *)
theory Emitter_Race
  imports Emitter Live_Tail
begin

text \<open>
  Concurrent emissions of one process on one stream (\<open>core/src/fleet.rs\<close>, \<open>next_seq\<close> and \<open>emit\<close>). The
  lock on the counter map is held inside one block only, so an emission is five atomic pieces: the
  fast path, or the unlocked high-water read and the locked re-check; then the append; then the
  publication. A step relation interleaves the pieces of any number of tasks in every order.
\<close>

datatype phase = Ready | Seeding nat | Allocated nat | Appended nat | Published nat

record race =
  rc_cache :: "nat option"
  rc_log :: "nat list"
  rc_bus :: "nat list"
  rc_phase :: "nat \<Rightarrow> phase"

definition log_max :: "nat list \<Rightarrow> nat" where
  "log_max xs = foldr max xs 0"

inductive race_step :: "race \<Rightarrow> race \<Rightarrow> bool" where
  fast: "rc_phase r t = Ready \<Longrightarrow> rc_cache r = Some n \<Longrightarrow>
     race_step r (r\<lparr>rc_cache := Some (n + 1), rc_phase := (rc_phase r)(t := Allocated (n + 1))\<rparr>)"
| slow: "rc_phase r t = Ready \<Longrightarrow> rc_cache r = None \<Longrightarrow>
     race_step r (r\<lparr>rc_phase := (rc_phase r)(t := Seeding (log_max (rc_log r)))\<rparr>)"
| seed: "rc_phase r t = Seeding h \<Longrightarrow> n = (case rc_cache r of Some m \<Rightarrow> m + 1 | None \<Rightarrow> h + 1) \<Longrightarrow>
     race_step r (r\<lparr>rc_cache := Some n, rc_phase := (rc_phase r)(t := Allocated n)\<rparr>)"
| persist: "rc_phase r t = Allocated n \<Longrightarrow>
     race_step r (r\<lparr>rc_log := rc_log r @ [n], rc_phase := (rc_phase r)(t := Appended n)\<rparr>)"
| distribute: "rc_phase r t = Appended n \<Longrightarrow>
     race_step r (r\<lparr>rc_bus := rc_bus r @ [n], rc_phase := (rc_phase r)(t := Published n)\<rparr>)"

inductive race_reach :: "race \<Rightarrow> race \<Rightarrow> bool" where
  refl: "race_reach r r"
| step: "race_reach r r' \<Longrightarrow> race_step r' r'' \<Longrightarrow> race_reach r r''"

inductive_cases race_stepE: "race_step r r'"

definition race_start :: "nat list \<Rightarrow> race" where
  "race_start log = \<lparr>rc_cache = None, rc_log = log, rc_bus = [], rc_phase = (\<lambda>_. Ready)\<rparr>"

fun phase_seq :: "phase \<Rightarrow> nat option" where
  "phase_seq (Allocated n) = Some n"
| "phase_seq (Appended n) = Some n"
| "phase_seq (Published n) = Some n"
| "phase_seq _ = None"

text \<open>
  The invariant: before the counter is seeded nobody holds a number and every read high-water is
  that of the log; afterwards the counter bounds the log, the held numbers and the read
  high-waters, the held numbers differ, and the ones not yet in the log are fresh.
\<close>

definition race_inv :: "race \<Rightarrow> bool" where
  "race_inv r \<longleftrightarrow>
     distinct (rc_log r) \<and> distinct (rc_bus r) \<and> set (rc_bus r) \<subseteq> set (rc_log r) \<and>
     (\<forall>t u n. phase_seq (rc_phase r t) = Some n \<longrightarrow> phase_seq (rc_phase r u) = Some n \<longrightarrow> t = u) \<and>
     (\<forall>t n. rc_phase r t = Allocated n \<longrightarrow> n \<notin> set (rc_log r)) \<and>
     (\<forall>t n. rc_phase r t = Appended n \<longrightarrow> n \<in> set (rc_log r) \<and> n \<notin> set (rc_bus r)) \<and>
     (\<forall>t n. rc_phase r t = Published n \<longrightarrow> n \<in> set (rc_log r)) \<and>
     (case rc_cache r of
        None \<Rightarrow> (\<forall>t. phase_seq (rc_phase r t) = None) \<and>
                (\<forall>t h. rc_phase r t = Seeding h \<longrightarrow> h = log_max (rc_log r))
      | Some m \<Rightarrow> (\<forall>x \<in> set (rc_log r). x \<le> m) \<and>
                (\<forall>t n. phase_seq (rc_phase r t) = Some n \<longrightarrow> n \<le> m))"

lemma log_max_upper: "x \<in> set xs \<Longrightarrow> x \<le> log_max xs"
  by (simp add: log_max_def foldr_max_upper)

lemma race_inv_start: "distinct log \<Longrightarrow> race_inv (race_start log)"
  by (simp add: race_inv_def race_start_def)

lemma race_inv_alloc:
  assumes "race_inv r" "phase_seq (rc_phase r t) = None"
    and "n = (case rc_cache r of Some m \<Rightarrow> m + 1 | None \<Rightarrow> log_max (rc_log r) + 1)"
  shows "race_inv (r\<lparr>rc_cache := Some n, rc_phase := (rc_phase r)(t := Allocated n)\<rparr>)"
proof -
  have above: "x < n" if "x \<in> set (rc_log r)" for x
    using assms(1,3) that log_max_upper [of x "rc_log r"]
    by (fastforce simp: race_inv_def split: option.splits)
  have held: "m < n" if "phase_seq (rc_phase r u) = Some m" for u m
    using assms(1,3) that by (fastforce simp: race_inv_def split: option.splits)
  show ?thesis
    using assms(1,2) above held unfolding race_inv_def by (auto simp: less_imp_le dest: less_imp_le)
qed

lemma race_inv_held:
  "race_inv r \<Longrightarrow> rc_cache r = Some m \<Longrightarrow> phase_seq (rc_phase r t) = Some n \<Longrightarrow> n \<le> m"
  by (auto simp: race_inv_def)

lemma race_inv_step: "race_step r r' \<Longrightarrow> race_inv r \<Longrightarrow> race_inv r'"
proof (induction rule: race_step.induct)
  case (fast r t n)
  then show ?case using race_inv_alloc [of r t "n + 1"] by simp
next
  case (slow r t)
  then show ?case by (auto simp: race_inv_def)
next
  case (seed r t h n)
  have "rc_cache r = None \<Longrightarrow> h = log_max (rc_log r)"
    using seed by (auto simp: race_inv_def)
  with seed show ?case using race_inv_alloc [of r t n] by (auto split: option.splits)
next
  case (persist r t n)
  let ?r = "r\<lparr>rc_log := rc_log r @ [n], rc_phase := (rc_phase r)(t := Appended n)\<rparr>"
  have pt: "phase_seq (rc_phase r t) = Some n" using persist by simp
  obtain m where m: "rc_cache r = Some m"
    using persist(2) pt by (cases "rc_cache r") (auto simp: race_inv_def)
  have inj: "u = t" if "phase_seq (rc_phase r u) = Some n" for u
    using persist(2) pt that unfolding race_inv_def by blast
  have "n \<le> m" by (rule race_inv_held [OF persist(2) m pt])
  then have fresh: "n \<notin> set (rc_log r)" "n \<notin> set (rc_bus r)" "n \<le> m"
    using persist unfolding race_inv_def by auto
  have ph: "phase_seq (rc_phase ?r u) = phase_seq (rc_phase r u)" for u
    using pt by simp
  have al: "k \<notin> set (rc_log ?r)" if "rc_phase ?r u = Allocated k" for u k
    using that persist(2) inj [of u] unfolding race_inv_def by (auto split: if_splits)
  have ap: "k \<in> set (rc_log ?r) \<and> k \<notin> set (rc_bus ?r)" if "rc_phase ?r u = Appended k" for u k
    using that persist(2) fresh unfolding race_inv_def by (auto split: if_splits)
  show ?case
    using persist(2) fresh al ap m unfolding race_inv_def ph by (simp split: if_splits) blast
next
  case (distribute r t n)
  let ?r = "r\<lparr>rc_bus := rc_bus r @ [n], rc_phase := (rc_phase r)(t := Published n)\<rparr>"
  have pt: "phase_seq (rc_phase r t) = Some n" using distribute by simp
  have inj: "u = t" if "phase_seq (rc_phase r u) = Some n" for u
    using distribute(2) pt that unfolding race_inv_def by blast
  have old: "n \<in> set (rc_log r)" "n \<notin> set (rc_bus r)"
    using distribute unfolding race_inv_def by auto
  have ph: "phase_seq (rc_phase ?r u) = phase_seq (rc_phase r u)" for u
    using pt by simp
  have ap: "k \<in> set (rc_log ?r) \<and> k \<notin> set (rc_bus ?r)" if "rc_phase ?r u = Appended k" for u k
    using that distribute(2) inj [of u] unfolding race_inv_def by (auto split: if_splits)
  have sd: "rc_phase r u = Seeding h" if "rc_phase ?r u = Seeding h" for u h
    using that by (auto split: if_splits)
  note inv = distribute(2) [unfolded race_inv_def]
  show ?case unfolding race_inv_def ph
  proof (intro conjI)
    show "\<forall>u k. rc_phase ?r u = Allocated k \<longrightarrow> k \<notin> set (rc_log ?r)"
      "\<forall>u k. rc_phase ?r u = Published k \<longrightarrow> k \<in> set (rc_log ?r)"
      using inv old by auto
    show "\<forall>u k. rc_phase ?r u = Appended k \<longrightarrow> k \<in> set (rc_log ?r) \<and> k \<notin> set (rc_bus ?r)"
      using ap by blast
    show "case rc_cache ?r of
        None \<Rightarrow> (\<forall>t. phase_seq (rc_phase r t) = None) \<and>
                (\<forall>t h. rc_phase ?r t = Seeding h \<longrightarrow> h = log_max (rc_log ?r))
      | Some m \<Rightarrow> (\<forall>x \<in> set (rc_log ?r). x \<le> m) \<and>
                (\<forall>t n. phase_seq (rc_phase r t) = Some n \<longrightarrow> n \<le> m)"
      using inv pt by (cases "rc_cache r") simp_all
  qed (use inv old in auto)
qed

lemma race_inv_reach: "race_reach r r' \<Longrightarrow> race_inv r \<Longrightarrow> race_inv r'"
  by (induction rule: race_reach.induct) (auto intro: race_inv_step)

section \<open>Properties\<close>

text \<open>
  However the emissions of one process interleave, no two of them get the same sequence number:
  the log of the stream stays free of duplicates, and every published number is in it.
\<close>

theorem race_seqs_unique:
  assumes "distinct log" "race_reach (race_start log) r"
  shows "distinct (rc_log r) \<and> distinct (rc_bus r) \<and> set (rc_bus r) \<subseteq> set (rc_log r)"
  using race_inv_reach [OF assms(2) race_inv_start [OF assms(1)]] by (simp add: race_inv_def)

theorem race_seqs_unique_witness:
  "distinct (rc_log (race_start [1, 2]))"
  using race_seqs_unique [of "[1, 2]" "race_start [1, 2]"] race_reach.refl by simp

text \<open>
  Numbers are unique but not delivered in order: two emissions may publish in the opposite order
  of their numbers. Then both are in the log and both reach the bus, but a client that follows the
  agent live receives only the later one; the earlier one is dropped as already delivered.
\<close>

theorem race_live_tail_drops_event:
  "\<exists>r. race_reach (race_start []) r \<and> set (rc_log r) = {1, 2} \<and> set (rc_bus r) = {1, 2} \<and>
     map seq (frame_events (tail_loop ops \<lparr>tl_agent = ''a'', last_delivered = 0\<rparr> s
       (map (\<lambda>n. (id, BusEvent \<lparr>seq = n, ts = [], ev_repo = ''r'', ev_agent = ''a'', kind = AgentGone,
           actor = None, on_behalf_of = None\<rparr>)) (rc_bus r)))) = [2]"
proof -
  let ?p0 = "\<lambda>_ :: nat. Ready"
  let ?r = "\<lambda>c l b p. \<lparr>rc_cache = c, rc_log = l, rc_bus = b, rc_phase = p\<rparr>"
  let ?p1 = "?p0(0 := Seeding 0)" and ?p2 = "?p0(0 := Allocated 1)"
  let ?p3 = "?p2(1 := Allocated 2)" and ?p4 = "?p2(1 := Appended 2)" and ?p5 = "?p2(1 := Published 2)"
  let ?p6 = "?p5(0 := Appended 1)" and ?p7 = "?p5(0 := Published 1)"
  have 0: "race_reach (race_start []) (?r None [] [] ?p0)"
    unfolding race_start_def by (rule race_reach.refl)
  have 1: "race_reach (race_start []) (?r None [] [] ?p1)"
    using race_reach.step [OF 0 slow [of _ 0]] by (simp add: log_max_def)
  have 2: "race_reach (race_start []) (?r (Some 1) [] [] ?p2)"
    using race_reach.step [OF 1 seed [of _ 0 0]] by simp
  have 3: "race_reach (race_start []) (?r (Some 2) [] [] ?p3)"
    using race_reach.step [OF 2 fast [of _ 1 1]] by (simp add: numeral_2_eq_2)
  have 4: "race_reach (race_start []) (?r (Some 2) [2] [] ?p4)"
    using race_reach.step [OF 3 persist [of _ 1 2]] by simp
  have 5: "race_reach (race_start []) (?r (Some 2) [2] [2] ?p5)"
    using race_reach.step [OF 4 distribute [of _ 1 2]] by simp
  have 6: "race_reach (race_start []) (?r (Some 2) [2, 1] [2] ?p6)"
    using race_reach.step [OF 5 persist [of _ 0 1]] by (simp add: fun_upd_twist)
  have 7: "race_reach (race_start []) (?r (Some 2) [2, 1] [2, 1] ?p7)"
    using race_reach.step [OF 6 distribute [of _ 0 1]] by (simp add: fun_upd_twist)
  show ?thesis
    by (rule exI, rule conjI, rule 7) (auto simp: is_terminal_event_def)
qed

end
