(* ===== verification/Caliband.thy ===== *)
theory Caliband
  imports Core_Error
begin

text \<open>
  The caliband side (\<open>core/src/caliband\<close>, \<open>core/src/discovery.rs\<close>): the control requests and replies
  with the constructors and fields the source uses, the one-request client, the normaliser of
  stream frames, the discovery of sources and of the control socket. The daemon is a parameter, a
  function from its state and a request to an \<open>exchange\<close> and its next state.
\<close>

section \<open>Wire types (\<open>caliband/wire.rs\<close>)\<close>

datatype wire_status = WSpawning | WRunning | WIdle | WKilled | WDrained | WDone | WFailed | WCrashed

datatype wire_posture = WSupervised | WUnattended

datatype endpoint = Unix path | Tcp string

datatype drive_protocol = Ndjson

record spawn_spec =
  sp_label :: "string option"
  sp_frontmatter_path :: "string option"
  sp_initial_prompt :: string
  sp_model :: "string option"
  sp_provider :: "string option"
  sp_tool_allowlist :: "string list option"
  sp_isolation_worktree :: bool
  sp_inherit_hooks :: bool
  sp_interactive :: bool
  sp_permission_posture :: wire_posture
  sp_drive_protocol :: drive_protocol

record agent_record =
  ar_id :: string
  ar_name :: string
  ar_status :: wire_status
  ar_started_at :: string
  ar_spec :: spawn_spec
  ar_session_dir :: path

datatype ctl_request =
    ListReq
  | SpawnReq spawn_spec
  | AttachReq string
  | KillReq string
  | RespawnReq string
  | RmReq string bool
  | StatusReq
  | ShutdownReq

datatype supervisor_error =
    SupNotFound string
  | SupInvalidState string string wire_status
  | SupInternal string

datatype ctl_reply =
    Listed "agent_record list"
  | Spawned string endpoint
  | AttachAck endpoint
  | KilledReply
  | Respawned string
  | Removed
  | StatusReply string
  | ShutdownAck
  | ErrorReply supervisor_error

datatype attach_inbound = UserMessage string | EndInput

fun domain_status :: "wire_status \<Rightarrow> agent_status" where
  "domain_status WSpawning = Spawning"
| "domain_status WRunning = Running"
| "domain_status WIdle = Idle"
| "domain_status WKilled = Killed"
| "domain_status WDrained = Done"
| "domain_status WDone = Done"
| "domain_status WFailed = Failed"
| "domain_status WCrashed = Crashed"

fun wire_status_of :: "agent_status \<Rightarrow> wire_status" where
  "wire_status_of Spawning = WSpawning"
| "wire_status_of Running = WRunning"
| "wire_status_of Idle = WIdle"
| "wire_status_of Killed = WKilled"
| "wire_status_of Done = WDone"
| "wire_status_of Failed = WFailed"
| "wire_status_of Crashed = WCrashed"

fun wire_posture_of :: "permission_posture \<Rightarrow> wire_posture" where
  "wire_posture_of Supervised = WSupervised"
| "wire_posture_of Unattended = WUnattended"

fun unix_socket_path :: "endpoint \<Rightarrow> path option" where
  "unix_socket_path (Unix p) = Some p"
| "unix_socket_path (Tcp _) = None"

section \<open>The control client (\<open>caliband/client.rs\<close>, \<open>caliband/mod.rs\<close>)\<close>

record caliband_client =
  cc_endpoint :: endpoint
  cc_tls :: "string option"
  cc_token :: "string option"

definition client_new :: "path \<Rightarrow> caliband_client" where
  "client_new socket = \<lparr>cc_endpoint = Unix socket, cc_tls = None, cc_token = None\<rparr>"

definition connect_tcp :: "string \<Rightarrow> string option \<Rightarrow> string option \<Rightarrow> caliband_client" where
  "connect_tcp addr tls token = \<lparr>cc_endpoint = Tcp addr, cc_tls = tls, cc_token = token\<rparr>"

fun endpoint_display :: "endpoint \<Rightarrow> string" where
  "endpoint_display (Unix p) = p"
| "endpoint_display (Tcp a) = ''tcp://'' @ a"

text \<open>
  One connection: it may be refused, the write may fail, the read may fail, end of file may come
  before a line, the line may not parse, or a reply arrives.
\<close>

datatype exchange =
    Refused string
  | WriteFailed string
  | ReadFailed string
  | ClosedEarly
  | BadJson string
  | Reply ctl_reply

text \<open>The \<open>Debug\<close> form of a status, inside an invalid-state error.\<close>

fun wire_status_debug :: "wire_status \<Rightarrow> string" where
  "wire_status_debug WSpawning = ''Spawning''"
| "wire_status_debug WRunning = ''Running''"
| "wire_status_debug WIdle = ''Idle''"
| "wire_status_debug WKilled = ''Killed''"
| "wire_status_debug WDrained = ''Drained''"
| "wire_status_debug WDone = ''Done''"
| "wire_status_debug WFailed = ''Failed''"
| "wire_status_debug WCrashed = ''Crashed''"

fun of_supervisor_error :: "supervisor_error \<Rightarrow> core_error" where
  "of_supervisor_error (SupNotFound i) = AgentNotFound i"
| "of_supervisor_error (SupInvalidState op' i st) = InvalidState op' i (wire_status_debug st)"
| "of_supervisor_error (SupInternal m) = Protocol m"

text \<open>
  The daemon and the network, as the manager meets them: the answer to a request and to a dial may
  depend on a state of the outside world and change it. The \<open>Debug\<close> rendering of a reply belongs to
  the contract crate.
\<close>

record 'w caliband_port =
  cp_ctl :: "'w \<Rightarrow> caliband_client \<Rightarrow> ctl_request \<Rightarrow> exchange \<times> 'w"
  cp_reply_debug :: "ctl_reply \<Rightarrow> string"
  cp_send :: "'w \<Rightarrow> caliband_client \<Rightarrow> endpoint \<Rightarrow> attach_inbound \<Rightarrow> string option \<times> 'w"

definition exchange_result :: "caliband_client \<Rightarrow> exchange \<Rightarrow> ctl_reply result" where
  "exchange_result c x =
     (case x of
        Refused e \<Rightarrow> Inl (CalibandUnreachable (endpoint_display (cc_endpoint c)) e)
      | WriteFailed e \<Rightarrow> Inl (IoError e)
      | ReadFailed e \<Rightarrow> Inl (IoError e)
      | ClosedEarly \<Rightarrow> Inl (Protocol ''connection closed before a reply frame was read'')
      | BadJson e \<Rightarrow> Inl (JsonError e)
      | Reply (ErrorReply e) \<Rightarrow> Inl (of_supervisor_error e)
      | Reply r \<Rightarrow> Inr r)"

definition request ::
  "'w caliband_port \<Rightarrow> 'w \<Rightarrow> caliband_client \<Rightarrow> ctl_request \<Rightarrow> ctl_reply result \<times> 'w" where
  "request port w c req = apfst (exchange_result c) (cp_ctl port w c req)"

definition unexpected :: "'w caliband_port \<Rightarrow> string \<Rightarrow> ctl_reply \<Rightarrow> core_error" where
  "unexpected port op' r = Protocol (''unexpected reply to '' @ op' @ '': '' @ cp_reply_debug port r)"

definition client_list ::
  "'w caliband_port \<Rightarrow> 'w \<Rightarrow> caliband_client \<Rightarrow> agent_record list result \<times> 'w" where
  "client_list port w c =
     apfst (\<lambda>res. rbind res (\<lambda>r. case r of Listed rs \<Rightarrow> Inr rs | _ \<Rightarrow> Inl (unexpected port ''list'' r)))
       (request port w c ListReq)"

definition client_spawn ::
  "'w caliband_port \<Rightarrow> 'w \<Rightarrow> caliband_client \<Rightarrow> spawn_spec \<Rightarrow> (string \<times> endpoint) result \<times> 'w" where
  "client_spawn port w c spec =
     apfst (\<lambda>res. rbind res (\<lambda>r. case r of Spawned i e \<Rightarrow> Inr (i, e)
                                         | _ \<Rightarrow> Inl (unexpected port ''spawn'' r)))
       (request port w c (SpawnReq spec))"

definition client_attach ::
  "'w caliband_port \<Rightarrow> 'w \<Rightarrow> caliband_client \<Rightarrow> string \<Rightarrow> endpoint result \<times> 'w" where
  "client_attach port w c i =
     apfst (\<lambda>res. rbind res (\<lambda>r. case r of AttachAck e \<Rightarrow> Inr e | _ \<Rightarrow> Inl (unexpected port ''attach'' r)))
       (request port w c (AttachReq i))"

definition client_kill ::
  "'w caliband_port \<Rightarrow> 'w \<Rightarrow> caliband_client \<Rightarrow> string \<Rightarrow> unit result \<times> 'w" where
  "client_kill port w c i =
     apfst (\<lambda>res. rbind res (\<lambda>r. case r of KilledReply \<Rightarrow> Inr () | _ \<Rightarrow> Inl (unexpected port ''kill'' r)))
       (request port w c (KillReq i))"

definition client_respawn ::
  "'w caliband_port \<Rightarrow> 'w \<Rightarrow> caliband_client \<Rightarrow> string \<Rightarrow> string result \<times> 'w" where
  "client_respawn port w c i =
     apfst (\<lambda>res. rbind res (\<lambda>r. case r of Respawned j \<Rightarrow> Inr j | _ \<Rightarrow> Inl (unexpected port ''respawn'' r)))
       (request port w c (RespawnReq i))"

definition client_rm ::
  "'w caliband_port \<Rightarrow> 'w \<Rightarrow> caliband_client \<Rightarrow> string \<Rightarrow> bool \<Rightarrow> unit result \<times> 'w" where
  "client_rm port w c i force =
     apfst (\<lambda>res. rbind res (\<lambda>r. case r of Removed \<Rightarrow> Inr () | _ \<Rightarrow> Inl (unexpected port ''rm'' r)))
       (request port w c (RmReq i force))"

definition client_status :: "'w caliband_port \<Rightarrow> 'w \<Rightarrow> caliband_client \<Rightarrow> string result \<times> 'w" where
  "client_status port w c =
     apfst (\<lambda>res. rbind res (\<lambda>r. case r of StatusReply s \<Rightarrow> Inr s | _ \<Rightarrow> Inl (unexpected port ''status'' r)))
       (request port w c StatusReq)"

definition client_shutdown :: "'w caliband_port \<Rightarrow> 'w \<Rightarrow> caliband_client \<Rightarrow> unit result \<times> 'w" where
  "client_shutdown port w c =
     apfst (\<lambda>res. rbind res (\<lambda>r. case r of ShutdownAck \<Rightarrow> Inr () | _ \<Rightarrow> Inl (unexpected port ''shutdown'' r)))
       (request port w c ShutdownReq)"

text \<open>\<open>send_inbound\<close>: dial, write, flush; the failure of any of them reports the endpoint.\<close>

definition send_inbound ::
  "'w caliband_port \<Rightarrow> 'w \<Rightarrow> caliband_client \<Rightarrow> endpoint \<Rightarrow> attach_inbound \<Rightarrow> unit result \<times> 'w" where
  "send_inbound port w c ep frame =
     apfst (\<lambda>o'. case o' of None \<Rightarrow> Inr ()
                          | Some e \<Rightarrow> Inl (CalibandUnreachable (endpoint_display ep) e))
       (cp_send port w c ep frame)"

lemmas client_defs = client_list_def client_spawn_def client_attach_def client_kill_def
  client_respawn_def client_rm_def client_status_def client_shutdown_def request_def

section \<open>Stream frames (\<open>caliband/stream.rs\<close>)\<close>

datatype normalized = NEvent event_kind | Dropped | Unknown

definition TOOL_RESULT_CAP :: nat where
  "TOOL_RESULT_CAP = 8 * 1024"

text \<open>\<open>char_indices().nth(max)\<close>: cut at the byte where character number \<open>m\<close> starts.\<close>

definition cap_chars :: "string \<Rightarrow> nat \<Rightarrow> string \<times> bool" where
  "cap_chars t m =
     (let cs = utf8_chars t
      in if m < length cs then (take (length (concat (take m cs))) t, True) else (t, False))"

definition bool_field :: "json \<Rightarrow> string \<Rightarrow> bool" where
  "bool_field frame k =
     (case Option.bind (json_get frame k) as_bool of Some b \<Rightarrow> b | None \<Rightarrow> False)"

definition str_field :: "json \<Rightarrow> string \<Rightarrow> string" where
  "str_field frame k =
     (case Option.bind (json_get frame k) as_str of Some s \<Rightarrow> s | None \<Rightarrow> [])"

fun stop_label :: "json option \<Rightarrow> string" where
  "stop_label (Some (JString s)) = s"
| "stop_label (Some (JObject m)) = (case m of [] \<Rightarrow> [] | (k, _) # _ \<Rightarrow> k)"
| "stop_label _ = []"

text \<open>\<open>turn_count as u32\<close> truncates.\<close>

definition as_u32 :: "nat \<Rightarrow> nat" where
  "as_u32 n = n mod 2 ^ 32"

definition normalize_frame :: "json \<Rightarrow> bool \<Rightarrow> normalized" where
  "normalize_frame frame include_thinking =
     (case Option.bind (json_get frame ''type'') as_str of
        None \<Rightarrow> Unknown
      | Some ty \<Rightarrow>
          if ty = ''AssistantTextDelta'' then NEvent (Output Stdout (str_field frame ''text''))
          else if ty = ''AssistantThinkingDelta''
          then (if include_thinking then NEvent (Output Thinking (str_field frame ''text'')) else Dropped)
          else if ty = ''ToolCallStart''
          then NEvent (ToolStarted (str_field frame ''tool_use_id'') (str_field frame ''name'') JNull)
          else if ty = ''ToolCallEnd''
          then (let (result, capped) =
                      (case Option.bind (json_get frame ''result_text'') as_str of
                         Some t \<Rightarrow> (case cap_chars t TOOL_RESULT_CAP of (h, c) \<Rightarrow> (Some h, c))
                       | None \<Rightarrow> (None, False))
                in NEvent (ToolFinished (str_field frame ''tool_use_id'') []
                     (\<not> bool_field frame ''is_error'') result
                     (capped \<or> bool_field frame ''truncated'')))
          else if ty = ''RunEnd''
          then NEvent (AgentFinished (stop_label (json_get frame ''stopped_for'')) 0
                 (as_u32 (case Option.bind (json_get frame ''turn_count'') as_u64_json of
                            Some n \<Rightarrow> n | None \<Rightarrow> 0)))
          else if ty = ''TurnStart'' \<or> ty = ''ToolCallInputDelta'' \<or> ty = ''TurnEnd'' then Dropped
          else Unknown)"

section \<open>Sources (\<open>caliband/sources.rs\<close>)\<close>

text \<open>
  The file system as the function looks at it: the entries of a directory (none when it cannot be
  read), whether a path is a directory, whether it holds \<open>.git\<close>, and its base name when that is
  UTF-8.
\<close>

record fs_view =
  fs_entries :: "path \<Rightarrow> path list"
  fs_is_dir :: "path \<Rightarrow> bool"
  fs_has_git :: "path \<Rightarrow> bool"
  fs_file_name :: "path \<Rightarrow> string option"

definition discover_sources :: "fs_view \<Rightarrow> path \<Rightarrow> source_checkout list" where
  "discover_sources fs root =
     (if fs_has_git fs root \<and> fs_file_name fs root \<noteq> None
      then [\<lparr>source_name = the (fs_file_name fs root), source_path = root\<rparr>]
      else sort_key source_name
             (List.map_filter (\<lambda>p.
                if fs_is_dir fs p \<and> fs_has_git fs p
                then map_option (\<lambda>n. \<lparr>source_name = n, source_path = p\<rparr>) (fs_file_name fs p)
                else None) (fs_entries fs root)))"

section \<open>Discovery (\<open>discovery.rs\<close>)\<close>

record discovery_env =
  caliban_daemon_runtime_dir :: "path option"
  xdg_runtime_dir :: "path option"
  tmpdir :: "path option"

definition path_join :: "path \<Rightarrow> string \<Rightarrow> path" where
  "path_join d f = (if f \<noteq> [] \<and> hd f = CHR ''/'' then f
                    else if d = [] \<or> last d = CHR ''/'' then d @ f else d @ ''/'' @ f)"

text \<open>\<open>sha_hex\<close> stands for the hexadecimal SHA-256 of a path's bytes.\<close>

definition hash16 :: "(string \<Rightarrow> string) \<Rightarrow> path \<Rightarrow> string" where
  "hash16 sha_hex p = take 16 (sha_hex p)"

definition socket_base_dir :: "discovery_env \<Rightarrow> path" where
  "socket_base_dir de =
     (case caliban_daemon_runtime_dir de of
        Some d \<Rightarrow> d
      | None \<Rightarrow>
          (case xdg_runtime_dir de of
             Some x \<Rightarrow> path_join x ''caliban''
           | None \<Rightarrow> path_join (case tmpdir de of Some t \<Rightarrow> t | None \<Rightarrow> ''/tmp'') ''caliban-daemon''))"

definition control_socket_path :: "(string \<Rightarrow> string) \<Rightarrow> path \<Rightarrow> discovery_env \<Rightarrow> path" where
  "control_socket_path sha_hex root de = path_join (socket_base_dir de) (hash16 sha_hex root @ ''.sock'')"

definition canonical_root :: "(path \<Rightarrow> string + path) \<Rightarrow> path \<Rightarrow> path result" where
  "canonical_root canonicalize root =
     (case canonicalize root of
        Inl e \<Rightarrow> Inl (Discovery (''cannot canonicalize '' @ root @ '': '' @ e))
      | Inr p \<Rightarrow> Inr p)"

text \<open>
  \<open>ensure_caliband\<close>: connect; else start the daemon and try again every 50 ms until the time is up.
  \<open>tries\<close> are the outcomes of the connection attempts after the start, one per round before the
  deadline and one more.
\<close>

record ensure_config =
  ens_autostart :: bool
  ens_bin :: string
  ens_timeout_text :: string
  ens_env :: "string \<rightharpoonup> string"

fun await_socket :: "path \<Rightarrow> string \<Rightarrow> bool list \<Rightarrow> caliband_client result" where
  "await_socket socket t [] =
     Inl (Discovery (''caliband did not come up at '' @ socket @ '' within '' @ t))"
| "await_socket socket t (up # tries) =
     (if up then Inr (client_new socket) else await_socket socket t tries)"

definition ensure_caliband ::
  "(string \<Rightarrow> string) \<Rightarrow> (path \<Rightarrow> string + path) \<Rightarrow> discovery_env \<Rightarrow> ensure_config \<Rightarrow> path \<Rightarrow>
     bool \<Rightarrow> string option \<Rightarrow> bool list \<Rightarrow> caliband_client result" where
  "ensure_caliband sha_hex canonicalize de cfg root reachable spawn_error tries =
     rbind (canonical_root canonicalize root) (\<lambda>canonical.
       let socket = control_socket_path sha_hex canonical de
       in if reachable then Inr (client_new socket)
          else if \<not> ens_autostart cfg
          then Inl (Discovery (''no caliband reachable at '' @ socket @ '' and autostart is disabled''))
          else case spawn_error of
                 Some e \<Rightarrow> Inl (Discovery (''failed to spawn '' @ ens_bin cfg @ '' : '' @ e))
               | None \<Rightarrow> await_socket socket (ens_timeout_text cfg) tries)"

section \<open>Lemmas\<close>

lemma utf8_chars_one:
  assumes "\<forall>x \<in> set bs. is_cont_byte x"
  shows "utf8_chars (b # bs) = [b # bs]"
proof -
  have "takeWhile is_cont_byte bs = bs" "dropWhile is_cont_byte bs = []"
    using assms by (simp_all only: takeWhile_eq_all_conv dropWhile_eq_Nil_conv)
  then show ?thesis by (metis utf8_chars.simps)
qed

lemma utf8_chars_append:
  assumes "t = [] \<or> \<not> is_cont_byte (hd t)" "s \<noteq> []"
  shows "utf8_chars (s @ t) = utf8_chars s @ utf8_chars t"
  using assms(2)
proof (induction s rule: utf8_chars.induct)
  case (2 b bs)
  show ?case
  proof (cases "dropWhile is_cont_byte bs = []")
    case True
    then have all: "\<forall>x \<in> set bs. is_cont_byte x" by (simp add: dropWhile_eq_Nil_conv)
    then have "takeWhile is_cont_byte (bs @ t) = bs @ takeWhile is_cont_byte t"
      "dropWhile is_cont_byte (bs @ t) = dropWhile is_cont_byte t"
      by (simp_all add: takeWhile_append2 dropWhile_append2)
    moreover have "takeWhile is_cont_byte t = []" "dropWhile is_cont_byte t = t"
      using assms(1) by (cases t; simp)+
    ultimately have "utf8_chars ((b # bs) @ t) = (b # bs) # utf8_chars t"
      by (metis append_Cons append_Nil2 utf8_chars.simps(2))
    then show ?thesis unfolding utf8_chars_one [OF all] by (simp only: append.simps)
  next
    case False
    then obtain x where x: "x \<in> set bs" "\<not> is_cont_byte x" by (auto simp: dropWhile_eq_Nil_conv)
    then have "takeWhile is_cont_byte (bs @ t) = takeWhile is_cont_byte bs"
      "dropWhile is_cont_byte (bs @ t) = dropWhile is_cont_byte bs @ t"
      by (simp_all add: takeWhile_append1 dropWhile_append1)
    then show ?thesis using 2 False by simp
  qed
qed simp

lemma utf8_chars_boundary:
  "utf8_chars (dropWhile is_cont_byte bs) = cs \<Longrightarrow>
     concat (take n cs) = [] \<or> \<not> is_cont_byte (hd (concat (take n cs)))"
proof (cases "dropWhile is_cont_byte bs")
  case (Cons c r)
  assume "utf8_chars (dropWhile is_cont_byte bs) = cs"
  moreover have "\<not> is_cont_byte c" using Cons by (metis hd_dropWhile list.distinct(1) list.sel(1))
  ultimately show ?thesis using Cons by (cases n) auto
qed auto

lemma utf8_chars_take: "utf8_chars (concat (take n (utf8_chars s))) = take n (utf8_chars s)"
proof (induction s arbitrary: n rule: utf8_chars.induct)
  case (2 b bs)
  show ?case
  proof (cases n)
    case (Suc m)
    let ?rest = "dropWhile is_cont_byte bs" and ?h = "b # takeWhile is_cont_byte bs"
    have "\<forall>x \<in> set (takeWhile is_cont_byte bs). is_cont_byte x" by (auto dest: set_takeWhileD)
    then have h: "utf8_chars ?h = [?h]" by (rule utf8_chars_one)
    have "concat (take m (utf8_chars ?rest)) = [] \<or> \<not> is_cont_byte (hd (concat (take m (utf8_chars ?rest))))"
      by (rule utf8_chars_boundary [OF refl])
    then have "utf8_chars (?h @ concat (take m (utf8_chars ?rest))) =
        utf8_chars ?h @ utf8_chars (concat (take m (utf8_chars ?rest)))"
      by (rule utf8_chars_append) simp
    then show ?thesis using Suc 2 h by simp
  qed simp
qed simp

lemma cap_chars_spec:
  assumes "cap_chars t m = (r, was_cut)"
  shows "char_count r \<le> m \<and> (\<exists>s. t = r @ s) \<and> (was_cut \<longleftrightarrow> r \<noteq> t)"
proof (cases "m < length (utf8_chars t)")
  case True
  let ?cs = "utf8_chars t"
  have split: "concat (take m ?cs) @ concat (drop m ?cs) = t"
    by (metis append_take_drop_id concat_append concat_utf8_chars)
  then have "take (length (concat (take m ?cs))) t = concat (take m ?cs)"
    by (metis append_eq_conv_conj)
  then have r: "r = concat (take m ?cs)" "was_cut" using assms True by (simp_all add: cap_chars_def Let_def)
  have "char_count r = m" using True by (simp add: r char_count_def utf8_chars_take)
  moreover have "r \<noteq> t" using calculation True by (auto simp: char_count_def)
  ultimately show ?thesis using r(2) split [folded r(1)] by (metis order_refl)
qed (use assms in \<open>auto simp: cap_chars_def char_count_def Let_def\<close>)

lemma domain_wire_status [simp]: "domain_status (wire_status_of s) = s"
  by (cases s) simp_all

section \<open>Properties\<close>

text \<open>
  One tool call cannot put an unbounded body into the event log: the result kept on a finished
  tool call is a prefix of the daemon's text of at most \<open>TOOL_RESULT_CAP\<close> characters, cut between
  characters, and when it was cut the event says so.
\<close>

theorem tool_result_bounded:
  assumes "normalize_frame frame th = NEvent (ToolFinished i n ok' (Some r) truncated)"
  shows "\<exists>t s. Option.bind (json_get frame ''result_text'') as_str = Some t \<and> t = r @ s \<and>
    char_count r \<le> TOOL_RESULT_CAP \<and> (\<not> truncated \<longrightarrow> r = t)"
proof -
  obtain t where t: "Option.bind (json_get frame ''result_text'') as_str = Some t"
    and fst: "fst (cap_chars t TOOL_RESULT_CAP) = r"
    using assms
    by (auto simp: normalize_frame_def Let_def split: option.splits if_splits prod.splits)
  then obtain was_cut where c: "cap_chars t TOOL_RESULT_CAP = (r, was_cut)" by (metis prod.collapse)
  have "was_cut \<longrightarrow> truncated"
    using assms t c
    by (auto simp: normalize_frame_def Let_def split: option.splits if_splits prod.splits)
  then show ?thesis using cap_chars_spec [OF c] t by blast
qed

text \<open>
  The client never talks past its daemon: whatever the circumstances, a client \<open>ensure_caliband\<close>
  hands out dials the control socket of the canonical form of the workspace root, the same form
  the daemon is started with.
\<close>

theorem ensure_caliband_socket:
  assumes "ensure_caliband sha canon de cfg root reachable err tries = Inr c"
  shows "\<exists>p. canon root = Inr p \<and> cc_endpoint c = Unix (control_socket_path sha p de) \<and>
    (reachable \<or> ens_autostart cfg \<and> err = None \<and> True \<in> set tries)"
proof -
  have "await_socket s t ts = Inr c \<Longrightarrow> c = client_new s \<and> True \<in> set ts" for s t ts
    by (induction ts) (auto split: if_splits)
  then show ?thesis
    using assms
    by (auto simp: ensure_caliband_def canonical_root_def rbind_Inr_iff Let_def client_new_def
        split: sum.splits if_splits option.splits; force)
qed

theorem tool_result_bounded_witness:
  "\<exists>t s. Option.bind (json_get (JObject [(''type'', JString ''ToolCallEnd''), (''result_text'', JString ''ok'')])
       ''result_text'') as_str = Some t \<and> t = ''ok'' @ s \<and> char_count ''ok'' \<le> TOOL_RESULT_CAP"
proof -
  have cap: "cap_chars ''ok'' TOOL_RESULT_CAP = (''ok'', False)"
    by (simp add: cap_chars_def TOOL_RESULT_CAP_def is_cont_byte_def)
  have "normalize_frame (JObject [(''type'', JString ''ToolCallEnd''), (''result_text'', JString ''ok'')]) False =
    NEvent (ToolFinished [] [] True (Some ''ok'') False)"
    by (simp add: normalize_frame_def str_field_def bool_field_def cap)
  from tool_result_bounded [OF this] show ?thesis by blast
qed

theorem ensure_caliband_socket_witness:
  "\<exists>p. (Inr ''/r'' :: string + path) = Inr p \<and>
     Unix ''/run/0123456789abcdef.sock'' = Unix (control_socket_path (\<lambda>_. ''0123456789abcdef0'') p
       \<lparr>caliban_daemon_runtime_dir = Some ''/run'', xdg_runtime_dir = None, tmpdir = None\<rparr>)"
  using ensure_caliband_socket [of "\<lambda>_. ''0123456789abcdef0''" "\<lambda>_. Inr ''/r''"
      "\<lparr>caliban_daemon_runtime_dir = Some ''/run'', xdg_runtime_dir = None, tmpdir = None\<rparr>"
      "\<lparr>ens_autostart = False, ens_bin = [], ens_timeout_text = [], ens_env = Map.empty\<rparr>" "''/r''" True None "[]"]
  by (simp add: ensure_caliband_def canonical_root_def client_new_def control_socket_path_def hash16_def
      socket_base_dir_def path_join_def)

end
