(* ===== verification/Attach.thy ===== *)
theory Attach
  imports Emitter Caliband
begin

text \<open>
  The attach tasks (\<open>core/src/fleet.rs\<close>: \<open>AttachBackoff\<close>, \<open>attach_loop\<close>, \<open>attach_once\<close>): the stream of
  one agent is read line by line, the lines already seen on an earlier connection are skipped, the
  others are normalised and emitted; a dropped connection is made again until the budget of
  attempts without progress is spent. What a connection yields, the shutdown flag and the sleep
  are answers of the outside world. \<open>ap_parse\<close> stands for \<open>serde_json\<close>.
\<close>

section \<open>Model\<close>

text \<open>The backoff; durations are nanoseconds. The jitter that scales the delay is not modelled.\<close>

record attach_backoff =
  ab_base :: nat
  ab_max :: nat
  ab_max_retries :: nat

definition default_backoff :: attach_backoff where
  "default_backoff = \<lparr>ab_base = 200000000, ab_max = 10000000000, ab_max_retries = 8\<rparr>"

definition DURATION_MAX :: nat where
  "DURATION_MAX = (2 ^ 64 - 1) * 1000000000 + 999999999"

definition capped_delay :: "attach_backoff \<Rightarrow> nat \<Rightarrow> nat" where
  "capped_delay b attempt =
     min (min (ab_base b * min (2 ^ min attempt 31) (2 ^ 32 - 1)) DURATION_MAX) (ab_max b)"

datatype stream_item = RLine string | RFault string | RStop

datatype stream_outcome = Finished | Disconnected

record attach_target =
  at_repo :: string
  at_agent_id :: string
  at_attach_id :: string

record 'w attach_port =
  ap_port :: "'w caliband_port"
  ap_open :: "'w \<Rightarrow> caliband_client \<Rightarrow> endpoint \<Rightarrow> (string + stream_item list) \<times> 'w"
  ap_stopped :: "'w \<Rightarrow> bool"
  ap_sleep :: "'w \<Rightarrow> nat \<Rightarrow> bool \<times> 'w"
  ap_parse :: "string \<Rightarrow> string + json"

fun is_finish :: "event_kind \<Rightarrow> bool" where
  "is_finish (AgentFinished _ _ _) = True"
| "is_finish _ = False"

text \<open>One new line: parsed, normalised, emitted. The flag says the run has ended.\<close>

definition attach_frame ::
  "'s store_ops \<Rightarrow> emit_env \<Rightarrow> (string \<Rightarrow> string + json) \<Rightarrow> bool \<Rightarrow> attach_target \<Rightarrow>
     's emitter \<Rightarrow> string \<Rightarrow> bool \<times> 's emitter" where
  "attach_frame ops ee parse thinking tgt em trimmed =
     (case parse trimmed of
        Inl _ \<Rightarrow> (False, em)
      | Inr frame \<Rightarrow>
          (case normalize_frame frame thinking of
             NEvent k \<Rightarrow> (is_finish k, emit ops ee em (at_repo tgt) (at_agent_id tgt) k)
           | Dropped \<Rightarrow> (False, em)
           | Unknown \<Rightarrow> (False, em\<lparr>em_metrics := record_unknown_frame (em_metrics em)\<rparr>)))"

text \<open>
  The reading loop of \<open>attach_once\<close>. The end of the list is the end of the stream; a line that is
  not UTF-8 is a read error.
\<close>

fun attach_read ::
  "'s store_ops \<Rightarrow> emit_env \<Rightarrow> (string \<Rightarrow> string + json) \<Rightarrow> bool \<Rightarrow> attach_target \<Rightarrow>
     stream_item list \<Rightarrow> nat \<Rightarrow> bool \<Rightarrow> nat \<Rightarrow> 's emitter \<Rightarrow>
     stream_outcome result \<times> nat \<times> 's emitter" where
  "attach_read ops ee parse th tgt [] idx saw fs em =
     (Inr (if saw then Finished else Disconnected), fs, em)"
| "attach_read ops ee parse th tgt (RStop # items) idx saw fs em = (Inr Finished, fs, em)"
| "attach_read ops ee parse th tgt (RFault e # items) idx saw fs em = (Inl (IoError e), fs, em)"
| "attach_read ops ee parse th tgt (RLine l # items) idx saw fs em =
     (if l = [] then (Inr (if saw then Finished else Disconnected), fs, em)
      else if \<not> utf8_valid l then (Inl (IoError ''stream did not contain valid UTF-8''), fs, em)
      else if trim_end l = [] then attach_read ops ee parse th tgt items idx saw fs em
      else if idx + 1 \<le> fs then attach_read ops ee parse th tgt items (idx + 1) saw fs em
      else case attach_frame ops ee parse th tgt em (trim_end l) of
             (fin, em) \<Rightarrow> attach_read ops ee parse th tgt items (idx + 1) (saw \<or> fin) (idx + 1) em)"

definition attach_once ::
  "'s store_ops \<Rightarrow> emit_env \<Rightarrow> 'w attach_port \<Rightarrow> bool \<Rightarrow> caliband_client \<Rightarrow> attach_target \<Rightarrow>
     nat \<Rightarrow> 's emitter \<Rightarrow> 'w \<Rightarrow> stream_outcome result \<times> nat \<times> 's emitter \<times> 'w" where
  "attach_once ops ee ap th c tgt fs em w =
     (case client_attach (ap_port ap) w c (at_attach_id tgt) of
        (Inl e, w) \<Rightarrow> (Inl e, fs, em, w)
      | (Inr ep, w) \<Rightarrow>
          (case ap_open ap w c ep of
             (Inl e, w) \<Rightarrow> (Inl (CalibandUnreachable (endpoint_display ep) e), fs, em, w)
           | (Inr items, w) \<Rightarrow>
               (case attach_read ops ee (ap_parse ap) th tgt items 0 False fs em of
                  (r, fs, em) \<Rightarrow> (r, fs, em, w))))"

text \<open>The loop; the first argument bounds the number of connections, \<open>None\<close> is its end.\<close>

fun attach_loop ::
  "nat \<Rightarrow> 's store_ops \<Rightarrow> emit_env \<Rightarrow> 'w attach_port \<Rightarrow> bool \<Rightarrow> attach_backoff \<Rightarrow> caliband_client \<Rightarrow>
     attach_target \<Rightarrow> nat \<Rightarrow> nat \<Rightarrow> 's emitter \<Rightarrow> 'w \<Rightarrow>
     unit result option \<times> nat \<times> 's emitter \<times> 'w" where
  "attach_loop 0 ops ee ap th b c tgt attempt fs em w = (None, fs, em, w)"
| "attach_loop (Suc n) ops ee ap th b c tgt attempt fs em w =
     (case attach_once ops ee ap th c tgt fs em w of
        (r, fs', em, w) \<Rightarrow>
          if r = Inr Finished then (Some (Inr ()), fs', em, w)
          else if ap_stopped ap w then (Some (Inr ()), fs', em, w)
          else (let attempt = (if fs < fs' then 0 else attempt)
                in if ab_max_retries b \<le> attempt
                   then (Some (case r of Inl e \<Rightarrow> Inl e | Inr _ \<Rightarrow> Inr ()), fs', em, w)
                   else case ap_sleep ap w (capped_delay b attempt) of
                          (stop, w) \<Rightarrow>
                            if stop then (Some (Inr ()), fs', em, w)
                            else attach_loop n ops ee ap th b c tgt (attempt + 1) fs' em w))"

section \<open>What a connection delivers\<close>

text \<open>The non-blank lines read before the connection ends, whatever ends it.\<close>

fun delivered :: "stream_item list \<Rightarrow> string list" where
  "delivered (RLine l # items) =
     (if l = [] \<or> \<not> utf8_valid l then []
      else if trim_end l = [] then delivered items else trim_end l # delivered items)"
| "delivered _ = []"

text \<open>Every line of \<open>ls\<close> processed once, in order.\<close>

definition process_lines ::
  "'s store_ops \<Rightarrow> emit_env \<Rightarrow> (string \<Rightarrow> string + json) \<Rightarrow> bool \<Rightarrow> attach_target \<Rightarrow>
     's emitter \<Rightarrow> string list \<Rightarrow> 's emitter" where
  "process_lines ops ee parse th tgt em ls =
     foldl (\<lambda>em l. snd (attach_frame ops ee parse th tgt em l)) em ls"

lemma process_lines_append:
  "process_lines ops ee parse th tgt em (xs @ ys) =
     process_lines ops ee parse th tgt (process_lines ops ee parse th tgt em xs) ys"
  by (simp add: process_lines_def)

lemma process_lines_simps [simp]:
  "process_lines ops ee parse th tgt em [] = em"
  "process_lines ops ee parse th tgt em (l # ls) =
     process_lines ops ee parse th tgt (snd (attach_frame ops ee parse th tgt em l)) ls"
  by (simp_all add: process_lines_def)

lemma attach_read_delivered:
  "idx \<le> fs \<Longrightarrow> attach_read ops ee parse th tgt items idx saw fs em = (r, fs', em') \<Longrightarrow>
     fs' = max fs (idx + length (delivered items)) \<and>
     em' = process_lines ops ee parse th tgt em (drop (fs - idx) (delivered items))"
proof (induction ops ee parse th tgt items idx saw fs em arbitrary: r fs' em' rule: attach_read.induct)
  case (4 ops ee parse th tgt l items idx saw fs em)
  show ?case
  proof (cases "l = [] \<or> \<not> utf8_valid l \<or> trim_end l = [] \<or> idx + 1 \<le> fs")
    case True
    then show ?thesis
      using 4 by (auto simp: Suc_diff_le max_def drop_Cons' Suc_le_eq split: if_splits)
  next
    case False
    obtain fin em1 where f: "attach_frame ops ee parse th tgt em (trim_end l) = (fin, em1)" by fastforce
    have "fs = idx" using False "4.prems"(1) by auto
    then show ?thesis using False "4.IH"(3) [of fin em1] "4.prems"(2) f by auto
  qed
qed auto

lemma attach_once_delivered:
  assumes "attach_once ops ee ap th c tgt fs em w = (r, fs', em', w')"
  shows "(\<exists>e. r = Inl e) \<and> fs' = fs \<and> em' = em \<or>
    (\<exists>w1 ep items. ap_open ap w1 c ep = (Inr items, w') \<and> fs' = max fs (length (delivered items)) \<and>
       em' = process_lines ops ee (ap_parse ap) th tgt em (drop fs (delivered items)))"
  using assms attach_read_delivered [of 0 fs ops ee "ap_parse ap" th tgt _ False em]
  by (fastforce simp: attach_once_def split: prod.splits sum.splits)

text \<open>
  The daemon replays the stream from its start on every connection: what a connection delivers is
  always a prefix of the agent's lines \<open>L\<close>.
\<close>

definition replays :: "'w attach_port \<Rightarrow> string list \<Rightarrow> bool" where
  "replays ap L \<longleftrightarrow>
     (\<forall>w c e items w'. ap_open ap w c e = (Inr items, w') \<longrightarrow> (\<exists>ys. L = delivered items @ ys))"

lemma attach_once_prefix:
  assumes "replays ap L" "fs \<le> length L" "attach_once ops ee ap th c tgt fs em w = (r, fs', em', w')"
    and "em = process_lines ops ee (ap_parse ap) th tgt em0 (take fs L)"
  shows "fs \<le> fs' \<and> fs' \<le> length L \<and> em' = process_lines ops ee (ap_parse ap) th tgt em0 (take fs' L)"
  using attach_once_delivered [OF assms(3)]
proof
  assume "\<exists>w1 ep items. ap_open ap w1 c ep = (Inr items, w') \<and> fs' = max fs (length (delivered items)) \<and>
      em' = process_lines ops ee (ap_parse ap) th tgt em (drop fs (delivered items))"
  then obtain w1 ep items ys where D: "L = delivered items @ ys" "fs' = max fs (length (delivered items))"
    "em' = process_lines ops ee (ap_parse ap) th tgt em (drop fs (delivered items))"
    using assms(1) unfolding replays_def by blast
  have "take fs L @ drop fs (delivered items) = take fs' L"
    using D(1,2) by (cases "fs \<le> length (delivered items)") (simp_all add: max_def)
  then have "em' = process_lines ops ee (ap_parse ap) th tgt em0 (take fs' L)"
    using D(3) assms(4) by (metis process_lines_append)
  then show ?thesis using assms(2) D(1,2) by simp
qed (use assms in simp)

lemma attach_loop_prefix:
  assumes "replays ap L" "fs \<le> length L"
    and "em = process_lines ops ee (ap_parse ap) th tgt em0 (take fs L)"
    and "attach_loop n ops ee ap th b c tgt attempt fs em w = (r, fs', em', w')"
  shows "fs' \<le> length L \<and> em' = process_lines ops ee (ap_parse ap) th tgt em0 (take fs' L)"
  using assms(2-)
proof (induction n arbitrary: attempt fs em w)
  case (Suc n)
  obtain r1 fs1 em1 w1 where once: "attach_once ops ee ap th c tgt fs em w = (r1, fs1, em1, w1)"
    by (metis prod_cases4)
  have p: "fs1 \<le> length L" "em1 = process_lines ops ee (ap_parse ap) th tgt em0 (take fs1 L)"
    using attach_once_prefix [OF assms(1) Suc.prems(1) once Suc.prems(2)] by auto
  show ?case
    using Suc.prems(3) once p Suc.IH [OF p]
    by (auto simp: Let_def split: if_splits prod.splits)
qed auto

text \<open>The potential of the loop: attempts left, and a full budget per line still to come.\<close>

lemma attach_loop_returns:
  assumes N: "\<And>w c e items w'. ap_open ap w c e = (Inr items, w') \<Longrightarrow> length (delivered items) \<le> N"
    and "fs \<le> N" "attempt \<le> ab_max_retries b"
    and "(N - fs) * (ab_max_retries b + 1) + (ab_max_retries b + 1 - attempt) \<le> n"
  shows "\<exists>r fs' em' w'. attach_loop n ops ee ap th b c tgt attempt fs em w = (Some r, fs', em', w')"
  using assms(2-)
proof (induction n arbitrary: attempt fs em w)
  case (Suc n)
  let ?R = "ab_max_retries b"
  obtain r1 fs1 em1 w1 where once: "attach_once ops ee ap th c tgt fs em w = (r1, fs1, em1, w1)"
    by (metis prod_cases4)
  have fs1: "fs \<le> fs1" "fs1 \<le> N"
    using attach_once_delivered [OF once] Suc.prems(1) N by fastforce+
  let ?a = "if fs < fs1 then 0 else attempt"
  have pot: "(N - fs1) * (?R + 1) + (?R + 1 - (?a + 1)) \<le> n"
  proof (cases "fs < fs1")
    case True
    then have "(N - fs1 + 1) * (?R + 1) \<le> (N - fs) * (?R + 1)"
      using fs1(2) by (intro mult_right_mono) auto
    then show ?thesis using True Suc.prems by simp
  next
    case False
    then show ?thesis using fs1 Suc.prems by simp
  qed
  show ?case
  proof (cases "?R \<le> ?a")
    case False
    then have "\<exists>r fs' em' w'. attach_loop n ops ee ap th b c tgt (?a + 1) fs1 em1 w2 = (Some r, fs', em', w')"
      for w2 using Suc.IH [OF fs1(2) _ pot] by simp
    then show ?thesis using once False by (auto simp: Let_def split: prod.splits)
  qed (use once in \<open>simp add: Let_def\<close>)
qed simp

section \<open>The events of a stream\<close>

definition frame_kind :: "(string \<Rightarrow> string + json) \<Rightarrow> bool \<Rightarrow> string \<Rightarrow> event_kind option" where
  "frame_kind parse th l =
     (case parse l of
        Inl _ \<Rightarrow> None
      | Inr frame \<Rightarrow> (case normalize_frame frame th of NEvent k \<Rightarrow> Some k | _ \<Rightarrow> None))"

definition stream_emissions ::
  "(string \<Rightarrow> string + json) \<Rightarrow> bool \<Rightarrow> attach_target \<Rightarrow> string list \<Rightarrow> emission list" where
  "stream_emissions parse th tgt ls =
     map (\<lambda>k. (at_repo tgt, at_agent_id tgt, k)) (List.map_filter (frame_kind parse th) ls)"

lemma stream_emissions_simps [simp]:
  "stream_emissions parse th tgt [] = []"
  "stream_emissions parse th tgt (l # ls) =
     (case frame_kind parse th l of
        None \<Rightarrow> stream_emissions parse th tgt ls
      | Some k \<Rightarrow> (at_repo tgt, at_agent_id tgt, k) # stream_emissions parse th tgt ls)"
  by (simp_all add: stream_emissions_def List.map_filter_simps split: option.splits)

lemma attach_frame_kind:
  "frame_kind parse th l = Some k \<Longrightarrow>
     snd (attach_frame ops ee parse th tgt em l) = emit ops ee em (at_repo tgt) (at_agent_id tgt) k"
  "frame_kind parse th l = None \<Longrightarrow>
     \<exists>m. snd (attach_frame ops ee parse th tgt em l) = em\<lparr>em_metrics := m\<rparr>"
proof -
  show "\<exists>m. snd (attach_frame ops ee parse th tgt em l) = em\<lparr>em_metrics := m\<rparr>"
    if "frame_kind parse th l = None"
  proof -
    have "\<exists>m. em = em\<lparr>em_metrics := m\<rparr>" by (rule exI [of _ "em_metrics em"]) simp
    then show ?thesis
      using that by (auto simp: frame_kind_def attach_frame_def split: sum.splits normalized.splits)
  qed
qed (auto simp: frame_kind_def attach_frame_def split: sum.splits normalized.splits)

lemma writer_ok_metrics [simp]: "writer_ok dec n (em\<lparr>em_metrics := m\<rparr>) = writer_ok dec n em"
  by (simp add: writer_ok_def cache_ahead_def)

lemma writer_ok_mono: "writer_ok dec m em \<Longrightarrow> n \<le> m \<Longrightarrow> writer_ok dec n em"
  by (auto simp: writer_ok_def intro: roomy_mono)

lemma process_lines_emits:
  assumes ops: "ops = sqlite_ops fsum enc dec \<or> ops = pg_ops fsum enc dec"
    and "writer_ok dec (length ls + n) em"
    and "\<forall>l \<in> set ls. \<forall>k. frame_kind parse th l = Some k \<longrightarrow> encodable enc dec k"
  shows "\<exists>evs. sql_hist dec (em_store (process_lines ops ee parse th tgt em ls)) =
      sql_hist dec (em_store em) @ evs \<and>
    em_bus (process_lines ops ee parse th tgt em ls) = em_bus em @ evs \<and>
    map emission_of evs = stream_emissions parse th tgt ls \<and>
    writer_ok dec n (process_lines ops ee parse th tgt em ls)"
  using assms(2-)
proof (induction ls arbitrary: em)
  case (Cons l ls)
  show ?case
  proof (cases "frame_kind parse th l")
    case None
    then obtain m where "snd (attach_frame ops ee parse th tgt em l) = em\<lparr>em_metrics := m\<rparr>"
      using attach_frame_kind(2) by blast
    then show ?thesis
      using Cons.IH [of "em\<lparr>em_metrics := m\<rparr>"] Cons.prems None
        writer_ok_mono [OF Cons.prems(1), of "length ls + n"] by simp
  next
    case (Some k)
    let ?em1 = "emit ops ee em (at_repo tgt) (at_agent_id tgt) k"
    obtain ev where ev: "emission_of ev = (at_repo tgt, at_agent_id tgt, k)"
      "writer_ok dec (length ls + n) ?em1"
      "sql_hist dec (em_store ?em1) = sql_hist dec (em_store em) @ [ev]" "em_bus ?em1 = em_bus em @ [ev]"
      using emit_step [OF ops, of "length ls + n" em k, OF _ _ refl] Cons.prems Some by fastforce
    obtain evs where evs: "sql_hist dec (em_store (process_lines ops ee parse th tgt ?em1 ls)) =
        sql_hist dec (em_store ?em1) @ evs"
      "em_bus (process_lines ops ee parse th tgt ?em1 ls) = em_bus ?em1 @ evs"
      "map emission_of evs = stream_emissions parse th tgt ls"
      "writer_ok dec n (process_lines ops ee parse th tgt ?em1 ls)"
      using Cons.IH [OF ev(2)] Cons.prems(2) by auto
    show ?thesis
      using ev evs Some attach_frame_kind(1) [OF Some, of ops ee tgt em]
      by (intro exI [of _ "ev # evs"]) simp
  qed
qed simp

section \<open>Properties\<close>


text \<open>
  C25. The attach task ends: if no connection ever delivers more than \<open>N\<close> lines, the loop returns
  within \<open>(N + 1) * (max_retries + 1)\<close> connections, because only new lines reset the attempts.
\<close>

theorem attach_loop_ends:
  assumes "\<And>w c e items w'. ap_open ap w c e = (Inr items, w') \<Longrightarrow> length (delivered items) \<le> N"
    and "(N + 1) * (ab_max_retries b + 1) \<le> n"
  shows "\<exists>r fs em' w'. attach_loop n ops ee ap th b c tgt 0 0 em w = (Some r, fs, em', w')"
  by (rule attach_loop_returns [OF assms(1)]) (use assms(2) in simp_all)

text \<open>
  A task that starts again on the same stream, as the poll loop makes it do when the first one gave
  up, repeats the stream: the log grows a second time by the events of the lines read, from the
  first line on.
\<close>

theorem reattach_repeats_stream:
  assumes "replays ap L"
    and "attach_loop n (sqlite_ops fsum enc dec) ee ap th b c tgt 0 0 em w = (r, fs, em1, w1)"
    and "attach_loop m (sqlite_ops fsum enc dec) ee ap th b c tgt 0 0 em1 w1 = (r', fs', em2, w2)"
    and "writer_ok dec (length L + length L) em"
    and "\<forall>l \<in> set L. \<forall>k. frame_kind (ap_parse ap) th l = Some k \<longrightarrow> encodable enc dec k"
  shows "\<exists>evs evs'. sql_hist dec (em_store em2) = sql_hist dec (em_store em) @ evs @ evs' \<and>
    map emission_of evs = stream_emissions (ap_parse ap) th tgt (take fs L) \<and>
    map emission_of evs' = stream_emissions (ap_parse ap) th tgt (take fs' L)"
proof -
  let ?P = "process_lines (sqlite_ops fsum enc dec) ee (ap_parse ap) th tgt"
  have p: "em1 = ?P em (take fs L)" "em2 = ?P em1 (take fs' L)"
    using attach_loop_prefix [OF assms(1) _ _ assms(2), of em]
      attach_loop_prefix [OF assms(1) _ _ assms(3), of em1] by simp_all
  have e: "\<forall>l \<in> set (take j L). \<forall>k. frame_kind (ap_parse ap) th l = Some k \<longrightarrow> encodable enc dec k" for j
    using assms(5) by (meson in_set_takeD)
  have 1: "writer_ok dec (length (take fs L) + length L) em"
    by (rule writer_ok_mono [OF assms(4)]) simp
  obtain evs where evs: "sql_hist dec (em_store em1) = sql_hist dec (em_store em) @ evs"
    "map emission_of evs = stream_emissions (ap_parse ap) th tgt (take fs L)" "writer_ok dec (length L) em1"
    using process_lines_emits [OF disjI1 [OF refl] 1 e] p(1) by blast
  have 2: "writer_ok dec (length (take fs' L) + 0) em1" by (rule writer_ok_mono [OF evs(3)]) simp
  show ?thesis using process_lines_emits [OF disjI1 [OF refl] 2 e] p(2) evs by (metis append_assoc)
qed

text \<open>
  A line cut in two by the end of the first connection is lost: its torn half counts as seen, so the
  second connection, which brings every line whole, skips it, and the event of that line is never
  emitted.
\<close>

theorem torn_line_is_lost:
  assumes "delivered items = take i L @ [torn]" "i < length L" "ap_parse ap torn = Inl e"
    and "delivered items' = L"
    and "attach_read ops ee (ap_parse ap) th tgt items 0 False 0 em = (r, fs, em1)"
    and "attach_read ops ee (ap_parse ap) th tgt items' 0 False fs em1 = (r', fs', em2)"
  shows "em2 = process_lines ops ee (ap_parse ap) th tgt em (take i L @ drop (Suc i) L)"
proof -
  have fs: "fs = Suc i" using attach_read_delivered [OF _ assms(5)] assms(1,2) by simp
  have "snd (attach_frame ops ee (ap_parse ap) th tgt x torn) = x" for x
    using assms(3) by (simp add: attach_frame_def)
  then have "em1 = process_lines ops ee (ap_parse ap) th tgt em (take i L)"
    using attach_read_delivered [OF _ assms(5)] assms(1) by (simp add: process_lines_append)
  then show ?thesis
    using attach_read_delivered [OF _ assms(6)] assms(4) fs by (simp add: process_lines_append)
qed

section \<open>Witnesses\<close>

text \<open>
  A daemon whose first connection breaks after one line and whose second brings both lines, and a
  codec of the output events.
\<close>

definition text_frame :: "string \<Rightarrow> string + json" where
  "text_frame l =
     (if l = ''torn'' then Inl ''eof''
      else Inr (JObject [(''type'', JString ''AssistantTextDelta''), (''text'', JString l)]))"

definition sample_port :: "nat caliband_port" where
  "sample_port =
     \<lparr>cp_ctl = (\<lambda>w c req. (Reply (AttachAck (Unix ''/s'')), w)), cp_reply_debug = (\<lambda>_. []),
      cp_send = (\<lambda>w c e f. (None, w))\<rparr>"

definition sample_attach :: "nat attach_port" where
  "sample_attach =
     \<lparr>ap_port = sample_port,
      ap_open = (\<lambda>w c e. (Inr (if w = 0 then [RLine [CHR ''a'', CHR 0x0A], RFault ''reset'']
                               else [RLine [CHR ''a'', CHR 0x0A], RLine [CHR ''b'', CHR 0x0A]]), w + 1)),
      ap_stopped = (\<lambda>w. 2 \<le> w), ap_sleep = (\<lambda>w d. (False, w)), ap_parse = text_frame\<rparr>"

definition sample_target :: attach_target where
  "sample_target = \<lparr>at_repo = ''r'', at_agent_id = ''a1'', at_attach_id = ''a1''\<rparr>"

fun text_enc :: kind_enc where
  "text_enc (Output Stdout s) = s"
| "text_enc _ = []"

definition text_dec :: kind_dec where
  "text_dec s = Inr (Output Stdout s)"

lemma sample_lines [simp]:
  "utf8_valid [CHR ''a'', CHR 0x0A]" "utf8_valid [CHR ''b'', CHR 0x0A]" "utf8_valid ''torn''"
  "trim_end [CHR ''a'', CHR 0x0A] = ''a''" "trim_end [CHR ''b'', CHR 0x0A] = ''b''"
  "trim_end ''torn'' = ''torn''"
  by (simp_all add: utf8_valid.simps in_range_def trim_end_def drop_while_end_def is_whitespace_def
      is_cont_byte_def)

lemma sample_replays: "replays sample_attach [''a'', ''b'']"
  by (auto simp: replays_def sample_attach_def split: if_splits)

lemma text_frame_kind:
  "frame_kind text_frame th l = (if l = ''torn'' then None else Some (Output Stdout l))"
  by (simp add: frame_kind_def text_frame_def normalize_frame_def str_field_def)

lemma text_encodable:
  "\<forall>l \<in> set ls. \<forall>k. frame_kind (ap_parse sample_attach) th l = Some k \<longrightarrow> encodable text_enc text_dec k"
  by (auto simp: sample_attach_def text_frame_kind encodable_def text_dec_def)

lemma sample_writer: "n < 1000 \<Longrightarrow> writer_ok dec n (sample_emitter [])"
  by (simp add: writer_ok_def sample_emitter_ok)
     (simp add: sample_emitter_def emitter_new_def roomy_def sql_hist_def stream_max_def)

abbreviation sample_run ::
  "events_db emitter \<Rightarrow> nat \<Rightarrow> unit result option \<times> nat \<times> events_db emitter \<times> nat" where
  "sample_run em w \<equiv> attach_loop 2 (sqlite_ops (\<lambda>_. 0) text_enc text_dec) sample_env sample_attach False
     default_backoff (client_new ''/s'') sample_target 0 0 em w"

lemma sample_run_lines:
  "fst (snd (sample_run em 0)) = 2" "fst (snd (sample_run em 2)) = 2" "snd (snd (snd (sample_run em 0))) = 2"
  by (simp_all add: numeral_2_eq_2 attach_once_def client_defs sample_attach_def sample_port_def
      exchange_result_def default_backoff_def Let_def split: prod.splits)


theorem attach_loop_ends_witness:
  "\<exists>r fs em' w'. attach_loop 27 (sqlite_ops (\<lambda>_. 0) text_enc text_dec) sample_env sample_attach False
     default_backoff (client_new ''/s'') sample_target 0 0 (sample_emitter []) 0 = (Some r, fs, em', w')"
  by (rule attach_loop_ends [where N = 2])
     (auto simp: sample_attach_def default_backoff_def split: if_splits)

theorem reattach_repeats_stream_witness:
  "\<exists>em1 w1 em2 w2 evs evs'. sql_hist text_dec (em_store em2) = evs @ evs' \<and>
     snd (snd (sample_run (sample_emitter []) 0)) = (em1, w1) \<and>
     snd (snd (sample_run em1 w1)) = (em2, w2) \<and>
     map emission_of evs = [(''r'', ''a1'', Output Stdout ''a''), (''r'', ''a1'', Output Stdout ''b'')] \<and>
     map emission_of evs' = [(''r'', ''a1'', Output Stdout ''a''), (''r'', ''a1'', Output Stdout ''b'')]"
proof -
  obtain r fs em1 w1 where run: "sample_run (sample_emitter []) 0 = (r, fs, em1, w1)" by (metis prod_cases4)
  obtain r' fs' em2 w2 where run': "sample_run em1 w1 = (r', fs', em2, w2)" by (metis prod_cases4)
  have ok: "writer_ok text_dec (length [''a'', ''b''] + length [''a'', ''b'']) (sample_emitter [])"
    by (rule sample_writer) simp
  have "w1 = 2" using sample_run_lines(3) [of "sample_emitter []"] run by simp
  then have "fs = 2" "fs' = 2"
    using sample_run_lines(1) [of "sample_emitter []"] sample_run_lines(2) [of em1] run run' by simp_all
  moreover have "sql_hist text_dec (em_store (sample_emitter [])) = []"
    by (simp add: sample_emitter_def emitter_new_def sql_hist_def)
  moreover have "ap_parse sample_attach = text_frame" by (simp add: sample_attach_def)
  ultimately show ?thesis
    using reattach_repeats_stream [OF sample_replays run run' ok text_encodable] run run'
    by (simp add: text_frame_kind sample_target_def numeral_2_eq_2)
qed

theorem torn_line_is_lost_witness:
  "\<exists>em2 r' fs'. attach_read (sqlite_ops (\<lambda>_. 0) text_enc text_dec) sample_env text_frame False sample_target
       [RLine [CHR ''a'', CHR 0x0A], RLine [CHR ''b'', CHR 0x0A]] 0 False 1
       (sample_emitter []) = (r', fs', em2) \<and>
     em2 = process_lines (sqlite_ops (\<lambda>_. 0) text_enc text_dec) sample_env text_frame False sample_target
       (sample_emitter []) [''b'']"
proof -
  let ?ops = "sqlite_ops (\<lambda>_. 0) text_enc text_dec"
  let ?items = "[RLine [CHR ''a'', CHR 0x0A], RLine [CHR ''b'', CHR 0x0A]]"
  obtain r' fs' em2 where second: "attach_read ?ops sample_env text_frame False sample_target ?items 0 False 1
      (sample_emitter []) = (r', fs', em2)" by (metis prod_cases3)
  have p: "ap_parse sample_attach = text_frame" by (simp add: sample_attach_def)
  have first: "attach_read ?ops sample_env text_frame False sample_target [RLine ''torn''] 0 False 0
      (sample_emitter []) = (Inr Disconnected, 1, sample_emitter [])"
    by (simp add: attach_frame_def text_frame_def)
  have "em2 = process_lines ?ops sample_env text_frame False sample_target (sample_emitter [])
      (take 0 [''a'', ''b''] @ drop (Suc 0) [''a'', ''b''])"
    by (rule torn_line_is_lost [where items = "[RLine ''torn'']" and ap = sample_attach and torn = "''torn''"
            and e = "''eof''" and items' = ?items, unfolded p, OF _ _ _ _ first second])
       (simp_all add: text_frame_def)
  then show ?thesis using second by simp
qed


end
