(* ===== verification/Ownership.thy ===== *)
theory Ownership
  imports Core_Error
begin

text \<open>
  Single-writer ownership of streams: the standalone \<open>SelfOwnsAll\<close> (\<open>core/src/ownership.rs\<close>) and the
  clustered \<open>LeasedOwnership\<close> (\<open>core/src/leased_ownership.rs\<close>) with one lease row per stream in
  Postgres. The system is the table, the database clock and every replica's in-memory mirror of
  the leases it believes it holds. A statement takes the driver's error, if any, as an argument.
\<close>

section \<open>Leases\<close>

record lease =
  l_stream :: string
  l_epoch :: nat

record lease_row =
  owner :: string
  epoch :: int
  expires_at :: nat

record lease_sys =
  leases :: "string \<rightharpoonup> lease_row"
  db_now :: nat
  held :: "string \<Rightarrow> string \<rightharpoonup> nat"

definition set_held :: "lease_sys \<Rightarrow> string \<Rightarrow> string \<Rightarrow> nat option \<Rightarrow> lease_sys" where
  "set_held S rep k v = S\<lparr>held := (held S)(rep := (held S rep)(k := v))\<rparr>"

section \<open>Standalone\<close>

definition self_try_acquire :: "string \<Rightarrow> lease option" where
  "self_try_acquire k = Some \<lparr>l_stream = k, l_epoch = 0\<rparr>"

definition self_renew :: "lease \<Rightarrow> unit result" where
  "self_renew l = Inr ()"

definition self_owns :: "string \<Rightarrow> bool" where
  "self_owns k = True"

section \<open>Leased\<close>

text \<open>
  The upsert of \<open>try_acquire\<close>: insert with epoch 1; on conflict update, keeping the epoch of an own
  lease and bumping that of a stolen one, but only where the row is expired or ours. The returned
  epoch is nothing when the row was left alone.
\<close>

definition lease_upsert ::
  "(string \<rightharpoonup> lease_row) \<Rightarrow> nat \<Rightarrow> nat \<Rightarrow> string \<Rightarrow> string \<Rightarrow> int option \<times> (string \<rightharpoonup> lease_row)" where
  "lease_upsert tbl now ttl rep k =
     (case tbl k of
        None \<Rightarrow> (Some 1, tbl(k \<mapsto> \<lparr>owner = rep, epoch = 1, expires_at = now + ttl\<rparr>))
      | Some row \<Rightarrow>
          if expires_at row < now \<or> owner row = rep
          then (let e = (if owner row = rep then epoch row else epoch row + 1)
                in (Some e, tbl(k \<mapsto> \<lparr>owner = rep, epoch = e, expires_at = now + ttl\<rparr>)))
          else (None, tbl))"

definition try_acquire ::
  "nat \<Rightarrow> string \<Rightarrow> lease_sys \<Rightarrow> string option \<Rightarrow> string \<Rightarrow> lease option \<times> lease_sys" where
  "try_acquire ttl rep S fault k =
     (case fault of
        Some e \<Rightarrow> (None, S)
      | None \<Rightarrow>
          (case lease_upsert (leases S) (db_now S) ttl rep k of
             (None, tbl) \<Rightarrow> (None, S\<lparr>leases := tbl\<rparr>)
           | (Some e, tbl) \<Rightarrow>
               (Some \<lparr>l_stream = k, l_epoch = as_u64 e\<rparr>,
                set_held (S\<lparr>leases := tbl\<rparr>) rep k (Some (as_u64 e)))))"

definition renew ::
  "nat \<Rightarrow> string \<Rightarrow> lease_sys \<Rightarrow> string option \<Rightarrow> lease \<Rightarrow> unit result \<times> lease_sys" where
  "renew ttl rep S fault l =
     (case fault of
        Some e \<Rightarrow> (Inl (StoreError (''renewing lease: '' @ e)), S)
      | None \<Rightarrow>
          (case leases S (l_stream l) of
             Some row \<Rightarrow>
               if owner row = rep \<and> epoch row = as_i64 (l_epoch l)
               then (Inr (), S\<lparr>leases := (leases S)(l_stream l \<mapsto> row\<lparr>expires_at := db_now S + ttl\<rparr>)\<rparr>)
               else (Inl (StoreError (''lease for '' @ l_stream l @ '' lost (stolen or expired)'')), S)
           | None \<Rightarrow> (Inl (StoreError (''lease for '' @ l_stream l @ '' lost (stolen or expired)'')), S)))"

text \<open>The loop of \<open>heartbeat\<close> over the mirror's entries, in the map's iteration order.\<close>

fun heartbeat_loop ::
  "nat \<Rightarrow> string \<Rightarrow> lease_sys \<Rightarrow> string option list \<Rightarrow> lease list \<Rightarrow> lease_sys" where
  "heartbeat_loop ttl rep S faults [] = S"
| "heartbeat_loop ttl rep S faults (l # ls) =
     (case renew ttl rep S (case faults of [] \<Rightarrow> None | f # _ \<Rightarrow> f) l of
        (Inl e, S) \<Rightarrow> heartbeat_loop ttl rep (set_held S rep (l_stream l) None) (tl faults) ls
      | (Inr _, S) \<Rightarrow> heartbeat_loop ttl rep S (tl faults) ls)"

definition heartbeat ::
  "nat \<Rightarrow> string \<Rightarrow> lease_sys \<Rightarrow> string option list \<Rightarrow> string list \<Rightarrow> lease_sys" where
  "heartbeat ttl rep S faults order =
     heartbeat_loop ttl rep S faults
       (List.map_filter (\<lambda>k. map_option (\<lambda>e. \<lparr>l_stream = k, l_epoch = e\<rparr>) (held S rep k)) order)"

definition release :: "string \<Rightarrow> lease_sys \<Rightarrow> string option \<Rightarrow> string \<Rightarrow> lease_sys" where
  "release rep S fault k =
     (let S = set_held S rep k None
      in case fault of
           Some e \<Rightarrow> S
         | None \<Rightarrow>
             (case leases S k of
                Some row \<Rightarrow> if owner row = rep then S\<lparr>leases := (leases S)(k := None)\<rparr> else S
              | None \<Rightarrow> S))"

definition owns :: "string \<Rightarrow> lease_sys \<Rightarrow> string \<Rightarrow> bool" where
  "owns rep S k = (held S rep k \<noteq> None)"

section \<open>Runs of the cluster\<close>

datatype lease_action =
    Acquire string string "string option"
  | Heartbeat string "string option list" "string list"
  | Release string string "string option"
  | Tick nat

fun lease_act :: "nat \<Rightarrow> lease_sys \<Rightarrow> lease_action \<Rightarrow> lease_sys" where
  "lease_act ttl S (Acquire rep k f) = snd (try_acquire ttl rep S f k)"
| "lease_act ttl S (Heartbeat rep fs order) = heartbeat ttl rep S fs order"
| "lease_act ttl S (Release rep k f) = release rep S f k"
| "lease_act ttl S (Tick d) = S\<lparr>db_now := db_now S + d\<rparr>"

definition lease_run :: "nat \<Rightarrow> lease_sys \<Rightarrow> lease_action list \<Rightarrow> lease_sys" where
  "lease_run ttl S as = foldl (lease_act ttl) S as"

text \<open>A table entry that protects \<open>rep\<close>'s claim of \<open>k\<close> until \<open>until'\<close>.\<close>

definition protected :: "lease_sys \<Rightarrow> string \<Rightarrow> string \<Rightarrow> nat \<Rightarrow> bool" where
  "protected S rep k until' \<longleftrightarrow>
     (\<exists>row. leases S k = Some row \<and> owner row = rep \<and> until' \<le> expires_at row)"

lemma lease_upsert_other: "k' \<noteq> k \<Longrightarrow> snd (lease_upsert tbl now ttl rep k) k' = tbl k'"
  by (simp add: lease_upsert_def Let_def split: option.splits)

lemma set_held_simps [simp]:
  "leases (set_held S rep k v) = leases S" "db_now (set_held S rep k v) = db_now S"
  "held (set_held S rep k v) rep' k' = (if rep' = rep \<and> k' = k then v else held S rep' k')"
  by (simp_all add: set_held_def)

lemma try_acquire_leases:
  "leases (snd (try_acquire ttl rep S f k)) =
     (if f = None then snd (lease_upsert (leases S) (db_now S) ttl rep k) else leases S)"
  "db_now (snd (try_acquire ttl rep S f k)) = db_now S"
  by (auto simp: try_acquire_def split: option.splits prod.splits)

lemma renew_frame:
  "db_now (snd (renew ttl rep S f l)) = db_now S" "held (snd (renew ttl rep S f l)) = held S"
  "k \<noteq> l_stream l \<Longrightarrow> leases (snd (renew ttl rep S f l)) k = leases S k"
  by (auto simp: renew_def split: option.splits)

lemma renew_row:
  "leases S k = Some row \<Longrightarrow>
     \<exists>row'. leases (snd (renew ttl rep S f l)) k = Some row' \<and> owner row' = owner row \<and>
       epoch row' = epoch row \<and> (expires_at row' = expires_at row \<or> expires_at row' = db_now S + ttl)"
  by (auto simp: renew_def split: option.splits)

lemma heartbeat_loop_row:
  "leases S k = Some row \<Longrightarrow>
     \<exists>row'. leases (heartbeat_loop ttl rep S fs ls) k = Some row' \<and> owner row' = owner row \<and>
       epoch row' = epoch row \<and> (expires_at row' = expires_at row \<or> expires_at row' = db_now S + ttl)"
proof (induction ls arbitrary: S fs row)
  case (Cons l ls)
  let ?f = "case fs of [] \<Rightarrow> None | f # _ \<Rightarrow> f"
  obtain r S1 where rn: "renew ttl rep S ?f l = (r, S1)" by fastforce
  obtain row1 where row1: "leases S1 k = Some row1" "owner row1 = owner row" "epoch row1 = epoch row"
    "expires_at row1 = expires_at row \<or> expires_at row1 = db_now S + ttl"
    using renew_row [OF Cons.prems, of ttl rep ?f l] rn by auto
  have now: "db_now S1 = db_now S" using renew_frame(1) [of ttl rep S ?f l] rn by simp
  show ?case
  proof (cases r)
    case (Inl e)
    let ?S2 = "set_held S1 rep (l_stream l) None"
    have "leases ?S2 k = Some row1" using row1 by simp
    from Cons.IH [OF this, of "tl fs"] show ?thesis
      using Inl rn row1 now by (force simp: set_held_simps)
  next
    case (Inr u)
    from Cons.IH [OF row1(1), of "tl fs"] show ?thesis
      using Inr rn row1 now by force
  qed
qed auto

lemma heartbeat_row:
  assumes "leases S k = Some row"
  obtains row' where "leases (heartbeat ttl rep S fs order) k = Some row'" "owner row' = owner row"
    "epoch row' = epoch row" "expires_at row' = expires_at row \<or> expires_at row' = db_now S + ttl"
  using heartbeat_loop_row [OF assms] unfolding heartbeat_def by metis

lemma heartbeat_loop_now: "db_now (heartbeat_loop ttl rep S fs ls) = db_now S"
proof (induction ls arbitrary: S fs)
  case (Cons l ls)
  obtain r S1 where rn: "renew ttl rep S (case fs of [] \<Rightarrow> None | f # _ \<Rightarrow> f) l = (r, S1)" by fastforce
  then have "db_now S1 = db_now S" by (metis renew_frame(1) snd_conv)
  then show ?case using Cons.IH rn by (cases r) auto
qed simp

lemma lease_act_now: "db_now S \<le> db_now (lease_act ttl S a)"
  by (cases a) (auto simp: try_acquire_leases heartbeat_def heartbeat_loop_now release_def Let_def
      split: option.splits)

lemma lease_run_Cons: "lease_run ttl S (a # as) = lease_run ttl (lease_act ttl S a) as"
  by (simp add: lease_run_def)

lemma lease_run_now: "db_now S \<le> db_now (lease_run ttl S as)"
  by (induction as arbitrary: S) (auto simp: lease_run_Cons lease_run_def intro: order_trans lease_act_now)

definition no_release :: "string \<Rightarrow> lease_action list \<Rightarrow> bool" where
  "no_release k as \<longleftrightarrow> (\<forall>rep f. Release rep k f \<notin> set as)"

lemma release_leases:
  "leases (release rep S f k) k' =
     (if k' = k \<and> f = None \<and> (\<exists>row. leases S k = Some row \<and> owner row = rep) then None else leases S k')"
  by (auto simp: release_def Let_def split: option.splits)

lemma protected_act:
  assumes "protected S rep k u" "u \<le> db_now S + ttl" "db_now S \<le> u" "\<And>f. a \<noteq> Release rep k f"
  shows "protected (lease_act ttl S a) rep k u"
proof -
  obtain row where row: "leases S k = Some row" "owner row = rep" "u \<le> expires_at row"
    using assms(1) by (auto simp: protected_def)
  show ?thesis
  proof (cases a)
    case (Acquire rep' k' f)
    show ?thesis
    proof (cases "k' = k \<and> f = None")
      case True
      have "\<not> expires_at row < db_now S" using row(3) assms(3) by simp
      then show ?thesis
        using True row Acquire assms(2)
        by (auto simp: protected_def try_acquire_leases lease_upsert_def Let_def)
    next
      case False
      then show ?thesis
        using row Acquire by (auto simp: protected_def try_acquire_leases lease_upsert_other)
    qed
  next
    case (Heartbeat rep' fs order)
    show ?thesis
      using row assms(2) Heartbeat
      by (auto simp: protected_def intro: heartbeat_row [OF row(1), of ttl rep' fs order])
  next
    case (Release rep' k' f)
    then show ?thesis
      using row assms(4) [of f] by (auto simp: protected_def release_leases)
  next
    case (Tick d)
    then show ?thesis using row by (simp add: protected_def)
  qed
qed

lemma protected_run:
  assumes "protected S rep k u" "u \<le> db_now S + ttl" "db_now (lease_run ttl S as) \<le> u"
    and "\<And>f. Release rep k f \<notin> set as"
  shows "protected (lease_run ttl S as) rep k u"
  using assms
proof (induction as arbitrary: S)
  case (Cons a as)
  have le: "db_now S \<le> db_now (lease_act ttl S a)" by (rule lease_act_now)
  have "db_now (lease_act ttl S a) \<le> u"
    using lease_run_now [of "lease_act ttl S a" ttl as] Cons.prems(3) by (simp add: lease_run_Cons)
  with le have now: "db_now S \<le> u" by simp
  have "protected (lease_act ttl S a) rep k u"
    using Cons.prems now by (intro protected_act) auto
  then show ?case
    unfolding lease_run_Cons using Cons.prems le by (intro Cons.IH) (auto simp: lease_run_Cons)
qed (simp add: lease_run_def)

text \<open>What a heartbeat leaves in the mirror of its replica.\<close>

definition lease_valid :: "lease_sys \<Rightarrow> string \<Rightarrow> string \<Rightarrow> nat \<Rightarrow> bool" where
  "lease_valid S rep k e \<longleftrightarrow>
     (\<exists>row. leases S k = Some row \<and> owner row = rep \<and> epoch row = as_i64 e)"

lemma heartbeat_loop_valid:
  assumes "distinct (map l_stream ls)" "\<And>l. l \<in> set ls \<Longrightarrow> held S rep (l_stream l) = Some (l_epoch l)"
  shows "(\<forall>k. k \<notin> l_stream ` set ls \<longrightarrow> held (heartbeat_loop ttl rep S [] ls) rep k = held S rep k) \<and>
    (\<forall>l \<in> set ls. held (heartbeat_loop ttl rep S [] ls) rep (l_stream l) = None \<or>
       held (heartbeat_loop ttl rep S [] ls) rep (l_stream l) = Some (l_epoch l) \<and>
       lease_valid (heartbeat_loop ttl rep S [] ls) rep (l_stream l) (l_epoch l))"
  using assms
proof (induction ls arbitrary: S)
  case (Cons l ls)
  obtain r S1 where rn: "renew ttl rep S None l = (r, S1)" by fastforce
  let ?S2 = "(case r of Inl _ \<Rightarrow> set_held S1 rep (l_stream l) None | Inr _ \<Rightarrow> S1)"
  let ?S' = "heartbeat_loop ttl rep ?S2 [] ls"
  have eq: "heartbeat_loop ttl rep S [] (l # ls) = ?S'" using rn by (cases r) auto
  have held1: "held S1 = held S" using renew_frame(2) [of ttl rep S None l] rn by simp
  have h2: "held ?S2 rep k = held S rep k" if "k \<noteq> l_stream l" for k
    using that held1 by (cases r) auto
  have neq: "l_stream x \<noteq> l_stream l" if "x \<in> set ls" for x
    using Cons.prems(1) imageI [OF that, of l_stream] by auto
  have IH: "(\<forall>k. k \<notin> l_stream ` set ls \<longrightarrow> held ?S' rep k = held ?S2 rep k) \<and>
    (\<forall>l \<in> set ls. held ?S' rep (l_stream l) = None \<or>
       held ?S' rep (l_stream l) = Some (l_epoch l) \<and> lease_valid ?S' rep (l_stream l) (l_epoch l))"
    by (rule Cons.IH) (use Cons.prems h2 neq in auto)
  have fresh: "l_stream l \<notin> l_stream ` set ls" using Cons.prems(1) by simp
  have hl: "held ?S' rep (l_stream l) = None \<or>
       held ?S' rep (l_stream l) = Some (l_epoch l) \<and> lease_valid ?S' rep (l_stream l) (l_epoch l)"
  proof (cases r)
    case (Inl e)
    then show ?thesis using IH fresh by simp
  next
    case (Inr u)
    then obtain row where row: "leases ?S2 (l_stream l) = Some row" "owner row = rep"
      "epoch row = as_i64 (l_epoch l)"
      using rn by (auto simp: renew_def split: option.splits if_splits)
    then have "lease_valid ?S' rep (l_stream l) (l_epoch l)"
      using heartbeat_loop_row [OF row(1), of ttl rep "[]" ls] by (auto simp: lease_valid_def)
    then show ?thesis using IH fresh Inr held1 Cons.prems(2) [of l] by simp
  qed
  show ?case unfolding eq using IH hl h2 by auto
qed simp

section \<open>Properties\<close>

text \<open>
  A heartbeat whose renewals reach the database leaves the replica believing only what is true:
  every stream it still claims to own is leased to it, at the epoch it remembers.
\<close>

theorem heartbeat_drops_lost_leases:
  assumes "distinct order" "dom (held S rep) \<subseteq> set order"
    and "held (heartbeat ttl rep S [] order) rep k = Some e"
  shows "lease_valid (heartbeat ttl rep S [] order) rep k e \<and> held S rep k = Some e"
proof -
  let ?f = "\<lambda>k. map_option (\<lambda>e. \<lparr>l_stream = k, l_epoch = e\<rparr>) (held S rep k)"
  let ?ls = "List.map_filter ?f order"
  have str: "map l_stream ?ls = filter (\<lambda>k. held S rep k \<noteq> None) order"
    by (induction order) (auto simp: List.map_filter_simps)
  have mem: "held S rep (l_stream l) = Some (l_epoch l)" if "l \<in> set ?ls" for l
    using that by (auto simp: List.map_filter_def)
  note v = heartbeat_loop_valid [of ?ls S rep ttl, OF _ mem]
  have d: "distinct (map l_stream ?ls)" using assms(1) str by simp
  have "k \<in> l_stream ` set ?ls"
  proof (rule ccontr)
    assume n: "k \<notin> l_stream ` set ?ls"
    then have "held S rep k = Some e" using v [OF d] assms(3) by (simp add: heartbeat_def)
    then have "k \<in> set (map l_stream ?ls)" using assms(2) str by auto
    with n show False by simp
  qed
  then obtain l where "l \<in> set ?ls" "l_stream l = k" by blast
  then show ?thesis using v [OF d] assms(3) mem by (fastforce simp: heartbeat_def)
qed

text \<open>
  C8. A granted lease excludes every other replica for its whole lifetime: after a successful
  \<open>try_acquire\<close> of a stream, whatever all replicas do (claims, heartbeats, driver errors, the passing
  of time) short of the owner releasing it, another replica's \<open>try_acquire\<close> returns nothing as long as
  the database clock has not passed the expiry.
\<close>

theorem lease_excludes_others:
  assumes "try_acquire ttl rep S None k = (Some l, S0)"
    and "\<And>f. Release rep k f \<notin> set as"
    and "db_now (lease_run ttl S0 as) \<le> db_now S + ttl" "rep' \<noteq> rep"
  shows "fst (try_acquire ttl rep' (lease_run ttl S0 as) f k) = None"
proof -
  let ?u = "db_now S + ttl" and ?S1 = "lease_run ttl S0 as"
  have "db_now S0 = db_now S" using try_acquire_leases(2) [of ttl rep S None k] assms(1) by simp
  moreover have "protected S0 rep k ?u"
    using assms(1)
    by (auto simp: try_acquire_def lease_upsert_def protected_def Let_def set_held_def
        split: option.splits if_splits)
  ultimately have "protected ?S1 rep k ?u"
    using assms(2,3) by (intro protected_run) auto
  then obtain row where row: "leases ?S1 k = Some row" "owner row = rep" "?u \<le> expires_at row"
    by (auto simp: protected_def)
  have "\<not> expires_at row < db_now ?S1" using row(3) assms(3) by simp
  then show ?thesis
    using row(1,2) assms(4) by (simp add: try_acquire_def lease_upsert_def split: option.splits)
qed

text \<open>
  As long as nobody releases a stream, its epoch fences: it never decreases, and it has grown
  whenever the owner has changed.
\<close>

theorem lease_epoch_fences:
  assumes "leases S k = Some row" "no_release k as"
  shows "\<exists>row'. leases (lease_run ttl S as) k = Some row' \<and> epoch row \<le> epoch row' \<and>
    (owner row' \<noteq> owner row \<longrightarrow> epoch row < epoch row')"
  using assms
proof (induction as arbitrary: S row)
  case Nil
  then show ?case by (simp add: lease_run_def)
next
  case (Cons a as)
  have "\<exists>row1. leases (lease_act ttl S a) k = Some row1 \<and> epoch row \<le> epoch row1 \<and>
    (owner row1 \<noteq> owner row \<longrightarrow> epoch row < epoch row1)"
  proof (cases a)
    case (Acquire rep k' f)
    show ?thesis
    proof (cases "k' = k")
      case True
      then show ?thesis
        using Cons.prems(1) Acquire by (auto simp: try_acquire_leases lease_upsert_def Let_def)
    next
      case False
      then show ?thesis
        using Cons.prems(1) Acquire by (auto simp: try_acquire_leases lease_upsert_other)
    qed
  next
    case (Heartbeat rep fs order)
    then show ?thesis by (auto intro: heartbeat_row [OF Cons.prems(1), of ttl rep fs order])
  next
    case (Release rep k' f)
    then have "k' \<noteq> k" using Cons.prems(2) by (auto simp: no_release_def)
    then show ?thesis using Release Cons.prems(1) by (simp add: release_leases)
  next
    case (Tick d)
    then show ?thesis using Cons.prems(1) by simp
  qed
  then obtain row1 where row1: "leases (lease_act ttl S a) k = Some row1" "epoch row \<le> epoch row1"
    "owner row1 \<noteq> owner row \<longrightarrow> epoch row < epoch row1" by blast
  have "no_release k as" using Cons.prems(2) by (simp add: no_release_def)
  from Cons.IH [OF row1(1) this] row1(2,3) show ?case
    unfolding lease_run_Cons by fastforce
qed

definition empty_cluster :: lease_sys where
  "empty_cluster = \<lparr>leases = Map.empty, db_now = 0, held = (\<lambda>_. Map.empty)\<rparr>"

text \<open>
  A graceful release forgets the epoch: after a steal at epoch 2 and a release by the thief, the
  next claim is granted epoch 1 again, below the epoch that was in force. The token documented as
  monotonic is monotonic only between releases.
\<close>

theorem lease_release_resets_epoch:
  "l_epoch (the (fst (try_acquire 10 ''b'' (lease_run 10 empty_cluster
       [Acquire ''a'' ''k'' None, Tick 11]) None ''k''))) = 2 \<and>
   l_epoch (the (fst (try_acquire 10 ''a'' (lease_run 10 empty_cluster
       [Acquire ''a'' ''k'' None, Tick 11, Acquire ''b'' ''k'' None, Release ''b'' ''k'' None]) None ''k''))) = 1"
  by (simp add: lease_run_def empty_cluster_def try_acquire_def lease_upsert_def release_def set_held_def
      Let_def as_u64_def)

theorem lease_excludes_others_witness:
  "fst (try_acquire 10 ''b'' (lease_run 10 (snd (try_acquire 10 ''a'' empty_cluster None ''k'')) [Tick 5])
     None ''k'') = None"
  using lease_excludes_others [of 10 "''a''" empty_cluster "''k''" "\<lparr>l_stream = ''k'', l_epoch = 1\<rparr>"
      "snd (try_acquire 10 ''a'' empty_cluster None ''k'')" "[Tick 5]" "''b''" None]
  by (simp add: lease_run_def empty_cluster_def try_acquire_def lease_upsert_def set_held_def as_u64_def)

theorem lease_epoch_fences_witness:
  "\<exists>row'. leases (lease_run 10 (empty_cluster\<lparr>leases := [''k'' \<mapsto> \<lparr>owner = ''a'', epoch = 1, expires_at = 3\<rparr>]\<rparr>)
       [Tick 4, Acquire ''b'' ''k'' None]) ''k'' = Some row' \<and> 1 \<le> epoch row'"
  using lease_epoch_fences [of "empty_cluster\<lparr>leases := [''k'' \<mapsto> \<lparr>owner = ''a'', epoch = 1, expires_at = 3\<rparr>]\<rparr>"
      "''k''" "\<lparr>owner = ''a'', epoch = 1, expires_at = 3\<rparr>" "[Tick 4, Acquire ''b'' ''k'' None]" 10]
  by (auto simp: no_release_def)

theorem heartbeat_drops_lost_leases_witness:
  "lease_valid (heartbeat 10 ''a'' (snd (try_acquire 10 ''a'' empty_cluster None ''k'')) [] [''k'']) ''a'' ''k'' 1"
  using heartbeat_drops_lost_leases [of "[''k'']" "snd (try_acquire 10 ''a'' empty_cluster None ''k'')" "''a''"
      10 "''k''" 1]
  by (auto simp: empty_cluster_def try_acquire_def lease_upsert_def set_held_def as_u64_def heartbeat_def
      List.map_filter_simps renew_def as_i64_def split: if_splits)

end
