(* ===== verification/Registry.thy ===== *)
theory Registry
  imports Core_Error
begin

text \<open>
  The registry of managed workspaces (\<open>core/src/registry.rs\<close>) and the resolution of a workspace's
  environment overlay (\<open>core/src/provider_env.rs\<close>). A \<open>BTreeMap\<close> of strings is a map.
\<close>

section \<open>The registry\<close>

record registered_workspace =
  rw_name :: string
  rw_root :: path
  rw_config :: repo_provider_config

type_synonym registry = "registered_workspace list"

datatype file_read = ReadOk string | ReadNotFound | ReadErr string

text \<open>\<open>from_slice\<close> stands for \<open>serde_json\<close> on the registry's file.\<close>

definition registry_load :: "(string \<Rightarrow> string + registry) \<Rightarrow> file_read \<Rightarrow> registry result" where
  "registry_load from_slice file' =
     (case file' of
        ReadOk bytes \<Rightarrow> (case from_slice bytes of Inl e \<Rightarrow> Inl (JsonError e) | Inr r \<Rightarrow> Inr r)
      | ReadNotFound \<Rightarrow> Inr []
      | ReadErr e \<Rightarrow> Inl (IoError e))"

definition registry_get :: "registry \<Rightarrow> string \<Rightarrow> registered_workspace option" where
  "registry_get reg name = find (\<lambda>r. rw_name r = name) reg"

definition registry_add :: "registry \<Rightarrow> string \<Rightarrow> path \<Rightarrow> unit result \<times> registry" where
  "registry_add reg name root =
     (case registry_get reg name of
        Some existing \<Rightarrow>
          if rw_root existing = root then (Inr (), reg)
          else (Inl (Conflict (''workspace name '' @ [CHR 0x27] @ name @ [CHR 0x27] @
                  '' already registered with a different root'')), reg)
      | None \<Rightarrow>
          (case find (\<lambda>r. rw_root r = root) reg of
             Some other \<Rightarrow>
               (Inl (Conflict (''root '' @ root @ '' is already registered as workspace '' @
                  [CHR 0x27] @ rw_name other @ [CHR 0x27])), reg)
           | None \<Rightarrow>
               (Inr (), reg @ [\<lparr>rw_name = name, rw_root = root, rw_config = default_provider_config\<rparr>])))"

definition registry_remove :: "registry \<Rightarrow> string \<Rightarrow> bool \<times> registry" where
  "registry_remove reg name =
     (let kept = filter (\<lambda>r. rw_name r \<noteq> name) reg in (length kept \<noteq> length reg, kept))"

fun registry_set_config :: "registry \<Rightarrow> string \<Rightarrow> repo_provider_config \<Rightarrow> bool \<times> registry" where
  "registry_set_config [] name cfg = (False, [])"
| "registry_set_config (r # rs) name cfg =
     (if rw_name r = name then (True, r\<lparr>rw_config := cfg\<rparr> # rs)
      else case registry_set_config rs name cfg of (b, rs') \<Rightarrow> (b, r # rs'))"

definition registry_inv :: "registry \<Rightarrow> bool" where
  "registry_inv reg \<longleftrightarrow> distinct (map rw_name reg) \<and> distinct (map rw_root reg)"

lemma registry_get_None: "registry_get reg name = None \<longleftrightarrow> name \<notin> rw_name ` set reg"
  by (auto simp: registry_get_def find_None_iff)

lemma registry_get_Some:
  "registry_get reg name = Some r \<Longrightarrow> r \<in> set reg \<and> rw_name r = name"
  by (auto simp: registry_get_def find_Some_iff)

lemma registry_add_inv: "registry_inv reg \<Longrightarrow> registry_inv (snd (registry_add reg name root))"
  using registry_get_None [of reg name]
  by (auto simp: registry_inv_def registry_add_def find_None_iff split: option.splits)

lemma registry_remove_inv: "registry_inv reg \<Longrightarrow> registry_inv (snd (registry_remove reg name))"
  by (simp add: registry_inv_def registry_remove_def Let_def distinct_map inj_on_def)

lemma registry_set_config_names:
  "map rw_name (snd (registry_set_config reg name cfg)) = map rw_name reg"
  "map rw_root (snd (registry_set_config reg name cfg)) = map rw_root reg"
  by (induction reg) (auto simp: case_prod_beta)

lemma registry_set_config_inv:
  "registry_inv reg \<Longrightarrow> registry_inv (snd (registry_set_config reg name cfg))"
  by (simp add: registry_inv_def registry_set_config_names)

lemma find_append: "find P (xs @ ys) = (case find P xs of Some x \<Rightarrow> Some x | None \<Rightarrow> find P ys)"
  by (induction xs) auto

lemma registry_set_config_get:
  "registry_get (snd (registry_set_config reg name cfg)) name =
     map_option (\<lambda>r. r\<lparr>rw_config := cfg\<rparr>) (registry_get reg name)"
  by (induction reg) (auto simp: registry_get_def case_prod_beta)

datatype registry_op = RegAdd string path | RegRemove string | RegConfig string repo_provider_config

fun registry_act :: "registry \<Rightarrow> registry_op \<Rightarrow> registry" where
  "registry_act reg (RegAdd name root) = snd (registry_add reg name root)"
| "registry_act reg (RegRemove name) = snd (registry_remove reg name)"
| "registry_act reg (RegConfig name cfg) = snd (registry_set_config reg name cfg)"

section \<open>The environment overlay\<close>

definition provider_vars :: "string \<Rightarrow> string option \<times> string option" where
  "provider_vars p =
     (if p = ''anthropic'' then (Some ''ANTHROPIC_BASE_URL'', Some ''ANTHROPIC_API_KEY'')
      else if p = ''openai'' then (Some ''OPENAI_BASE_URL'', Some ''OPENAI_API_KEY'')
      else if p = ''google'' then (Some ''GEMINI_BASE_URL'', Some ''GEMINI_API_KEY'')
      else (None, None))"

definition resolve_env ::
  "(string \<rightharpoonup> string) \<Rightarrow> repo_provider_config \<Rightarrow> (string \<Rightarrow> string option) \<Rightarrow> (string \<rightharpoonup> string)" where
  "resolve_env default_env cfg process_env =
     (let out = default_env;
          out = (case provider cfg of
             None \<Rightarrow> out
           | Some p \<Rightarrow>
               (let out = out(''CALIBAN_PROVIDER'' \<mapsto> p);
                    out = (case (base_url cfg, fst (provider_vars p)) of
                             (Some u, Some var) \<Rightarrow> out(var \<mapsto> u)
                           | _ \<Rightarrow> out)
                in case (api_key_from_env cfg, snd (provider_vars p)) of
                     (Some name, Some var) \<Rightarrow>
                       (case process_env name of Some v \<Rightarrow> out(var \<mapsto> v) | None \<Rightarrow> out)
                   | _ \<Rightarrow> out))
      in out ++ env cfg)"

definition quoted :: "string \<Rightarrow> string" where
  "quoted s = [CHR 0x27] @ s @ [CHR 0x27]"

definition validate_provider_env ::
  "repo_provider_config \<Rightarrow> (string \<rightharpoonup> string) \<Rightarrow> string + unit" where
  "validate_provider_env cfg resolved =
     (case provider cfg of
        None \<Rightarrow> Inr ()
      | Some p \<Rightarrow>
          (case snd (provider_vars p) of
             None \<Rightarrow> Inr ()
           | Some key_var \<Rightarrow>
               if base_url cfg \<noteq> None then Inr ()
               else if (case resolved key_var of Some v \<Rightarrow> v \<noteq> [] | None \<Rightarrow> False) then Inr ()
               else Inl (case api_key_from_env cfg of
                   Some name \<Rightarrow> ''provider '' @ quoted p @ '' requires '' @ key_var @
                     '', but api_key_from_env references '' @ quoted name @
                     '', which is unset in prosperod'' @ [CHR 0x27] @ ''s environment''
                 | None \<Rightarrow> ''provider '' @ quoted p @ '' requires '' @ key_var @
                     '', but no value is configured (set api_key_from_env to a variable in prosperod'' @ [CHR 0x27] @
                     ''s environment, or supply '' @
                     key_var @ '' in the repo env)'')))"

definition validate_provider_config :: "repo_provider_config \<Rightarrow> string + unit" where
  "validate_provider_config cfg =
     (case provider cfg of
        None \<Rightarrow> Inr ()
      | Some p \<Rightarrow>
          if api_key_from_env cfg \<noteq> None \<and> snd (provider_vars p) = None
          then Inl (''provider '' @ quoted p @
            '' has no api-key env var, so api_key_from_env would be ignored; remove api_key_from_env for this provider (it is only meaningful for anthropic/openai/google)'')
          else Inr ())"

section \<open>Properties\<close>

text \<open>
  The registry never aliases: starting from no workspace, no sequence of registrations, removals
  and configuration changes makes two entries share a name or a root, so no caliband is polled
  under two names.
\<close>

theorem registry_never_aliases:
  "registry_inv (foldl registry_act [] ops)"
proof (induction ops rule: rev_induct)
  case Nil
  then show ?case by (simp add: registry_inv_def)
next
  case (snoc x xs)
  then show ?case
    by (cases x) (simp_all add: registry_add_inv registry_remove_inv registry_set_config_inv)
qed

text \<open>
  What registration answers, on every branch: it succeeds exactly when the name is free and the
  root is free, or the name already has this root; then looking the name up gives the root; and a
  refused registration leaves the registry as it was.
\<close>

theorem registry_add_spec:
  "registry_add reg name root = (r, reg') \<Longrightarrow>
     (r = Inr () \<longleftrightarrow>
        (case registry_get reg name of
           Some w \<Rightarrow> rw_root w = root
         | None \<Rightarrow> root \<notin> rw_root ` set reg)) \<and>
     (if r = Inr () then map_option rw_root (registry_get reg' name) = Some root else reg' = reg)"
proof (cases "registry_get reg name")
  case (Some w)
  assume "registry_add reg name root = (r, reg')"
  with Some show ?thesis by (auto simp: registry_add_def split: if_splits)
next
  case None
  assume run: "registry_add reg name root = (r, reg')"
  show ?thesis
  proof (cases "find (\<lambda>r. rw_root r = root) reg")
    case f: None
    then have "root \<notin> rw_root ` set reg" by (auto simp: find_None_iff)
    then show ?thesis
      using run None f by (auto simp: registry_add_def registry_get_def find_append)
  next
    case f: (Some w)
    then have "root \<in> rw_root ` set reg" by (auto simp: find_Some_iff)
    then show ?thesis using run None f by (auto simp: registry_add_def)
  qed
qed

theorem registry_add_spec_witness:
  "registry_get (snd (registry_add [] ''w'' ''/r'')) ''w'' \<noteq> None"
  using registry_add_spec [of "[]" "''w''" "''/r''" "Inr ()" "snd (registry_add [] ''w'' ''/r'')"]
  by (simp add: registry_add_def registry_get_def)

text \<open>
  The layers of the environment overlay: a variable of the workspace's raw environment always
  wins; otherwise the curated provider settings decide the provider, base-URL and key variables;
  every other variable keeps its default.
\<close>

theorem resolve_env_layers:
  "resolve_env d cfg penv k =
     (case env cfg k of
        Some v \<Rightarrow> Some v
      | None \<Rightarrow>
          (case provider cfg of
             None \<Rightarrow> d k
           | Some p \<Rightarrow>
               if Some k = snd (provider_vars p) \<and> (\<exists>n. api_key_from_env cfg = Some n \<and> penv n \<noteq> None)
               then penv (the (api_key_from_env cfg))
               else if Some k = fst (provider_vars p) \<and> base_url cfg \<noteq> None then base_url cfg
               else if k = ''CALIBAN_PROVIDER'' then Some p
               else d k))"
  by (auto simp: resolve_env_def provider_vars_def map_add_def Let_def split: option.splits)

text \<open>
  A configuration that passes both checks is not silently ineffective: the daemon of a keyed
  provider without a custom endpoint gets a non-empty key, and a key reference is only accepted on a
  provider that has a key variable.
\<close>

theorem validated_env_has_key:
  assumes "provider cfg = Some p" "snd (provider_vars p) = Some var" "base_url cfg = None"
    and "validate_provider_env cfg (resolve_env d cfg penv) = Inr ()"
  shows "\<exists>v. resolve_env d cfg penv var = Some v \<and> v \<noteq> []"
  using assms by (auto simp: validate_provider_env_def split: option.splits if_splits)

theorem validated_env_has_key_witness:
  "\<exists>v. resolve_env Map.empty
       \<lparr>provider = Some ''openai'', base_url = None, api_key_from_env = Some ''K'', env = Map.empty\<rparr>
       (\<lambda>n. if n = ''K'' then Some ''secret'' else None) ''OPENAI_API_KEY'' = Some v \<and> v \<noteq> []"
  by (rule validated_env_has_key [of _ "''openai''"])
     (simp_all add: provider_vars_def validate_provider_env_def resolve_env_def)

end
