(* ===== verification/Deadline.thy ===== *)
theory Deadline
  imports Core_Error
begin

text \<open>
  Wall-clock deadlines (\<open>core/src/deadline.rs\<close>). Instants are nanoseconds since the epoch. The
  calendar belongs to \<open>chrono\<close>: printing, parsing and the range of its instants are the fields of a
  record, and an addition that leaves the range panics (\<open>None\<close>).
\<close>

record chrono =
  ch_print :: "int \<Rightarrow> string"
  ch_parse :: "string \<Rightarrow> int option"
  ch_min :: int
  ch_max :: int

definition chrono_add :: "chrono \<Rightarrow> int \<Rightarrow> int \<Rightarrow> int option" where
  "chrono_add ch t d = (if ch_min ch \<le> t + d \<and> t + d \<le> ch_max ch then Some (t + d) else None)"

text \<open>\<open>Duration::try_seconds\<close>: within plus or minus \<open>i64::MAX\<close> milliseconds.\<close>

definition try_seconds :: "int \<Rightarrow> int option" where
  "try_seconds s = (if \<bar>s\<bar> \<le> 9223372036854775 then Some (s * 1000000000) else None)"

definition expired ::
  "chrono \<Rightarrow> int \<Rightarrow> (string \<rightharpoonup> string) \<Rightarrow> agent list \<Rightarrow> (string \<times> string) list" where
  "expired ch now deadlines agents =
     List.map_filter (\<lambda>a.
       case deadlines (agent_id a) of
         None \<Rightarrow> None
       | Some raw \<Rightarrow>
           (case ch_parse ch raw of
              None \<Rightarrow> None
            | Some at \<Rightarrow> if at \<le> now then Some (agent_id a, raw) else None))
       (filter (\<lambda>a. \<not> is_terminal (agent_status a)) agents)"

text \<open>\<open>deadline_from\<close>; the outer \<open>None\<close> is the panic of the addition.\<close>

definition deadline_from :: "chrono \<Rightarrow> int \<Rightarrow> nat option \<Rightarrow> string option option" where
  "deadline_from ch started timeout_secs =
     (case timeout_secs of
        None \<Rightarrow> Some None
      | Some secs \<Rightarrow>
          (case try_seconds (as_i64 secs) of
             None \<Rightarrow> Some None
           | Some delta \<Rightarrow>
               map_option (\<lambda>t. Some (ch_print ch t)) (chrono_add ch started delta)))"

fun deadline_of_kind :: "event_kind \<Rightarrow> string option" where
  "deadline_of_kind (DeadlineSet d) = Some d"
| "deadline_of_kind _ = None"

definition deadline_in :: "fleet_event list \<Rightarrow> string option" where
  "deadline_in events = find_map (\<lambda>e. deadline_of_kind (kind e)) (rev events)"

section \<open>Lemmas\<close>

lemma expired_iff:
  "(i, raw) \<in> set (expired ch now dl agents) \<longleftrightarrow>
     (\<exists>a \<in> set agents. agent_id a = i \<and> \<not> is_terminal (agent_status a) \<and> dl i = Some raw \<and>
        (\<exists>at. ch_parse ch raw = Some at \<and> at \<le> now))"
  by (induction agents) (auto simp: expired_def List.map_filter_simps split: option.splits if_splits)

lemma find_map_append:
  "find_map f (xs @ ys) = (case find_map f xs of Some y \<Rightarrow> Some y | None \<Rightarrow> find_map f ys)"
  by (induction xs) (auto split: option.splits)

lemma deadline_in_snoc:
  "deadline_in (es @ [e]) =
     (case deadline_of_kind (kind e) of Some d \<Rightarrow> Some d | None \<Rightarrow> deadline_in es)"
  by (simp add: deadline_in_def split: option.splits)

section \<open>Properties\<close>

text \<open>
  The sweep selects an agent exactly when it is still running, has a deadline that parses, and the
  clock has reached it: terminal agents, agents without a deadline and unreadable deadlines are
  never selected.
\<close>

theorem expired_selects_exactly:
  "(i, raw) \<in> set (expired ch now dl agents) \<longleftrightarrow>
     (\<exists>a \<in> set agents. agent_id a = i \<and> \<not> is_terminal (agent_status a) \<and> dl i = Some raw \<and>
        (\<exists>at. ch_parse ch raw = Some at \<and> at \<le> now))"
  by (rule expired_iff)

text \<open>
  A timeout of sane size is honoured to the nanosecond: an agent spawned with it is selected by
  the sweep exactly from the instant that many seconds after its start.
\<close>

theorem deadline_honours_timeout:
  assumes "\<And>t. ch_parse ch (ch_print ch t) = Some t" "secs \<le> 9223372036854775"
    and "ch_min ch \<le> started" "started + int secs * 1000000000 \<le> ch_max ch"
    and "\<not> is_terminal (agent_status a)"
  shows "\<exists>d. deadline_from ch started (Some secs) = Some (Some d) \<and>
    ((agent_id a, d) \<in> set (expired ch now [agent_id a \<mapsto> d] [a]) \<longleftrightarrow>
       started + int secs * 1000000000 \<le> now)"
proof -
  have "as_i64 secs = int secs" using assms(2) by (simp add: as_i64_small)
  then have "deadline_from ch started (Some secs) =
      Some (Some (ch_print ch (started + int secs * 1000000000)))"
    using assms(2-4) by (simp add: deadline_from_def try_seconds_def chrono_add_def)
  then show ?thesis using assms(1,5) by (simp add: expired_iff)
qed

text \<open>
  The cast of the timeout wraps: one of \<open>n\<close> seconds below \<open>2 ^ 64\<close> becomes a deadline \<open>n\<close>
  seconds before the start, so the agent is selected at once.
\<close>

theorem deadline_wraps_to_past:
  assumes "\<And>t. ch_parse ch (ch_print ch t) = Some t" "0 < n" "n \<le> 9223372036854775"
    and "ch_min ch \<le> started - int n * 1000000000" "started \<le> ch_max ch"
    and "\<not> is_terminal (agent_status a)"
  shows "\<exists>d. deadline_from ch started (Some (2 ^ 64 - n)) = Some (Some d) \<and>
    (agent_id a, d) \<in> set (expired ch started [agent_id a \<mapsto> d] [a])"
proof -
  have "as_i64 (2 ^ 64 - n) = - int n"
    using assms(2,3) by (auto simp: as_i64_def Let_def of_nat_diff)
  then have "deadline_from ch started (Some (2 ^ 64 - n)) =
      Some (Some (ch_print ch (started - int n * 1000000000)))"
    using assms(3-5) by (simp add: deadline_from_def try_seconds_def chrono_add_def)
  then show ?thesis using assms(1,6) by (simp add: expired_iff)
qed

section \<open>Witnesses\<close>

text \<open>A calendar that prints an instant in unary, signed.\<close>

definition sample_chrono :: chrono where
  "sample_chrono =
     \<lparr>ch_print = (\<lambda>t. if t < 0 then CHR ''-'' # replicate (nat (- t)) (CHR ''1'')
                      else replicate (nat t) (CHR ''1'')),
      ch_parse = (\<lambda>s. Some (case s of [] \<Rightarrow> 0
                      | c # r \<Rightarrow> if c = CHR ''-'' then - int (length r) else int (length s))),
      ch_min = - (10 ^ 30), ch_max = 10 ^ 30\<rparr>"

lemma sample_chrono_roundtrip: "ch_parse sample_chrono (ch_print sample_chrono t) = Some t"
proof (cases "0 < t")
  case True
  then obtain m where "nat t = Suc m" by (metis gr0_conv_Suc zero_less_nat_eq)
  then show ?thesis using True by (auto simp: sample_chrono_def)
qed (auto simp: sample_chrono_def)

definition sample_agent :: agent where
  "sample_agent =
     \<lparr>agent_id = ''a'', agent_name = ''n'', agent_workspace = ''w'', agent_status = Running,
      started_at = [], isolated = True, agent_interactive = False, session_dir = [],
      agent_posture = Supervised, agent_reason = None, agent_detail = None\<rparr>"

theorem deadline_honours_timeout_witness:
  "\<exists>d. deadline_from sample_chrono 0 (Some 60) = Some (Some d) \<and>
     (''a'', d) \<notin> set (expired sample_chrono 59999999999 [''a'' \<mapsto> d] [sample_agent])"
  using deadline_honours_timeout [of sample_chrono 60 0 sample_agent 59999999999,
      OF sample_chrono_roundtrip]
  by (auto simp: sample_chrono_def sample_agent_def)

theorem deadline_wraps_to_past_witness:
  "\<exists>d. deadline_from sample_chrono 0 (Some (2 ^ 64 - 1)) = Some (Some d) \<and>
     (''a'', d) \<in> set (expired sample_chrono 0 [''a'' \<mapsto> d] [sample_agent])"
  using deadline_wraps_to_past [of sample_chrono 1 0 sample_agent, OF sample_chrono_roundtrip]
  by (auto simp: sample_chrono_def sample_agent_def)

end
