(* ===== verification/Fleet_Manager.thy ===== *)
theory Fleet_Manager
  imports Attach Live_Tail Ownership Registry Deadline
begin

text \<open>
  The fleet manager (\<open>core/src/fleet.rs\<close>, \<open>FleetManager\<close>): the in-memory snapshot and its registry, the
  cached control clients, the set of running attach tasks, the spawn and deadline caches, and the
  operations of the control plane. Every answer from outside (config store, leases, daemon, file
  system, clock) comes from a world that the operations thread; the environment holds the
  functions that give the answers. An operation runs without interruption here; the interleavings
  of concurrent emissions are the subject of \<open>Emitter_Race\<close>. An attach task is queued when it is
  started and runs as a step of its own.
\<close>

section \<open>Requests\<close>

record spawn_request =
  rq_prompt :: string
  rq_label :: "string option"
  rq_model :: "string option"
  rq_isolation_worktree :: bool
  rq_tool_allowlist :: "string list option"
  rq_interactive :: bool
  rq_frontmatter_path :: "path option"
  rq_timeout_secs :: "nat option"
  rq_provider_ref :: "string option"
  rq_permission_posture :: permission_posture

definition spawn_request_new :: "string \<Rightarrow> spawn_request" where
  "spawn_request_new prompt =
     \<lparr>rq_prompt = prompt, rq_label = None, rq_model = None, rq_isolation_worktree = True,
      rq_tool_allowlist = None, rq_interactive = False, rq_frontmatter_path = None,
      rq_timeout_secs = None, rq_provider_ref = None, rq_permission_posture = Supervised\<rparr>"

text \<open>The fields of the wire spec that are always \<open>None\<close> are not in the record.\<close>

definition into_spec :: "spawn_request \<Rightarrow> spawn_spec" where
  "into_spec rq =
     \<lparr>sp_label = rq_label rq, sp_frontmatter_path = rq_frontmatter_path rq,
      sp_initial_prompt = rq_prompt rq, sp_model = rq_model rq, sp_provider = None,
      sp_tool_allowlist = rq_tool_allowlist rq, sp_isolation_worktree = rq_isolation_worktree rq,
      sp_inherit_hooks = True, sp_interactive = rq_interactive rq,
      sp_permission_posture = wire_posture_of (rq_permission_posture rq), sp_drive_protocol = Ndjson\<rparr>"

datatype fleet_change =
    FcDiscovered string string agent
  | FcStatusChanged string string agent_status agent_status
  | FcGone string string
  | FcWorkspaceHealth string workspace_health

section \<open>Configuration, state and environment\<close>

record network_config =
  net_addr :: string
  net_ca_pem :: string
  net_server_name :: string
  net_token :: "string option"

record fleet_config =
  fc_host :: string
  fc_discovery :: discovery_env
  fc_ensure :: ensure_config
  fc_thinking :: bool
  fc_default_env :: "string \<rightharpoonup> string"
  fc_backoff :: attach_backoff
  fc_network :: "network_config option"

record ('s, 'w) manager =
  fm_snapshot :: fleet_snapshot
  fm_registry :: registry
  fm_clients :: "string \<rightharpoonup> caliband_client"
  fm_attached :: "string set"
  fm_recent :: "string \<rightharpoonup> string"
  fm_deadlines :: "string \<rightharpoonup> string"
  fm_emitter :: "'s emitter"
  fm_shutdown :: bool
  fm_tasks :: "(attach_target \<times> caliband_client) list"
  fm_world :: 'w

text \<open>
  \<open>fe_order\<close> is the iteration order of a hash map's keys; \<open>fe_discover\<close> gives the outcomes of the
  connection attempts \<open>ensure_caliband\<close> makes; \<open>fe_await_gone\<close> waits for an old socket to go;
  \<open>fe_tls\<close> builds a TLS client from a certificate.
\<close>

record ('s, 'w) fleet_env =
  fe_config :: fleet_config
  fe_ops :: "'s store_ops"
  fe_emit :: emit_env
  fe_attach :: "'w attach_port"
  fe_list_repos :: "'w \<Rightarrow> registry result \<times> 'w"
  fe_upsert_repo :: "'w \<Rightarrow> registered_workspace \<Rightarrow> unit result \<times> 'w"
  fe_delete_repo :: "'w \<Rightarrow> string \<Rightarrow> bool result \<times> 'w"
  fe_try_acquire :: "'w \<Rightarrow> string \<Rightarrow> lease option \<times> 'w"
  fe_release :: "'w \<Rightarrow> string \<Rightarrow> 'w"
  fe_now :: "'w \<Rightarrow> int \<times> 'w"
  fe_chrono :: chrono
  fe_fs :: "'w \<Rightarrow> fs_view"
  fe_canonicalize :: "'w \<Rightarrow> path \<Rightarrow> string + path"
  fe_sha :: "string \<Rightarrow> string"
  fe_discover :: "'w \<Rightarrow> path \<Rightarrow> ensure_config \<Rightarrow> (bool \<times> string option \<times> bool list) \<times> 'w"
  fe_await_gone :: "'w \<Rightarrow> path \<Rightarrow> 'w"
  fe_process_env :: "string \<Rightarrow> string option"
  fe_tls :: "string \<Rightarrow> string \<Rightarrow> string result"
  fe_order :: "string set \<Rightarrow> string list"

abbreviation fe_port :: "('s, 'w) fleet_env \<Rightarrow> 'w caliband_port" where
  "fe_port fe \<equiv> ap_port (fe_attach fe)"

definition outside :: "('w \<Rightarrow> 'a \<times> 'w) \<Rightarrow> ('s, 'w) manager \<Rightarrow> 'a \<times> ('s, 'w) manager" where
  "outside f m = (case f (fm_world m) of (r, w) \<Rightarrow> (r, m\<lparr>fm_world := w\<rparr>))"

definition fm_emit ::
  "('s, 'w) fleet_env \<Rightarrow> ('s, 'w) manager \<Rightarrow> string \<Rightarrow> string \<Rightarrow> event_kind \<Rightarrow> ('s, 'w) manager" where
  "fm_emit fe m repo i k =
     m\<lparr>fm_emitter := emit (fe_ops fe) (fe_emit fe) (fm_emitter m) repo i k\<rparr>"

text \<open>\<open>iter_mut().find(..)\<close>: the first element that satisfies the predicate is changed.\<close>

fun update_first :: "('a \<Rightarrow> bool) \<Rightarrow> ('a \<Rightarrow> 'a) \<Rightarrow> 'a list \<Rightarrow> 'a list" where
  "update_first p f [] = []"
| "update_first p f (x # xs) = (if p x then f x # xs else x # update_first p f xs)"

definition snap_get :: "fleet_snapshot \<Rightarrow> string \<Rightarrow> workspace option" where
  "snap_get snap repo = find (\<lambda>r. ws_name r = repo) (workspaces snap)"

definition snap_update :: "(workspace \<Rightarrow> workspace) \<Rightarrow> string \<Rightarrow> fleet_snapshot \<Rightarrow> fleet_snapshot" where
  "snap_update f repo snap = snap\<lparr>workspaces := update_first (\<lambda>r. ws_name r = repo) f (workspaces snap)\<rparr>"

definition fresh_workspace :: "fs_view \<Rightarrow> registered_workspace \<Rightarrow> workspace" where
  "fresh_workspace fs r =
     \<lparr>ws_name = rw_name r, ws_root = rw_root r, ws_sources = discover_sources fs (rw_root r),
      ws_health = Healthy, ws_config = rw_config r, ws_agents = []\<rparr>"

section \<open>Construction and reads\<close>

definition with_seams ::
  "('s, 'w) fleet_env \<Rightarrow> 's \<Rightarrow> 'w \<Rightarrow> ('s, 'w) manager result" where
  "with_seams fe store w =
     (case fe_list_repos fe w of
        (Inl e, w) \<Rightarrow> Inl e
      | (Inr reg, w) \<Rightarrow>
          Inr \<lparr>fm_snapshot = \<lparr>host = fc_host (fe_config fe),
                              workspaces = map (fresh_workspace (fe_fs fe w)) reg\<rparr>,
               fm_registry = reg, fm_clients = Map.empty, fm_attached = {}, fm_recent = Map.empty,
               fm_deadlines = Map.empty, fm_emitter = emitter_new store, fm_shutdown = False,
               fm_tasks = [], fm_world = w\<rparr>)"

definition begin_shutdown :: "('s, 'w) manager \<Rightarrow> ('s, 'w) manager" where
  "begin_shutdown m = m\<lparr>fm_shutdown := True\<rparr>"

definition fleet_snapshot_of :: "('s, 'w) manager \<Rightarrow> fleet_snapshot" where
  "fleet_snapshot_of m =
     (fm_snapshot m)\<lparr>workspaces :=
        map (\<lambda>r. case registry_get (fm_registry m) (ws_name r) of
                   Some g \<Rightarrow> r\<lparr>ws_config := rw_config g\<rparr>
                 | None \<Rightarrow> r) (workspaces (fm_snapshot m))\<rparr>"

definition fleet_metrics :: "('s, 'w) manager \<Rightarrow> metrics_snapshot" where
  "fleet_metrics m = metrics_snapshot_of (em_metrics (fm_emitter m)) (card (fm_attached m))"

definition set_store :: "('s, 'w) manager \<Rightarrow> 's \<Rightarrow> ('s, 'w) manager" where
  "set_store m s = m\<lparr>fm_emitter := (fm_emitter m)\<lparr>em_store := s\<rparr>\<rparr>"

definition fleet_readiness :: "('s, 'w) fleet_env \<Rightarrow> ('s, 'w) manager \<Rightarrow> readiness \<times> ('s, 'w) manager" where
  "fleet_readiness fe m =
     (case st_writable (fe_ops fe) (em_store (fm_emitter m)) of
        (ok, s) \<Rightarrow>
          (let total = length (workspaces (fm_snapshot m));
               healthy = length (filter (\<lambda>r. ws_health r = Healthy) (workspaces (fm_snapshot m)))
           in (\<lparr>ready = ok, store_writable = ok, workspaces_total = total, workspaces_healthy = healthy,
                workspaces_unreachable = total - healthy\<rparr>, set_store m s)))"

definition fleet_history ::
  "('s, 'w) fleet_env \<Rightarrow> ('s, 'w) manager \<Rightarrow> string \<Rightarrow> nat \<Rightarrow> fleet_event list result \<times> ('s, 'w) manager" where
  "fleet_history fe m k from_seq =
     (case st_replay (fe_ops fe) (em_store (fm_emitter m)) k from_seq of (r, s) \<Rightarrow> (r, set_store m s))"

definition repo_config :: "('s, 'w) manager \<Rightarrow> string \<Rightarrow> repo_provider_config option" where
  "repo_config m repo = map_option rw_config (registry_get (fm_registry m) repo)"

section \<open>Clients\<close>

definition network_client :: "('s, 'w) fleet_env \<Rightarrow> caliband_client option result" where
  "network_client fe =
     (case fc_network (fe_config fe) of
        None \<Rightarrow> Inr None
      | Some net \<Rightarrow>
          rbind (fe_tls fe (net_ca_pem net) (net_server_name net)) (\<lambda>tls.
            Inr (Some (connect_tcp (net_addr net) (Some tls) (net_token net)))))"

definition resolved_env ::
  "('s, 'w) fleet_env \<Rightarrow> repo_provider_config \<Rightarrow> (string \<rightharpoonup> string)" where
  "resolved_env fe cfg = resolve_env (fc_default_env (fe_config fe)) cfg (fe_process_env fe)"

definition ensure_config_for ::
  "('s, 'w) fleet_env \<Rightarrow> ('s, 'w) manager \<Rightarrow> string \<Rightarrow> ensure_config result" where
  "ensure_config_for fe m repo =
     rbind (ok_or (repo_config m repo) (WorkspaceNotFound repo)) (\<lambda>cfg.
       Inr ((fc_ensure (fe_config fe))\<lparr>ens_env := resolved_env fe cfg\<rparr>))"

definition cache_client :: "('s, 'w) manager \<Rightarrow> string \<Rightarrow> caliband_client \<Rightarrow> ('s, 'w) manager" where
  "cache_client m repo c = m\<lparr>fm_clients := (fm_clients m)(repo \<mapsto> c)\<rparr>"

definition client_for ::
  "('s, 'w) fleet_env \<Rightarrow> ('s, 'w) manager \<Rightarrow> string \<Rightarrow> caliband_client result \<times> ('s, 'w) manager" where
  "client_for fe m repo =
     (case fm_clients m repo of
        Some c \<Rightarrow> (Inr c, m)
      | None \<Rightarrow>
          (case network_client fe of
             Inl e \<Rightarrow> (Inl e, m)
           | Inr (Some c) \<Rightarrow> (Inr c, cache_client m repo c)
           | Inr None \<Rightarrow>
               (case registry_get (fm_registry m) repo of
                  None \<Rightarrow> (Inl (WorkspaceNotFound repo), m)
                | Some r \<Rightarrow>
                    (case ensure_config_for fe m repo of
                       Inl e \<Rightarrow> (Inl e, m)
                     | Inr ens \<Rightarrow>
                         (case outside (\<lambda>w. fe_discover fe w (rw_root r) ens) m of
                            ((reachable, spawn_error, tries), m) \<Rightarrow>
                              (case ensure_caliband (fe_sha fe) (fe_canonicalize fe (fm_world m))
                                      (fc_discovery (fe_config fe)) ens (rw_root r)
                                      reachable spawn_error tries of
                                 Inl e \<Rightarrow> (Inl e, m)
                               | Inr c \<Rightarrow> (Inr c, cache_client m repo c)))))))"

definition check_provider_env :: "('s, 'w) fleet_env \<Rightarrow> ('s, 'w) manager \<Rightarrow> string \<Rightarrow> unit result" where
  "check_provider_env fe m repo =
     rbind (ok_or (repo_config m repo) (WorkspaceNotFound repo)) (\<lambda>cfg.
       case validate_provider_env cfg (resolved_env fe cfg) of
         Inl e \<Rightarrow> Inl (ProviderMisconfigured e)
       | Inr _ \<Rightarrow> Inr ())"

section \<open>Attach tasks\<close>

definition start_attach ::
  "('s, 'w) fleet_env \<Rightarrow> ('s, 'w) manager \<Rightarrow> string \<Rightarrow> string \<Rightarrow> caliband_client \<Rightarrow> ('s, 'w) manager" where
  "start_attach fe m repo i c =
     (if i \<in> fm_attached m then m
      else case outside (\<lambda>w. fe_try_acquire fe w i) m of
             (None, m) \<Rightarrow> m
           | (Some _, m) \<Rightarrow>
               if i \<in> fm_attached m then m
               else m\<lparr>fm_attached := insert i (fm_attached m),
                      fm_tasks := fm_tasks m @ [(\<lparr>at_repo = repo, at_agent_id = i, at_attach_id = i\<rparr>, c)]\<rparr>)"

text \<open>
  A queued task runs for at most \<open>n\<close> connections; when its loop has returned, the agent leaves the
  attached set and its lease is released.
\<close>

definition run_attach_task ::
  "('s, 'w) fleet_env \<Rightarrow> nat \<Rightarrow> ('s, 'w) manager \<Rightarrow> attach_target \<times> caliband_client \<Rightarrow> ('s, 'w) manager" where
  "run_attach_task fe n m task =
     (case task of (tgt, c) \<Rightarrow>
        (case attach_loop n (fe_ops fe) (fe_emit fe) (fe_attach fe) (fc_thinking (fe_config fe))
                (fc_backoff (fe_config fe)) c tgt 0 0 (fm_emitter m) (fm_world m) of
           (None, fs, em, w) \<Rightarrow> m\<lparr>fm_emitter := em, fm_world := w\<rparr>
         | (Some _, fs, em, w) \<Rightarrow>
             m\<lparr>fm_emitter := em, fm_attached := fm_attached m - {at_agent_id tgt},
               fm_tasks := remove1 task (fm_tasks m), fm_world := fe_release fe w (at_agent_id tgt)\<rparr>))"

section \<open>Deadlines\<close>

definition snap_agents :: "('s, 'w) manager \<Rightarrow> string \<Rightarrow> agent list" where
  "snap_agents m repo = (case snap_get (fm_snapshot m) repo of None \<Rightarrow> [] | Some r \<Rightarrow> ws_agents r)"

definition fill_deadline ::
  "('s, 'w) fleet_env \<Rightarrow> string \<Rightarrow> ('s, 'w) manager \<Rightarrow> agent \<Rightarrow> ('s, 'w) manager" where
  "fill_deadline fe repo m a =
     (if fm_deadlines m (agent_id a) \<noteq> None then m
      else case fleet_history fe m (stream_key_for repo (agent_id a)) 0 of
             (r, m) \<Rightarrow>
               (case deadline_in (unwrap_or r []) of
                  None \<Rightarrow> m
                | Some d \<Rightarrow> m\<lparr>fm_deadlines := (fm_deadlines m)(agent_id a \<mapsto> d)\<rparr>))"

definition time_out ::
  "('s, 'w) fleet_env \<Rightarrow> string \<Rightarrow> caliband_client \<Rightarrow> ('s, 'w) manager \<Rightarrow> string \<times> string \<Rightarrow>
     ('s, 'w) manager" where
  "time_out fe repo c m due =
     (case due of (i, deadline) \<Rightarrow>
        (case outside (\<lambda>w. client_kill (fe_port fe) w c i) (fm_emit fe m repo i (AgentTimedOut deadline)) of
           (Inl e, m) \<Rightarrow> m
         | (Inr _, m) \<Rightarrow> m\<lparr>fm_deadlines := (fm_deadlines m)(i := None)\<rparr>))"

definition enforce_deadlines ::
  "('s, 'w) fleet_env \<Rightarrow> ('s, 'w) manager \<Rightarrow> string \<Rightarrow> caliband_client \<Rightarrow> ('s, 'w) manager" where
  "enforce_deadlines fe m repo c =
     (let agents = snap_agents m repo;
          m = foldl (fill_deadline fe repo) m (filter (\<lambda>a. \<not> is_terminal (agent_status a)) agents)
      in case outside (fe_now fe) m of
           (now, m) \<Rightarrow>
             foldl (time_out fe repo c) m (expired (fe_chrono fe) now (fm_deadlines m) agents))"

section \<open>Polling\<close>

definition agent_of_record :: "string \<Rightarrow> agent_record \<Rightarrow> agent" where
  "agent_of_record repo rec =
     \<lparr>agent_id = ar_id rec, agent_name = ar_name rec, agent_workspace = repo,
      agent_status = domain_status (ar_status rec), started_at = ar_started_at rec,
      isolated = sp_isolation_worktree (ar_spec rec), agent_interactive = sp_interactive (ar_spec rec),
      session_dir = ar_session_dir rec,
      agent_posture = (case sp_permission_posture (ar_spec rec) of
                         WUnattended \<Rightarrow> Unattended | WSupervised \<Rightarrow> Supervised),
      agent_reason = None, agent_detail = None\<rparr>"

definition prior_statuses :: "agent list \<Rightarrow> (string \<rightharpoonup> agent_status)" where
  "prior_statuses agents = map_of (rev (map (\<lambda>a. (agent_id a, agent_status a)) agents))"

text \<open>What the pass over the records emits for one record, if anything.\<close>

definition record_event ::
  "(string \<rightharpoonup> agent_status) \<Rightarrow> string set \<Rightarrow> bool \<Rightarrow> agent_record \<Rightarrow> event_kind option" where
  "record_event prior attached_now own rec =
     (case prior (ar_id rec) of
        None \<Rightarrow> if own \<and> ar_id rec \<notin> attached_now then Some AgentDiscovered else None
      | Some old \<Rightarrow>
          if own \<and> old \<noteq> domain_status (ar_status rec)
          then Some (StatusChanged old (domain_status (ar_status rec))) else None)"

definition emit_record ::
  "('s, 'w) fleet_env \<Rightarrow> string \<Rightarrow> (string \<rightharpoonup> agent_status) \<Rightarrow> string set \<Rightarrow> bool \<Rightarrow>
     ('s, 'w) manager \<Rightarrow> agent_record \<Rightarrow> ('s, 'w) manager" where
  "emit_record fe repo prior attached_now own m rec =
     (case record_event prior attached_now own rec of
        None \<Rightarrow> m
      | Some k \<Rightarrow> fm_emit fe m repo (ar_id rec) k)"

definition emit_gone ::
  "('s, 'w) fleet_env \<Rightarrow> string \<Rightarrow> agent_record list \<Rightarrow> bool \<Rightarrow> ('s, 'w) manager \<Rightarrow> string \<Rightarrow> ('s, 'w) manager" where
  "emit_gone fe repo records own m old_id =
     (if own \<and> \<not> list_ex (\<lambda>r. ar_id r = old_id) records then fm_emit fe m repo old_id AgentGone else m)"

definition settle_snapshot ::
  "('s, 'w) fleet_env \<Rightarrow> string \<Rightarrow> agent list \<Rightarrow> bool \<Rightarrow> ('s, 'w) manager \<Rightarrow> ('s, 'w) manager" where
  "settle_snapshot fe repo new_agents own m =
     (case snap_get (fm_snapshot m) repo of
        None \<Rightarrow> m
      | Some r \<Rightarrow>
          (let was_unreachable = (ws_health r \<noteq> Healthy);
               m = m\<lparr>fm_snapshot := snap_update (\<lambda>r. r\<lparr>ws_health := Healthy, ws_agents := new_agents\<rparr>) repo
                                      (fm_snapshot m)\<rparr>
           in if was_unreachable \<and> own then fm_emit fe m repo [] (RepoHealth Healthy) else m))"

definition reconcile ::
  "('s, 'w) fleet_env \<Rightarrow> ('s, 'w) manager \<Rightarrow> string \<Rightarrow> agent_record list \<Rightarrow> caliband_client \<Rightarrow> bool \<Rightarrow>
     ('s, 'w) manager" where
  "reconcile fe m repo records c own =
     (let prior = prior_statuses (snap_agents m repo);
          attached_now = fm_attached m;
          m = foldl (emit_record fe repo prior attached_now own) m records;
          to_attach = map ar_id (filter (\<lambda>r. \<not> is_terminal (domain_status (ar_status r)) \<and>
                                             ar_id r \<notin> attached_now) records);
          m = foldl (emit_gone fe repo records own) m (fe_order fe (dom prior));
          m = settle_snapshot fe repo (map (agent_of_record repo) records) own m;
          m = m\<lparr>fm_recent := (\<lambda>i. if list_ex (\<lambda>r. ar_id r = i) records then None else fm_recent m i)\<rparr>;
          m = foldl (\<lambda>m i. start_attach fe m repo i c) m to_attach
      in if own then enforce_deadlines fe m repo c else m)"

definition mark_unreachable ::
  "('s, 'w) fleet_env \<Rightarrow> ('s, 'w) manager \<Rightarrow> string \<Rightarrow> string \<Rightarrow> bool \<Rightarrow> ('s, 'w) manager" where
  "mark_unreachable fe m repo reason own =
     (case snap_get (fm_snapshot m) repo of
        None \<Rightarrow> m
      | Some r \<Rightarrow>
          if ws_health r \<noteq> Unreachable reason
          then (let m = m\<lparr>fm_snapshot := snap_update (\<lambda>r. r\<lparr>ws_health := Unreachable reason\<rparr>) repo (fm_snapshot m)\<rparr>
                in if own then fm_emit fe m repo [] (RepoHealth (Unreachable reason)) else m)
          else m)"

definition poll_repo_once ::
  "('s, 'w) fleet_env \<Rightarrow> ('s, 'w) manager \<Rightarrow> string \<Rightarrow> ('s, 'w) manager" where
  "poll_repo_once fe m repo =
     (let m = m\<lparr>fm_emitter := (fm_emitter m)\<lparr>em_metrics := record_repo_poll (em_metrics (fm_emitter m))\<rparr>\<rparr>
      in case outside (\<lambda>w. fe_try_acquire fe w (stream_key_for repo [])) m of
           (lease, m) \<Rightarrow>
             (let own = (lease \<noteq> None)
              in case client_for fe m repo of
                   (Inl e, m) \<Rightarrow> mark_unreachable fe m repo (error_display e) own
                 | (Inr c, m) \<Rightarrow>
                     (case outside (\<lambda>w. client_list (fe_port fe) w c) m of
                        (Inr records, m) \<Rightarrow> reconcile fe m repo records c own
                      | (Inl e, m) \<Rightarrow>
                          mark_unreachable fe (m\<lparr>fm_clients := (fm_clients m)(repo := None)\<rparr>) repo
                            (error_display e) own)))"

definition refresh_registry_from_store ::
  "('s, 'w) fleet_env \<Rightarrow> ('s, 'w) manager \<Rightarrow> ('s, 'w) manager" where
  "refresh_registry_from_store fe m =
     (case outside (fe_list_repos fe) m of
        (Inl e, m) \<Rightarrow> m
      | (Inr durable, m) \<Rightarrow>
          (let kept = filter (\<lambda>r. list_ex (\<lambda>d. rw_name d = ws_name r) durable) (workspaces (fm_snapshot m));
               ws = foldl (\<lambda>ws d. if list_ex (\<lambda>r. ws_name r = rw_name d) ws then ws
                                  else ws @ [fresh_workspace (fe_fs fe (fm_world m)) d]) kept durable
           in m\<lparr>fm_registry := durable, fm_snapshot := (fm_snapshot m)\<lparr>workspaces := ws\<rparr>\<rparr>))"

definition poll_all_once :: "('s, 'w) fleet_env \<Rightarrow> ('s, 'w) manager \<Rightarrow> ('s, 'w) manager" where
  "poll_all_once fe m =
     (let m = refresh_registry_from_store fe m
      in foldl (poll_repo_once fe) m (map rw_name (fm_registry m)))"

text \<open>
  \<open>run\<close>: a complete cycle, then the sleep or the shutdown. The list says what the other tasks do
  during each sleep; \<open>None\<close> when the loop has not been told to stop by its end.
\<close>

fun run_loop ::
  "('s, 'w) fleet_env \<Rightarrow> ('s, 'w) manager \<Rightarrow> (('s, 'w) manager \<Rightarrow> ('s, 'w) manager) list \<Rightarrow>
     ('s, 'w) manager option" where
  "run_loop fe m [] = None"
| "run_loop fe m (others # rest) =
     (let m = others (poll_all_once fe m)
      in if fm_shutdown m then Some m else run_loop fe m rest)"

definition fleet_run ::
  "('s, 'w) fleet_env \<Rightarrow> ('s, 'w) manager \<Rightarrow> (('s, 'w) manager \<Rightarrow> ('s, 'w) manager) list \<Rightarrow>
     ('s, 'w) manager option" where
  "fleet_run fe m sleeps = (if fm_shutdown m then Some m else run_loop fe m sleeps)"

section \<open>Workspaces\<close>

text \<open>The repository just registered is found again (\<open>just_registered\<close> below), so \<open>the\<close> is defined.\<close>

definition add_workspace_with_config ::
  "('s, 'w) fleet_env \<Rightarrow> ('s, 'w) manager \<Rightarrow> string \<Rightarrow> path \<Rightarrow> repo_provider_config \<Rightarrow>
     unit result \<times> ('s, 'w) manager" where
  "add_workspace_with_config fe m name root cfg =
     (case validate_provider_config cfg of
        Inl e \<Rightarrow> (Inl (ProviderMisconfigured e), m)
      | Inr _ \<Rightarrow>
          (let root = unwrap_or (fe_canonicalize fe (fm_world m) root) root
           in case registry_add (fm_registry m) name root of
                (Inl e, reg) \<Rightarrow> (Inl e, m\<lparr>fm_registry := reg\<rparr>)
              | (Inr _, reg) \<Rightarrow>
                  (let reg = snd (registry_set_config reg name cfg);
                       repo = the (registry_get reg name);
                       m = m\<lparr>fm_registry := reg\<rparr>
                   in case outside (\<lambda>w. fe_upsert_repo fe w repo) m of
                        (Inl e, m) \<Rightarrow> (Inl e, m)
                      | (Inr _, m) \<Rightarrow>
                          (let snap = fm_snapshot m;
                               m = (if list_ex (\<lambda>r. ws_name r = name) (workspaces snap) then m
                                    else m\<lparr>fm_snapshot := snap\<lparr>workspaces := workspaces snap @
                                           [fresh_workspace (fe_fs fe (fm_world m)) repo]\<rparr>\<rparr>)
                           in (Inr (), poll_repo_once fe m name)))))"

definition add_workspace ::
  "('s, 'w) fleet_env \<Rightarrow> ('s, 'w) manager \<Rightarrow> string \<Rightarrow> path \<Rightarrow> unit result \<times> ('s, 'w) manager" where
  "add_workspace fe m name root = add_workspace_with_config fe m name root default_provider_config"

definition remove_repo ::
  "('s, 'w) fleet_env \<Rightarrow> ('s, 'w) manager \<Rightarrow> string \<Rightarrow> bool result \<times> ('s, 'w) manager" where
  "remove_repo fe m name =
     (case registry_remove (fm_registry m) name of
        (removed, reg) \<Rightarrow>
          (let m = m\<lparr>fm_registry := reg\<rparr>
           in if \<not> removed then (Inr False, m)
              else case outside (\<lambda>w. fe_delete_repo fe w name) m of
                     (Inl e, m) \<Rightarrow> (Inl e, m)
                   | (Inr _, m) \<Rightarrow>
                       (Inr True,
                        m\<lparr>fm_snapshot := (fm_snapshot m)\<lparr>workspaces :=
                            filter (\<lambda>r. ws_name r \<noteq> name) (workspaces (fm_snapshot m))\<rparr>,
                          fm_clients := (fm_clients m)(name := None)\<rparr>)))"

definition set_repo_config_registry_only ::
  "('s, 'w) fleet_env \<Rightarrow> ('s, 'w) manager \<Rightarrow> string \<Rightarrow> repo_provider_config \<Rightarrow> unit result \<times> ('s, 'w) manager" where
  "set_repo_config_registry_only fe m repo cfg =
     (case validate_provider_config cfg of
        Inl e \<Rightarrow> (Inl (ProviderMisconfigured e), m)
      | Inr _ \<Rightarrow>
          (case registry_set_config (fm_registry m) repo cfg of
             (False, reg) \<Rightarrow> (Inl (WorkspaceNotFound repo), m\<lparr>fm_registry := reg\<rparr>)
           | (True, reg) \<Rightarrow>
               outside (\<lambda>w. fe_upsert_repo fe w (the (registry_get reg repo))) (m\<lparr>fm_registry := reg\<rparr>)))"

definition restart_caliband ::
  "('s, 'w) fleet_env \<Rightarrow> ('s, 'w) manager \<Rightarrow> string \<Rightarrow> unit result \<times> ('s, 'w) manager" where
  "restart_caliband fe m repo =
     (let m = (case fm_clients m repo of
                 None \<Rightarrow> m
               | Some c \<Rightarrow> snd (outside (\<lambda>w. client_shutdown (fe_port fe) w c) m));
          m = m\<lparr>fm_clients := (fm_clients m)(repo := None)\<rparr>;
          m = (case registry_get (fm_registry m) repo of
                 None \<Rightarrow> m
               | Some r \<Rightarrow>
                   (case canonical_root (fe_canonicalize fe (fm_world m)) (rw_root r) of
                      Inl e \<Rightarrow> m
                    | Inr p \<Rightarrow>
                        m\<lparr>fm_world := fe_await_gone fe (fm_world m)
                            (control_socket_path (fe_sha fe) p (fc_discovery (fe_config fe)))\<rparr>))
      in (Inr (), poll_repo_once fe m repo))"

definition set_repo_config ::
  "('s, 'w) fleet_env \<Rightarrow> ('s, 'w) manager \<Rightarrow> string \<Rightarrow> repo_provider_config \<Rightarrow> unit result \<times> ('s, 'w) manager" where
  "set_repo_config fe m repo cfg =
     (case set_repo_config_registry_only fe m repo cfg of
        (Inl e, m) \<Rightarrow> (Inl e, m)
      | (Inr _, m) \<Rightarrow> restart_caliband fe m repo)"

section \<open>Agents\<close>

definition repo_of :: "('s, 'w) manager \<Rightarrow> string \<Rightarrow> string result" where
  "repo_of m i =
     (case find_agent (fm_snapshot m) i of
        Some (repo, _) \<Rightarrow> Inr repo
      | None \<Rightarrow> ok_or (fm_recent m i) (AgentNotFound i))"

text \<open>The outcome is \<open>None\<close> when the addition of the timeout to the clock panics.\<close>

definition spawn_agent_with_socket ::
  "('s, 'w) fleet_env \<Rightarrow> ('s, 'w) manager \<Rightarrow> string \<Rightarrow> spawn_request \<Rightarrow>
     (string \<times> endpoint) result option \<times> ('s, 'w) manager" where
  "spawn_agent_with_socket fe m repo rq =
     (case check_provider_env fe m repo of
        Inl e \<Rightarrow> (Some (Inl e), m)
      | Inr _ \<Rightarrow>
          (case client_for fe m repo of
             (Inl e, m) \<Rightarrow> (Some (Inl e), m)
           | (Inr c, m) \<Rightarrow>
               (let spec = (into_spec rq)\<lparr>sp_provider := Option.bind (repo_config m repo) provider\<rparr>
                in case outside (\<lambda>w. client_spawn (fe_port fe) w c spec) m of
                     (Inl e, m) \<Rightarrow> (Some (Inl e), m)
                   | (Inr (i, ep), m) \<Rightarrow>
                       (let m = m\<lparr>fm_recent := (fm_recent m)(i \<mapsto> repo)\<rparr>;
                            m = fm_emit fe m repo i AgentSpawned
                        in case outside (fe_now fe) m of
                             (now, m) \<Rightarrow>
                               (case deadline_from (fe_chrono fe) now (rq_timeout_secs rq) of
                                  None \<Rightarrow> (None, m)
                                | Some None \<Rightarrow> (Some (Inr (i, ep)), start_attach fe m repo i c)
                                | Some (Some d) \<Rightarrow>
                                    (let m = m\<lparr>fm_deadlines := (fm_deadlines m)(i \<mapsto> d)\<rparr>;
                                         m = fm_emit fe m repo i (DeadlineSet d)
                                     in (Some (Inr (i, ep)), start_attach fe m repo i c)))))))"

definition spawn_agent ::
  "('s, 'w) fleet_env \<Rightarrow> ('s, 'w) manager \<Rightarrow> string \<Rightarrow> spawn_request \<Rightarrow> string result option \<times> ('s, 'w) manager" where
  "spawn_agent fe m repo rq =
     apfst (map_option (\<lambda>r. rbind r (\<lambda>x. Inr (fst x)))) (spawn_agent_with_socket fe m repo rq)"

text \<open>Resolve the repository and its client, then one request.\<close>

definition agent_request ::
  "('s, 'w) fleet_env \<Rightarrow> ('s, 'w) manager \<Rightarrow> string \<Rightarrow> ('w \<Rightarrow> caliband_client \<Rightarrow> 'a result \<times> 'w) \<Rightarrow>
     'a result \<times> ('s, 'w) manager" where
  "agent_request fe m i f =
     (case repo_of m i of
        Inl e \<Rightarrow> (Inl e, m)
      | Inr repo \<Rightarrow>
          (case client_for fe m repo of
             (Inl e, m) \<Rightarrow> (Inl e, m)
           | (Inr c, m) \<Rightarrow> outside (\<lambda>w. f w c) m))"

definition kill_agent ::
  "('s, 'w) fleet_env \<Rightarrow> ('s, 'w) manager \<Rightarrow> string \<Rightarrow> unit result \<times> ('s, 'w) manager" where
  "kill_agent fe m i = agent_request fe m i (\<lambda>w c. client_kill (fe_port fe) w c i)"

definition respawn_agent ::
  "('s, 'w) fleet_env \<Rightarrow> ('s, 'w) manager \<Rightarrow> string \<Rightarrow> string result \<times> ('s, 'w) manager" where
  "respawn_agent fe m i = agent_request fe m i (\<lambda>w c. client_respawn (fe_port fe) w c i)"

definition send_agent_input ::
  "('s, 'w) fleet_env \<Rightarrow> ('s, 'w) manager \<Rightarrow> string \<Rightarrow> attach_inbound \<Rightarrow> unit result \<times> ('s, 'w) manager" where
  "send_agent_input fe m i input =
     (case find_agent (fm_snapshot m) i of
        None \<Rightarrow> (Inl (AgentNotFound i), m)
      | Some (repo, a) \<Rightarrow>
          if is_terminal (agent_status a)
          then (Inl (InvalidState ''send_input'' i ''terminal''), m)
          else if \<not> agent_interactive a
          then (Inl (InvalidState ''send_input'' i ''not interactive''), m)
          else case client_for fe m repo of
                 (Inl e, m) \<Rightarrow> (Inl e, m)
               | (Inr c, m) \<Rightarrow>
                   (case outside (\<lambda>w. client_attach (fe_port fe) w c i) m of
                      (Inl e, m) \<Rightarrow> (Inl e, m)
                    | (Inr ep, m) \<Rightarrow> outside (\<lambda>w. send_inbound (fe_port fe) w c ep input) m))"

text \<open>\<open>drain_agent\<close>; the list says what the other tasks do during each wait before the timeout.\<close>

fun drain_wait ::
  "string \<Rightarrow> ('s, 'w) manager \<Rightarrow> (('s, 'w) manager \<Rightarrow> ('s, 'w) manager) list \<Rightarrow> ('s, 'w) manager" where
  "drain_wait i m [] = m"
| "drain_wait i m (others # rest) =
     (case find_agent (fleet_snapshot_of m) i of
        None \<Rightarrow> m
      | Some (_, a) \<Rightarrow> if is_terminal (agent_status a) then m else drain_wait i (others m) rest)"

definition drain_agent ::
  "('s, 'w) fleet_env \<Rightarrow> ('s, 'w) manager \<Rightarrow> string \<Rightarrow> (('s, 'w) manager \<Rightarrow> ('s, 'w) manager) list \<Rightarrow>
     unit result \<times> ('s, 'w) manager" where
  "drain_agent fe m i waits =
     (let m = snd (send_agent_input fe m i EndInput) in kill_agent fe (drain_wait i m waits) i)"

definition rm_agent ::
  "('s, 'w) fleet_env \<Rightarrow> ('s, 'w) manager \<Rightarrow> string \<Rightarrow> bool \<Rightarrow> unit result \<times> ('s, 'w) manager" where
  "rm_agent fe m i force =
     (case repo_of m i of
        Inl e \<Rightarrow> (Inl e, m)
      | Inr repo \<Rightarrow>
          (case client_for fe m repo of
             (Inl e, m) \<Rightarrow> (Inl e, m)
           | (Inr c, m) \<Rightarrow>
               (case outside (\<lambda>w. client_rm (fe_port fe) w c i force) m of
                  (Inl e, m) \<Rightarrow> (Inl e, m)
                | (Inr _, m) \<Rightarrow>
                    (let m = m\<lparr>fm_recent := (fm_recent m)(i := None)\<rparr>;
                         kept = filter (\<lambda>a. agent_id a \<noteq> i) (snap_agents m repo);
                         removed = (length kept \<noteq> length (snap_agents m repo));
                         m = m\<lparr>fm_snapshot := snap_update (\<lambda>r. r\<lparr>ws_agents := kept\<rparr>) repo (fm_snapshot m)\<rparr>
                     in if \<not> removed then (Inr (), m)
                        else case outside (\<lambda>w. fe_try_acquire fe w (stream_key_for repo [])) m of
                               (None, m) \<Rightarrow> (Inr (), m)
                             | (Some _, m) \<Rightarrow> (Inr (), fm_emit fe m repo i AgentGone)))))"

section \<open>Watching\<close>

text \<open>
  \<open>event_to_change\<close>: the snapshots are those the bounded lookups see, the first of them at once.
\<close>

definition event_to_change :: "fleet_event \<Rightarrow> fleet_snapshot list \<Rightarrow> fleet_change option" where
  "event_to_change e snaps =
     (case kind e of
        AgentDiscovered \<Rightarrow>
          map_option (\<lambda>(_, a). FcDiscovered (ev_agent e) (ev_repo e) a)
            (find_map (\<lambda>snap. find_agent snap (ev_agent e)) snaps)
      | StatusChanged from' to' \<Rightarrow> Some (FcStatusChanged (ev_agent e) (ev_repo e) from' to')
      | AgentGone \<Rightarrow> Some (FcGone (ev_agent e) (ev_repo e))
      | RepoHealth state \<Rightarrow> Some (FcWorkspaceHealth (ev_repo e) state)
      | _ \<Rightarrow> None)"

definition watch_seed :: "fleet_snapshot \<Rightarrow> fleet_change list" where
  "watch_seed snap =
     concat (map (\<lambda>r. FcWorkspaceHealth (ws_name r) (ws_health r) #
                      map (\<lambda>a. FcDiscovered (agent_id a) (ws_name r) a) (ws_agents r)) (workspaces snap))"

fun watch_live :: "(bus_event \<times> fleet_snapshot list) list \<Rightarrow> fleet_change list" where
  "watch_live [] = []"
| "watch_live ((Lagged n, _) # rest) = watch_live rest"
| "watch_live ((BusEvent e, snaps) # rest) =
     (case event_to_change e snaps of None \<Rightarrow> watch_live rest | Some c \<Rightarrow> c # watch_live rest)"

definition watch_changes ::
  "('s, 'w) manager \<Rightarrow> (bus_event \<times> fleet_snapshot list) list \<Rightarrow> fleet_change list" where
  "watch_changes m live = watch_seed (fleet_snapshot_of m) @ watch_live live"


end
