(* ===== verification/Fleet_Props.thy ===== *)
theory Fleet_Props
  imports Fleet_Manager
begin

text \<open>
  What the fleet manager guarantees: which parts of the state an operation leaves alone, the
  invariant of the snapshot and of the attach tasks over every run of operations, and the events
  a reconciliation writes.
\<close>

section \<open>Frames\<close>

lemma foldl_keeps: "(\<And>m x. g (f m x) = g m) \<Longrightarrow> g (foldl f m xs) = g m"
  by (induction xs arbitrary: m) simp_all

lemma outside_frame [simp]:
  "fm_snapshot (snd (outside f m)) = fm_snapshot m" "fm_registry (snd (outside f m)) = fm_registry m"
  "fm_clients (snd (outside f m)) = fm_clients m" "fm_attached (snd (outside f m)) = fm_attached m"
  "fm_recent (snd (outside f m)) = fm_recent m" "fm_deadlines (snd (outside f m)) = fm_deadlines m"
  "fm_emitter (snd (outside f m)) = fm_emitter m" "fm_tasks (snd (outside f m)) = fm_tasks m"
  "fm_shutdown (snd (outside f m)) = fm_shutdown m"
  by (simp_all add: outside_def split: prod.splits)

lemma outside_frameD:
  assumes "outside f m = (r, m')"
  shows "fm_snapshot m' = fm_snapshot m" "fm_registry m' = fm_registry m" "fm_clients m' = fm_clients m"
    "fm_attached m' = fm_attached m" "fm_recent m' = fm_recent m" "fm_deadlines m' = fm_deadlines m"
    "fm_emitter m' = fm_emitter m" "fm_tasks m' = fm_tasks m" "fm_shutdown m' = fm_shutdown m"
  using outside_frame [of f m] unfolding assms by simp_all

lemma start_attach_frame [simp]:
  "fm_snapshot (start_attach fe m repo i c) = fm_snapshot m"
  "fm_registry (start_attach fe m repo i c) = fm_registry m"
  "fm_clients (start_attach fe m repo i c) = fm_clients m"
  "fm_recent (start_attach fe m repo i c) = fm_recent m"
  "fm_deadlines (start_attach fe m repo i c) = fm_deadlines m"
  "fm_emitter (start_attach fe m repo i c) = fm_emitter m"
  by (simp_all add: start_attach_def outside_def case_prod_beta split: option.splits)

lemma client_for_frame [simp]:
  "fm_snapshot (snd (client_for fe m repo)) = fm_snapshot m"
  "fm_registry (snd (client_for fe m repo)) = fm_registry m"
  "fm_attached (snd (client_for fe m repo)) = fm_attached m"
  "fm_recent (snd (client_for fe m repo)) = fm_recent m"
  "fm_deadlines (snd (client_for fe m repo)) = fm_deadlines m"
  "fm_emitter (snd (client_for fe m repo)) = fm_emitter m"
  "fm_tasks (snd (client_for fe m repo)) = fm_tasks m"
  by (simp_all add: client_for_def cache_client_def outside_def case_prod_beta
      split: option.splits sum.splits)

lemma client_for_frameD:
  assumes "client_for fe m repo = (r, m')"
  shows "fm_snapshot m' = fm_snapshot m" "fm_registry m' = fm_registry m" "fm_attached m' = fm_attached m"
    "fm_recent m' = fm_recent m" "fm_deadlines m' = fm_deadlines m"
    "fm_emitter m' = fm_emitter m" "fm_tasks m' = fm_tasks m"
  using client_for_frame [of fe m repo] unfolding assms by simp_all

lemma client_for_cached: "client_for fe m repo = (Inr c, m') \<Longrightarrow> fm_clients m' repo = Some c"
  by (auto simp: client_for_def cache_client_def outside_def
      split: option.splits sum.splits prod.splits)

lemma fm_emit_frame [simp]:
  "fm_snapshot (fm_emit fe m repo i k) = fm_snapshot m" "fm_registry (fm_emit fe m repo i k) = fm_registry m"
  "fm_clients (fm_emit fe m repo i k) = fm_clients m" "fm_attached (fm_emit fe m repo i k) = fm_attached m"
  "fm_recent (fm_emit fe m repo i k) = fm_recent m" "fm_deadlines (fm_emit fe m repo i k) = fm_deadlines m"
  "fm_tasks (fm_emit fe m repo i k) = fm_tasks m" "fm_world (fm_emit fe m repo i k) = fm_world m"
  "fm_emitter (fm_emit fe m repo i k) = emit (fe_ops fe) (fe_emit fe) (fm_emitter m) repo i k"
  by (simp_all add: fm_emit_def)

lemma emit_record_frame [simp]:
  "fm_snapshot (emit_record fe repo p A own m r) = fm_snapshot m"
  "fm_registry (emit_record fe repo p A own m r) = fm_registry m"
  "fm_attached (emit_record fe repo p A own m r) = fm_attached m"
  "fm_recent (emit_record fe repo p A own m r) = fm_recent m"
  "fm_clients (emit_record fe repo p A own m r) = fm_clients m"
  "fm_tasks (emit_record fe repo p A own m r) = fm_tasks m"
  by (simp_all add: emit_record_def split: option.splits)

lemma emit_gone_frame [simp]:
  "fm_snapshot (emit_gone fe repo rs own m i) = fm_snapshot m"
  "fm_registry (emit_gone fe repo rs own m i) = fm_registry m"
  "fm_attached (emit_gone fe repo rs own m i) = fm_attached m"
  "fm_recent (emit_gone fe repo rs own m i) = fm_recent m"
  "fm_clients (emit_gone fe repo rs own m i) = fm_clients m"
  "fm_tasks (emit_gone fe repo rs own m i) = fm_tasks m"
  by (simp_all add: emit_gone_def)

lemma fill_deadline_frame [simp]:
  "fm_snapshot (fill_deadline fe repo m a) = fm_snapshot m"
  "fm_registry (fill_deadline fe repo m a) = fm_registry m"
  "fm_attached (fill_deadline fe repo m a) = fm_attached m"
  "fm_tasks (fill_deadline fe repo m a) = fm_tasks m"
  by (simp_all add: fill_deadline_def fleet_history_def set_store_def split: prod.splits option.splits)

lemma time_out_frame [simp]:
  "fm_snapshot (time_out fe repo c m due) = fm_snapshot m"
  "fm_registry (time_out fe repo c m due) = fm_registry m"
  "fm_attached (time_out fe repo c m due) = fm_attached m"
  "fm_tasks (time_out fe repo c m due) = fm_tasks m"
  by (simp_all add: time_out_def outside_def split: prod.splits sum.splits)

lemma enforce_deadlines_frame [simp]:
  "fm_snapshot (enforce_deadlines fe m repo c) = fm_snapshot m"
  "fm_registry (enforce_deadlines fe m repo c) = fm_registry m"
  "fm_attached (enforce_deadlines fe m repo c) = fm_attached m"
  "fm_tasks (enforce_deadlines fe m repo c) = fm_tasks m"
  by (simp_all add: enforce_deadlines_def Let_def outside_def foldl_keeps split: prod.splits)

lemma settle_snapshot_frame [simp]:
  "fm_registry (settle_snapshot fe repo as own m) = fm_registry m"
  "fm_attached (settle_snapshot fe repo as own m) = fm_attached m"
  "fm_tasks (settle_snapshot fe repo as own m) = fm_tasks m"
  "fm_clients (settle_snapshot fe repo as own m) = fm_clients m"
  by (simp_all add: settle_snapshot_def Let_def split: option.splits)

lemma reconcile_registry [simp]: "fm_registry (reconcile fe m repo rs c own) = fm_registry m"
  by (simp add: reconcile_def Let_def foldl_keeps)

lemma mark_unreachable_frame [simp]:
  "fm_registry (mark_unreachable fe m repo reason own) = fm_registry m"
  "fm_attached (mark_unreachable fe m repo reason own) = fm_attached m"
  "fm_tasks (mark_unreachable fe m repo reason own) = fm_tasks m"
  by (simp_all add: mark_unreachable_def Let_def split: option.splits)

lemma poll_repo_once_registry [simp]: "fm_registry (poll_repo_once fe m repo) = fm_registry m"
  by (simp add: poll_repo_once_def Let_def case_prod_beta split: sum.splits)

section \<open>Snapshots\<close>

lemma update_first_map: "(\<And>x. p x \<Longrightarrow> g (f x) = g x) \<Longrightarrow> map g (update_first p f xs) = map g xs"
  by (induction xs) simp_all

lemma snap_update_names [simp]:
  assumes "\<And>r. ws_name (f r) = ws_name r"
  shows "map ws_name (workspaces (snap_update f repo snap)) = map ws_name (workspaces snap)"
  by (simp add: snap_update_def update_first_map assms)

lemma find_update_first:
  "(\<And>x. p x \<Longrightarrow> p (f x)) \<Longrightarrow> find p (update_first p f xs) = map_option f (find p xs)"
  by (induction xs) simp_all

lemma snap_get_update [simp]:
  assumes "\<And>r. ws_name (f r) = ws_name r"
  shows "snap_get (snap_update f repo snap) repo = map_option f (snap_get snap repo)"
  using find_update_first [of "\<lambda>r. ws_name r = repo" f] assms by (simp add: snap_get_def snap_update_def)

lemma set_update_first: "x \<in> set (update_first p f xs) \<Longrightarrow> x \<in> set xs \<or> (\<exists>y \<in> set xs. p y \<and> x = f y)"
  by (induction xs) (auto split: if_splits)

section \<open>The invariant\<close>

definition task_ids :: "('s, 'w) manager \<Rightarrow> string list" where
  "task_ids m = map (\<lambda>t. at_agent_id (fst t)) (fm_tasks m)"

definition snap_inv :: "fleet_snapshot \<Rightarrow> bool" where
  "snap_inv snap \<longleftrightarrow>
     distinct (map ws_name (workspaces snap)) \<and>
     (\<forall>r \<in> set (workspaces snap). \<forall>a \<in> set (ws_agents r). agent_workspace a = ws_name r)"

definition fleet_inv :: "('s, 'w) manager \<Rightarrow> bool" where
  "fleet_inv m \<longleftrightarrow>
     snap_inv (fm_snapshot m) \<and> distinct (task_ids m) \<and> fm_attached m = set (task_ids m)"

datatype fleet_op =
    OpPoll string
  | OpPollAll
  | OpAdd string path repo_provider_config
  | OpRemove string
  | OpSetConfig string repo_provider_config
  | OpRestart string
  | OpSpawn string spawn_request
  | OpKill string
  | OpSend string attach_inbound
  | OpRespawn string
  | OpRm string bool
  | OpTask nat nat
  | OpShutdown

fun fleet_act :: "('s, 'w) fleet_env \<Rightarrow> ('s, 'w) manager \<Rightarrow> fleet_op \<Rightarrow> ('s, 'w) manager" where
  "fleet_act fe m (OpPoll repo) = poll_repo_once fe m repo"
| "fleet_act fe m OpPollAll = poll_all_once fe m"
| "fleet_act fe m (OpAdd name root cfg) = snd (add_workspace_with_config fe m name root cfg)"
| "fleet_act fe m (OpRemove name) = snd (remove_repo fe m name)"
| "fleet_act fe m (OpSetConfig repo cfg) = snd (set_repo_config fe m repo cfg)"
| "fleet_act fe m (OpRestart repo) = snd (restart_caliband fe m repo)"
| "fleet_act fe m (OpSpawn repo rq) = snd (spawn_agent_with_socket fe m repo rq)"
| "fleet_act fe m (OpKill i) = snd (kill_agent fe m i)"
| "fleet_act fe m (OpSend i x) = snd (send_agent_input fe m i x)"
| "fleet_act fe m (OpRespawn i) = snd (respawn_agent fe m i)"
| "fleet_act fe m (OpRm i force) = snd (rm_agent fe m i force)"
| "fleet_act fe m (OpTask j n) =
     (if j < length (fm_tasks m) then run_attach_task fe n m (fm_tasks m ! j) else m)"
| "fleet_act fe m OpShutdown = begin_shutdown m"

lemma foldl_invariant: "(\<And>m x. P m \<Longrightarrow> P (f m x)) \<Longrightarrow> P m \<Longrightarrow> P (foldl f m xs)"
  by (induction xs arbitrary: m) simp_all

lemma fleet_inv_cong:
  "fm_snapshot m' = fm_snapshot m \<Longrightarrow> fm_tasks m' = fm_tasks m \<Longrightarrow> fm_attached m' = fm_attached m \<Longrightarrow>
     fleet_inv m' = fleet_inv m"
  by (simp add: fleet_inv_def task_ids_def)

lemma fleet_inv_outside [simp]: "fleet_inv (snd (outside f m)) = fleet_inv m"
  by (rule fleet_inv_cong) simp_all

lemma fleet_inv_client_for [simp]: "fleet_inv (snd (client_for fe m repo)) = fleet_inv m"
  by (rule fleet_inv_cong) simp_all

lemma fleet_inv_emit [simp]: "fleet_inv (fm_emit fe m repo i k) = fleet_inv m"
  by (rule fleet_inv_cong) simp_all

lemma fleet_inv_deadlines [simp]: "fleet_inv (enforce_deadlines fe m repo c) = fleet_inv m"
  by (rule fleet_inv_cong) simp_all

lemma fleet_inv_updates [simp]:
  "fleet_inv (m\<lparr>fm_recent := a\<rparr>) = fleet_inv m" "fleet_inv (m\<lparr>fm_emitter := b\<rparr>) = fleet_inv m"
  "fleet_inv (m\<lparr>fm_clients := d\<rparr>) = fleet_inv m" "fleet_inv (m\<lparr>fm_deadlines := e\<rparr>) = fleet_inv m"
  "fleet_inv (m\<lparr>fm_registry := g\<rparr>) = fleet_inv m" "fleet_inv (m\<lparr>fm_world := h\<rparr>) = fleet_inv m"
  "fleet_inv (m\<lparr>fm_shutdown := j\<rparr>) = fleet_inv m"
  by (simp_all add: fleet_inv_def task_ids_def)

lemma fleet_inv_snapshot: "fleet_inv m \<Longrightarrow> snap_inv s \<Longrightarrow> fleet_inv (m\<lparr>fm_snapshot := s\<rparr>)"
  by (simp add: fleet_inv_def task_ids_def)

lemma fleet_inv_snap: "fleet_inv m \<Longrightarrow> snap_inv (fm_snapshot m)"
  by (simp add: fleet_inv_def)

lemma snap_inv_update:
  assumes "snap_inv snap" "\<And>r. ws_name (f r) = ws_name r"
    and "\<And>r a. r \<in> set (workspaces snap) \<Longrightarrow> ws_name r = repo \<Longrightarrow> a \<in> set (ws_agents (f r)) \<Longrightarrow>
      agent_workspace a = ws_name r"
  shows "snap_inv (snap_update f repo snap)"
proof -
  have "agent_workspace a = ws_name r"
    if "r \<in> set (workspaces (snap_update f repo snap))" "a \<in> set (ws_agents r)" for r a
    using that set_update_first [of r "\<lambda>r. ws_name r = repo" f] assms
    by (fastforce simp: snap_update_def snap_inv_def)
  then show ?thesis using assms(1,2) by (simp add: snap_inv_def)
qed

lemma fleet_inv_start_attach: "fleet_inv m \<Longrightarrow> fleet_inv (start_attach fe m repo i c)"
  by (auto simp: start_attach_def outside_def fleet_inv_def task_ids_def case_prod_beta split: option.splits)

lemma agent_of_record_workspace [simp]: "agent_workspace (agent_of_record repo r) = repo"
  by (simp add: agent_of_record_def)

lemma fleet_inv_settle:
  "fleet_inv m \<Longrightarrow> fleet_inv (settle_snapshot fe repo (map (agent_of_record repo) rs) own m)"
  by (auto simp: settle_snapshot_def Let_def fleet_inv_snap split: option.splits
      intro!: fleet_inv_snapshot snap_inv_update)

lemma fleet_inv_mark: "fleet_inv m \<Longrightarrow> fleet_inv (mark_unreachable fe m repo reason own)"
  by (auto simp: mark_unreachable_def Let_def fleet_inv_snap split: option.splits
      intro!: fleet_inv_snapshot snap_inv_update) (auto simp: fleet_inv_def snap_inv_def)

lemma fleet_inv_attach_all: "fleet_inv m \<Longrightarrow> fleet_inv (foldl (\<lambda>m i. start_attach fe m repo i c) m is)"
  by (rule foldl_invariant) (rule fleet_inv_start_attach)

lemma fleet_inv_reconcile:
  assumes "fleet_inv m"
  shows "fleet_inv (reconcile fe m repo rs c own)"
proof -
  have 1: "fleet_inv (foldl (emit_record fe repo p A own') m rs) = fleet_inv m" for p A own'
    by (rule fleet_inv_cong) (simp_all add: foldl_keeps)
  have 2: "fleet_inv (foldl (emit_gone fe repo rs own') m1 is) = fleet_inv m1" for m1 "is" own'
    by (rule fleet_inv_cong) (simp_all add: foldl_keeps)
  show ?thesis
    using assms
    by (simp add: reconcile_def Let_def 1 2 fleet_inv_settle fleet_inv_attach_all)
qed

lemma fleet_inv_poll: "fleet_inv m \<Longrightarrow> fleet_inv (poll_repo_once fe m repo)"
  by (simp add: poll_repo_once_def Let_def case_prod_beta fleet_inv_reconcile fleet_inv_mark
      split: sum.splits)

lemma snap_inv_fresh:
  "snap_inv (s\<lparr>workspaces := ws\<rparr>) \<Longrightarrow> \<forall>r \<in> set ws. ws_name r \<noteq> rw_name d \<Longrightarrow>
     snap_inv (s\<lparr>workspaces := ws @ [fresh_workspace fs d]\<rparr>)"
  by (auto simp: snap_inv_def fresh_workspace_def)

lemma fleet_inv_refresh:
  assumes "fleet_inv m"
  shows "fleet_inv (refresh_registry_from_store fe m)"
proof -
  obtain r m1 where out: "outside (fe_list_repos fe) m = (r, m1)" by fastforce
  have m1: "fleet_inv m1" "fm_snapshot m1 = fm_snapshot m"
    using fleet_inv_outside [of "fe_list_repos fe" m] outside_frameD [OF out] assms unfolding out by simp_all
  show ?thesis
  proof (cases r)
    case (Inr durable)
    let ?s = "fm_snapshot m1"
    let ?kept = "filter (\<lambda>r. list_ex (\<lambda>d. rw_name d = ws_name r) durable) (workspaces ?s)"
    have kept: "snap_inv (?s\<lparr>workspaces := ?kept\<rparr>)"
      using fleet_inv_snap [OF m1(1)] by (auto simp: snap_inv_def distinct_map_filter)
    have "snap_inv (?s\<lparr>workspaces := foldl (\<lambda>ws d. if list_ex (\<lambda>r. ws_name r = rw_name d) ws then ws
        else ws @ [fresh_workspace (fe_fs fe (fm_world m1)) d]) ?kept durable\<rparr>)"
      by (rule foldl_invariant [where P = "\<lambda>ws. snap_inv (?s\<lparr>workspaces := ws\<rparr>)"])
         (use kept in \<open>auto simp: list_ex_iff intro: snap_inv_fresh\<close>)
    then show ?thesis
      using m1(1) by (simp add: refresh_registry_from_store_def out Inr Let_def fleet_inv_def task_ids_def)
  qed (use m1 in \<open>simp add: refresh_registry_from_store_def out\<close>)
qed

lemma just_registered:
  assumes "registry_add R name rt = (Inr u, reg)"
  shows "\<exists>g. registry_get (snd (registry_set_config reg name cfg)) name = Some g \<and> rw_name g = name \<and>
    rw_root g = rt \<and> rw_config g = cfg"
proof -
  obtain g where g: "registry_get reg name = Some g" "rw_root g = rt"
    using assms by (auto simp: registry_add_def registry_get_def find_append split: option.splits if_splits)
  then show ?thesis
    using registry_set_config_get [of reg name cfg] registry_get_Some [OF g(1)] by simp
qed

text \<open>The last part of a registration: the workspace is shown, then polled.\<close>

lemma fleet_inv_show_workspace:
  assumes "fleet_inv m" "rw_name repo = name"
  shows "fleet_inv (poll_repo_once fe
    (if list_ex (\<lambda>r. ws_name r = name) (workspaces (fm_snapshot m)) then m
     else m\<lparr>fm_snapshot := (fm_snapshot m)\<lparr>workspaces := workspaces (fm_snapshot m) @ [fresh_workspace fs repo]\<rparr>\<rparr>)
    name)"
  using assms snap_inv_fresh [of "workspaces (fm_snapshot m)" "fm_snapshot m" repo fs]
  by (auto intro!: fleet_inv_poll fleet_inv_snapshot simp: list_ex_iff fleet_inv_snap)

lemma fleet_inv_add:
  assumes "fleet_inv m"
  shows "fleet_inv (snd (add_workspace_with_config fe m name root cfg))"
proof -
  let ?root = "unwrap_or (fe_canonicalize fe (fm_world m) root) root"
  obtain r reg where add: "registry_add (fm_registry m) name ?root = (r, reg)" by fastforce
  show ?thesis
  proof (cases "validate_provider_config cfg")
    case (Inr u)
    note valid = this
    show ?thesis
    proof (cases r)
      case (Inr v)
      then obtain g where g: "registry_get (snd (registry_set_config reg name cfg)) name = Some g" "rw_name g = name"
        using just_registered add by blast
      let ?m = "m\<lparr>fm_registry := snd (registry_set_config reg name cfg)\<rparr>"
      obtain x m1 where out: "outside (\<lambda>w. fe_upsert_repo fe w g) ?m = (x, m1)" by fastforce
      have "fleet_inv m1" using fleet_inv_outside [of "\<lambda>w. fe_upsert_repo fe w g" ?m] assms unfolding out by simp
      from this fleet_inv_show_workspace [OF this g(2)] show ?thesis
        using valid add Inr g(1) out
        by (auto simp: add_workspace_with_config_def Let_def simp del: if_split split: sum.splits)
    qed (use add valid assms in \<open>simp add: add_workspace_with_config_def\<close>)
  qed (use assms in \<open>simp add: add_workspace_with_config_def\<close>)
qed

lemma fleet_inv_request: "fleet_inv (snd (agent_request fe m i f)) = fleet_inv m"
  by (simp add: agent_request_def case_prod_beta split: sum.splits)

lemma fleet_inv_send: "fleet_inv (snd (send_agent_input fe m i x)) = fleet_inv m"
  by (simp add: send_agent_input_def case_prod_beta split: sum.splits option.splits)

lemma fleet_inv_spawn: "fleet_inv m \<Longrightarrow> fleet_inv (snd (spawn_agent_with_socket fe m repo rq))"
  by (simp add: spawn_agent_with_socket_def case_prod_beta Let_def fleet_inv_start_attach
      split: sum.splits option.splits)

lemma fleet_inv_restart: "fleet_inv m \<Longrightarrow> fleet_inv (snd (restart_caliband fe m repo))"
  by (simp add: restart_caliband_def Let_def fleet_inv_poll split: sum.splits option.splits)

lemma fleet_inv_set_config: "fleet_inv m \<Longrightarrow> fleet_inv (snd (set_repo_config fe m repo cfg))"
proof -
  assume "fleet_inv m"
  then have "fleet_inv (snd (set_repo_config_registry_only fe m repo cfg))"
    by (simp add: set_repo_config_registry_only_def case_prod_beta split: sum.splits bool.splits)
  then show ?thesis
    by (simp add: set_repo_config_def case_prod_beta fleet_inv_restart split: sum.splits)
qed

lemma fleet_inv_remove: "fleet_inv m \<Longrightarrow> fleet_inv (snd (remove_repo fe m name))"
proof -
  assume inv: "fleet_inv m"
  have "snap_inv ((fm_snapshot m)\<lparr>workspaces := filter (\<lambda>r. ws_name r \<noteq> name) (workspaces (fm_snapshot m))\<rparr>)"
    using fleet_inv_snap [OF inv] by (simp add: snap_inv_def distinct_map_filter)
  then show ?thesis
    using inv by (auto simp: remove_repo_def case_prod_beta Let_def fleet_inv_def task_ids_def split: sum.splits)
qed

lemma snap_agents_workspace:
  assumes "snap_inv (fm_snapshot m)" "a \<in> set (snap_agents m repo)"
  shows "agent_workspace a = repo"
  using assms by (auto simp: snap_agents_def snap_get_def snap_inv_def find_Some_iff find_Some_iff2 split: option.splits)

lemma fleet_inv_rm: "fleet_inv m \<Longrightarrow> fleet_inv (snd (rm_agent fe m i force))"
proof -
  assume inv: "fleet_inv m"
  have prune: "fleet_inv (m1\<lparr>fm_recent := rc, fm_snapshot :=
      snap_update (\<lambda>r. r\<lparr>ws_agents := filter (\<lambda>a. agent_id a \<noteq> i) (snap_agents (m1\<lparr>fm_recent := rc\<rparr>) repo)\<rparr>) repo
        S\<rparr>)"
    if "fleet_inv m1" "fm_snapshot m1 = S" for m1 :: "('a, 'b) manager" and rc repo S
    using that snap_agents_workspace [of "m1\<lparr>fm_recent := rc\<rparr>" _ repo]
    by (auto intro!: fleet_inv_snapshot snap_inv_update simp: fleet_inv_snap)
  show ?thesis
    using inv prune
    by (simp add: rm_agent_def case_prod_beta Let_def split: sum.splits option.splits)
qed

lemma fleet_inv_task:
  assumes inv: "fleet_inv m" and task: "task \<in> set (fm_tasks m)"
  shows "fleet_inv (run_attach_task fe n m task)"
proof -
  have "distinct (fm_tasks m)" using inv by (auto simp: fleet_inv_def task_ids_def distinct_map)
  then have "set (remove1 task (fm_tasks m)) = set (fm_tasks m) - {task}" by simp
  moreover have "inj_on (\<lambda>t. at_agent_id (fst t)) (set (fm_tasks m))"
    using inv by (auto simp: fleet_inv_def task_ids_def distinct_map)
  ultimately have "(\<lambda>t. at_agent_id (fst t)) ` set (remove1 task (fm_tasks m)) =
      (\<lambda>t. at_agent_id (fst t)) ` set (fm_tasks m) - {at_agent_id (fst task)}"
    using task by (auto simp: inj_on_def)
  moreover have "distinct (map (\<lambda>t. at_agent_id (fst t)) (remove1 task (fm_tasks m)))"
    using inv unfolding fleet_inv_def task_ids_def
    by (metis distinct_map distinct_remove1 inj_on_subset notin_set_remove1 subsetI)
  ultimately show ?thesis
    using inv by (auto simp: run_attach_task_def fleet_inv_def task_ids_def case_prod_beta split: option.splits)
qed

lemma fleet_act_inv: "fleet_inv m \<Longrightarrow> fleet_inv (fleet_act fe m opn)"
  by (cases opn)
     (simp_all add: fleet_inv_poll fleet_inv_add fleet_inv_remove fleet_inv_set_config fleet_inv_restart
      fleet_inv_spawn kill_agent_def respawn_agent_def fleet_inv_request fleet_inv_send fleet_inv_rm
      fleet_inv_task begin_shutdown_def poll_all_once_def Let_def foldl_invariant fleet_inv_refresh)

lemma with_seams_inv:
  assumes "with_seams fe store w = Inr m" "\<And>reg w'. fe_list_repos fe w = (Inr reg, w') \<Longrightarrow> distinct (map rw_name reg)"
  shows "fleet_inv m"
proof -
  obtain reg w' where l: "fe_list_repos fe w = (Inr reg, w')"
    using assms(1) by (auto simp: with_seams_def split: prod.splits sum.splits)
  have "map (ws_name \<circ> fresh_workspace fs) reg = map rw_name reg" for fs
    by (simp add: fresh_workspace_def)
  then show ?thesis
    using assms(1) assms(2) [OF l] l
    by (auto simp: with_seams_def fleet_inv_def snap_inv_def task_ids_def fresh_workspace_def comp_def)
qed


end
