(* ===== verification/Fleet_Log.thy ===== *)
theory Fleet_Log
  imports Fleet_Props
begin

text \<open>
  What the fleet manager writes to the event log: the events of a reconciliation, of a spawn and of
  the deadline sweep, over a sqlite store without driver errors.
\<close>

section \<open>Accounting\<close>

text \<open>From \<open>em\<close> to \<open>em'\<close> log and bus have grown by the same events, with these emissions.\<close>

definition wrote ::
  "kind_dec \<Rightarrow> nat \<Rightarrow> events_db emitter \<Rightarrow> emission list \<Rightarrow> events_db emitter \<Rightarrow> bool" where
  "wrote dec n em es em' \<longleftrightarrow>
     (\<exists>evs. sql_hist dec (em_store em') = sql_hist dec (em_store em) @ evs \<and>
        em_bus em' = em_bus em @ evs \<and> map emission_of evs = es) \<and> writer_ok dec n em'"

lemma wrote_nothing: "writer_ok dec n em \<Longrightarrow> wrote dec n em [] em"
  by (simp add: wrote_def)

lemma wrote_ok: "wrote dec n em es em' \<Longrightarrow> writer_ok dec n em'"
  by (simp add: wrote_def)

lemma wrote_trans:
  assumes "wrote dec n em es em1" "wrote dec n' em1 es' em2"
  shows "wrote dec n' em (es @ es') em2"
proof -
  obtain evs evs' where "sql_hist dec (em_store em1) = sql_hist dec (em_store em) @ evs"
    "em_bus em1 = em_bus em @ evs" "map emission_of evs = es"
    "sql_hist dec (em_store em2) = sql_hist dec (em_store em1) @ evs'"
    "em_bus em2 = em_bus em1 @ evs'" "map emission_of evs' = es'" "writer_ok dec n' em2"
    using assms unfolding wrote_def by blast
  then show ?thesis unfolding wrote_def by (intro conjI exI [of _ "evs @ evs'"]) simp_all
qed

definition sqlite_env :: "(f64 list \<Rightarrow> f64) \<Rightarrow> kind_enc \<Rightarrow> kind_dec \<Rightarrow> (events_db, 'w) fleet_env \<Rightarrow> bool" where
  "sqlite_env fsum enc dec fe \<longleftrightarrow> fe_ops fe = sqlite_ops fsum enc dec"

lemma wrote_emit:
  assumes "sqlite_env fsum enc dec fe" "writer_ok dec (Suc n) (fm_emitter m)" "encodable enc dec k"
  shows "wrote dec n (fm_emitter m) [(repo, i, k)] (fm_emitter (fm_emit fe m repo i k))"
proof -
  have ops: "fe_ops fe = sqlite_ops fsum enc dec \<or> fe_ops fe = pg_ops fsum enc dec"
    using assms(1) by (simp add: sqlite_env_def)
  obtain ev where "emission_of ev = (repo, i, k)" "writer_ok dec n (fm_emitter (fm_emit fe m repo i k))"
    "sql_hist dec (em_store (fm_emitter (fm_emit fe m repo i k))) =
       sql_hist dec (em_store (fm_emitter m)) @ [ev]"
    "em_bus (fm_emitter (fm_emit fe m repo i k)) = em_bus (fm_emitter m) @ [ev]"
    using emit_step [OF ops assms(2,3), of "fm_emitter (fm_emit fe m repo i k)" "fe_emit fe" repo i] by auto
  then show ?thesis unfolding wrote_def by (intro conjI exI [of _ "[ev]"]) simp_all
qed

lemma wrote_foldl:
  assumes step: "\<And>m n x. writer_ok dec (n + len x) (fm_emitter m) \<Longrightarrow> x \<in> set xs \<Longrightarrow>
      wrote dec n (fm_emitter m) (es x) (fm_emitter (f m x))"
    and "writer_ok dec (n + sum_list (map len xs)) (fm_emitter m)"
  shows "wrote dec n (fm_emitter m) (concat (map es xs)) (fm_emitter (foldl f m xs))"
  using assms
proof (induction xs arbitrary: m)
  case (Cons x xs)
  have 1: "wrote dec (n + sum_list (map len xs)) (fm_emitter m) (es x) (fm_emitter (f m x))"
    using Cons.prems(1) [of "n + sum_list (map len xs)" x m] Cons.prems(2) by (simp add: add_ac)
  have 2: "wrote dec n (fm_emitter (f m x)) (concat (map es xs)) (fm_emitter (foldl f (f m x) xs))"
    using Cons.IH [of "f m x"] Cons.prems(1) wrote_ok [OF 1] by simp
  show ?case using wrote_trans [OF 1 2] by simp
qed (simp add: wrote_nothing)

section \<open>The sweep of the deadlines\<close>

definition lifecycle_kind :: "event_kind \<Rightarrow> bool" where
  "lifecycle_kind k \<longleftrightarrow>
     (case k of AgentSpawned \<Rightarrow> True | AgentDiscovered \<Rightarrow> True | StatusChanged _ _ \<Rightarrow> True | AgentGone \<Rightarrow> True
      | RepoHealth _ \<Rightarrow> True | AgentTimedOut _ \<Rightarrow> True | DeadlineSet _ \<Rightarrow> True | _ \<Rightarrow> False)"

lemma lifecycle_kind_simps [simp]:
  "lifecycle_kind AgentSpawned" "lifecycle_kind AgentDiscovered" "lifecycle_kind (StatusChanged a b)"
  "lifecycle_kind AgentGone" "lifecycle_kind (RepoHealth h)" "lifecycle_kind (AgentTimedOut d)"
  "lifecycle_kind (DeadlineSet d)"
  by (simp_all add: lifecycle_kind_def)

lemma history_no_fault:
  assumes "sqlite_env fsum enc dec fe" "writer_ok dec n (fm_emitter m)"
  shows "fleet_history fe m k 0 =
    (Inr (stream_history (sql_hist dec (em_store (fm_emitter m))) k 0), m)"
  using sql_replay_no_fault [of dec "em_store (fm_emitter m)" 0 k] assms
  by (simp add: fleet_history_def sqlite_env_def sqlite_ops_def set_store_def writer_ok_def)

lemma fill_deadline_emitter:
  assumes "sqlite_env fsum enc dec fe" "writer_ok dec n (fm_emitter m)"
  shows "fm_emitter (fill_deadline fe repo m a) = fm_emitter m"
  using history_no_fault [OF assms]
  by (simp add: fill_deadline_def split: option.splits)

lemma fill_deadlines_emitter:
  assumes "sqlite_env fsum enc dec fe" "writer_ok dec n (fm_emitter m)"
  shows "fm_emitter (foldl (fill_deadline fe repo) m as) = fm_emitter m"
  using assms(2) fill_deadline_emitter [OF assms(1)] by (induction "as" arbitrary: m) simp_all

lemma time_out_wrote:
  assumes "sqlite_env fsum enc dec fe" "\<And>k. lifecycle_kind k \<Longrightarrow> encodable enc dec k"
    and "writer_ok dec (n + 1) (fm_emitter m)"
  shows "wrote dec n (fm_emitter m) [(repo, fst due, AgentTimedOut (snd due))]
    (fm_emitter (time_out fe repo c m due))"
proof -
  have "fm_emitter (time_out fe repo c m due) = fm_emitter (fm_emit fe m repo (fst due) (AgentTimedOut (snd due)))"
    by (simp add: time_out_def outside_def case_prod_beta split: sum.splits)
  then show ?thesis using wrote_emit [OF assms(1)] assms(2,3) by simp
qed

lemma expired_length: "length (expired ch now dl agents) \<le> length agents"
  by (induction agents) (auto simp: expired_def List.map_filter_simps split: option.splits if_splits)

text \<open>The expired deadlines a sweep acts on.\<close>

definition due_now ::
  "('s, 'w) fleet_env \<Rightarrow> ('s, 'w) manager \<Rightarrow> string \<Rightarrow> (string \<times> string) list" where
  "due_now fe m repo =
     (let agents = snap_agents m repo;
          m = foldl (fill_deadline fe repo) m (filter (\<lambda>a. \<not> is_terminal (agent_status a)) agents)
      in expired (fe_chrono fe) (fst (outside (fe_now fe) m)) (fm_deadlines m) agents)"

lemma due_now_length: "length (due_now fe m repo) \<le> length (snap_agents m repo)"
  by (simp add: due_now_def Let_def expired_length)

lemma enforce_deadlines_wrote:
  assumes env: "sqlite_env fsum enc dec fe" and enc: "\<And>k. lifecycle_kind k \<Longrightarrow> encodable enc dec k"
    and ok: "writer_ok dec (n + length (snap_agents m repo)) (fm_emitter m)"
  shows "wrote dec n (fm_emitter m) (map (\<lambda>(i, d). (repo, i, AgentTimedOut d)) (due_now fe m repo))
    (fm_emitter (enforce_deadlines fe m repo c))"
proof -
  let ?m = "foldl (fill_deadline fe repo) m (filter (\<lambda>a. \<not> is_terminal (agent_status a)) (snap_agents m repo))"
  let ?due = "due_now fe m repo"
  let ?m2 = "snd (outside (fe_now fe) ?m)"
  have e: "fm_emitter ?m2 = fm_emitter m" using fill_deadlines_emitter [OF env ok] by simp
  have "enforce_deadlines fe m repo c = foldl (time_out fe repo c) ?m2 ?due"
    by (simp add: enforce_deadlines_def due_now_def Let_def case_prod_beta)
  moreover have "wrote dec n (fm_emitter ?m2) (concat (map (\<lambda>d. [(repo, fst d, AgentTimedOut (snd d))]) ?due))
      (fm_emitter (foldl (time_out fe repo c) ?m2 ?due))"
  proof (rule wrote_foldl [where len = "\<lambda>_. 1"])
    show "writer_ok dec (n + sum_list (map (\<lambda>_. 1) ?due)) (fm_emitter ?m2)"
      unfolding e by (rule writer_ok_mono [OF ok]) (use due_now_length [of fe m repo] in \<open>simp add: sum_list_triv\<close>)
  qed (rule time_out_wrote [OF env enc])
  ultimately show ?thesis unfolding e by (simp add: case_prod_beta')
qed

section \<open>Reconciliation\<close>

text \<open>
  The difference between what the snapshot shows of a workspace and what its daemon lists: the
  specification of the events a reconciliation writes.
\<close>

definition lifecycle_diff :: "string \<Rightarrow> workspace \<Rightarrow> string set \<Rightarrow> agent_record list \<Rightarrow> emission set" where
  "lifecycle_diff repo r attached_now records =
     {(repo, ar_id x, AgentDiscovered) | x. x \<in> set records \<and>
        ar_id x \<notin> agent_id ` set (ws_agents r) \<and> ar_id x \<notin> attached_now} \<union>
     {(repo, ar_id x, StatusChanged (agent_status a) (domain_status (ar_status x))) | x a.
        x \<in> set records \<and> a \<in> set (ws_agents r) \<and> agent_id a = ar_id x \<and>
        agent_status a \<noteq> domain_status (ar_status x)} \<union>
     {(repo, agent_id a, AgentGone) | a. a \<in> set (ws_agents r) \<and> agent_id a \<notin> ar_id ` set records} \<union>
     (if ws_health r = Healthy then {} else {(repo, [], RepoHealth Healthy)})"

definition record_emissions ::
  "string \<Rightarrow> (string \<rightharpoonup> agent_status) \<Rightarrow> string set \<Rightarrow> agent_record \<Rightarrow> emission list" where
  "record_emissions repo prior A x =
     (case record_event prior A True x of None \<Rightarrow> [] | Some k \<Rightarrow> [(repo, ar_id x, k)])"

definition gone_emissions :: "string \<Rightarrow> agent_record list \<Rightarrow> string \<Rightarrow> emission list" where
  "gone_emissions repo records i = (if i \<in> ar_id ` set records then [] else [(repo, i, AgentGone)])"

definition health_emissions :: "string \<Rightarrow> workspace option \<Rightarrow> emission list" where
  "health_emissions repo r =
     (case r of None \<Rightarrow> [] | Some r \<Rightarrow> if ws_health r = Healthy then [] else [(repo, [], RepoHealth Healthy)])"

lemma prior_statuses_Some:
  assumes "distinct (map agent_id as)"
  shows "prior_statuses as i = Some s \<longleftrightarrow> (\<exists>a \<in> set as. agent_id a = i \<and> agent_status a = s)"
proof -
  have "map fst (map (\<lambda>a. (agent_id a, agent_status a)) as) = map agent_id as" by simp
  then have "distinct (map fst (rev (map (\<lambda>a. (agent_id a, agent_status a)) as)))"
    using assms by (metis distinct_rev rev_map)
  from map_of_eq_Some_iff [OF this] show ?thesis by (auto simp: prior_statuses_def)
qed

lemma prior_statuses_dom: "dom (prior_statuses as) = agent_id ` set as"
  by (simp add: prior_statuses_def dom_map_of_conv_image_fst image_comp comp_def)

lemma record_event_kind: "record_event p A own x = Some k \<Longrightarrow> lifecycle_kind k"
  by (auto simp: record_event_def split: option.splits if_splits)

lemma emit_record_wrote:
  assumes "sqlite_env fsum enc dec fe" "\<And>k. lifecycle_kind k \<Longrightarrow> encodable enc dec k"
    and "writer_ok dec (n + 1) (fm_emitter m)"
  shows "wrote dec n (fm_emitter m) (record_emissions repo p A x) (fm_emitter (emit_record fe repo p A True m x))"
proof (cases "record_event p A True x")
  case None
  then show ?thesis
    using writer_ok_mono [OF assms(3), of n] by (simp add: record_emissions_def emit_record_def wrote_nothing)
next
  case (Some k)
  then show ?thesis
    using wrote_emit [OF assms(1), of n m k repo "ar_id x"] assms(2,3) record_event_kind [OF Some]
    by (simp add: record_emissions_def emit_record_def)
qed

lemma emit_gone_wrote:
  assumes "sqlite_env fsum enc dec fe" "\<And>k. lifecycle_kind k \<Longrightarrow> encodable enc dec k"
    and "writer_ok dec (n + 1) (fm_emitter m)"
  shows "wrote dec n (fm_emitter m) (gone_emissions repo rs i) (fm_emitter (emit_gone fe repo rs True m i))"
proof (cases "i \<in> ar_id ` set rs")
  case True
  then show ?thesis
    using writer_ok_mono [OF assms(3), of n]
    by (auto simp: gone_emissions_def emit_gone_def list_ex_iff wrote_nothing)
next
  case False
  then show ?thesis
    using wrote_emit [OF assms(1), of n m AgentGone repo i] assms(2,3)
    by (auto simp: gone_emissions_def emit_gone_def list_ex_iff)
qed

lemma settle_wrote:
  assumes "sqlite_env fsum enc dec fe" "\<And>k. lifecycle_kind k \<Longrightarrow> encodable enc dec k"
    and "writer_ok dec (n + 1) (fm_emitter m)"
  shows "wrote dec n (fm_emitter m) (health_emissions repo (snap_get (fm_snapshot m) repo))
    (fm_emitter (settle_snapshot fe repo as True m))"
proof -
  let ?m = "m\<lparr>fm_snapshot := snap_update (\<lambda>r. r\<lparr>ws_health := Healthy, ws_agents := as\<rparr>) repo (fm_snapshot m)\<rparr>"
  have "wrote dec n (fm_emitter m) [(repo, [], RepoHealth Healthy)] (fm_emitter (fm_emit fe ?m repo [] (RepoHealth Healthy)))"
    using wrote_emit [OF assms(1), of n ?m "RepoHealth Healthy" repo "[]"] assms(2,3) by simp
  then show ?thesis
    using writer_ok_mono [OF assms(3), of n]
    by (auto simp: health_emissions_def settle_snapshot_def Let_def wrote_nothing split: option.splits)
qed

lemma settle_snapshot_shows:
  "snap_get (fm_snapshot (settle_snapshot fe repo as own m)) repo =
     map_option (\<lambda>r. r\<lparr>ws_health := Healthy, ws_agents := as\<rparr>) (snap_get (fm_snapshot m) repo)"
  by (simp add: settle_snapshot_def Let_def split: option.splits)

text \<open>The state a reconciliation hands to the deadline sweep, and what it has written by then.\<close>

definition settled ::
  "('s, 'w) fleet_env \<Rightarrow> ('s, 'w) manager \<Rightarrow> string \<Rightarrow> agent_record list \<Rightarrow> caliband_client \<Rightarrow> ('s, 'w) manager" where
  "settled fe m repo records c =
     (let prior = prior_statuses (snap_agents m repo);
          m' = foldl (emit_record fe repo prior (fm_attached m) True) m records;
          m' = foldl (emit_gone fe repo records True) m' (fe_order fe (dom prior));
          m' = settle_snapshot fe repo (map (agent_of_record repo) records) True m';
          m' = m'\<lparr>fm_recent := (\<lambda>i. if list_ex (\<lambda>r. ar_id r = i) records then None else fm_recent m' i)\<rparr>
      in foldl (\<lambda>m i. start_attach fe m repo i c) m'
           (map ar_id (filter (\<lambda>r. \<not> is_terminal (domain_status (ar_status r)) \<and>
                                   ar_id r \<notin> fm_attached m) records)))"

lemma reconcile_settled:
  "reconcile fe m repo records c True = enforce_deadlines fe (settled fe m repo records c) repo c"
  by (simp add: reconcile_def settled_def Let_def)

lemma settled_shows:
  "snap_get (fm_snapshot (settled fe m repo records c)) repo =
     map_option (\<lambda>r. r\<lparr>ws_health := Healthy, ws_agents := map (agent_of_record repo) records\<rparr>)
       (snap_get (fm_snapshot m) repo)"
  by (simp add: settled_def Let_def foldl_keeps settle_snapshot_shows)

lemma settled_wrote:
  assumes env: "sqlite_env fsum enc dec fe" and enc: "\<And>k. lifecycle_kind k \<Longrightarrow> encodable enc dec k"
    and ok: "writer_ok dec (n + 1 + length (fe_order fe (dom (prior_statuses (snap_agents m repo)))) + length records)
      (fm_emitter m)"
  shows "wrote dec n (fm_emitter m)
    (concat (map (record_emissions repo (prior_statuses (snap_agents m repo)) (fm_attached m)) records) @
     concat (map (gone_emissions repo records) (fe_order fe (dom (prior_statuses (snap_agents m repo))))) @
     health_emissions repo (snap_get (fm_snapshot m) repo))
    (fm_emitter (settled fe m repo records c))"
proof -
  let ?prior = "prior_statuses (snap_agents m repo)"
  let ?keys = "fe_order fe (dom ?prior)"
  let ?m1 = "foldl (emit_record fe repo ?prior (fm_attached m) True) m records"
  let ?m2 = "foldl (emit_gone fe repo records True) ?m1 ?keys"
  let ?m3 = "settle_snapshot fe repo (map (agent_of_record repo) records) True ?m2"
  have 1: "wrote dec (n + 1 + length ?keys) (fm_emitter m)
      (concat (map (record_emissions repo ?prior (fm_attached m)) records)) (fm_emitter ?m1)"
    by (rule wrote_foldl [where len = "\<lambda>_. 1"])
       (use ok emit_record_wrote [OF env enc] in \<open>simp_all add: sum_list_triv\<close>)
  have 2: "wrote dec (n + 1) (fm_emitter ?m1) (concat (map (gone_emissions repo records) ?keys)) (fm_emitter ?m2)"
    by (rule wrote_foldl [where len = "\<lambda>_. 1"])
       (use wrote_ok [OF 1] emit_gone_wrote [OF env enc] in \<open>simp_all add: sum_list_triv\<close>)
  have snap: "fm_snapshot ?m2 = fm_snapshot m" by (simp add: foldl_keeps)
  have 3: "wrote dec n (fm_emitter ?m2) (health_emissions repo (snap_get (fm_snapshot m) repo)) (fm_emitter ?m3)"
    using settle_wrote [OF env enc wrote_ok [OF 2], of repo] unfolding snap by simp
  have "fm_emitter (settled fe m repo records c) = fm_emitter ?m3"
    by (simp add: settled_def Let_def foldl_keeps)
  then show ?thesis using wrote_trans [OF 1 wrote_trans [OF 2 3]] by simp
qed

lemma distinct_concat_keyed:
  assumes "distinct (map g xs)" "\<And>x y. y \<in> set (es x) \<Longrightarrow> fst (snd y) = g x" "\<And>x. length (es x) \<le> 1"
  shows "distinct (concat (map es xs))"
  using assms(1)
proof (induction xs)
  case (Cons x xs)
  have "distinct (es x)" using assms(3) [of x] by (cases "es x") auto
  moreover have "set (es x) \<inter> set (concat (map es xs)) = {}"
    using Cons.prems assms(2) by fastforce
  ultimately show ?case using Cons by simp
qed simp

lemma record_emissions_in:
  assumes "distinct (map agent_id (ws_agents r))"
  shows "(\<Union>x \<in> set records. set (record_emissions repo (prior_statuses (ws_agents r)) A x)) =
    {(repo, ar_id x, AgentDiscovered) | x. x \<in> set records \<and>
        ar_id x \<notin> agent_id ` set (ws_agents r) \<and> ar_id x \<notin> A} \<union>
    {(repo, ar_id x, StatusChanged (agent_status a) (domain_status (ar_status x))) | x a.
        x \<in> set records \<and> a \<in> set (ws_agents r) \<and> agent_id a = ar_id x \<and>
        agent_status a \<noteq> domain_status (ar_status x)}" (is "?L = ?D \<union> ?S")
proof -
  let ?p = "prior_statuses (ws_agents r)"
  have none: "?p i = None \<longleftrightarrow> i \<notin> agent_id ` set (ws_agents r)" for i
    using prior_statuses_dom [of "ws_agents r"] by (metis domIff)
  have "y \<in> set (record_emissions repo ?p A x) \<longleftrightarrow>
      y = (repo, ar_id x, AgentDiscovered) \<and> ar_id x \<notin> agent_id ` set (ws_agents r) \<and> ar_id x \<notin> A \<or>
      (\<exists>a \<in> set (ws_agents r). agent_id a = ar_id x \<and> agent_status a \<noteq> domain_status (ar_status x) \<and>
         y = (repo, ar_id x, StatusChanged (agent_status a) (domain_status (ar_status x))))" for x y
  proof (cases "?p (ar_id x)")
    case None
    then have out: "ar_id x \<notin> agent_id ` set (ws_agents r)" using none by blast
    then have "\<forall>a \<in> set (ws_agents r). agent_id a \<noteq> ar_id x" by (metis imageI)
    then show ?thesis using None out by (auto simp: record_emissions_def record_event_def)
  next
    case (Some s)
    then have "ar_id x \<in> agent_id ` set (ws_agents r)" using none [of "ar_id x"] by auto
    moreover have "agent_status a = s" if "a \<in> set (ws_agents r)" "agent_id a = ar_id x" for a
      using that Some prior_statuses_Some [OF assms, of "ar_id x" "agent_status a"] by auto
    moreover obtain a where "a \<in> set (ws_agents r)" "agent_id a = ar_id x" "agent_status a = s"
      using Some prior_statuses_Some [OF assms] by blast
    ultimately show ?thesis using Some by (auto simp: record_emissions_def record_event_def)
  qed
  then show ?thesis by blast
qed

text \<open>A hash map's keys come out in some order, each once.\<close>

definition lists_keys :: "('s, 'w) fleet_env \<Rightarrow> bool" where
  "lists_keys fe \<longleftrightarrow> (\<forall>S. finite S \<longrightarrow> distinct (fe_order fe S) \<and> set (fe_order fe S) = S)"

lemma settled_emissions:
  assumes "lists_keys fe" "snap_get (fm_snapshot m) repo = Some r"
    and "distinct (map agent_id (ws_agents r))" "distinct (map ar_id records)"
    and "es = concat (map (record_emissions repo (prior_statuses (snap_agents m repo)) A) records) @
     concat (map (gone_emissions repo records) (fe_order fe (dom (prior_statuses (snap_agents m repo))))) @
     health_emissions repo (snap_get (fm_snapshot m) repo)"
  shows "set es = lifecycle_diff repo r A records" "distinct es"
proof -
  have ag: "snap_agents m repo = ws_agents r" using assms(2) by (simp add: snap_agents_def)
  let ?keys = "fe_order fe (agent_id ` set (ws_agents r))"
  let ?R = "concat (map (record_emissions repo (prior_statuses (ws_agents r)) A) records)"
  let ?G = "concat (map (gone_emissions repo records) ?keys)"
  let ?H = "health_emissions repo (Some r)"
  have es: "es = ?R @ ?G @ ?H" using assms(2,5) by (simp add: ag prior_statuses_dom)
  have keys: "set ?keys = agent_id ` set (ws_agents r)" "distinct ?keys"
    using assms(1) by (simp_all add: lists_keys_def)
  have G: "set ?G = {(repo, agent_id a, AgentGone) | a. a \<in> set (ws_agents r) \<and> agent_id a \<notin> ar_id ` set records}"
    using keys(1) by (auto simp: gone_emissions_def)
  have R: "set ?R = (\<Union>x \<in> set records. set (record_emissions repo (prior_statuses (ws_agents r)) A x))" by simp
  have H: "set ?H = (if ws_health r = Healthy then {} else {(repo, [], RepoHealth Healthy)})"
    by (simp add: health_emissions_def)
  show "set es = lifecycle_diff repo r A records"
    unfolding es set_append R G H record_emissions_in [OF assms(3)] lifecycle_diff_def by blast
  have "distinct ?R"
    by (rule distinct_concat_keyed [OF assms(4)]) (auto simp: record_emissions_def split: option.splits)
  moreover have "distinct (map (\<lambda>i. i) ?keys)" using keys(2) by simp
  then have "distinct ?G"
    by (rule distinct_concat_keyed) (auto simp: gone_emissions_def split: if_splits)
  moreover have "distinct ?H" by (simp add: health_emissions_def)
  moreover have "set ?R \<inter> set ?G = {}" "set ?R \<inter> set ?H = {}" "set ?G \<inter> set ?H = {}"
    unfolding R G H record_emissions_in [OF assms(3)] by auto
  ultimately show "distinct es" unfolding es by auto
qed

lemma lists_keys_length: "lists_keys fe \<Longrightarrow> length (fe_order fe (dom (prior_statuses as))) \<le> length as"
  unfolding prior_statuses_dom lists_keys_def
  by (metis List.finite_set card_image_le card_length distinct_card finite_imageI le_trans)

lemma reconcile_wrote:
  assumes env: "sqlite_env fsum enc dec fe" "lists_keys fe" and enc: "\<And>k. lifecycle_kind k \<Longrightarrow> encodable enc dec k"
    and r: "snap_get (fm_snapshot m) repo = Some r" "distinct (map agent_id (ws_agents r))"
    and rs: "distinct (map ar_id records)"
    and ok: "writer_ok dec (n + 1 + length (ws_agents r) + 2 * length records) (fm_emitter m)"
  shows "\<exists>es. set es = lifecycle_diff repo r (fm_attached m) records \<and> distinct es \<and>
    wrote dec n (fm_emitter m)
      (es @ map (\<lambda>(i, d). (repo, i, AgentTimedOut d)) (due_now fe (settled fe m repo records c) repo))
      (fm_emitter (reconcile fe m repo records c True))"
proof -
  let ?es = "concat (map (record_emissions repo (prior_statuses (snap_agents m repo)) (fm_attached m)) records) @
     concat (map (gone_emissions repo records) (fe_order fe (dom (prior_statuses (snap_agents m repo))))) @
     health_emissions repo (snap_get (fm_snapshot m) repo)"
  let ?m' = "settled fe m repo records c"
  have "length (fe_order fe (dom (prior_statuses (snap_agents m repo)))) \<le> length (ws_agents r)"
    using lists_keys_length [OF env(2)] r(1) by (simp add: snap_agents_def)
  then have "writer_ok dec (n + length records + 1 +
      length (fe_order fe (dom (prior_statuses (snap_agents m repo)))) + length records) (fm_emitter m)"
    by (intro writer_ok_mono [OF ok]) simp
  from settled_wrote [OF env(1) enc this] have 1: "wrote dec (n + length records) (fm_emitter m) ?es (fm_emitter ?m')"
    by simp
  have "length (snap_agents ?m' repo) = length records"
    using settled_shows [of fe m repo records c] r(1) by (simp add: snap_agents_def)
  then have 2: "wrote dec n (fm_emitter ?m') (map (\<lambda>(i, d). (repo, i, AgentTimedOut d)) (due_now fe ?m' repo))
      (fm_emitter (enforce_deadlines fe ?m' repo c))"
    using enforce_deadlines_wrote [OF env(1) enc, of n ?m' repo] wrote_ok [OF 1] by simp
  show ?thesis
    unfolding reconcile_settled
    using settled_emissions [OF env(2) r rs refl] wrote_trans [OF 1 2] by blast
qed

section \<open>Properties\<close>

text \<open>
  C6. In every state a manager can reach, whatever is polled, added, removed, spawned, killed or
  attached in whatever order and whatever the outside answers: the snapshot shows each workspace
  once, every agent in it carries its workspace's name, and an agent is attached exactly when one,
  and only one, attach task runs for it.
\<close>

theorem fleet_inv_always:
  assumes "with_seams fe store w = Inr m"
    and "\<And>reg w'. fe_list_repos fe w = (Inr reg, w') \<Longrightarrow> distinct (map rw_name reg)"
  shows "fleet_inv (foldl (fleet_act fe) m opns)"
proof (rule foldl_invariant)
  show "fleet_inv m" by (rule with_seams_inv) (fact assms)+
qed (rule fleet_act_inv)

text \<open>
  C1. A reconciliation by the holder of a workspace's lifecycle lease writes exactly the difference
  between the snapshot and the daemon's list, each event once: agents that are new and not ours,
  statuses that changed, agents that are gone, and the recovery of an unreachable workspace; after
  them only time-outs. The snapshot then shows the daemon's list.
\<close>

theorem reconcile_emits_diff:
  assumes "sqlite_env fsum enc dec fe" "lists_keys fe" "\<And>k. lifecycle_kind k \<Longrightarrow> encodable enc dec k"
    and "snap_get (fm_snapshot m) repo = Some r" "distinct (map agent_id (ws_agents r))"
    and "distinct (map ar_id records)"
    and "writer_ok dec (1 + length (ws_agents r) + 2 * length records) (fm_emitter m)"
    and "m' = reconcile fe m repo records c True"
  shows "\<exists>evs touts. sql_hist dec (em_store (fm_emitter m')) = sql_hist dec (em_store (fm_emitter m)) @ evs @ touts \<and>
      em_bus (fm_emitter m') = em_bus (fm_emitter m) @ evs @ touts \<and>
      set (map emission_of evs) = lifecycle_diff repo r (fm_attached m) records \<and>
      distinct (map emission_of evs) \<and> (\<forall>e \<in> set touts. \<exists>d. kind e = AgentTimedOut d) \<and>
      snap_get (fm_snapshot m') repo =
        Some (r\<lparr>ws_health := Healthy, ws_agents := map (agent_of_record repo) records\<rparr>)"
proof -
  let ?t = "map (\<lambda>(i, d). (repo, i, AgentTimedOut d)) (due_now fe (settled fe m repo records c) repo)"
  obtain es where es: "set es = lifecycle_diff repo r (fm_attached m) records" "distinct es"
    and w: "wrote dec 0 (fm_emitter m) (es @ ?t) (fm_emitter m')"
    using reconcile_wrote [OF assms(1-6), of 0 c] assms(7) unfolding assms(8) add_0 by blast
  obtain evs where evs: "sql_hist dec (em_store (fm_emitter m')) = sql_hist dec (em_store (fm_emitter m)) @ evs"
    "em_bus (fm_emitter m') = em_bus (fm_emitter m) @ evs" "map emission_of evs = es @ ?t"
    using w unfolding wrote_def by blast
  define n where "n = length es"
  have "take n (map emission_of evs) = es" "drop n (map emission_of evs) = ?t"
    unfolding evs(3) n_def by simp_all
  then have split: "map emission_of (take n evs) = es" "map emission_of (drop n evs) = ?t"
    by (simp_all only: take_map drop_map)
  have "\<exists>d. kind e = AgentTimedOut d" if "e \<in> set (drop n evs)" for e
  proof -
    have "emission_of e \<in> set (map emission_of (drop n evs))" using that by simp
    then show ?thesis unfolding split(2) by (auto simp: emission_of_def)
  qed
  moreover have "snap_get (fm_snapshot m') repo =
      Some (r\<lparr>ws_health := Healthy, ws_agents := map (agent_of_record repo) records\<rparr>)"
    using settled_shows [of fe m repo records c] assms(4,8) by (simp add: reconcile_settled)
  ultimately show ?thesis
    using evs(1,2) es split(1) by (intro exI [of _ "take n evs"] exI [of _ "drop n evs"]) simp
qed

text \<open>
  Reconciliation settles: when the daemon's list has not changed since the last one, the next
  reconciliation writes nothing but time-outs.
\<close>

theorem reconcile_settles:
  assumes "sqlite_env fsum enc dec fe" "lists_keys fe" "\<And>k. lifecycle_kind k \<Longrightarrow> encodable enc dec k"
    and "snap_get (fm_snapshot m) repo = Some r" "distinct (map agent_id (ws_agents r))"
    and "distinct (map ar_id records)"
    and "writer_ok dec (2 + length (ws_agents r) + 5 * length records) (fm_emitter m)"
    and "m' = reconcile fe m repo records c True" "m'' = reconcile fe m' repo records c True"
  shows "\<exists>touts. sql_hist dec (em_store (fm_emitter m'')) = sql_hist dec (em_store (fm_emitter m')) @ touts \<and>
      em_bus (fm_emitter m'') = em_bus (fm_emitter m') @ touts \<and> (\<forall>e \<in> set touts. \<exists>d. kind e = AgentTimedOut d)"
proof -
  let ?r = "r\<lparr>ws_health := Healthy, ws_agents := map (agent_of_record repo) records\<rparr>"
  have id: "agent_id (agent_of_record repo x) = ar_id x"
    "agent_status (agent_of_record repo x) = domain_status (ar_status x)" for x
    by (simp_all add: agent_of_record_def)
  have r': "snap_get (fm_snapshot m') repo = Some ?r"
    using settled_shows [of fe m repo records c] assms(4,8) by (simp add: reconcile_settled)
  have d: "distinct (map agent_id (ws_agents ?r))" using assms(6) by (simp add: comp_def id)
  have ok: "writer_ok dec (1 + 3 * length records + 1 + length (ws_agents r) + 2 * length records) (fm_emitter m)"
    by (rule writer_ok_mono [OF assms(7)]) simp
  have "writer_ok dec (1 + 3 * length records) (fm_emitter m')"
    using reconcile_wrote [OF assms(1-6) ok, of c] unfolding assms(8) by (meson wrote_ok)
  then have ok': "writer_ok dec (0 + 1 + length (ws_agents ?r) + 2 * length records) (fm_emitter m')"
    by (rule writer_ok_mono) simp
  have "lifecycle_diff repo ?r A records = {}" for A
    using assms(6) by (auto simp: lifecycle_diff_def id image_iff distinct_map inj_on_def)
  then have w: "wrote dec 0 (fm_emitter m')
      (map (\<lambda>(i, d). (repo, i, AgentTimedOut d)) (due_now fe (settled fe m' repo records c) repo)) (fm_emitter m'')"
    using reconcile_wrote [OF assms(1-3) r' d assms(6) ok', of c] assms(9) by auto
  then obtain evs where evs: "sql_hist dec (em_store (fm_emitter m'')) = sql_hist dec (em_store (fm_emitter m')) @ evs"
    "em_bus (fm_emitter m'') = em_bus (fm_emitter m') @ evs"
    "map emission_of evs = map (\<lambda>(i, d). (repo, i, AgentTimedOut d)) (due_now fe (settled fe m' repo records c) repo)"
    unfolding wrote_def by blast
  have "\<exists>d. kind e = AgentTimedOut d" if "e \<in> set evs" for e
  proof -
    have "emission_of e \<in> set (map emission_of evs)" using that by simp
    then show ?thesis unfolding evs(3) by (auto simp: emission_of_def)
  qed
  then show ?thesis using evs(1,2) by blast
qed

text \<open>
  A replica that does not hold a workspace's lifecycle lease never writes: whatever its poll finds,
  reachable or not, the log and the bus stay as they are.
\<close>

theorem poll_without_lease_is_silent:
  assumes "fst (fe_try_acquire fe (fm_world m) (stream_key_for repo [])) = None"
  shows "em_store (fm_emitter (poll_repo_once fe m repo)) = em_store (fm_emitter m) \<and>
    em_bus (fm_emitter (poll_repo_once fe m repo)) = em_bus (fm_emitter m)"
proof -
  have rec: "fm_emitter (reconcile fe m1 repo rs c False) = fm_emitter m1" for m1 rs c
    by (simp add: reconcile_def Let_def foldl_keeps emit_record_def emit_gone_def record_event_def
        settle_snapshot_def split: option.splits)
  have mark: "fm_emitter (mark_unreachable fe m1 repo reason False) = fm_emitter m1" for m1 reason
    by (simp add: mark_unreachable_def Let_def split: option.splits)
  let ?m0 = "m\<lparr>fm_emitter := (fm_emitter m)\<lparr>em_metrics := record_repo_poll (em_metrics (fm_emitter m))\<rparr>\<rparr>"
  obtain m1 where lease: "outside (\<lambda>w. fe_try_acquire fe w (stream_key_for repo [])) ?m0 = (None, m1)"
    using assms by (simp add: outside_def case_prod_beta)
  have "em_store (fm_emitter m1) = em_store (fm_emitter m)" "em_bus (fm_emitter m1) = em_bus (fm_emitter m)"
    using outside_frameD(7) [OF lease] by simp_all
  then show ?thesis
    by (simp add: poll_repo_once_def Let_def lease case_prod_beta rec mark split: sum.splits)
qed

section \<open>A sweep acts on what the log says\<close>

definition sets_deadline :: "fleet_event \<Rightarrow> bool" where
  "sets_deadline e \<longleftrightarrow> deadline_of_kind (kind e) \<noteq> None"

lemma find_map_filter:
  "(\<And>x. f x \<noteq> None \<Longrightarrow> P x) \<Longrightarrow> find_map f (filter P xs) = find_map f xs"
proof (induction xs)
  case (Cons x xs)
  then show ?case by (cases "f x") auto
qed simp

lemma deadline_in_filter: "deadline_in (filter sets_deadline es) = deadline_in es"
  unfolding deadline_in_def rev_filter by (rule find_map_filter) (simp add: sets_deadline_def)

text \<open>An event that sets no deadline, wherever its number puts it, leaves the deadline of the stream.\<close>

lemma deadline_in_other:
  "\<not> sets_deadline e \<Longrightarrow> deadline_in (stream_history (es @ [e]) k n) = deadline_in (stream_history es k n)"
  unfolding stream_history_def
  by (subst (1 2) deadline_in_filter [symmetric]) (simp add: filter_sort)

lemma sweep_once:
  assumes env: "sqlite_env fsum enc dec fe" and enc: "\<And>k. lifecycle_kind k \<Longrightarrow> encodable enc dec k"
    and a: "snap_agents m repo = [a]" "\<not> is_terminal (agent_status a)" "fm_deadlines m (agent_id a) = None"
    and d: "deadline_in (stream_history (sql_hist dec (em_store (fm_emitter m)))
      (stream_key_for repo (agent_id a)) 0) = Some d"
    and due: "ch_parse (fe_chrono fe) d = Some at" "\<And>w. at \<le> fst (fe_now fe w)"
    and kill: "\<And>w. fst (client_kill (fe_port fe) w c (agent_id a)) = Inr ()"
    and ok: "writer_ok dec (n + 1) (fm_emitter m)"
  shows "wrote dec n (fm_emitter m) [(repo, agent_id a, AgentTimedOut d)] (fm_emitter (enforce_deadlines fe m repo c))"
    "fm_deadlines (enforce_deadlines fe m repo c) (agent_id a) = None"
proof -
  let ?m = "m\<lparr>fm_deadlines := (fm_deadlines m)(agent_id a \<mapsto> d)\<rparr>"
  have fill: "fill_deadline fe repo m a = ?m"
    using a(3) d by (simp add: fill_deadline_def history_no_fault [OF env ok])
  have x: "expired (fe_chrono fe) (fst (outside (fe_now fe) ?m)) (fm_deadlines ?m) [a] = [(agent_id a, d)]"
    using a(2) due by (simp add: expired_def List.map_filter_simps outside_def case_prod_beta)
  then have "due_now fe m repo = [(agent_id a, d)]" using a fill by (simp add: due_now_def Let_def)
  then show "wrote dec n (fm_emitter m) [(repo, agent_id a, AgentTimedOut d)] (fm_emitter (enforce_deadlines fe m repo c))"
    using enforce_deadlines_wrote [OF env enc, of n m repo c] ok a(1) by simp
  have "enforce_deadlines fe m repo c = time_out fe repo c (snd (outside (fe_now fe) ?m)) (agent_id a, d)"
    using a fill x by (simp add: enforce_deadlines_def Let_def case_prod_beta)
  then show "fm_deadlines (enforce_deadlines fe m repo c) (agent_id a) = None"
    using kill by (simp add: time_out_def outside_def case_prod_beta split: sum.splits)
qed

text \<open>
  A time-out fires again: after a sweep has killed an agent and dropped its deadline, the next sweep
  reads the deadline back from the log and, while the snapshot still shows the agent running,
  records a second time-out and kills it again.
\<close>

theorem deadline_refires:
  assumes "sqlite_env fsum enc dec fe" "\<And>k. lifecycle_kind k \<Longrightarrow> encodable enc dec k"
    and "snap_agents m repo = [a]" "\<not> is_terminal (agent_status a)" "fm_deadlines m (agent_id a) = None"
    and "deadline_in (stream_history (sql_hist dec (em_store (fm_emitter m)))
      (stream_key_for repo (agent_id a)) 0) = Some d"
    and "ch_parse (fe_chrono fe) d = Some at" "\<And>w. at \<le> fst (fe_now fe w)"
    and "\<And>w. fst (client_kill (fe_port fe) w c (agent_id a)) = Inr ()"
    and "writer_ok dec 2 (fm_emitter m)"
    and "m' = enforce_deadlines fe m repo c" "m'' = enforce_deadlines fe m' repo c"
  shows "\<exists>e e'. sql_hist dec (em_store (fm_emitter m'')) = sql_hist dec (em_store (fm_emitter m)) @ [e, e'] \<and>
    kind e = AgentTimedOut d \<and> kind e' = AgentTimedOut d \<and> ev_agent e = agent_id a \<and> ev_agent e' = agent_id a"
proof -
  have ok1: "writer_ok dec (1 + 1) (fm_emitter m)" using assms(10) by (simp add: numeral_2_eq_2)
  note s1 = sweep_once [OF assms(1-9) ok1, folded assms(11)]
  obtain e where e: "sql_hist dec (em_store (fm_emitter m')) = sql_hist dec (em_store (fm_emitter m)) @ [e]"
    "emission_of e = (repo, agent_id a, AgentTimedOut d)"
    using s1(1) by (auto simp: wrote_def map_eq_Cons_conv)
  have k: "kind e = AgentTimedOut d" "ev_agent e = agent_id a" using e(2) by (simp_all add: emission_of_def)
  have d': "deadline_in (stream_history (sql_hist dec (em_store (fm_emitter m')))
      (stream_key_for repo (agent_id a)) 0) = Some d"
    unfolding e(1) using assms(6) by (subst deadline_in_other) (simp_all add: sets_deadline_def k)
  have ag: "snap_agents m' repo = [a]" using assms(3,11) by (simp add: snap_agents_def)
  have ok2: "writer_ok dec (0 + 1) (fm_emitter m')" using wrote_ok [OF s1(1)] by simp
  note s2 = sweep_once [OF assms(1,2) ag assms(4) s1(2) d' assms(7-9) ok2, folded assms(12)]
  obtain e' where e': "sql_hist dec (em_store (fm_emitter m'')) = sql_hist dec (em_store (fm_emitter m')) @ [e']"
    "emission_of e' = (repo, agent_id a, AgentTimedOut d)"
    using s2(1) by (auto simp: wrote_def map_eq_Cons_conv)
  then have "kind e' = AgentTimedOut d" "ev_agent e' = agent_id a" by (simp_all add: emission_of_def)
  then show ?thesis using e(1) e'(1) k by simp
qed

section \<open>Requests\<close>

text \<open>
  An agent can be addressed as soon as its spawn has returned, before any poll has seen it: its
  repository resolves, and a kill goes to the client that spawned it.
\<close>

theorem spawn_is_addressable:
  assumes "spawn_agent_with_socket fe m repo rq = (Some (Inr (i, ep)), m')"
    and "find_agent (fm_snapshot m) i = None"
  shows "repo_of m' i = Inr repo \<and>
    (\<exists>c. fm_clients m' repo = Some c \<and> kill_agent fe m' i = outside (\<lambda>w. client_kill (fe_port fe) w c i) m')"
proof -
  obtain c m1 where cl: "client_for fe m repo = (Inr c, m1)"
    using assms(1) by (auto simp: spawn_agent_with_socket_def Let_def split: sum.splits prod.splits)
  note f = client_for_frameD [OF cl] and cached = client_for_cached [OF cl]
  let ?spec = "(into_spec rq)\<lparr>sp_provider := Option.bind (repo_config m1 repo) provider\<rparr>"
  obtain x m2 where sp: "outside (\<lambda>w. client_spawn (fe_port fe) w c ?spec) m1 = (x, m2)" by fastforce
  note g = outside_frameD [OF sp]
  have x: "x = Inr (i, ep)" and m': "fm_snapshot m' = fm_snapshot m2" "fm_clients m' = fm_clients m2"
    "fm_recent m' = (fm_recent m2)(i \<mapsto> repo)"
    using assms(1) cl sp
    by (auto simp: spawn_agent_with_socket_def Let_def case_prod_beta split: sum.splits option.splits)
  have "repo_of m' i = Inr repo" using assms(2) m' f(1) g(1) by (simp add: repo_of_def)
  moreover have "fm_clients m' repo = Some c" using m'(2) g(3) cached by simp
  ultimately show ?thesis by (simp add: kill_agent_def agent_request_def client_for_def)
qed


text \<open>
  A replica converges on the shared registry: after a refresh the snapshot shows exactly the durable
  workspaces; those it already showed keep their health and agents, the new ones start empty.
\<close>

theorem refresh_converges:
  assumes "fe_list_repos fe (fm_world m) = (Inr durable, w)" "m' = refresh_registry_from_store fe m"
  shows "fm_registry m' = durable \<and>
    ws_name ` set (workspaces (fm_snapshot m')) = rw_name ` set durable \<and>
    (\<forall>r \<in> set (workspaces (fm_snapshot m)). ws_name r \<in> rw_name ` set durable \<longrightarrow> r \<in> set (workspaces (fm_snapshot m'))) \<and>
    (\<forall>r \<in> set (workspaces (fm_snapshot m')). r \<in> set (workspaces (fm_snapshot m)) \<or> ws_agents r = [])"
proof -
  let ?fs = "fe_fs fe (fm_world (m\<lparr>fm_world := w\<rparr>))"
  let ?add = "\<lambda>ws d. if list_ex (\<lambda>r. ws_name r = rw_name d) ws then ws else ws @ [fresh_workspace ?fs d]"
  have fold: "set ws \<subseteq> set (foldl ?add ws ds) \<and>
      ws_name ` set (foldl ?add ws ds) = ws_name ` set ws \<union> rw_name ` set ds \<and>
      (\<forall>r \<in> set (foldl ?add ws ds). r \<in> set ws \<or> ws_agents r = [])" for ws ds
  proof (induction ds arbitrary: ws)
    case (Cons d ds)
    have n: "ws_name (fresh_workspace ?fs d) = rw_name d" "ws_agents (fresh_workspace ?fs d) = []"
      by (simp_all add: fresh_workspace_def)
    show ?case
    proof (cases "list_ex (\<lambda>r. ws_name r = rw_name d) ws")
      case True
      then obtain r where "r \<in> set ws" "ws_name r = rw_name d" by (auto simp: list_ex_iff)
      then have "rw_name d \<in> ws_name ` set ws" by (intro image_eqI [of _ _ r]) simp_all
      then show ?thesis using Cons.IH [of ws] True by auto
    next
      case False
      then show ?thesis using Cons.IH [of "ws @ [fresh_workspace ?fs d]"] n by auto
    qed
  qed simp
  let ?kept = "filter (\<lambda>r. list_ex (\<lambda>d. rw_name d = ws_name r) durable) (workspaces (fm_snapshot m))"
  have m': "fm_registry m' = durable" "workspaces (fm_snapshot m') = foldl ?add ?kept durable"
    using assms by (simp_all add: refresh_registry_from_store_def outside_def Let_def)
  have kept: "r \<in> set ?kept \<longleftrightarrow> r \<in> set (workspaces (fm_snapshot m)) \<and> ws_name r \<in> rw_name ` set durable" for r
    by (auto simp: list_ex_iff intro: rev_image_eqI)
  have names: "ws_name ` set ?kept \<subseteq> rw_name ` set durable" using kept by blast
  note f = fold [of ?kept durable]
  show ?thesis
  proof (intro conjI)
    show "ws_name ` set (workspaces (fm_snapshot m')) = rw_name ` set durable"
      unfolding m' using f names by auto
    show "\<forall>r \<in> set (workspaces (fm_snapshot m)). ws_name r \<in> rw_name ` set durable \<longrightarrow>
        r \<in> set (workspaces (fm_snapshot m'))"
      unfolding m' using f kept by blast
    show "\<forall>r \<in> set (workspaces (fm_snapshot m')). r \<in> set (workspaces (fm_snapshot m)) \<or> ws_agents r = []"
      unfolding m' using f kept by blast
  qed (rule m')
qed

text \<open>
  Registering a workspace a second time, under the root it already has, succeeds and replaces its
  provider configuration by the default one.
\<close>

theorem readd_resets_config:
  assumes "registry_get (fm_registry m) name = Some r" "fe_canonicalize fe (fm_world m) root = Inr (rw_root r)"
    and "\<And>w g. fst (fe_upsert_repo fe w g) = Inr ()"
  shows "fst (add_workspace fe m name root) = Inr () \<and>
    repo_config (snd (add_workspace fe m name root)) name = Some default_provider_config"
proof -
  let ?reg = "snd (registry_set_config (fm_registry m) name default_provider_config)"
  have add: "registry_add (fm_registry m) name (rw_root r) = (Inr (), fm_registry m)"
    using assms(1) by (simp add: registry_add_def)
  obtain g where g: "registry_get ?reg name = Some g" "rw_config g = default_provider_config"
    using just_registered [OF add] by blast
  obtain m1 where out: "outside (\<lambda>w. fe_upsert_repo fe w g) (m\<lparr>fm_registry := ?reg\<rparr>) = (Inr (), m1)"
    using assms(3) by (simp add: outside_def case_prod_beta)
  have "validate_provider_config default_provider_config = Inr ()"
    by (simp add: validate_provider_config_def default_provider_config_def)
  then show ?thesis
    using add g out outside_frameD(2) [OF out] assms(2)
    by (simp add: add_workspace_def add_workspace_with_config_def Let_def repo_config_def)
qed

section \<open>Witnesses\<close>

text \<open>A codec of the lifecycle events: a tag, then the payload.\<close>

fun status_code :: "agent_status \<Rightarrow> char" where
  "status_code Spawning = CHR ''a''"
| "status_code Running = CHR ''b''"
| "status_code Idle = CHR ''c''"
| "status_code Killed = CHR ''d''"
| "status_code Done = CHR ''e''"
| "status_code Failed = CHR ''f''"
| "status_code Crashed = CHR ''g''"

definition code_status :: "char \<Rightarrow> agent_status" where
  "code_status c =
     (if c = CHR ''a'' then Spawning else if c = CHR ''b'' then Running else if c = CHR ''c'' then Idle
      else if c = CHR ''d'' then Killed else if c = CHR ''e'' then Done else if c = CHR ''f'' then Failed
      else Crashed)"

lemma code_status_code [simp]: "code_status (status_code s) = s"
  by (cases s) (simp_all add: code_status_def)

fun life_enc :: kind_enc where
  "life_enc AgentSpawned = ''p''"
| "life_enc AgentDiscovered = ''d''"
| "life_enc (StatusChanged a b) = [CHR ''s'', status_code a, status_code b]"
| "life_enc AgentGone = ''g''"
| "life_enc (RepoHealth Healthy) = ''h''"
| "life_enc (RepoHealth (Unreachable r)) = CHR ''u'' # r"
| "life_enc (AgentTimedOut d) = CHR ''t'' # d"
| "life_enc (DeadlineSet d) = CHR ''l'' # d"
| "life_enc _ = []"

definition life_dec :: kind_dec where
  "life_dec s =
     Inr (let c = hd s; r = tl s
          in if c = CHR ''p'' then AgentSpawned else if c = CHR ''d'' then AgentDiscovered
             else if c = CHR ''s'' then StatusChanged (code_status (r ! 0)) (code_status (r ! 1))
             else if c = CHR ''g'' then AgentGone else if c = CHR ''h'' then RepoHealth Healthy
             else if c = CHR ''u'' then RepoHealth (Unreachable r)
             else if c = CHR ''t'' then AgentTimedOut r else DeadlineSet r)"

lemma life_codec: "lifecycle_kind k \<Longrightarrow> encodable life_enc life_dec k"
proof (cases k)
  case (RepoHealth h)
  then show ?thesis by (cases h) (simp_all add: encodable_def life_dec_def)
qed (simp_all add: lifecycle_kind_def encodable_def life_dec_def Let_def)

text \<open>A daemon that obeys, a store without errors and a cluster of one.\<close>

fun sample_ctl :: "ctl_request \<Rightarrow> ctl_reply" where
  "sample_ctl (SpawnReq sp) = Spawned ''a1'' (Unix ''/s'')"
| "sample_ctl (AttachReq i) = AttachAck (Unix ''/s'')"
| "sample_ctl (KillReq i) = KilledReply"
| "sample_ctl (RespawnReq i) = Respawned i"
| "sample_ctl (RmReq i f) = Removed"
| "sample_ctl ListReq = Listed []"
| "sample_ctl StatusReq = StatusReply []"
| "sample_ctl ShutdownReq = ShutdownAck"

definition sample_workspace :: registered_workspace where
  "sample_workspace = \<lparr>rw_name = ''r'', rw_root = ''/r'', rw_config = default_provider_config\<rparr>"

definition sample_fleet :: "(events_db, nat) fleet_env" where
  "sample_fleet =
     \<lparr>fe_config = \<lparr>fc_host = ''h'',
        fc_discovery = \<lparr>caliban_daemon_runtime_dir = Some ''/run'', xdg_runtime_dir = None, tmpdir = None\<rparr>,
        fc_ensure = \<lparr>ens_autostart = False, ens_bin = [], ens_timeout_text = [], ens_env = Map.empty\<rparr>,
        fc_thinking = False, fc_default_env = Map.empty, fc_backoff = default_backoff, fc_network = None\<rparr>,
      fe_ops = sqlite_ops (\<lambda>_. 0) life_enc life_dec, fe_emit = sample_env,
      fe_attach = sample_attach\<lparr>ap_port := sample_port\<lparr>cp_ctl := (\<lambda>w c req. (Reply (sample_ctl req), w))\<rparr>\<rparr>,
      fe_list_repos = (\<lambda>w. (Inr [sample_workspace], w)), fe_upsert_repo = (\<lambda>w g. (Inr (), w)),
      fe_delete_repo = (\<lambda>w n. (Inr True, w)),
      fe_try_acquire = (\<lambda>w k. (if w = 0 then self_try_acquire k else None, w)), fe_release = (\<lambda>w k. w),
      fe_now = (\<lambda>w. (0, w)), fe_chrono = sample_chrono,
      fe_fs = (\<lambda>w. \<lparr>fs_entries = (\<lambda>_. []), fs_is_dir = (\<lambda>_. False), fs_has_git = (\<lambda>_. False),
                     fs_file_name = (\<lambda>_. None)\<rparr>),
      fe_canonicalize = (\<lambda>w p. Inr p), fe_sha = (\<lambda>p. p), fe_discover = (\<lambda>w p e. ((True, None, []), w)),
      fe_await_gone = (\<lambda>w p. w), fe_process_env = (\<lambda>_. None), fe_tls = (\<lambda>a b. Inr a),
      fe_order = sorted_list_of_set\<rparr>"

definition sample_manager :: "nat \<Rightarrow> (events_db, nat) manager" where
  "sample_manager w =
     \<lparr>fm_snapshot = \<lparr>host = ''h'', workspaces = [fresh_workspace (fe_fs sample_fleet w) sample_workspace]\<rparr>,
      fm_registry = [sample_workspace], fm_clients = Map.empty, fm_attached = {}, fm_recent = Map.empty,
      fm_deadlines = Map.empty, fm_emitter = sample_emitter [], fm_shutdown = False, fm_tasks = [],
      fm_world = w\<rparr>"

definition sample_record :: agent_record where
  "sample_record =
     \<lparr>ar_id = ''a1'', ar_name = ''n'', ar_status = WRunning, ar_started_at = [],
      ar_spec = into_spec (spawn_request_new ''p''), ar_session_dir = []\<rparr>"

lemma sample_fleet_ok:
  "sqlite_env (\<lambda>_. 0) life_enc life_dec sample_fleet" "lists_keys sample_fleet"
  by (simp_all add: sqlite_env_def lists_keys_def sample_fleet_def)

lemma sample_manager_ok:
  "snap_get (fm_snapshot (sample_manager w)) ''r'' = Some (fresh_workspace (fe_fs sample_fleet w) sample_workspace)"
  "fm_emitter (sample_manager w) = sample_emitter []" "fm_attached (sample_manager w) = {}"
  by (simp_all add: sample_manager_def snap_get_def fresh_workspace_def sample_workspace_def)

theorem reconcile_emits_diff_witness:
  "\<exists>evs. set (map emission_of evs) = {(''r'', ''a1'', AgentDiscovered)} \<and>
     (\<exists>touts. em_bus (fm_emitter (reconcile sample_fleet (sample_manager 0) ''r'' [sample_record] (client_new ''/s'') True)) =
        evs @ touts)"
proof -
  let ?r = "fresh_workspace (fe_fs sample_fleet 0) sample_workspace"
  have d: "distinct (map agent_id (ws_agents ?r))" "distinct (map ar_id [sample_record])"
    by (simp_all add: fresh_workspace_def)
  have ok: "writer_ok life_dec (1 + length (ws_agents ?r) + 2 * length [sample_record]) (fm_emitter (sample_manager 0))"
    unfolding sample_manager_ok(2) by (rule sample_writer) (simp add: fresh_workspace_def)
  have diff: "lifecycle_diff ''r'' ?r {} [sample_record] = {(''r'', ''a1'', AgentDiscovered)}"
    by (auto simp: lifecycle_diff_def fresh_workspace_def sample_record_def)
  have "em_bus (sample_emitter []) = []" by (simp add: sample_emitter_def emitter_new_def)
  with reconcile_emits_diff [OF sample_fleet_ok life_codec sample_manager_ok(1) d ok refl, of "client_new ''/s''"]
  show ?thesis unfolding sample_manager_ok(2,3) diff by (metis append_Nil)
qed

theorem reconcile_settles_witness:
  "\<exists>touts. em_bus (fm_emitter (reconcile sample_fleet
       (reconcile sample_fleet (sample_manager 0) ''r'' [sample_record] (client_new ''/s'') True)
       ''r'' [sample_record] (client_new ''/s'') True)) =
     em_bus (fm_emitter (reconcile sample_fleet (sample_manager 0) ''r'' [sample_record] (client_new ''/s'') True)) @ touts \<and>
     (\<forall>e \<in> set touts. \<exists>d. kind e = AgentTimedOut d)"
proof -
  let ?r = "fresh_workspace (fe_fs sample_fleet 0) sample_workspace"
  have d: "distinct (map agent_id (ws_agents ?r))" "distinct (map ar_id [sample_record])"
    by (simp_all add: fresh_workspace_def)
  have ok: "writer_ok life_dec (2 + length (ws_agents ?r) + 5 * length [sample_record]) (fm_emitter (sample_manager 0))"
    unfolding sample_manager_ok(2) by (rule sample_writer) (simp add: fresh_workspace_def)
  from reconcile_settles [OF sample_fleet_ok life_codec sample_manager_ok(1) d ok refl refl, of "client_new ''/s''"]
  show ?thesis by blast
qed

theorem poll_without_lease_is_silent_witness:
  "em_bus (fm_emitter (poll_repo_once sample_fleet (sample_manager 1) ''r'')) = []"
proof -
  have "fst (fe_try_acquire sample_fleet (fm_world (sample_manager 1)) (stream_key_for ''r'' [])) = None"
    by (simp add: sample_fleet_def sample_manager_def)
  from poll_without_lease_is_silent [OF this] show ?thesis
    by (simp add: sample_manager_ok(2)) (simp add: sample_emitter_def emitter_new_def)
qed

theorem refresh_converges_witness:
  "ws_name ` set (workspaces (fm_snapshot (refresh_registry_from_store sample_fleet (sample_manager 0)))) = {''r''}"
proof -
  have "fe_list_repos sample_fleet (fm_world (sample_manager 0)) = (Inr [sample_workspace], 0)"
    by (simp add: sample_fleet_def sample_manager_def)
  from refresh_converges [OF this refl] show ?thesis by (simp add: sample_workspace_def)
qed

theorem readd_resets_config_witness:
  "repo_config (snd (add_workspace sample_fleet (sample_manager 0) ''r'' ''/r'')) ''r'' = Some default_provider_config"
proof -
  have "registry_get (fm_registry (sample_manager 0)) ''r'' = Some sample_workspace"
    by (simp add: sample_manager_def registry_get_def sample_workspace_def)
  moreover have "fe_canonicalize sample_fleet (fm_world (sample_manager 0)) ''/r'' = Inr (rw_root sample_workspace)"
    by (simp add: sample_fleet_def sample_workspace_def)
  moreover have "fst (fe_upsert_repo sample_fleet w g) = Inr ()" for w g by (simp add: sample_fleet_def)
  ultimately show ?thesis using readd_resets_config by blast
qed

lemma sample_spawn:
  "fst (spawn_agent_with_socket sample_fleet (sample_manager 0) ''r'' (spawn_request_new ''p'')) =
     Some (Inr (''a1'', Unix ''/s''))"
  by (simp add: spawn_agent_with_socket_def check_provider_env_def repo_config_def sample_manager_def
      registry_get_def sample_workspace_def default_provider_config_def validate_provider_env_def
      client_for_def network_client_def ensure_config_for_def ensure_caliband_def canonical_root_def
      outside_def client_defs exchange_result_def deadline_from_def spawn_request_new_def
      sample_fleet_def Let_def cache_client_def resolved_env_def)

theorem spawn_is_addressable_witness:
  "\<exists>m'. spawn_agent_with_socket sample_fleet (sample_manager 0) ''r'' (spawn_request_new ''p'') =
       (Some (Inr (''a1'', Unix ''/s'')), m') \<and> repo_of m' ''a1'' = Inr ''r''"
proof -
  obtain m' where m': "spawn_agent_with_socket sample_fleet (sample_manager 0) ''r'' (spawn_request_new ''p'') =
      (Some (Inr (''a1'', Unix ''/s'')), m')"
    using sample_spawn by (metis prod.collapse)
  have "find_agent (fm_snapshot (sample_manager 0)) ''a1'' = None"
    by (simp add: sample_manager_def find_agent_None fresh_workspace_def)
  from spawn_is_addressable [OF m' this] m' show ?thesis by blast
qed


definition sample_overdue :: "(events_db, nat) manager" where
  "sample_overdue =
     (fm_emit sample_fleet (sample_manager 0) ''r'' ''a'' (DeadlineSet []))
       \<lparr>fm_snapshot := \<lparr>host = ''h'', workspaces =
          [(fresh_workspace (fe_fs sample_fleet 0) sample_workspace)\<lparr>ws_agents := [sample_agent]\<rparr>]\<rparr>\<rparr>"

theorem deadline_refires_witness:
  "\<exists>es e e'. sql_hist life_dec (em_store (fm_emitter (enforce_deadlines sample_fleet
       (enforce_deadlines sample_fleet sample_overdue ''r'' (client_new ''/s'')) ''r'' (client_new ''/s'')))) =
     es @ [e, e'] \<and> kind e = AgentTimedOut [] \<and> kind e' = AgentTimedOut []"
proof -
  let ?m = sample_overdue and ?c = "client_new ''/s''"
  have ok: "writer_ok life_dec (Suc 2) (fm_emitter (sample_manager 0))"
    unfolding sample_manager_ok(2) by (rule sample_writer) simp
  have w: "wrote life_dec 2 (fm_emitter (sample_manager 0)) [(''r'', ''a'', DeadlineSet [])] (fm_emitter ?m)"
    using wrote_emit [OF sample_fleet_ok(1) ok life_codec, of "DeadlineSet []" "''r''" "''a''"]
    by (simp add: sample_overdue_def)
  have "sql_hist life_dec (em_store (fm_emitter (sample_manager 0))) = []"
    unfolding sample_manager_ok(2) by (simp add: sample_emitter_def emitter_new_def sql_hist_def)
  then obtain ev where ev: "sql_hist life_dec (em_store (fm_emitter ?m)) = [ev]"
    "emission_of ev = (''r'', ''a'', DeadlineSet [])"
    using w by (auto simp: wrote_def map_eq_Cons_conv)
  have "stream_key ev = ''a''" "kind ev = DeadlineSet []"
    using ev(2) by (simp_all add: emission_of_def stream_key_def stream_key_for_def)
  then have d: "deadline_in (stream_history (sql_hist life_dec (em_store (fm_emitter ?m)))
      (stream_key_for ''r'' (agent_id sample_agent)) 0) = Some []"
    by (simp add: ev(1) stream_history_def deadline_in_def sample_agent_def stream_key_for_def)
  have 1: "snap_agents ?m ''r'' = [sample_agent]" "\<not> is_terminal (agent_status sample_agent)"
    "fm_deadlines ?m (agent_id sample_agent) = None"
    by (simp_all add: sample_overdue_def snap_agents_def snap_get_def fresh_workspace_def
        sample_workspace_def sample_agent_def sample_manager_def fm_emit_def)
  have 2: "ch_parse (fe_chrono sample_fleet) [] = Some 0" "\<And>w. 0 \<le> fst (fe_now sample_fleet w)"
    "\<And>w. fst (client_kill (fe_port sample_fleet) w ?c (agent_id sample_agent)) = Inr ()"
    by (simp_all add: sample_fleet_def sample_chrono_def client_defs exchange_result_def)
  from deadline_refires [OF sample_fleet_ok(1) life_codec 1 d 2 wrote_ok [OF w] refl refl]
  show ?thesis by blast
qed

theorem fleet_inv_always_witness:
  "\<exists>m. with_seams sample_fleet \<lparr>db_rows = [], db_next = 1, db_faults = []\<rparr> 0 = Inr m \<and>
     fleet_inv (foldl (fleet_act sample_fleet) m [OpPoll ''r'', OpSpawn ''r'' (spawn_request_new ''p''), OpTask 0 2])"
proof -
  obtain m where m: "with_seams sample_fleet \<lparr>db_rows = [], db_next = 1, db_faults = []\<rparr> 0 = Inr m"
    by (simp add: with_seams_def sample_fleet_def)
  have "fleet_inv (foldl (fleet_act sample_fleet) m [OpPoll ''r'', OpSpawn ''r'' (spawn_request_new ''p''), OpTask 0 2])"
    by (rule fleet_inv_always [OF m]) (auto simp: sample_fleet_def)
  then show ?thesis using m by blast
qed


end
