(* ===== verification/Fleet_Provider.thy ===== *)
theory Fleet_Provider
  imports Fleet_Manager
begin

text \<open>
  The seam between the control plane and its backends (\<open>core/src/fleet_provider.rs\<close>, \<open>core/src/model.rs\<close>):
  the traits \<open>FleetProvider\<close> and \<open>FleetAdmin\<close> as records of operations over the backend's state, and
  \<open>LocalFleet\<close>, which forwards to the fleet manager. The outcome of \<open>ensure_agent\<close> is \<open>None\<close> when the call
  panics (see \<open>spawn_agent_with_socket\<close>).
\<close>

record task_spec =
  tk_workspace :: string
  tk_request :: spawn_request

record agent_handle =
  ah_id :: string
  ah_workspace :: string
  ah_endpoint :: "endpoint option"
  ah_created :: bool

datatype drain_policy = DrainKill | Graceful nat

record 'f fleet_provider =
  fp_ensure_agent :: "'f \<Rightarrow> task_spec \<Rightarrow> agent_handle result option \<times> 'f"
  fp_stop_agent :: "'f \<Rightarrow> string \<Rightarrow> drain_policy \<Rightarrow> unit result \<times> 'f"
  fp_restart_agent :: "'f \<Rightarrow> string \<Rightarrow> string result \<times> 'f"
  fp_remove_agent :: "'f \<Rightarrow> string \<Rightarrow> bool \<Rightarrow> unit result \<times> 'f"
  fp_snapshot :: "'f \<Rightarrow> fleet_snapshot \<times> 'f"
  fp_readiness :: "'f \<Rightarrow> readiness \<times> 'f"
  fp_metrics :: "'f \<Rightarrow> metrics_snapshot"
  fp_send_input :: "'f \<Rightarrow> string \<Rightarrow> attach_inbound \<Rightarrow> unit result \<times> 'f"

record 'f fleet_admin =
  fa_add_workspace :: "'f \<Rightarrow> string \<Rightarrow> path \<Rightarrow> workspace_config \<Rightarrow> unit result \<times> 'f"
  fa_remove_workspace :: "'f \<Rightarrow> string \<Rightarrow> bool result \<times> 'f"
  fa_set_config :: "'f \<Rightarrow> string \<Rightarrow> workspace_config \<Rightarrow> unit result \<times> 'f"
  fa_list_workspaces :: "'f \<Rightarrow> workspace_info list result \<times> 'f"
  fa_async :: bool

text \<open>\<open>LocalFleet::ensure_agent\<close>.\<close>

definition local_ensure_agent ::
  "('s, 'w) fleet_env \<Rightarrow> ('s, 'w) manager \<Rightarrow> task_spec \<Rightarrow> agent_handle result option \<times> ('s, 'w) manager" where
  "local_ensure_agent fe m spec =
     (case spawn_agent_with_socket fe m (tk_workspace spec) (tk_request spec) of
        (None, m') \<Rightarrow> (None, m')
      | (Some (Inl e), m') \<Rightarrow> (Some (Inl e), m')
      | (Some (Inr (i, ep)), m') \<Rightarrow>
          (Some (Inr \<lparr>ah_id = i, ah_workspace = tk_workspace spec, ah_endpoint = Some ep,
                     ah_created = True\<rparr>), m'))"

text \<open>
  \<open>LocalFleet::stop_agent\<close>; \<open>waits\<close> gives, for a timeout in milliseconds, what the other tasks do
  during each of the waits of a graceful drain.
\<close>

definition local_stop_agent ::
  "('s, 'w) fleet_env \<Rightarrow> (nat \<Rightarrow> (('s, 'w) manager \<Rightarrow> ('s, 'w) manager) list) \<Rightarrow> ('s, 'w) manager \<Rightarrow>
     string \<Rightarrow> drain_policy \<Rightarrow> unit result \<times> ('s, 'w) manager" where
  "local_stop_agent fe waits m i drain =
     (case drain of
        DrainKill \<Rightarrow> kill_agent fe m i
      | Graceful timeout_ms \<Rightarrow> drain_agent fe m i (waits timeout_ms))"

definition local_fleet ::
  "('s, 'w) fleet_env \<Rightarrow> (nat \<Rightarrow> (('s, 'w) manager \<Rightarrow> ('s, 'w) manager) list) \<Rightarrow>
     ('s, 'w) manager fleet_provider" where
  "local_fleet fe waits =
     \<lparr>fp_ensure_agent = local_ensure_agent fe, fp_stop_agent = local_stop_agent fe waits,
      fp_restart_agent = respawn_agent fe, fp_remove_agent = rm_agent fe,
      fp_snapshot = (\<lambda>m. (fleet_snapshot_of m, m)), fp_readiness = fleet_readiness fe,
      fp_metrics = fleet_metrics, fp_send_input = send_agent_input fe\<rparr>"

definition local_admin :: "('s, 'w) fleet_env \<Rightarrow> ('s, 'w) manager fleet_admin" where
  "local_admin fe =
     \<lparr>fa_add_workspace = (\<lambda>m name root cfg. add_workspace_with_config fe m name root (wc_local cfg)),
      fa_remove_workspace = remove_repo fe,
      fa_set_config = (\<lambda>m name cfg. set_repo_config fe m name (wc_local cfg)),
      fa_list_workspaces = (\<lambda>m. (Inr [], m)), fa_async = False\<rparr>"

end
