(* ===== verification/Config_Store.thy ===== *)
theory Config_Store
  imports Registry
begin

text \<open>
  The mutable configuration (\<open>core/src/config_store.rs\<close>, \<open>postgres_config_store.rs\<close>): the managed
  repositories, the automations and their run history. The trait is the record \<open>config_ops\<close>; both
  backends run the same statements on the same three tables. Every statement either fails, as a
  schedule of faults in the state says, or runs atomically.
\<close>

section \<open>The trait\<close>

record stored_automation =
  sa_automation :: automation
  sa_webhook_secret :: "string option"

record 'c config_ops =
  co_list_repos :: "'c \<Rightarrow> registered_workspace list result \<times> 'c"
  co_upsert_repo :: "'c \<Rightarrow> registered_workspace \<Rightarrow> unit result \<times> 'c"
  co_delete_repo :: "'c \<Rightarrow> string \<Rightarrow> bool result \<times> 'c"
  co_list_automations :: "'c \<Rightarrow> stored_automation list result \<times> 'c"
  co_upsert_automation :: "'c \<Rightarrow> stored_automation \<Rightarrow> unit result \<times> 'c"
  co_delete_automation :: "'c \<Rightarrow> string \<Rightarrow> bool result \<times> 'c"
  co_claim :: "'c \<Rightarrow> string \<Rightarrow> string \<Rightarrow> bool result \<times> 'c"
  co_record_run :: "'c \<Rightarrow> automation_run \<Rightarrow> unit result \<times> 'c"
  co_list_runs :: "'c \<Rightarrow> string \<Rightarrow> nat \<Rightarrow> automation_run list result \<times> 'c"

section \<open>The tables\<close>

record repo_row =
  rr_name :: string
  rr_root :: string
  rr_config :: string

record auto_row =
  ar_id :: string
  ar_spec :: string
  ar_secret :: "string option"
  ar_last_fired :: "string option"

text \<open>The physical row identifier (\<open>rowid\<close> in SQLite, \<open>ctid\<close> in Postgres) is part of a run's row.\<close>

record run_row =
  rn_rowid :: nat
  rn_automation :: string
  rn_fired_at :: string
  rn_source :: string
  rn_agent :: "string option"
  rn_error :: "string option"

record config_db =
  cdb_repos :: "repo_row list"
  cdb_autos :: "auto_row list"
  cdb_runs :: "run_row list"
  cdb_faults :: "string option list"

text \<open>
  \<open>serde_json\<close> on the \<open>spec\<close> and \<open>config\<close> columns, its error for an unknown run source, the \<open>Debug\<close>
  form of a path, the server's error for a negative \<open>LIMIT\<close>, and the order \<open>ORDER BY fired_at DESC\<close> gives (SQL leaves ties open).
\<close>

record config_codec =
  cc_spec_enc :: "automation \<Rightarrow> string"
  cc_spec_dec :: "string \<Rightarrow> string + automation"
  cc_config_enc :: "repo_provider_config \<Rightarrow> string"
  cc_config_dec :: "string \<Rightarrow> string + repo_provider_config"
  cc_source_error :: "string \<Rightarrow> string"
  cc_path_debug :: "string \<Rightarrow> string"
  cc_limit_error :: string
  cc_newest_first :: "run_row list \<Rightarrow> run_row list"

text \<open>One statement: a fault becomes a store error with the caller's context.\<close>

definition sql_exec ::
  "string \<Rightarrow> (config_db \<Rightarrow> 'a \<times> config_db) \<Rightarrow> config_db \<Rightarrow> 'a result \<times> config_db" where
  "sql_exec what stmt db =
     (case cdb_faults db of
        Some e # fs \<Rightarrow> (Inl (StoreError (what @ '': '' @ e)), db\<lparr>cdb_faults := fs\<rparr>)
      | None # fs \<Rightarrow> (case stmt (db\<lparr>cdb_faults := fs\<rparr>) of (a, db') \<Rightarrow> (Inr a, db'))
      | [] \<Rightarrow> (case stmt db of (a, db') \<Rightarrow> (Inr a, db')))"

section \<open>Rows\<close>

definition encode_spec :: "config_codec \<Rightarrow> stored_automation \<Rightarrow> string" where
  "encode_spec cc sa = cc_spec_enc cc ((sa_automation sa)\<lparr>auto_last_fired_at := None\<rparr>)"

fun encode_source :: "run_source \<Rightarrow> string" where
  "encode_source Schedule = ''schedule''"
| "encode_source WebhookRun = ''webhook''"
| "encode_source Manual = ''manual''"

definition decode_source :: "config_codec \<Rightarrow> string \<Rightarrow> run_source result" where
  "decode_source cc s =
     (if s = ''schedule'' then Inr Schedule
      else if s = ''webhook'' then Inr WebhookRun
      else if s = ''manual'' then Inr Manual
      else Inl (JsonError (cc_source_error cc s)))"

definition decode_automation :: "config_codec \<Rightarrow> auto_row \<Rightarrow> stored_automation result" where
  "decode_automation cc r =
     (case cc_spec_dec cc (ar_spec r) of
        Inl e \<Rightarrow> Inl (JsonError e)
      | Inr a \<Rightarrow> Inr \<lparr>sa_automation = a\<lparr>auto_last_fired_at := ar_last_fired r\<rparr>,
                     sa_webhook_secret = ar_secret r\<rparr>)"

definition decode_run :: "config_codec \<Rightarrow> run_row \<Rightarrow> automation_run result" where
  "decode_run cc r =
     rbind (decode_source cc (rn_source r)) (\<lambda>src.
       Inr \<lparr>run_automation_id = rn_automation r, run_fired_at = rn_fired_at r, run_source = src,
            run_agent_id = rn_agent r, run_error = rn_error r\<rparr>)"

text \<open>\<open>collect::<Result<Vec<_>>>\<close>: the first error wins.\<close>

fun collect_results :: "('e + 'a) list \<Rightarrow> 'e + 'a list" where
  "collect_results [] = Inr []"
| "collect_results (r # rs) = rbind r (\<lambda>a. rbind (collect_results rs) (\<lambda>as. Inr (a # as)))"

definition decode_repo :: "config_codec \<Rightarrow> repo_row \<Rightarrow> registered_workspace result" where
  "decode_repo cc r =
     (case cc_config_dec cc (rr_config r) of
        Inl e \<Rightarrow> Inl (JsonError e)
      | Inr c \<Rightarrow> Inr \<lparr>rw_name = rr_name r, rw_root = rr_root r, rw_config = c\<rparr>)"

section \<open>Repositories\<close>

definition list_repos :: "config_codec \<Rightarrow> config_db \<Rightarrow> registered_workspace list result \<times> config_db" where
  "list_repos cc db =
     (case sql_exec ''list_repos'' (\<lambda>db. (sort_key rr_name (cdb_repos db), db)) db of
        (Inl e, db') \<Rightarrow> (Inl e, db')
      | (Inr rows, db') \<Rightarrow> (collect_results (map (decode_repo cc) rows), db'))"

definition put_row :: "('r \<Rightarrow> string) \<Rightarrow> ('r \<Rightarrow> 'r) \<Rightarrow> 'r \<Rightarrow> 'r list \<Rightarrow> 'r list" where
  "put_row key upd row rows =
     (if key row \<in> key ` set rows then map (\<lambda>r. if key r = key row then upd r else r) rows
      else rows @ [row])"

definition upsert_repo :: "config_codec \<Rightarrow> config_db \<Rightarrow> registered_workspace \<Rightarrow> unit result \<times> config_db" where
  "upsert_repo cc db repo =
     (let config = cc_config_enc cc (rw_config repo)
      in if \<not> utf8_valid (rw_root repo)
         then (Inl (StoreError (''non-UTF8 repo root path: '' @ cc_path_debug cc (rw_root repo))), db)
         else sql_exec ''upsert_repo'' (\<lambda>db. ((), db\<lparr>cdb_repos :=
                put_row rr_name (\<lambda>r. r\<lparr>rr_root := rw_root repo, rr_config := config\<rparr>)
                  \<lparr>rr_name = rw_name repo, rr_root = rw_root repo, rr_config = config\<rparr>
                  (cdb_repos db)\<rparr>)) db)"

definition delete_repo :: "config_db \<Rightarrow> string \<Rightarrow> bool result \<times> config_db" where
  "delete_repo db name =
     sql_exec ''delete_repo'' (\<lambda>db.
       (name \<in> rr_name ` set (cdb_repos db),
        db\<lparr>cdb_repos := filter (\<lambda>r. rr_name r \<noteq> name) (cdb_repos db)\<rparr>)) db"

section \<open>Automations\<close>

definition list_automations :: "config_codec \<Rightarrow> config_db \<Rightarrow> stored_automation list result \<times> config_db" where
  "list_automations cc db =
     (case sql_exec ''list_automations'' (\<lambda>db. (sort_key ar_id (cdb_autos db), db)) db of
        (Inl e, db') \<Rightarrow> (Inl e, db')
      | (Inr rows, db') \<Rightarrow> (collect_results (map (decode_automation cc) rows), db'))"

text \<open>The upsert leaves \<open>last_fired_at\<close> of an existing row as it is.\<close>

definition upsert_automation ::
  "config_codec \<Rightarrow> config_db \<Rightarrow> stored_automation \<Rightarrow> unit result \<times> config_db" where
  "upsert_automation cc db sa =
     (let spec = encode_spec cc sa
      in sql_exec ''upsert_automation'' (\<lambda>db. ((), db\<lparr>cdb_autos :=
           put_row ar_id (\<lambda>r. r\<lparr>ar_spec := spec, ar_secret := sa_webhook_secret sa\<rparr>)
             \<lparr>ar_id = auto_id (sa_automation sa), ar_spec = spec, ar_secret = sa_webhook_secret sa,
              ar_last_fired = None\<rparr>
             (cdb_autos db)\<rparr>)) db)"

definition delete_automation :: "config_db \<Rightarrow> string \<Rightarrow> bool result \<times> config_db" where
  "delete_automation db i =
     (case sql_exec ''delete_automation runs'' (\<lambda>db.
             ((), db\<lparr>cdb_runs := filter (\<lambda>r. rn_automation r \<noteq> i) (cdb_runs db)\<rparr>)) db of
        (Inl e, db') \<Rightarrow> (Inl e, db')
      | (Inr _, db') \<Rightarrow>
          sql_exec ''delete_automation'' (\<lambda>db.
            (i \<in> ar_id ` set (cdb_autos db),
             db\<lparr>cdb_autos := filter (\<lambda>r. ar_id r \<noteq> i) (cdb_autos db)\<rparr>)) db')"

text \<open>
  \<open>UPDATE automations SET last_fired_at = t WHERE id = i AND (last_fired_at IS NULL OR
  last_fired_at < t)\<close>; the caller has won when exactly one row changed.
\<close>

definition claimable :: "string \<Rightarrow> string \<Rightarrow> auto_row \<Rightarrow> bool" where
  "claimable i t r \<longleftrightarrow> ar_id r = i \<and> (case ar_last_fired r of None \<Rightarrow> True | Some l \<Rightarrow> l < t)"

definition claim_automation_fire :: "config_db \<Rightarrow> string \<Rightarrow> string \<Rightarrow> bool result \<times> config_db" where
  "claim_automation_fire db i t =
     sql_exec ''claim_automation_fire'' (\<lambda>db.
       (length (filter (claimable i t) (cdb_autos db)) = 1,
        db\<lparr>cdb_autos := map (\<lambda>r. if claimable i t r then r\<lparr>ar_last_fired := Some t\<rparr> else r)
             (cdb_autos db)\<rparr>)) db"

section \<open>Run history\<close>

definition RUN_HISTORY_LIMIT :: nat where
  "RUN_HISTORY_LIMIT = 200"

definition runs_of :: "string \<Rightarrow> run_row list \<Rightarrow> run_row list" where
  "runs_of i rows = filter (\<lambda>r. rn_automation r = i) rows"

definition next_rowid :: "run_row list \<Rightarrow> nat" where
  "next_rowid rows = Suc (Max (insert 0 (rn_rowid ` set rows)))"

definition run_to_row :: "automation_run \<Rightarrow> nat \<Rightarrow> run_row" where
  "run_to_row run n =
     \<lparr>rn_rowid = n, rn_automation = run_automation_id run, rn_fired_at = run_fired_at run,
      rn_source = encode_source (run_source run), rn_agent = run_agent_id run,
      rn_error = run_error run\<rparr>"

definition record_run :: "config_codec \<Rightarrow> config_db \<Rightarrow> automation_run \<Rightarrow> unit result \<times> config_db" where
  "record_run cc db run =
     (case sql_exec ''record_run'' (\<lambda>db. ((), db\<lparr>cdb_runs :=
             cdb_runs db @ [run_to_row run (next_rowid (cdb_runs db))]\<rparr>)) db of
        (Inl e, db') \<Rightarrow> (Inl e, db')
      | (Inr _, db') \<Rightarrow>
          sql_exec ''trim runs'' (\<lambda>db.
            let kept = map rn_rowid (take RUN_HISTORY_LIMIT
                  (cc_newest_first cc (runs_of (run_automation_id run) (cdb_runs db))))
            in ((), db\<lparr>cdb_runs :=
                 filter (\<lambda>r. \<not> (rn_automation r = run_automation_id run \<and> rn_rowid r \<notin> set kept))
                   (cdb_runs db)\<rparr>)) db')"

text \<open>A negative \<open>LIMIT\<close> is no limit in SQLite and an error in Postgres.\<close>

definition limit_rows :: "nat \<Rightarrow> 'a list \<Rightarrow> 'a list" where
  "limit_rows n rows = (if as_i64 n < 0 then rows else take (nat (as_i64 n)) rows)"

definition list_runs ::
  "config_codec \<Rightarrow> config_db \<Rightarrow> string \<Rightarrow> nat \<Rightarrow> automation_run list result \<times> config_db" where
  "list_runs cc db i n =
     (case sql_exec ''list_runs'' (\<lambda>db.
             (limit_rows n (cc_newest_first cc (runs_of i (cdb_runs db))), db)) db of
        (Inl e, db') \<Rightarrow> (Inl e, db')
      | (Inr rows, db') \<Rightarrow> (collect_results (map (decode_run cc) rows), db'))"

definition pg_list_runs ::
  "config_codec \<Rightarrow> config_db \<Rightarrow> string \<Rightarrow> nat \<Rightarrow> automation_run list result \<times> config_db" where
  "pg_list_runs cc db i n =
     (if as_i64 n < 0 then (Inl (StoreError (''list_runs: '' @ cc_limit_error cc)), db)
      else list_runs cc db i n)"

section \<open>The backends\<close>

definition sqlite_config_ops :: "config_codec \<Rightarrow> config_db config_ops" where
  "sqlite_config_ops cc =
     \<lparr>co_list_repos = list_repos cc, co_upsert_repo = upsert_repo cc, co_delete_repo = delete_repo,
      co_list_automations = list_automations cc, co_upsert_automation = upsert_automation cc,
      co_delete_automation = delete_automation, co_claim = claim_automation_fire,
      co_record_run = record_run cc, co_list_runs = list_runs cc\<rparr>"

definition pg_config_ops :: "config_codec \<Rightarrow> config_db config_ops" where
  "pg_config_ops cc =
     \<lparr>co_list_repos = list_repos cc, co_upsert_repo = upsert_repo cc, co_delete_repo = delete_repo,
      co_list_automations = list_automations cc, co_upsert_automation = upsert_automation cc,
      co_delete_automation = delete_automation, co_claim = claim_automation_fire,
      co_record_run = record_run cc, co_list_runs = pg_list_runs cc\<rparr>"

section \<open>The contract\<close>

definition sa_id :: "stored_automation \<Rightarrow> string" where
  "sa_id sa = auto_id (sa_automation sa)"

definition sa_fired :: "stored_automation \<Rightarrow> string option" where
  "sa_fired sa = auto_last_fired_at (sa_automation sa)"

definition with_fired :: "stored_automation \<Rightarrow> string option \<Rightarrow> stored_automation" where
  "with_fired sa t = sa\<lparr>sa_automation := (sa_automation sa)\<lparr>auto_last_fired_at := t\<rparr>\<rparr>"

lemma with_fired_simps [simp]:
  "sa_id (with_fired sa t) = sa_id sa" "sa_fired (with_fired sa t) = t"
  "with_fired (with_fired sa t) u = with_fired sa u"
  "sa_webhook_secret (with_fired sa t) = sa_webhook_secret sa"
  by (simp_all add: with_fired_def sa_id_def sa_fired_def)

text \<open>A claim of tick \<open>t\<close> beats the last fired tick.\<close>

definition beats :: "string \<Rightarrow> string option \<Rightarrow> bool" where
  "beats t old \<longleftrightarrow> (case old of None \<Rightarrow> True | Some l \<Rightarrow> l < t)"

text \<open>
  What the automation engine relies on: the configuration is a map from ids to automations; a
  listing is that map in the order of the ids; an upsert replaces everything but the last fired
  tick; a claim is won exactly when the tick beats the last fired one, and then becomes it; a
  failed operation and the operations on repositories and runs leave the map as it is. \<open>good\<close> are the
  automations the serialiser stores losslessly.
\<close>

locale config_store =
  fixes ops :: "'c config_ops"
    and view :: "'c \<Rightarrow> string \<rightharpoonup> stored_automation"
    and inv :: "'c \<Rightarrow> bool"
    and good :: "stored_automation \<Rightarrow> bool"
  assumes view_id: "inv s \<Longrightarrow> view s i = Some sa \<Longrightarrow> sa_id sa = i"
    and list_ok:
      "inv s \<Longrightarrow> co_list_automations ops s = (r, s') \<Longrightarrow> inv s' \<and> view s' = view s \<and>
         (\<forall>as. r = Inr as \<longrightarrow> sorted_wrt (<) (map sa_id as) \<and> map_of (map (\<lambda>a. (sa_id a, a)) as) = view s)"
    and upsert_ok:
      "inv s \<Longrightarrow> good sa \<Longrightarrow> co_upsert_automation ops s sa = (u, s') \<Longrightarrow> inv s' \<and>
         view s' = (case u of Inl _ \<Rightarrow> view s
           | Inr _ \<Rightarrow> (view s)(sa_id sa \<mapsto> with_fired sa (Option.bind (view s (sa_id sa)) sa_fired)))"
    and delete_ok:
      "inv s \<Longrightarrow> co_delete_automation ops s i = (rb, s') \<Longrightarrow> inv s' \<and>
         (case rb of Inl _ \<Rightarrow> view s' = view s
          | Inr b \<Rightarrow> view s' = (view s)(i := None) \<and> (b \<longleftrightarrow> i \<in> dom (view s)))"
    and claim_ok:
      "inv s \<Longrightarrow> co_claim ops s i t = (rb, s') \<Longrightarrow> inv s' \<and>
         (case rb of
            Inr True \<Rightarrow> (\<exists>sa. view s i = Some sa \<and> beats t (sa_fired sa) \<and>
              view s' = (view s)(i \<mapsto> with_fired sa (Some t)))
          | Inr False \<Rightarrow> view s' = view s \<and> (\<forall>sa. view s i = Some sa \<longrightarrow> \<not> beats t (sa_fired sa))
          | Inl _ \<Rightarrow> view s' = view s)"
    and record_frame:
      "inv s \<Longrightarrow> co_record_run ops s run = (u, s') \<Longrightarrow> inv s' \<and> view s' = view s"
    and runs_frame:
      "inv s \<Longrightarrow> co_list_runs ops s i n = (rs, s') \<Longrightarrow> inv s' \<and> view s' = view s"
begin

lemma list_lookup:
  assumes "inv s" "co_list_automations ops s = (Inr as, s')"
  shows "find (\<lambda>a. sa_id a = i) as = view s i"
proof -
  have "map_of (map (\<lambda>a. (sa_id a, a)) as) i = view s i"
    using list_ok [OF assms] by simp
  moreover have "map_of (map (\<lambda>a. (sa_id a, a)) as) i = find (\<lambda>a. sa_id a = i) as"
    by (induction as) auto
  ultimately show ?thesis by simp
qed

lemma list_member:
  assumes "inv s" "co_list_automations ops s = (Inr as, s')" "a \<in> set as"
  shows "view s (sa_id a) = Some a"
proof -
  have "distinct (map sa_id as)"
    using list_ok [OF assms(1,2)] by (simp add: strict_sorted_iff)
  then have "map_of (map (\<lambda>a. (sa_id a, a)) as) (sa_id a) = Some a"
    using assms(3) by (intro map_of_is_SomeI) (auto simp: comp_def)
  then show ?thesis using list_ok [OF assms(1,2)] by simp
qed

lemma claim_last:
  assumes "inv s" "co_claim ops s i t = (Inr True, s')"
  shows "Option.bind (view s' i) sa_fired = Some t"
  using claim_ok [OF assms] by auto

end

section \<open>The tables satisfy it\<close>

text \<open>
  The primary keys are distinct, and every \<open>spec\<close> decodes to an automation with the row's id.
\<close>

definition rows_inv :: "config_codec \<Rightarrow> auto_row list \<Rightarrow> bool" where
  "rows_inv cc rows \<longleftrightarrow>
     distinct (map ar_id rows) \<and>
     (\<forall>r \<in> set rows. \<exists>a. cc_spec_dec cc (ar_spec r) = Inr a \<and> auto_id a = ar_id r)"

text \<open>An automation whose \<open>spec\<close> survives the round trip through the serialiser.\<close>

definition good_automation :: "config_codec \<Rightarrow> stored_automation \<Rightarrow> bool" where
  "good_automation cc sa \<longleftrightarrow>
     cc_spec_dec cc (encode_spec cc sa) = Inr ((sa_automation sa)\<lparr>auto_last_fired_at := None\<rparr>)"

definition auto_find :: "auto_row list \<Rightarrow> string \<Rightarrow> auto_row option" where
  "auto_find rows i = find (\<lambda>r. ar_id r = i) rows"

definition decoded :: "config_codec \<Rightarrow> auto_row \<Rightarrow> stored_automation option" where
  "decoded cc r = (case decode_automation cc r of Inl _ \<Rightarrow> None | Inr sa \<Rightarrow> Some sa)"

definition rows_view :: "config_codec \<Rightarrow> auto_row list \<Rightarrow> string \<rightharpoonup> stored_automation" where
  "rows_view cc rows i = Option.bind (auto_find rows i) (decoded cc)"

definition config_inv :: "config_codec \<Rightarrow> config_db \<Rightarrow> bool" where
  "config_inv cc db = rows_inv cc (cdb_autos db)"

definition config_view :: "config_codec \<Rightarrow> config_db \<Rightarrow> string \<rightharpoonup> stored_automation" where
  "config_view cc db = rows_view cc (cdb_autos db)"

lemma sql_exec_cases:
  assumes "sql_exec what stmt db = (r, db')"
  obtains (fault) e fs where "r = Inl e" "db' = db\<lparr>cdb_faults := fs\<rparr>"
    | (run) a fs where "r = Inr a" "stmt (db\<lparr>cdb_faults := fs\<rparr>) = (a, db')"
proof -
  have "db\<lparr>cdb_faults := cdb_faults db\<rparr> = db" by simp
  then show ?thesis
    using assms fault run [of _ "cdb_faults db"] run
    by (auto simp: sql_exec_def split: list.splits option.splits prod.splits)
qed

lemma find_upd:
  assumes "\<And>r. key (upd r) = key r"
  shows "find (\<lambda>r. key r = i) (map (\<lambda>r. if P r then upd r else r) rows) =
    map_option (\<lambda>r. if P r then upd r else r) (find (\<lambda>r. key r = i) rows)"
  using assms by (induction rows) auto

lemma find_put_row:
  assumes "\<And>r. key (upd r) = key r"
  shows "find (\<lambda>r. key r = i) (put_row key upd row rows) =
    (if i = key row then Some (case find (\<lambda>r. key r = i) rows of None \<Rightarrow> row | Some r \<Rightarrow> upd r)
     else find (\<lambda>r. key r = i) rows)"
proof (cases "key row \<in> key ` set rows")
  case True
  have put: "find (\<lambda>r. key r = i) (put_row key upd row rows) =
      map_option (\<lambda>r. if key r = key row then upd r else r) (find (\<lambda>r. key r = i) rows)"
    using True find_upd [of key upd i "\<lambda>r. key r = key row" rows, OF assms] by (simp add: put_row_def)
  show ?thesis
  proof (cases "find (\<lambda>r. key r = i) rows")
    case None
    then have "i \<noteq> key row" using True by (auto simp: find_key_None)
    then show ?thesis using put None by simp
  next
    case (Some x)
    then have "key x = i" using find_key_Some by fast
    then show ?thesis using put Some by auto
  qed
next
  case False
  then have "find (\<lambda>r. key r = key row) rows = None"
    by (simp only: find_key_None not_False_eq_True)
  moreover have "find (\<lambda>r. key r = i) (rows @ [row]) =
      (case find (\<lambda>r. key r = i) rows of Some x \<Rightarrow> Some x | None \<Rightarrow> find (\<lambda>r. key r = i) [row])"
    by (rule find_append)
  ultimately show ?thesis using False by (auto simp: put_row_def split: option.splits)
qed

lemma distinct_put_row:
  assumes "\<And>r. key (upd r) = key r" "distinct (map key rows)"
  shows "distinct (map key (put_row key upd row rows))"
proof -
  have "map key (map (\<lambda>r. if key r = key row then upd r else r) rows) = map key rows"
    using assms(1) by simp
  then show ?thesis using assms(2) by (simp add: put_row_def del: map_map)
qed

lemma find_filter_key:
  "find (\<lambda>r. key r = j) (filter (\<lambda>r. key r \<noteq> i) rows) =
     (if j = i then None else find (\<lambda>r. key r = j) rows)"
  by (induction rows) auto

lemma decoded_row:
  assumes "rows_inv cc rows" "r \<in> set rows"
  shows "\<exists>sa. decode_automation cc r = Inr sa \<and> decoded cc r = Some sa \<and> sa_id sa = ar_id r \<and>
    sa_fired sa = ar_last_fired r"
proof -
  from assms obtain a where "auto_id a = ar_id r" "cc_spec_dec cc (ar_spec r) = Inr a"
    by (auto simp: rows_inv_def)
  then show ?thesis
    by (simp add: decoded_def decode_automation_def sa_id_def sa_fired_def)
qed

lemma auto_find_Some: "auto_find rows i = Some r \<Longrightarrow> r \<in> set rows \<and> ar_id r = i"
  by (auto simp: auto_find_def find_Some_iff)

lemma rows_view_row:
  assumes "rows_inv cc rows" "auto_find rows i = Some r"
  shows "\<exists>sa. rows_view cc rows i = Some sa \<and> decoded cc r = Some sa \<and> sa_id sa = i \<and>
    sa_fired sa = ar_last_fired r"
proof -
  have r: "r \<in> set rows" "ar_id r = i" using auto_find_Some [OF assms(2)] by auto
  from decoded_row [OF assms(1) r(1)] show ?thesis
    using r(2) assms(2) by (auto simp: rows_view_def)
qed

lemma rows_view_None: "auto_find rows i = None \<Longrightarrow> rows_view cc rows i = None"
  by (simp add: rows_view_def)

lemma rows_view_dom:
  assumes "rows_inv cc rows"
  shows "i \<in> dom (rows_view cc rows) \<longleftrightarrow> i \<in> ar_id ` set rows"
proof (cases "auto_find rows i")
  case None
  then show ?thesis by (auto simp: rows_view_None auto_find_def find_key_None domIff)
next
  case (Some r)
  then show ?thesis
    using rows_view_row [OF assms Some] auto_find_Some [OF Some] by (auto simp: domIff)
qed

lemma collect_all_ok:
  "(\<And>x. x \<in> set xs \<Longrightarrow> f x = Inr (g x)) \<Longrightarrow> collect_results (map f xs) = Inr (map g xs)"
  by (induction xs) auto

lemma rows_listing:
  assumes "rows_inv cc rows"
  shows "\<exists>as. collect_results (map (decode_automation cc) (sort_key ar_id rows)) = Inr as \<and>
    sorted_wrt (<) (map sa_id as) \<and> map_of (map (\<lambda>a. (sa_id a, a)) as) = rows_view cc rows"
proof -
  let ?rows = "sort_key ar_id rows"
  let ?g = "\<lambda>r. the (decoded cc r)"
  have g: "decode_automation cc x = Inr (?g x) \<and> sa_id (?g x) = ar_id x" if "x \<in> set ?rows" for x
    using decoded_row [OF assms] that by fastforce
  have all: "collect_results (map (decode_automation cc) ?rows) = Inr (map ?g ?rows)"
    using g by (intro collect_all_ok) simp
  have ids: "map sa_id (map ?g ?rows) = map ar_id ?rows"
    using g by simp
  have dist: "distinct (map ar_id ?rows)"
    using assms by (simp add: rows_inv_def distinct_map)
  have "map_of (map (\<lambda>a. (sa_id a, a)) (map ?g ?rows)) i = rows_view cc rows i" for i
  proof (cases "auto_find rows i")
    case None
    then have "i \<notin> ar_id ` set ?rows"
      by (auto simp: auto_find_def find_None_iff)
    then have "i \<notin> fst ` set (map (\<lambda>a. (sa_id a, a)) (map ?g ?rows))"
      using g by force
    then show ?thesis using None by (simp add: rows_view_def map_of_eq_None_iff del: map_map)
  next
    case (Some x)
    then have x: "x \<in> set ?rows" "ar_id x = i" using auto_find_Some by auto
    have "map fst (map (\<lambda>a. (sa_id a, a)) (map ?g ?rows)) = map sa_id (map ?g ?rows)"
      by (simp add: comp_def)
    then have "distinct (map fst (map (\<lambda>a. (sa_id a, a)) (map ?g ?rows)))"
      using dist ids by (simp only:)
    moreover have "(i, ?g x) \<in> set (map (\<lambda>a. (sa_id a, a)) (map ?g ?rows))"
      using x g by force
    ultimately have "map_of (map (\<lambda>a. (sa_id a, a)) (map ?g ?rows)) i = Some (?g x)"
      by (rule map_of_is_SomeI)
    then show ?thesis using rows_view_row [OF assms Some] by auto
  qed
  then have "map_of (map (\<lambda>a. (sa_id a, a)) (map ?g ?rows)) = rows_view cc rows"
    by (rule ext)
  moreover have "sorted_wrt (<) (map sa_id (map ?g ?rows))"
    unfolding ids using dist by (simp add: strict_sorted_iff)
  ultimately show ?thesis using all by blast
qed

lemma rows_upsert:
  fixes sa :: stored_automation and cc :: config_codec
  defines "upd \<equiv> \<lambda>r. r\<lparr>ar_spec := encode_spec cc sa, ar_secret := sa_webhook_secret sa\<rparr>"
    and "row \<equiv> \<lparr>ar_id = sa_id sa, ar_spec = encode_spec cc sa, ar_secret = sa_webhook_secret sa,
                ar_last_fired = None\<rparr>"
  assumes inv: "rows_inv cc rows" and good: "good_automation cc sa"
  shows "rows_inv cc (put_row ar_id upd row rows)"
    "rows_view cc (put_row ar_id upd row rows) =
       (rows_view cc rows)(sa_id sa \<mapsto> with_fired sa (Option.bind (rows_view cc rows (sa_id sa)) sa_fired))"
proof -
  have id: "ar_id (upd r) = ar_id r" for r by (simp add: upd_def)
  have row: "ar_id row = sa_id sa" by (simp add: row_def)
  have dec: "decoded cc r = Some (with_fired sa (ar_last_fired r))"
    if "ar_spec r = encode_spec cc sa" "ar_secret r = sa_webhook_secret sa" for r
    using good that by (simp add: decoded_def decode_automation_def good_automation_def with_fired_def)
  have find: "auto_find (put_row ar_id upd row rows) i = (if i = sa_id sa
      then Some (case auto_find rows i of None \<Rightarrow> row | Some r \<Rightarrow> upd r) else auto_find rows i)" for i
    using find_put_row [of ar_id upd i row rows, OF id] row by (simp add: auto_find_def)
  have "rows_view cc (put_row ar_id upd row rows) i = ((rows_view cc rows)(sa_id sa \<mapsto>
      with_fired sa (Option.bind (rows_view cc rows (sa_id sa)) sa_fired))) i" for i
  proof (cases "auto_find rows i")
    case None
    then show ?thesis
      using dec [of row] find [of i] by (auto simp: rows_view_def row_def)
  next
    case (Some r)
    then show ?thesis
      using dec [of "upd r"] find [of i] rows_view_row [OF inv Some]
      by (auto simp: rows_view_def upd_def)
  qed
  then show "rows_view cc (put_row ar_id upd row rows) =
       (rows_view cc rows)(sa_id sa \<mapsto> with_fired sa (Option.bind (rows_view cc rows (sa_id sa)) sa_fired))"
    by (rule ext)
  have "\<exists>a. cc_spec_dec cc (ar_spec r) = Inr a \<and> auto_id a = ar_id r"
    if mem: "r \<in> set (put_row ar_id upd row rows)" for r
  proof -
    consider "r \<in> set rows" | "ar_spec r = encode_spec cc sa" "ar_id r = sa_id sa"
      using mem by (auto simp: put_row_def upd_def row_def split: if_splits)
    then show ?thesis
      using inv good by cases (auto simp: rows_inv_def good_automation_def sa_id_def)
  qed
  moreover have "distinct (map ar_id (put_row ar_id upd row rows))"
    using inv by (intro distinct_put_row id) (simp add: rows_inv_def)
  ultimately show "rows_inv cc (put_row ar_id upd row rows)"
    using inv by (simp add: rows_inv_def)
qed

lemma rows_delete:
  assumes "rows_inv cc rows"
  shows "rows_inv cc (filter (\<lambda>r. ar_id r \<noteq> i) rows)"
    "rows_view cc (filter (\<lambda>r. ar_id r \<noteq> i) rows) = (rows_view cc rows)(i := None)"
  using assms
  by (auto simp: rows_inv_def distinct_map inj_on_def rows_view_def auto_find_def find_filter_key)

lemma claimable_count:
  assumes "distinct (map ar_id rows)"
  shows "length (filter (claimable i t) rows) = 1 \<longleftrightarrow> (\<exists>r. auto_find rows i = Some r \<and> claimable i t r)"
  using assms
proof (induction rows)
  case (Cons x xs)
  show ?case
  proof (cases "ar_id x = i")
    case True
    then have "filter (claimable i t) xs = []"
      using Cons.prems by (auto simp: filter_empty_conv claimable_def image_iff)
    then show ?thesis using True by (simp add: auto_find_def)
  next
    case False
    then have "\<not> claimable i t x" by (simp add: claimable_def)
    then show ?thesis using False Cons by (simp add: auto_find_def)
  qed
qed (simp add: auto_find_def)

lemma rows_claim:
  fixes i t :: string
  defines "fire \<equiv> \<lambda>r. if claimable i t r then r\<lparr>ar_last_fired := Some t\<rparr> else r"
  assumes inv: "rows_inv cc rows"
  shows "rows_inv cc (map fire rows)"
    "rows_view cc (map fire rows) = (case rows_view cc rows i of
       Some sa \<Rightarrow> if beats t (sa_fired sa) then (rows_view cc rows)(i \<mapsto> with_fired sa (Some t))
                  else rows_view cc rows
     | None \<Rightarrow> rows_view cc rows)"
    "length (filter (claimable i t) rows) = 1 \<longleftrightarrow>
       (\<exists>sa. rows_view cc rows i = Some sa \<and> beats t (sa_fired sa))"
proof -
  have find: "auto_find (map fire rows) j = map_option fire (auto_find rows j)" for j
    unfolding auto_find_def fire_def by (rule find_upd) simp
  have dec: "decoded cc (r\<lparr>ar_last_fired := Some t\<rparr>) =
      map_option (\<lambda>sa. with_fired sa (Some t)) (decoded cc r)" for r
    by (simp add: decoded_def decode_automation_def with_fired_def split: sum.splits)
  have claimable: "claimable i t r \<longleftrightarrow> beats t (sa_fired sa)"
    if "auto_find rows i = Some r" "rows_view cc rows i = Some sa" for r sa
    using rows_view_row [OF inv that(1)] that auto_find_Some [OF that(1)]
    by (auto simp: claimable_def beats_def)
  have "rows_view cc (map fire rows) j = (case rows_view cc rows i of
       Some sa \<Rightarrow> if beats t (sa_fired sa) then (rows_view cc rows)(i \<mapsto> with_fired sa (Some t))
                  else rows_view cc rows
     | None \<Rightarrow> rows_view cc rows) j" for j
  proof (cases "auto_find rows j")
    case None
    then have "rows_view cc rows j = None" "rows_view cc (map fire rows) j = None"
      using find [of j] by (simp_all add: rows_view_def)
    then show ?thesis by (auto split: option.splits)
  next
    case (Some r)
    then have r: "rows_view cc (map fire rows) j = decoded cc (fire r)" "rows_view cc rows j = decoded cc r"
      using find [of j] by (simp_all add: rows_view_def)
    have "ar_id r = j" using auto_find_Some [OF Some] by simp
    then show ?thesis
      using r dec [of r] claimable [of r] Some rows_view_row [OF inv Some]
      by (auto simp: fire_def claimable_def split: option.splits)
  qed
  then show "rows_view cc (map fire rows) = (case rows_view cc rows i of
       Some sa \<Rightarrow> if beats t (sa_fired sa) then (rows_view cc rows)(i \<mapsto> with_fired sa (Some t))
                  else rows_view cc rows
     | None \<Rightarrow> rows_view cc rows)"
    by (rule ext)
  have "map ar_id (map fire rows) = map ar_id rows"
    by (simp add: fire_def)
  then show "rows_inv cc (map fire rows)"
    using inv unfolding rows_inv_def by (auto simp: fire_def simp del: map_map)
  have "length (filter (claimable i t) rows) = 1 \<longleftrightarrow> (\<exists>r. auto_find rows i = Some r \<and> claimable i t r)"
    using inv by (intro claimable_count) (simp add: rows_inv_def)
  also have "\<dots> \<longleftrightarrow> (\<exists>sa. rows_view cc rows i = Some sa \<and> beats t (sa_fired sa))"
    using claimable rows_view_row [OF inv, of i] rows_view_None [of rows i cc]
    by (cases "auto_find rows i") auto
  finally show "length (filter (claimable i t) rows) = 1 \<longleftrightarrow>
       (\<exists>sa. rows_view cc rows i = Some sa \<and> beats t (sa_fired sa))" .
qed

lemmas config_defs = config_inv_def config_view_def

lemma list_automations_law:
  assumes "config_inv cc db" "list_automations cc db = (r, db')"
  shows "config_inv cc db' \<and> config_view cc db' = config_view cc db \<and>
    (\<forall>as. r = Inr as \<longrightarrow> sorted_wrt (<) (map sa_id as) \<and>
       map_of (map (\<lambda>a. (sa_id a, a)) as) = config_view cc db)"
proof -
  obtain q db1 where q: "sql_exec ''list_automations'' (\<lambda>db. (sort_key ar_id (cdb_autos db), db)) db = (q, db1)"
    by fastforce
  from q show ?thesis
    by (cases rule: sql_exec_cases)
      (use assms q rows_listing [of cc "cdb_autos db"] in \<open>auto simp: list_automations_def config_defs\<close>)
qed

lemma upsert_automation_law:
  assumes "config_inv cc db" "good_automation cc sa" "upsert_automation cc db sa = (u, db')"
  shows "config_inv cc db' \<and>
    config_view cc db' = (case u of Inl _ \<Rightarrow> config_view cc db
      | Inr _ \<Rightarrow> (config_view cc db)(sa_id sa \<mapsto>
          with_fired sa (Option.bind (config_view cc db (sa_id sa)) sa_fired)))"
  using assms(3) unfolding upsert_automation_def Let_def sa_id_def [symmetric]
  by (cases rule: sql_exec_cases)
    (use assms(1,2) rows_upsert [of cc "cdb_autos db" sa] in \<open>auto simp: config_defs\<close>)

lemma delete_automation_law:
  assumes "config_inv cc db" "delete_automation db i = (rb, db')"
  shows "config_inv cc db' \<and>
    (case rb of Inl _ \<Rightarrow> config_view cc db' = config_view cc db
     | Inr b \<Rightarrow> config_view cc db' = (config_view cc db)(i := None) \<and> (b \<longleftrightarrow> i \<in> dom (config_view cc db)))"
proof -
  obtain q db1 where q: "sql_exec ''delete_automation runs'' (\<lambda>db.
      ((), db\<lparr>cdb_runs := filter (\<lambda>r. rn_automation r \<noteq> i) (cdb_runs db)\<rparr>)) db = (q, db1)"
    by fastforce
  then have db1: "cdb_autos db1 = cdb_autos db"
    by (cases rule: sql_exec_cases) auto
  show ?thesis
  proof (cases q)
    case (Inl e)
    then show ?thesis using assms q db1 by (auto simp: delete_automation_def config_defs)
  next
    case (Inr x)
    then have "sql_exec ''delete_automation'' (\<lambda>db. (i \<in> ar_id ` set (cdb_autos db),
        db\<lparr>cdb_autos := filter (\<lambda>r. ar_id r \<noteq> i) (cdb_autos db)\<rparr>)) db1 = (rb, db')"
      using assms(2) q by (simp add: delete_automation_def)
    then show ?thesis
      by (cases rule: sql_exec_cases)
        (use assms(1) db1 rows_delete [of cc "cdb_autos db" i] rows_view_dom [of cc "cdb_autos db" i]
         in \<open>auto simp: config_defs\<close>)
  qed
qed

lemma claim_law:
  assumes "config_inv cc db" "claim_automation_fire db i t = (rb, db')"
  shows "config_inv cc db' \<and>
    (case rb of
       Inr True \<Rightarrow> (\<exists>sa. config_view cc db i = Some sa \<and> beats t (sa_fired sa) \<and>
         config_view cc db' = (config_view cc db)(i \<mapsto> with_fired sa (Some t)))
     | Inr False \<Rightarrow> config_view cc db' = config_view cc db \<and>
         (\<forall>sa. config_view cc db i = Some sa \<longrightarrow> \<not> beats t (sa_fired sa))
     | Inl _ \<Rightarrow> config_view cc db' = config_view cc db)"
  using assms(2) unfolding claim_automation_fire_def
proof (cases rule: sql_exec_cases)
  case (run b fs)
  have inv: "rows_inv cc (cdb_autos db)" using assms(1) by (simp add: config_defs)
  note claim = rows_claim [OF inv, of i t]
  have "b \<longleftrightarrow> (\<exists>sa. config_view cc db i = Some sa \<and> beats t (sa_fired sa))"
    using run claim(3) by (auto simp: config_defs)
  then show ?thesis
    using run claim(1,2)
    by (cases "config_view cc db i"; cases b) (auto simp: config_defs)
qed (use assms(1) in \<open>auto simp: config_defs\<close>)

lemma record_run_law:
  assumes "record_run cc db run = (u, db')"
  shows "cdb_autos db' = cdb_autos db"
proof -
  obtain q db1 where q: "sql_exec ''record_run'' (\<lambda>db. ((), db\<lparr>cdb_runs :=
      cdb_runs db @ [run_to_row run (next_rowid (cdb_runs db))]\<rparr>)) db = (q, db1)"
    by fastforce
  then have db1: "cdb_autos db1 = cdb_autos db"
    by (cases rule: sql_exec_cases) auto
  show ?thesis
  proof (cases q)
    case (Inl e)
    then show ?thesis using assms q db1 by (simp add: record_run_def)
  next
    case (Inr x)
    then show ?thesis
      using assms q db1
      by (auto simp: record_run_def Let_def elim!: sql_exec_cases)
  qed
qed

lemma list_runs_law:
  assumes "list_runs cc db i n = (rs, db')"
  shows "cdb_autos db' = cdb_autos db"
proof -
  obtain q db1 where q: "sql_exec ''list_runs'' (\<lambda>db.
             (limit_rows n (cc_newest_first cc (runs_of i (cdb_runs db))), db)) db = (q, db1)"
    by fastforce
  from q show ?thesis
    by (cases rule: sql_exec_cases) (use assms q in \<open>auto simp: list_runs_def\<close>)
qed

lemma run_frames:
  "config_inv cc db \<Longrightarrow> record_run cc db run = (u, db') \<Longrightarrow>
     config_inv cc db' \<and> config_view cc db' = config_view cc db"
  "config_inv cc db \<Longrightarrow> list_runs cc db i n = (rs, db') \<Longrightarrow>
     config_inv cc db' \<and> config_view cc db' = config_view cc db"
  "config_inv cc db \<Longrightarrow> pg_list_runs cc db i n = (rs, db') \<Longrightarrow>
     config_inv cc db' \<and> config_view cc db' = config_view cc db"
  by (auto simp: config_defs pg_list_runs_def split: if_splits dest!: record_run_law list_runs_law)

lemma config_view_id: "config_inv cc db \<Longrightarrow> config_view cc db i = Some sa \<Longrightarrow> sa_id sa = i"
  using rows_view_row [of cc "cdb_autos db" i] rows_view_None [of "cdb_autos db" i cc]
  by (cases "auto_find (cdb_autos db) i") (auto simp: config_defs)

lemmas config_laws = config_view_id list_automations_law upsert_automation_law delete_automation_law
  claim_law run_frames

interpretation sqlite_config: config_store "sqlite_config_ops cc" "config_view cc" "config_inv cc" "good_automation cc" for cc
  by unfold_locales
    (simp_all only: sqlite_config_ops_def config_ops.select_convs, (rule config_laws; assumption)+)

interpretation pg_config: config_store "pg_config_ops cc" "config_view cc" "config_inv cc" "good_automation cc" for cc
  by unfold_locales
    (simp_all only: pg_config_ops_def config_ops.select_convs, (rule config_laws; assumption)+)

section \<open>Claims are exactly once\<close>

text \<open>
  Everything the replicas do to the automations is a sequence of these operations on the shared
  database, in the order the database serialises them. A claim that is won is reported with its
  automation and its tick.
\<close>

datatype config_op =
    CList
  | CUpsert stored_automation
  | CDelete string
  | CClaim string string
  | CRecord automation_run
  | CRuns string nat

fun config_act :: "'c config_ops \<Rightarrow> 'c \<Rightarrow> config_op \<Rightarrow> (string \<times> string) list \<times> 'c" where
  "config_act ops s CList = ([], snd (co_list_automations ops s))"
| "config_act ops s (CUpsert sa) = ([], snd (co_upsert_automation ops s sa))"
| "config_act ops s (CDelete i) = ([], snd (co_delete_automation ops s i))"
| "config_act ops s (CClaim i t) =
     (case co_claim ops s i t of (r, s') \<Rightarrow> (if r = Inr True then [(i, t)] else [], s'))"
| "config_act ops s (CRecord run) = ([], snd (co_record_run ops s run))"
| "config_act ops s (CRuns i n) = ([], snd (co_list_runs ops s i n))"

fun config_acts :: "'c config_ops \<Rightarrow> 'c \<Rightarrow> config_op list \<Rightarrow> (string \<times> string) list \<times> 'c" where
  "config_acts ops s [] = ([], s)"
| "config_acts ops s (a # as) =
     (case config_act ops s a of (ws, s1) \<Rightarrow>
        (case config_acts ops s1 as of (ws', s2) \<Rightarrow> (ws @ ws', s2)))"

definition ticks_won :: "string \<Rightarrow> (string \<times> string) list \<Rightarrow> string list" where
  "ticks_won i ws = map snd (filter (\<lambda>w. fst w = i) ws)"

lemma ticks_won_simps [simp]:
  "ticks_won i [] = []" "ticks_won i (a @ b) = ticks_won i a @ ticks_won i b"
  "ticks_won i [(j, t)] = (if j = i then [t] else [])"
  by (simp_all add: ticks_won_def)

context config_store
begin

text \<open>A step wins at most one tick, above the last fired one, which it becomes.\<close>

lemma act_step:
  assumes "inv s" "config_act ops s a = (ws, s')" "a \<noteq> CDelete i" "\<forall>sa. a = CUpsert sa \<longrightarrow> good sa"
  shows "inv s' \<and>
    (ticks_won i ws = [] \<and> Option.bind (view s' i) sa_fired = Option.bind (view s i) sa_fired \<or>
     (\<exists>t. ticks_won i ws = [t] \<and> beats t (Option.bind (view s i) sa_fired) \<and>
        Option.bind (view s' i) sa_fired = Some t))"
proof (cases a)
  case CList
  then show ?thesis using assms list_ok [OF assms(1)] by (cases "co_list_automations ops s") auto
next
  case (CUpsert sa)
  then show ?thesis
    using assms upsert_ok [OF assms(1), of sa]
    by (cases "co_upsert_automation ops s sa") (auto split: sum.splits)
next
  case (CDelete j)
  obtain r s1 where r: "co_delete_automation ops s j = (r, s1)" by fastforce
  have "view s1 i = view s i" "inv s1"
    using delete_ok [OF assms(1) r] CDelete assms(3) by (auto split: sum.splits)
  then show ?thesis using assms(2) CDelete r by auto
next
  case (CClaim j t)
  obtain r s1 where r: "co_claim ops s j t = (r, s1)" by fastforce
  show ?thesis
  proof (cases "r = Inr True")
    case True
    then obtain sa where "inv s1" "view s j = Some sa" "beats t (sa_fired sa)"
      "view s1 = (view s)(j \<mapsto> with_fired sa (Some t))"
      using claim_ok [OF assms(1) r] by auto
    moreover have "ws = [(j, t)]" "s' = s1" using True assms(2) CClaim r by auto
    ultimately show ?thesis by (cases "j = i") simp_all
  next
    case False
    then have "view s1 = view s" "inv s1"
      using claim_ok [OF assms(1) r] by (auto split: sum.splits bool.splits)
    then show ?thesis using assms(2) CClaim r False by auto
  qed
next
  case (CRecord run)
  then show ?thesis using assms record_frame [OF assms(1)] by (cases "co_record_run ops s run") auto
next
  case (CRuns j n)
  then show ?thesis using assms runs_frame [OF assms(1)] by (cases "co_list_runs ops s j n") auto
qed

lemma acts_increase:
  assumes "inv s" "config_acts ops s as = (ws, s')" "CDelete i \<notin> set as"
    "\<forall>sa. CUpsert sa \<in> set as \<longrightarrow> good sa"
  shows "inv s' \<and> sorted_wrt (<) (ticks_won i ws) \<and>
    (\<forall>t \<in> set (ticks_won i ws). beats t (Option.bind (view s i) sa_fired))"
  using assms
proof (induction as arbitrary: s ws)
  case (Cons a as)
  obtain w1 s1 where a: "config_act ops s a = (w1, s1)" by fastforce
  obtain w2 s2 where rest: "config_acts ops s1 as = (w2, s2)" by fastforce
  have ws: "ws = w1 @ w2" "s2 = s'" using Cons.prems(2) a rest by auto
  have step: "inv s1" "ticks_won i w1 = [] \<and> Option.bind (view s1 i) sa_fired = Option.bind (view s i) sa_fired \<or>
     (\<exists>t. ticks_won i w1 = [t] \<and> beats t (Option.bind (view s i) sa_fired) \<and>
        Option.bind (view s1 i) sa_fired = Some t)"
    using act_step [OF Cons.prems(1) a, of i] Cons.prems(3,4) by auto
  have ih: "inv s'" "sorted_wrt (<) (ticks_won i w2)"
    "\<forall>t \<in> set (ticks_won i w2). beats t (Option.bind (view s1 i) sa_fired)"
    using Cons.IH [OF step(1) rest [unfolded ws(2)]] Cons.prems(3,4) by auto
  from step(2) show ?case
  proof
    assume "\<exists>t. ticks_won i w1 = [t] \<and> beats t (Option.bind (view s i) sa_fired) \<and>
        Option.bind (view s1 i) sa_fired = Some t"
    then obtain t where t: "ticks_won i w1 = [t]" "beats t (Option.bind (view s i) sa_fired)"
      "Option.bind (view s1 i) sa_fired = Some t" by blast
    have later: "t < u" if "u \<in> set (ticks_won i w2)" for u
      using ih(3) t(3) that by (auto simp: beats_def)
    then have "beats u (Option.bind (view s i) sa_fired)" if "u \<in> set (ticks_won i w2)" for u
      using that t(2) by (auto simp: beats_def split: option.splits intro: less_trans)
    then show ?thesis using ih t(1,2) later ws(1) by auto
  qed (use ih ws(1) in auto)
qed simp

end

text \<open>
  C9. Scheduled runs are exactly once: whatever the replicas do to the shared configuration, in
  whatever order the database serialises it and whichever statements fail, the ticks won for an
  automation that is not deleted strictly increase, so no tick is won twice, and every one of them
  is later than the tick the automation had last fired.
\<close>

theorem claims_exactly_once:
  assumes "config_inv cc db" "config_acts (pg_config_ops cc) db as = (ws, db')" "CDelete i \<notin> set as"
    "\<forall>sa. CUpsert sa \<in> set as \<longrightarrow> good_automation cc sa"
  shows "sorted_wrt (<) (ticks_won i ws) \<and> distinct (ticks_won i ws) \<and>
    (\<forall>t \<in> set (ticks_won i ws). beats t (Option.bind (config_view cc db i) sa_fired))"
  using pg_config.acts_increase [OF assms] by (auto simp: strict_sorted_iff)

definition sample_automation :: automation where
  "sample_automation = \<lparr>auto_id = ''nightly'', auto_workspace = ''web'', auto_trigger = Cron ''0 3 * * *'',
     auto_template = \<lparr>t_task = ''tidy'', t_label = None, t_model = None, t_tool_allowlist = None,
        t_frontmatter_path = None, t_provider_ref = None, t_timeout_secs = None,
        t_isolation_worktree = True, t_posture = Supervised\<rparr>,
     auto_enabled = True, auto_created_at = ''2026-01-01T00:00:00Z'', auto_last_fired_at = None\<rparr>"

definition sample_codec :: config_codec where
  "sample_codec = \<lparr>cc_spec_enc = auto_id, cc_spec_dec = (\<lambda>_. Inr sample_automation),
     cc_config_enc = (\<lambda>_. []), cc_config_dec = (\<lambda>_. Inl []), cc_source_error = id, cc_path_debug = id,
     cc_limit_error = [], cc_newest_first = (\<lambda>rows. rev (sort_key rn_fired_at rows))\<rparr>"

definition sample_stored :: stored_automation where
  "sample_stored = \<lparr>sa_automation = sample_automation, sa_webhook_secret = None\<rparr>"

definition sample_config_db :: config_db where
  "sample_config_db = \<lparr>cdb_repos = [], cdb_autos = [], cdb_runs = [], cdb_faults = [None, None, Some ''timeout'']\<rparr>"

text \<open>Two replicas race for one tick; the third statement of the second one fails.\<close>

theorem claims_exactly_once_witness:
  "config_acts (pg_config_ops sample_codec) sample_config_db
     [CUpsert sample_stored, CClaim ''nightly'' ''2026-01-02T03:00:00Z'', CClaim ''nightly'' ''2026-01-02T03:00:00Z'',
      CClaim ''nightly'' ''2026-01-02T03:00:00Z'', CClaim ''nightly'' ''2026-01-03T03:00:00Z''] =
     ([(''nightly'', ''2026-01-02T03:00:00Z''), (''nightly'', ''2026-01-03T03:00:00Z'')],
      snd (config_acts (pg_config_ops sample_codec) sample_config_db
       [CUpsert sample_stored, CClaim ''nightly'' ''2026-01-02T03:00:00Z'', CClaim ''nightly'' ''2026-01-02T03:00:00Z'',
        CClaim ''nightly'' ''2026-01-02T03:00:00Z'', CClaim ''nightly'' ''2026-01-03T03:00:00Z''])) \<and>
   distinct (ticks_won ''nightly''
     [(''nightly'', ''2026-01-02T03:00:00Z''), (''nightly'', ''2026-01-03T03:00:00Z'')])"
proof -
  let ?as = "[CUpsert sample_stored, CClaim ''nightly'' ''2026-01-02T03:00:00Z'',
      CClaim ''nightly'' ''2026-01-02T03:00:00Z'', CClaim ''nightly'' ''2026-01-02T03:00:00Z'',
      CClaim ''nightly'' ''2026-01-03T03:00:00Z'']"
  have run: "config_acts (pg_config_ops sample_codec) sample_config_db ?as =
     ([(''nightly'', ''2026-01-02T03:00:00Z''), (''nightly'', ''2026-01-03T03:00:00Z'')],
      snd (config_acts (pg_config_ops sample_codec) sample_config_db ?as))"
    by code_simp
  have "config_inv sample_codec sample_config_db"
    by (simp add: config_inv_def rows_inv_def sample_config_db_def)
  moreover have "CDelete ''nightly'' \<notin> set ?as" by simp
  moreover have "\<forall>sa. CUpsert sa \<in> set ?as \<longrightarrow> good_automation sample_codec sa"
    by (simp add: good_automation_def sample_codec_def encode_spec_def sample_stored_def
        sample_automation_def)
  ultimately show ?thesis
    using claims_exactly_once [OF _ run] run by blast
qed

section \<open>The run history is bounded\<close>

definition newest_first_law :: "config_codec \<Rightarrow> bool" where
  "newest_first_law cc \<longleftrightarrow>
     (\<forall>rows. set (cc_newest_first cc rows) = set rows \<and> length (cc_newest_first cc rows) = length rows \<and>
        sorted_wrt (\<lambda>a b. rn_fired_at b \<le> rn_fired_at a) (cc_newest_first cc rows))"

definition runs_inv :: "config_db \<Rightarrow> bool" where
  "runs_inv db \<longleftrightarrow> distinct (map rn_rowid (cdb_runs db))"

lemma next_rowid_fresh: "next_rowid rows \<notin> rn_rowid ` set rows"
proof
  assume "next_rowid rows \<in> rn_rowid ` set rows"
  then have "next_rowid rows \<le> Max (insert 0 (rn_rowid ` set rows))"
    by (intro Max_ge) auto
  then show False by (simp add: next_rowid_def)
qed

text \<open>The rows the trimming statement leaves.\<close>

definition trim_rows :: "config_codec \<Rightarrow> string \<Rightarrow> run_row list \<Rightarrow> run_row list" where
  "trim_rows cc i rows =
     filter (\<lambda>r. \<not> (rn_automation r = i \<and>
       rn_rowid r \<notin> set (map rn_rowid (take RUN_HISTORY_LIMIT (cc_newest_first cc (runs_of i rows)))))) rows"

lemma record_run_rows:
  assumes "record_run cc db run = (Inr u, db')"
  shows "cdb_runs db' = trim_rows cc (run_automation_id run)
           (cdb_runs db @ [run_to_row run (next_rowid (cdb_runs db))])"
proof -
  obtain q db1 where q: "sql_exec ''record_run'' (\<lambda>db. ((), db\<lparr>cdb_runs :=
      cdb_runs db @ [run_to_row run (next_rowid (cdb_runs db))]\<rparr>)) db = (q, db1)"
    by fastforce
  then have trim: "sql_exec ''trim runs'' (\<lambda>db.
      let kept = map rn_rowid (take RUN_HISTORY_LIMIT
            (cc_newest_first cc (runs_of (run_automation_id run) (cdb_runs db))))
      in ((), db\<lparr>cdb_runs :=
           filter (\<lambda>r. \<not> (rn_automation r = run_automation_id run \<and> rn_rowid r \<notin> set kept))
             (cdb_runs db)\<rparr>)) db1 = (Inr u, db')"
    and db1: "q = Inr () \<Longrightarrow> cdb_runs db1 = cdb_runs db @ [run_to_row run (next_rowid (cdb_runs db))]"
    and ok: "q = Inr ()"
    using assms by (auto simp: record_run_def split: sum.splits elim!: sql_exec_cases)
  from trim show ?thesis
    by (cases rule: sql_exec_cases) (auto simp: Let_def trim_rows_def db1 [OF ok])
qed

lemma trim_rows_spec:
  assumes law: "newest_first_law cc" and dist: "distinct (map rn_rowid rows)"
  shows "length (runs_of i (trim_rows cc i rows)) \<le> RUN_HISTORY_LIMIT"
    "d \<in> set rows - set (trim_rows cc i rows) \<Longrightarrow> k \<in> set (runs_of i (trim_rows cc i rows)) \<Longrightarrow>
       rn_fired_at d \<le> rn_fired_at k"
proof -
  let ?nf = "cc_newest_first cc (runs_of i rows)"
  let ?kept = "take RUN_HISTORY_LIMIT ?nf"
  let ?left = "runs_of i (trim_rows cc i rows)"
  have nf: "set ?nf = set (runs_of i rows)" "sorted_wrt (\<lambda>a b. rn_fired_at b \<le> rn_fired_at a) ?nf"
    using law by (simp_all add: newest_first_law_def)
  have "distinct (map rn_rowid ?left)"
    using dist by (simp add: runs_of_def trim_rows_def distinct_map inj_on_def)
  then have "length ?left = card (set (map rn_rowid ?left))"
    using distinct_card by fastforce
  also have "\<dots> \<le> card (set (map rn_rowid ?kept))"
    by (rule card_mono) (auto simp: runs_of_def trim_rows_def)
  also have "\<dots> \<le> length ?kept"
    using card_length [of "map rn_rowid ?kept"] by simp
  finally show "length ?left \<le> RUN_HISTORY_LIMIT" by simp
  assume d: "d \<in> set rows - set (trim_rows cc i rows)" and k: "k \<in> set ?left"
  have "d \<in> set ?nf" "rn_rowid d \<notin> rn_rowid ` set ?kept"
    using d nf(1) by (auto simp: trim_rows_def runs_of_def)
  then have "d \<in> set (drop RUN_HISTORY_LIMIT ?nf)"
    by (metis Un_iff append_take_drop_id image_eqI set_append)
  moreover have "k \<in> set ?kept"
  proof -
    have "rn_rowid k \<in> rn_rowid ` set ?kept" "k \<in> set rows"
      using k by (auto simp: trim_rows_def runs_of_def)
    then obtain k' where k': "k' \<in> set ?kept" "rn_rowid k = rn_rowid k'" by auto
    then have "k' \<in> set rows"
      using nf(1) by (auto simp: runs_of_def dest: in_set_takeD)
    then have "k = k'"
      using dist k'(2) \<open>k \<in> set rows\<close> by (auto simp: distinct_map inj_on_def)
    then show ?thesis using k'(1) by simp
  qed
  moreover have "sorted_wrt (\<lambda>a b. rn_fired_at b \<le> rn_fired_at a) (?kept @ drop RUN_HISTORY_LIMIT ?nf)"
    using nf(2) by simp
  ultimately show "rn_fired_at d \<le> rn_fired_at k"
    unfolding sorted_wrt_append by blast
qed

text \<open>
  Recording a run keeps at most 200 runs of its automation, the newest ones, whatever order the
  database gives to runs with the same time; the runs of other automations stay as they are.
\<close>

theorem run_history_bounded:
  assumes "record_run cc db run = (Inr u, db')" "newest_first_law cc" "runs_inv db"
  shows "runs_inv db' \<and>
    length (runs_of (run_automation_id run) (cdb_runs db')) \<le> RUN_HISTORY_LIMIT \<and>
    (\<forall>i. i \<noteq> run_automation_id run \<longrightarrow> runs_of i (cdb_runs db') = runs_of i (cdb_runs db)) \<and>
    (\<exists>new. rn_automation new = run_automation_id run \<and> rn_fired_at new = run_fired_at run \<and>
       rn_source new = encode_source (run_source run) \<and>
       set (cdb_runs db') \<subseteq> set (cdb_runs db @ [new]) \<and>
       (\<forall>d \<in> set (cdb_runs db @ [new]) - set (cdb_runs db').
          \<forall>k \<in> set (runs_of (run_automation_id run) (cdb_runs db')). rn_fired_at d \<le> rn_fired_at k))"
proof -
  let ?i = "run_automation_id run"
  let ?new = "run_to_row run (next_rowid (cdb_runs db))"
  let ?rows = "cdb_runs db @ [?new]"
  have rows': "cdb_runs db' = trim_rows cc ?i ?rows"
    by (rule record_run_rows [OF assms(1)])
  have dist: "distinct (map rn_rowid ?rows)"
    using assms(3) next_rowid_fresh [of "cdb_runs db"] by (simp add: runs_inv_def run_to_row_def)
  note spec = trim_rows_spec [OF assms(2) dist, where i = ?i, folded rows']
  have "runs_inv db'"
    using dist unfolding rows' runs_inv_def trim_rows_def by (rule distinct_map_filter)
  moreover have "runs_of i (cdb_runs db') = runs_of i (cdb_runs db)" if "i \<noteq> ?i" for i
  proof -
    have "runs_of i (trim_rows cc ?i ?rows) = runs_of i ?rows"
      unfolding runs_of_def trim_rows_def filter_filter
      by (rule filter_cong) (use that in auto)
    also have "\<dots> = runs_of i (cdb_runs db)"
      using that by (simp add: runs_of_def run_to_row_def)
    finally show ?thesis using rows' by simp
  qed
  moreover have "set (cdb_runs db') \<subseteq> set ?rows"
    unfolding rows' trim_rows_def by auto
  moreover have "rn_automation ?new = ?i" "rn_fired_at ?new = run_fired_at run"
    "rn_source ?new = encode_source (run_source run)"
    by (simp_all add: run_to_row_def)
  ultimately show ?thesis using spec by blast
qed

theorem run_history_bounded_witness:
  "\<exists>db'. record_run sample_codec (sample_config_db\<lparr>cdb_faults := []\<rparr>)
      \<lparr>run_automation_id = ''nightly'', run_fired_at = ''2026'', run_source = Schedule,
       run_agent_id = None, run_error = None\<rparr> = (Inr (), db') \<and>
    runs_inv db' \<and> length (runs_of ''nightly'' (cdb_runs db')) \<le> RUN_HISTORY_LIMIT"
proof -
  let ?run = "\<lparr>run_automation_id = ''nightly'', run_fired_at = ''2026'', run_source = Schedule,
       run_agent_id = None, run_error = None\<rparr>"
  let ?db = "sample_config_db\<lparr>cdb_faults := []\<rparr>"
  obtain db' where ok: "record_run sample_codec ?db ?run = (Inr (), db')"
    by (simp add: record_run_def sql_exec_def sample_config_db_def Let_def)
  have "sorted_wrt (\<lambda>a b. rn_fired_at a \<le> rn_fired_at b) (sort_key rn_fired_at rows)"
    for rows :: "run_row list"
    using sorted_sort_key [of rn_fired_at rows] by (simp only: sorted_map)
  then have "newest_first_law sample_codec"
    by (simp add: newest_first_law_def sample_codec_def sorted_wrt_rev)
  moreover have "runs_inv ?db"
    by (simp add: runs_inv_def sample_config_db_def)
  ultimately show ?thesis
    using run_history_bounded [OF ok] ok by auto
qed

end
