(* ===== verification/Auth_Tokens.thy ===== *)
theory Auth_Tokens
  imports Core_Error
begin

unbundle bit_operations_syntax

text \<open>
  The API tokens (\<open>core/src/auth.rs\<close>) and the subject a client claims to act for
  (\<open>core/src/actor.rs\<close>). The hash functions and codecs are those of other crates (\<open>sha2\<close>, \<open>hmac\<close>,
  \<open>base64\<close>, \<open>hex\<close>) and arguments of the definitions; the file is read by the caller of \<open>token_set_load\<close>.
\<close>

type_synonym u8 = "8 word"

definition as_bytes :: "string \<Rightarrow> u8 list" where
  "as_bytes s = map (\<lambda>c. word_of_nat (of_char c)) s"

text \<open>
  The functions of other crates the authentication calls, the \<open>Debug\<close> form of a string (it depends
  on the Unicode tables) and the rendering of a timestamp.
\<close>

record auth_port =
  sha256 :: "u8 list \<Rightarrow> u8 list"
  hmac_sha256 :: "u8 list \<Rightarrow> u8 list \<Rightarrow> u8 list"
  b64url :: "u8 list \<Rightarrow> string"
  hex_encode :: "u8 list \<Rightarrow> string"
  hex_decode :: "string \<Rightarrow> u8 list option"
  str_debug :: "string \<Rightarrow> string"
  rfc3339_of_unix :: "int \<Rightarrow> string option"

section \<open>Tokens\<close>

definition token_prefix :: string where
  "token_prefix = ''pspo_''"

text \<open>\<open>generate_token\<close>, given the 32 random bytes.\<close>

definition generate_token :: "auth_port \<Rightarrow> u8 list \<Rightarrow> string" where
  "generate_token p bytes = token_prefix @ b64url p bytes"

definition hash_token :: "auth_port \<Rightarrow> string \<Rightarrow> u8 list" where
  "hash_token p token = sha256 p (as_bytes token)"

definition format_hash :: "auth_port \<Rightarrow> u8 list \<Rightarrow> string" where
  "format_hash p h = ''sha256:'' @ hex_encode p h"

definition name_char :: "char \<Rightarrow> bool" where
  "name_char c \<longleftrightarrow> is_ascii_lowercase c \<or> is_ascii_digit c \<or> c = CHR ''_'' \<or> c = CHR ''-''"

definition validate_token_name :: "auth_port \<Rightarrow> string \<Rightarrow> string + unit" where
  "validate_token_name p name =
     (let ok_first = (case name of [] \<Rightarrow> False | c # _ \<Rightarrow> is_ascii_lowercase c \<or> is_ascii_digit c);
          ok_rest = list_all name_char name
      in if ok_first \<and> ok_rest \<and> length name \<le> 63 then Inr ()
         else Inl (''invalid token name '' @ str_debug p name @ '' (expected [a-z0-9][a-z0-9_-]{0,62})''))"

definition tokens_file_line :: "auth_port \<Rightarrow> string \<Rightarrow> scope \<Rightarrow> string \<Rightarrow> string" where
  "tokens_file_line p name sc token =
     name @ '' '' @ scope_as_str sc @ '' '' @ format_hash p (hash_token p token)"

text \<open>The loop of \<open>constant_time_eq\<close>: every pair of bytes is visited, whatever the earlier ones say.\<close>

fun xor_accumulate :: "u8 \<Rightarrow> u8 list \<Rightarrow> u8 list \<Rightarrow> u8" where
  "xor_accumulate diff (x # a) (y # b) = xor_accumulate (diff OR (x XOR y)) a b"
| "xor_accumulate diff _ _ = diff"

definition constant_time_eq :: "u8 list \<Rightarrow> u8 list \<Rightarrow> bool" where
  "constant_time_eq a b \<longleftrightarrow> (if length a \<noteq> length b then False else xor_accumulate 0 a b = 0)"

section \<open>The tokens file\<close>

record token_entry =
  te_name :: string
  te_scope :: scope
  te_hash :: "u8 list"

definition parse_hash :: "auth_port \<Rightarrow> string \<Rightarrow> u8 list option" where
  "parse_hash p s =
     (case strip_prefix ''sha256:'' s of
        None \<Rightarrow> None
      | Some hex_part \<Rightarrow>
          if length hex_part \<noteq> 64 \<or> list_ex is_ascii_uppercase hex_part then None
          else case hex_decode p hex_part of
              None \<Rightarrow> None
            | Some h \<Rightarrow> if length h = 32 then Some h else None)"

text \<open>One iteration of \<open>TokenSet::parse\<close>: the entries so far, a line and its number.\<close>

definition parse_token_line ::
  "auth_port \<Rightarrow> token_entry list \<Rightarrow> nat \<Rightarrow> string \<Rightarrow> string + token_entry list" where
  "parse_token_line p entries line_no raw =
     (let line = trim raw;
          err = (\<lambda>reason. ''line '' @ show_nat line_no @ '': '' @ reason)
      in if line = [] \<or> hd line = CHR ''#'' then Inr entries
         else case split_whitespace line of
           [name, sc, hash] \<Rightarrow>
             (case validate_token_name p name of
                Inl why \<Rightarrow> Inl (err why)
              | Inr _ \<Rightarrow>
                  (case scope_parse sc of
                     None \<Rightarrow> Inl (err (''unknown scope '' @ str_debug p sc @ '' (read|operate|admin)''))
                   | Some s \<Rightarrow>
                       (case parse_hash p hash of
                          None \<Rightarrow> Inl (err ''hash must be sha256: followed by 64 lowercase hex characters'')
                        | Some h \<Rightarrow>
                            if list_ex (\<lambda>e. te_name e = name) entries
                            then Inl (err (''duplicate token name '' @ str_debug p name))
                            else Inr (entries @ [\<lparr>te_name = name, te_scope = s, te_hash = h\<rparr>]))))
         | _ \<Rightarrow> Inl (err ''expected `<name> <scope> sha256:<hex>`''))"

fun parse_token_lines ::
  "auth_port \<Rightarrow> token_entry list \<Rightarrow> nat \<Rightarrow> string list \<Rightarrow> string + token_entry list" where
  "parse_token_lines p entries n [] = Inr entries"
| "parse_token_lines p entries n (raw # rest) =
     rbind (parse_token_line p entries n raw) (\<lambda>entries'. parse_token_lines p entries' (n + 1) rest)"

definition token_set_parse :: "auth_port \<Rightarrow> string \<Rightarrow> string + token_entry list" where
  "token_set_parse p src =
     rbind (parse_token_lines p [] 1 (str_lines src)) (\<lambda>entries.
       if entries = [] then Inl ''tokens file contains no tokens'' else Inr entries)"

text \<open>\<open>TokenSet::load\<close>, given the path and what \<open>read_to_string\<close> returned.\<close>

definition token_set_load :: "auth_port \<Rightarrow> string \<Rightarrow> string + string \<Rightarrow> string + token_entry list" where
  "token_set_load p path contents =
     (case contents of
        Inl e \<Rightarrow> Inl (''reading tokens file '' @ path @ '': '' @ e)
      | Inr src \<Rightarrow>
          (case token_set_parse p src of
             Inl e \<Rightarrow> Inl (''tokens file '' @ path @ '': '' @ e)
           | Inr toks \<Rightarrow> Inr toks))"

text \<open>\<open>TokenSet::authenticate\<close>: every entry is compared, the first match is kept.\<close>

fun auth_scan :: "u8 list \<Rightarrow> token_entry option \<Rightarrow> token_entry list \<Rightarrow> token_entry option" where
  "auth_scan presented found [] = found"
| "auth_scan presented found (e # es) =
     auth_scan presented
       (if constant_time_eq (te_hash e) presented \<and> found = None then Some e else found) es"

definition authenticate :: "auth_port \<Rightarrow> token_entry list \<Rightarrow> string \<Rightarrow> token_entry option" where
  "authenticate p entries token = auth_scan (hash_token p token) None entries"

definition by_name :: "token_entry list \<Rightarrow> string \<Rightarrow> token_entry option" where
  "by_name entries name = find (\<lambda>e. te_name e = name) entries"

section \<open>The claimed subject (\<open>core/src/actor.rs\<close>)\<close>

definition max_subject :: nat where
  "max_subject = 128"

definition validate_subject :: "auth_port \<Rightarrow> string \<Rightarrow> string + string" where
  "validate_subject p subject =
     (let trimmed = trim subject
      in if trimmed = [] then Inl ''on-behalf-of must not be blank''
         else if char_count trimmed > max_subject
         then Inl (''on-behalf-of must be at most '' @ show_nat max_subject @ '' characters'')
         else case find is_control (utf8_chars trimmed) of
             Some bad \<Rightarrow> Inl (''on-behalf-of must not contain control characters (found '' @
                               str_debug p bad @ '')'')
           | None \<Rightarrow> Inr trimmed)"

section \<open>Lemmas\<close>

lemma length_as_bytes [simp]: "length (as_bytes s) = length s"
  by (simp add: as_bytes_def)

lemma word_of_char_inject: "(word_of_nat (of_char c) :: u8) = word_of_nat (of_char d) \<longleftrightarrow> c = d"
proof
  assume "(word_of_nat (of_char c) :: u8) = word_of_nat (of_char d)"
  then have "unat (word_of_nat (of_char c) :: u8) = unat (word_of_nat (of_char d) :: u8)"
    by simp
  then have "of_char c mod 2 ^ 8 = (of_char d mod 2 ^ 8 :: nat)"
    by (simp add: unat_of_nat)
  then show "c = d" by (simp add: of_char_mod_256)
qed simp

lemma as_bytes_inject [simp]: "as_bytes s = as_bytes t \<longleftrightarrow> s = t"
  by (simp add: as_bytes_def inj_map_eq_map inj_def word_of_char_inject)

lemma or_zero_iff: "(a OR b = (0 :: u8)) \<longleftrightarrow> a = 0 \<and> b = 0"
  by (rule or_eq_0_iff)

lemma xor_zero_iff: "(a XOR b = (0 :: u8)) \<longleftrightarrow> a = b"
  by (auto simp: bit_eq_iff bit_xor_iff)

lemma xor_accumulate_zero:
  "length a = length b \<Longrightarrow> xor_accumulate d a b = 0 \<longleftrightarrow> d = 0 \<and> a = b"
  by (induction d a b rule: xor_accumulate.induct) (auto simp: or_zero_iff xor_zero_iff)

text \<open>\<open>constant_time_eq\<close>, which folds the XOR of all bytes, decides equality of byte strings.\<close>

theorem constant_time_eq_iff: "constant_time_eq a b \<longleftrightarrow> a = b"
  by (auto simp: constant_time_eq_def xor_accumulate_zero)

lemma auth_scan_found [simp]: "auth_scan h (Some e) es = Some e"
  by (induction es) simp_all

lemma authenticate_find: "authenticate p es token = find (\<lambda>e. te_hash e = hash_token p token) es"
  unfolding authenticate_def
  by (induction es) (auto simp: constant_time_eq_iff)

lemma authenticate_Some:
  "authenticate p es token = Some e \<Longrightarrow> e \<in> set es \<and> te_hash e = hash_token p token"
  by (auto simp: authenticate_find find_Some_iff)

lemma by_name_Some: "by_name es n = Some e \<Longrightarrow> e \<in> set es \<and> te_name e = n"
  by (auto simp: by_name_def find_Some_iff)

lemma by_name_distinct:
  assumes "distinct (map te_name es)" "e \<in> set es"
  shows "by_name es (te_name e) = Some e"
  using assms unfolding by_name_def
  by (induction es) (auto simp: image_iff)

text \<open>Words of ASCII characters that are not white space, and how a line of them splits.\<close>

definition plain_char :: "char \<Rightarrow> bool" where
  "plain_char c \<longleftrightarrow> 32 < (of_char c :: nat) \<and> of_char c < (128 :: nat)"

lemma digit7_of_char: "digit7 c \<longleftrightarrow> (128 :: nat) \<le> of_char c"
  by (cases c) (auto simp: of_char_def split: bool.splits)

lemma plain_char_not_cont: "plain_char c \<Longrightarrow> \<not> is_cont_byte c"
  by (simp add: plain_char_def is_cont_byte_def digit7_of_char)

lemma plain_char_not_ws: "plain_char c \<Longrightarrow> \<not> is_whitespace [c]"
  by (auto simp: plain_char_def is_whitespace_def)

lemma space_is_whitespace [simp]: "is_whitespace [CHR '' '']"
  by (simp add: is_whitespace_def)

lemma takeWhile_not_ws:
  "list_all plain_char w \<Longrightarrow>
   takeWhile (\<lambda>x. \<not> is_whitespace x) (map (\<lambda>c. [c]) w @ [CHR '' ''] # r) = map (\<lambda>c. [c]) w"
  "list_all plain_char w \<Longrightarrow>
   dropWhile (\<lambda>x. \<not> is_whitespace x) (map (\<lambda>c. [c]) w @ [CHR '' ''] # r) = [CHR '' ''] # r"
  by (induction w) (auto simp: plain_char_not_ws)

lemma takeWhile_not_ws_end:
  "list_all plain_char w \<Longrightarrow>
   takeWhile (\<lambda>x. \<not> is_whitespace x) (map (\<lambda>c. [c]) w) = map (\<lambda>c. [c]) w"
  "list_all plain_char w \<Longrightarrow>
   dropWhile (\<lambda>x. \<not> is_whitespace x) (map (\<lambda>c. [c]) w) = []"
  by (induction w) (auto simp: plain_char_not_ws)

lemma split_ws_word:
  assumes "list_all plain_char w" "w \<noteq> []"
  shows "split_ws (map (\<lambda>c. [c]) w @ [CHR '' ''] # r) = w # split_ws ([CHR '' ''] # r)"
  using assms
  by (cases w) (simp_all add: split_ws.simps [of "[_] # _"] plain_char_not_ws takeWhile_not_ws)

lemma split_ws_last:
  assumes "list_all plain_char w" "w \<noteq> []"
  shows "split_ws (map (\<lambda>c. [c]) w) = [w]"
  using assms
  by (cases w) (simp_all add: split_ws.simps [of "[_] # _"] plain_char_not_ws takeWhile_not_ws_end
      split_ws.simps [of "[]"])

lemma split_ws_space [simp]: "split_ws ([CHR '' ''] # r) = split_ws r"
  by (simp add: split_ws.simps [of "[CHR '' ''] # r"] split_ws.simps [of r])

lemma name_char_plain: "name_char c \<Longrightarrow> plain_char c"
  by (auto simp: name_char_def plain_char_def is_ascii_lowercase_def is_ascii_digit_def)

lemma valid_name:
  assumes "validate_token_name p n = Inr ()"
  shows "n \<noteq> []" "list_all plain_char n" "hd n \<noteq> CHR ''#''" "list_all name_char n"
  using assms
  by (auto simp: validate_token_name_def Let_def is_ascii_lowercase_def is_ascii_digit_def
      split: if_splits list.splits elim!: list.pred_mono_strong intro: name_char_plain)

lemma scope_word: "scope_as_str sc \<noteq> []" "list_all plain_char (scope_as_str sc)"
  by (cases sc; simp add: plain_char_def)+

text \<open>
  What the round trip of the tokens file needs of the codecs: hexadecimal text of a byte string has
  two lowercase digits per byte and decodes to it; SHA-256 has 32 bytes.
\<close>

definition hex_laws :: "auth_port \<Rightarrow> bool" where
  "hex_laws p \<longleftrightarrow>
     (\<forall>b. hex_decode p (hex_encode p b) = Some b \<and> length (hex_encode p b) = 2 * length b \<and>
          list_all (\<lambda>c. is_ascii_digit c \<or> (97 \<le> (of_char c :: nat) \<and> of_char c \<le> (102 :: nat)))
            (hex_encode p b) \<and>
          length (sha256 p b) = 32)"

lemma hex_word:
  assumes "hex_laws p"
  shows "list_all plain_char (format_hash p h)" "format_hash p h \<noteq> []"
proof -
  have "list_all (\<lambda>c. is_ascii_digit c \<or> (97 \<le> (of_char c :: nat) \<and> of_char c \<le> (102 :: nat)))
          (hex_encode p h)"
    using assms by (simp add: hex_laws_def)
  then have "list_all plain_char (hex_encode p h)"
    by (rule list.pred_mono_strong) (auto simp: plain_char_def is_ascii_digit_def)
  then show "list_all plain_char (format_hash p h)" "format_hash p h \<noteq> []"
    by (simp_all add: format_hash_def plain_char_def)
qed

lemma parse_format_hash:
  assumes "hex_laws p"
  shows "parse_hash p (format_hash p (hash_token p t)) = Some (hash_token p t)"
proof -
  have "list_all (\<lambda>c. is_ascii_digit c \<or> (97 \<le> (of_char c :: nat) \<and> of_char c \<le> (102 :: nat)))
          (hex_encode p (hash_token p t))"
    using assms by (simp add: hex_laws_def)
  then have "\<not> list_ex is_ascii_uppercase (hex_encode p (hash_token p t))"
    by (auto simp: list_all_iff list_ex_iff is_ascii_uppercase_def is_ascii_digit_def)
  moreover have "length (hash_token p t) = 32"
    using assms by (simp add: hex_laws_def hash_token_def)
  ultimately show ?thesis
    using assms strip_prefix_append [of "''sha256:''" "hex_encode p (hash_token p t)"]
    by (simp add: parse_hash_def format_hash_def hex_laws_def)
qed

lemma trim_words:
  assumes "list_all plain_char u" "u \<noteq> []" "list_all plain_char v" "v \<noteq> []"
    and m: "list_all (\<lambda>c. \<not> is_cont_byte c) m"
  shows "trim (u @ m @ v) = u @ m @ v"
proof -
  have "list_all (\<lambda>c. \<not> is_cont_byte c) (u @ m @ v)"
    using assms by (auto elim!: list.pred_mono_strong dest: plain_char_not_cont)
  then have chars: "utf8_chars (u @ m @ v) = map (\<lambda>c. [c]) (u @ m @ v)"
    by (rule utf8_chars_ascii)
  have ws: "\<not> is_whitespace [hd u]" "\<not> is_whitespace [last v]"
    using assms by (simp_all add: list_all_iff plain_char_not_ws)
  have "dropWhile is_whitespace (map (\<lambda>c. [c]) (u @ m @ v)) = map (\<lambda>c. [c]) (u @ m @ v)"
    using assms(2) ws(1) by (cases u) simp_all
  moreover have
    "dropWhile is_whitespace (map (\<lambda>c. [c]) (rev (u @ m @ v))) = map (\<lambda>c. [c]) (rev (u @ m @ v))"
    using assms(4) ws(2) by (cases v rule: rev_cases) simp_all
  ultimately show ?thesis
    unfolding trim_def chars drop_while_end_def rev_map by (simp add: rev_map [symmetric])
qed

lemma parse_printed_line:
  assumes "hex_laws p" "validate_token_name p n = Inr ()" "n \<notin> te_name ` set es"
  shows "parse_token_line p es k (tokens_file_line p n sc t) =
           Inr (es @ [\<lparr>te_name = n, te_scope = sc, te_hash = hash_token p t\<rparr>])"
proof -
  let ?h = "format_hash p (hash_token p t)"
  let ?line = "n @ ('' '' @ scope_as_str sc @ '' '') @ ?h"
  note words = valid_name [OF assms(2)] scope_word [of sc] hex_word [OF assms(1), of "hash_token p t"]
  have nocont: "list_all (\<lambda>c. \<not> is_cont_byte c) w" if "list_all plain_char w" for w
    using that by (rule list.pred_mono_strong) (rule plain_char_not_cont)
  have sp: "\<not> is_cont_byte (CHR '' '')"
    by (simp add: is_cont_byte_def)
  have line: "tokens_file_line p n sc t = ?line"
    by (simp add: tokens_file_line_def)
  have tr: "trim ?line = ?line"
    using words sp by (intro trim_words) (simp_all add: nocont)
  have "utf8_chars ?line = map (\<lambda>c. [c]) ?line"
    using words sp by (intro utf8_chars_ascii) (simp add: nocont)
  also have "\<dots> = map (\<lambda>c. [c]) n @ [CHR '' ''] # (map (\<lambda>c. [c]) (scope_as_str sc) @
                   [CHR '' ''] # map (\<lambda>c. [c]) ?h)"
    by simp
  finally have "split_whitespace ?line = [n, scope_as_str sc, ?h]"
    using words by (simp add: split_whitespace_def split_ws_word split_ws_last)
  moreover have "\<not> list_ex (\<lambda>e. te_name e = n) es"
    using assms(3) by (auto simp: list_ex_iff)
  ultimately show ?thesis
    unfolding parse_token_line_def line tr
    using words assms(2) parse_format_hash [OF assms(1)] by (simp add: Let_def)
qed

definition printed_tokens :: "auth_port \<Rightarrow> (string \<times> scope \<times> string) list \<Rightarrow> string" where
  "printed_tokens p toks =
     concat (map (\<lambda>(n, sc, t). tokens_file_line p n sc t @ [CHR 0x0A]) toks)"

definition token_entries :: "auth_port \<Rightarrow> (string \<times> scope \<times> string) list \<Rightarrow> token_entry list" where
  "token_entries p toks =
     map (\<lambda>(n, sc, t). \<lparr>te_name = n, te_scope = sc, te_hash = hash_token p t\<rparr>) toks"

lemma plain_no_newline: "list_all plain_char w \<Longrightarrow> CHR 0x0A \<notin> set w \<and> CHR 0x0D \<notin> set w"
  by (auto simp: list_all_iff plain_char_def)

lemma printed_line_chars:
  assumes "hex_laws p" "validate_token_name p n = Inr ()"
  shows "CHR 0x0A \<notin> set (tokens_file_line p n sc t)"
    "strip_cr (tokens_file_line p n sc t) = tokens_file_line p n sc t"
proof -
  have *: "CHR 0x0A \<notin> set (tokens_file_line p n sc t) \<and> CHR 0x0D \<notin> set (tokens_file_line p n sc t)"
    using plain_no_newline [OF valid_name(2) [OF assms(2)]] plain_no_newline [OF scope_word(2) [of sc]]
      plain_no_newline [OF hex_word(1) [OF assms(1), of "hash_token p t"]]
    by (simp add: tokens_file_line_def)
  then show "CHR 0x0A \<notin> set (tokens_file_line p n sc t)"
    by simp
  show "strip_cr (tokens_file_line p n sc t) = tokens_file_line p n sc t"
    using * by (metis last_in_set strip_cr_def)
qed

lemma printed_tokens_lines:
  assumes "hex_laws p" "\<forall>(n, sc, t) \<in> set toks. validate_token_name p n = Inr ()"
  shows "str_lines (printed_tokens p toks) = map (\<lambda>(n, sc, t). tokens_file_line p n sc t) toks \<and>
         (printed_tokens p toks = [] \<or> last (printed_tokens p toks) = CHR 0x0A)"
  using assms(2)
proof (induction toks rule: rev_induct)
  case (snoc x xs)
  obtain n sc t where x: "x = (n, sc, t)" by (cases x)
  have n: "validate_token_name p n = Inr ()" using snoc.prems x by auto
  have split: "printed_tokens p (xs @ [x]) = printed_tokens p xs @ tokens_file_line p n sc t @ [CHR 0x0A]"
    by (simp add: printed_tokens_def x)
  show ?case
    unfolding split using snoc printed_line_chars [OF assms(1) n]
    by (subst str_lines_snoc) (auto simp: x)
qed (simp add: printed_tokens_def)

lemma parse_printed_lines:
  assumes "hex_laws p" "\<forall>(n, sc, t) \<in> set toks. validate_token_name p n = Inr ()"
    "distinct (map te_name es @ map fst toks)"
  shows "parse_token_lines p es k (map (\<lambda>(n, sc, t). tokens_file_line p n sc t) toks) =
           Inr (es @ token_entries p toks)"
  using assms(2,3)
proof (induction toks arbitrary: es k)
  case (Cons x xs)
  obtain n sc t where x: "x = (n, sc, t)" by (cases x)
  have "parse_token_line p es k (tokens_file_line p n sc t) =
           Inr (es @ [\<lparr>te_name = n, te_scope = sc, te_hash = hash_token p t\<rparr>])"
    using Cons.prems x by (intro parse_printed_line assms(1)) auto
  with Cons show ?case by (auto simp: x token_entries_def)
qed (simp add: token_entries_def)

text \<open>
  The tokens file that \<open>prospero token new\<close> prints line by line is read back by the daemon as
  exactly the printed tokens: names, scopes and the hashes of the tokens, in the order of the file.
\<close>

theorem tokens_file_roundtrip:
  assumes "hex_laws p" "toks \<noteq> []" "distinct (map fst toks)"
    "\<forall>(n, sc, t) \<in> set toks. validate_token_name p n = Inr ()"
  shows "token_set_parse p (printed_tokens p toks) = Inr (token_entries p toks)"
proof -
  have "str_lines (printed_tokens p toks) = map (\<lambda>(n, sc, t). tokens_file_line p n sc t) toks"
    using printed_tokens_lines [OF assms(1,4)] by simp
  moreover have "token_entries p toks \<noteq> []"
    using assms(2) by (simp add: token_entries_def)
  ultimately show ?thesis
    using parse_printed_lines [OF assms(1,4), of "[]" 1] assms(3)
    by (simp add: token_set_parse_def)
qed

definition nibble_char :: "nat \<Rightarrow> char" where
  "nibble_char n = byte (if n < 10 then 48 + n else 87 + n)"

definition nibble_value :: "char \<Rightarrow> nat" where
  "nibble_value c = (if is_ascii_digit c then of_char c - 48 else of_char c - 87)"

text \<open>A codec and a hash that satisfy the laws (a stand-in for the crates, in witnesses only).\<close>

definition sample_hex :: "u8 list \<Rightarrow> string" where
  "sample_hex b = concat (map (\<lambda>w. [nibble_char (unat w div 16), nibble_char (unat w mod 16)]) b)"

fun sample_unhex :: "string \<Rightarrow> u8 list option" where
  "sample_unhex (a # b # s) =
     map_option ((#) (word_of_nat (16 * nibble_value a + nibble_value b))) (sample_unhex s)"
| "sample_unhex s = Some []"

definition sample_auth :: auth_port where
  "sample_auth = \<lparr>sha256 = (\<lambda>b. take 32 (b @ replicate 32 0)), hmac_sha256 = (\<lambda>k m. take 8 m),
     b64url = sample_hex, hex_encode = sample_hex, hex_decode = sample_unhex,
     str_debug = (\<lambda>s. s), rfc3339_of_unix = (\<lambda>_. None)\<rparr>"

lemma nibble_roundtrip: "n < 16 \<Longrightarrow> nibble_value (nibble_char n) = n"
  by (auto simp: nibble_value_def nibble_char_def is_ascii_digit_def)

lemma unat_div_16: "unat (w :: u8) div 16 < 16"
  using unsigned_less [of w, where 'a = nat] by (simp add: less_mult_imp_div_less)

lemma nibble_char_range:
  "n < 16 \<Longrightarrow> is_ascii_digit (nibble_char n) \<or>
     (97 \<le> (of_char (nibble_char n) :: nat) \<and> of_char (nibble_char n) \<le> (102 :: nat))"
  by (auto simp: nibble_char_def is_ascii_digit_def)

lemma sample_hex_laws: "hex_laws sample_auth"
proof -
  have "sample_unhex (sample_hex b) = Some b" for b
    by (induction b) (simp_all add: sample_hex_def nibble_roundtrip unat_div_16)
  moreover have "length (sample_hex b) = 2 * length b" for b
    by (induction b) (simp_all add: sample_hex_def)
  moreover have "list_all (\<lambda>c. is_ascii_digit c \<or> (97 \<le> (of_char c :: nat) \<and> of_char c \<le> (102 :: nat)))
      (sample_hex b)" for b
    by (induction b) (simp_all add: sample_hex_def nibble_char_range unat_div_16)
  ultimately show ?thesis by (simp add: hex_laws_def sample_auth_def min_def)
qed

theorem tokens_file_roundtrip_witness:
  "token_set_parse sample_auth (printed_tokens sample_auth [(''ci'', Operate, ''pspo_a''), (''ops-1'', Admin, ''pspo_b'')])
     = Inr (token_entries sample_auth [(''ci'', Operate, ''pspo_a''), (''ops-1'', Admin, ''pspo_b'')])"
  by (rule tokens_file_roundtrip)
    (simp_all add: sample_hex_laws validate_token_name_def name_char_def is_ascii_lowercase_def
      is_ascii_digit_def)

text \<open>What every accepted tokens file guarantees.\<close>

definition token_set_inv :: "auth_port \<Rightarrow> token_entry list \<Rightarrow> bool" where
  "token_set_inv p es \<longleftrightarrow>
     distinct (map te_name es) \<and>
     list_all (\<lambda>e. validate_token_name p (te_name e) = Inr () \<and> length (te_hash e) = 32) es"

lemma parse_token_line_inv:
  "parse_token_line p es k l = Inr es' \<Longrightarrow> token_set_inv p es \<Longrightarrow> token_set_inv p es'"
  by (auto simp: parse_token_line_def Let_def token_set_inv_def parse_hash_def list_ex_iff
      split: if_splits list.splits sum.splits option.splits)

lemma parse_token_lines_inv:
  "parse_token_lines p es k ls = Inr es' \<Longrightarrow> token_set_inv p es \<Longrightarrow> token_set_inv p es'"
  by (induction ls arbitrary: es k) (auto simp: rbind_Inr_iff intro: parse_token_line_inv)

text \<open>
  A tokens file that loads gives at least one token, with distinct, well-formed names and
  hashes of 32 bytes; a presented token is accepted exactly when its hash is one of them, and the
  entry returned carries that hash.
\<close>

theorem loaded_tokens_authenticate:
  assumes "token_set_parse p src = Inr es"
  shows "es \<noteq> [] \<and> token_set_inv p es \<and>
    ((authenticate p es tok = None) \<longleftrightarrow> hash_token p tok \<notin> te_hash ` set es) \<and>
    (case authenticate p es tok of None \<Rightarrow> True
     | Some e \<Rightarrow> e \<in> set es \<and> te_hash e = hash_token p tok \<and> by_name es (te_name e) = Some e)"
proof -
  have inv: "es \<noteq> []" "token_set_inv p es"
    using assms parse_token_lines_inv [of p "[]" 1 "str_lines src" es]
    by (auto simp: token_set_parse_def rbind_Inr_iff token_set_inv_def split: if_splits)
  have "(authenticate p es tok = None) \<longleftrightarrow> hash_token p tok \<notin> te_hash ` set es"
    by (auto simp: authenticate_find find_None_iff image_iff)
  moreover have "by_name es (te_name e) = Some e" if "authenticate p es tok = Some e" for e
    using inv(2) authenticate_Some [OF that] by (intro by_name_distinct) (auto simp: token_set_inv_def)
  ultimately show ?thesis
    using inv by (auto split: option.splits dest: authenticate_Some)
qed

theorem loaded_tokens_authenticate_witness:
  "let es = [\<lparr>te_name = ''ci'', te_scope = Read, te_hash = replicate 32 0\<rparr>]
   in token_set_parse sample_auth (''ci read sha256:'' @ replicate 64 (CHR ''0'')) = Inr es \<and>
      token_set_inv sample_auth es"
proof -
  have parse: "token_set_parse sample_auth (''ci read sha256:'' @ replicate 64 (CHR ''0'')) =
      Inr [\<lparr>te_name = ''ci'', te_scope = Read, te_hash = replicate 32 0\<rparr>]"
    by code_simp
  show ?thesis
    using loaded_tokens_authenticate [OF parse, of "''x''"] parse unfolding Let_def by blast
qed

text \<open>In well-formed UTF-8 an ASCII byte is a character of its own.\<close>

lemma is_cont_byte_iff: "is_cont_byte c \<longleftrightarrow> 128 \<le> (of_char c :: nat) \<and> of_char c < (192 :: nat)"
  by (cases c) (auto simp: is_cont_byte_def of_char_def split: bool.splits)

lemma in_range_cont: "in_range b lo hi \<Longrightarrow> 128 \<le> lo \<Longrightarrow> hi \<le> 191 \<Longrightarrow> is_cont_byte b"
  by (auto simp: in_range_def is_cont_byte_iff)

lemma in_range_lead: "in_range a lo hi \<Longrightarrow> 192 \<le> lo \<Longrightarrow> \<not> is_cont_byte a"
  by (auto simp: in_range_def is_cont_byte_iff)

lemma in_range_ascii: "in_range a 0 127 \<longleftrightarrow> of_char a < (128 :: nat)"
  by (auto simp: in_range_def)

text \<open>A well-formed string is a lead byte, its continuation bytes and a well-formed rest.\<close>

lemma utf8_valid_split:
  assumes "utf8_valid (a # s)"
  shows "\<exists>cs r. s = cs @ r \<and> list_all is_cont_byte cs \<and> utf8_valid r \<and> \<not> is_cont_byte a \<and>
           (of_char a < (128 :: nat) \<longrightarrow> cs = [])"
proof (cases "in_range a 0 127")
  case True
  then show ?thesis
    using assms by (intro exI [of _ "[]"] exI [of _ s])
      (simp add: utf8_valid.simps(2) in_range_ascii is_cont_byte_iff)
next
  case a: False
  then obtain b s1 where s: "s = b # s1"
    using assms by (cases s) (simp_all add: utf8_valid.simps(2))
  show ?thesis
  proof (cases "in_range a 0xC2 0xDF")
    case True
    then have "is_cont_byte b" "utf8_valid s1" "\<not> is_cont_byte a"
      using assms a by (auto simp: utf8_valid.simps(2) s intro: in_range_cont dest: in_range_lead)
    then show ?thesis
      using a s by (intro exI [of _ "[b]"] exI [of _ s1]) (simp add: in_range_ascii)
  next
    case a2: False
    then obtain c s2 where s1: "s1 = c # s2"
      using assms a by (cases s1) (simp_all add: utf8_valid.simps(2) s)
    show ?thesis
    proof (cases "in_range a 0xE0 0xEF")
      case True
      then have "is_cont_byte b" "is_cont_byte c" "utf8_valid s2" "\<not> is_cont_byte a"
        using assms a a2 unfolding s s1 utf8_valid.simps(2) [of a]
        by (auto split del: if_split elim!: in_range_cont dest: in_range_lead) (simp_all split: if_split)
      then show ?thesis
        using a s s1 by (intro exI [of _ "[b, c]"] exI [of _ s2]) (simp add: in_range_ascii)
    next
      case a3: False
      then obtain d s3 where s2: "s2 = d # s3"
        using assms a a2 by (cases s2) (simp_all add: utf8_valid.simps(2) s s1)
      have "is_cont_byte b" "is_cont_byte c" "is_cont_byte d" "utf8_valid s3" "\<not> is_cont_byte a"
        using assms a a2 a3 unfolding s s1 s2 utf8_valid.simps(2) [of a]
        by (auto split del: if_split elim!: in_range_cont dest: in_range_lead) (simp_all split: if_split)
      then show ?thesis
        using a s s1 s2 by (intro exI [of _ "[b, c, d]"] exI [of _ s3]) (simp add: in_range_ascii)
    qed
  qed
qed

lemma utf8_valid_boundary:
  assumes "utf8_valid r"
  shows "takeWhile is_cont_byte r = []" "dropWhile is_cont_byte r = r"
  using assms utf8_valid_split by (cases r; force)+

lemma takeWhile_all_append: "list_all P xs \<Longrightarrow> takeWhile P (xs @ ys) = xs @ takeWhile P ys"
  and dropWhile_all_append: "list_all P xs \<Longrightarrow> dropWhile P (xs @ ys) = dropWhile P ys"
  by (induction xs) simp_all

lemma utf8_ascii_char:
  "utf8_valid s \<Longrightarrow> b \<in> set s \<Longrightarrow> of_char b < (128 :: nat) \<Longrightarrow> [b] \<in> set (utf8_chars s)"
proof (induction s rule: length_induct)
  case (1 s)
  then obtain a s' where s: "s = a # s'" by (cases s) auto
  from utf8_valid_split [of a s'] obtain cs r where
    r: "s' = cs @ r" "list_all is_cont_byte cs" "utf8_valid r" "of_char a < (128 :: nat) \<longrightarrow> cs = []"
    using 1(2) s by blast
  have chars: "utf8_chars s = (a # cs) # utf8_chars r"
    using r by (simp add: s takeWhile_all_append dropWhile_all_append utf8_valid_boundary)
  show ?case
  proof (cases "b \<in> set r")
    case True
    then show ?thesis using 1 r s chars by simp
  next
    case False
    then have "b = a"
      using 1(3,4) r by (auto simp: s list_all_iff is_cont_byte_iff)
    then show ?thesis using 1(4) r(4) chars by simp
  qed
qed

text \<open>
  An accepted subject is not blank, has at most 128 characters and no control character, so it
  cannot break a line of the event log; it is the claimed text without surrounding white space.
\<close>

theorem validated_subject_safe:
  assumes "validate_subject p s = Inr t"
  shows "t = trim s \<and> t \<noteq> [] \<and> char_count t \<le> 128 \<and> list_all (\<lambda>c. \<not> is_control c) (utf8_chars t) \<and>
    (utf8_valid t \<longrightarrow> CHR 0x0A \<notin> set t \<and> CHR 0x0D \<notin> set t)"
proof -
  have t: "t = trim s" "t \<noteq> []" "char_count t \<le> 128" "find is_control (utf8_chars t) = None"
    using assms by (auto simp: validate_subject_def Let_def max_subject_def
        split: if_splits option.splits)
  have noctl: "\<not> is_control c" if "c \<in> set (utf8_chars t)" for c
    using t(4) that by (auto simp: find_None_iff)
  have "\<not> (utf8_valid t \<and> b \<in> set t \<and> of_char b < (32 :: nat))" for b
    using utf8_ascii_char [of t b] noctl [of "[b]"] by (auto simp: is_control_def)
  from this [of "CHR 0x0A"] this [of "CHR 0x0D"] show ?thesis
    using t noctl by (auto simp: list_all_iff)
qed

theorem validated_subject_safe_witness:
  "validate_subject sample_auth '' alice '' = Inr ''alice'' \<and> char_count ''alice'' \<le> 128"
proof -
  have "validate_subject sample_auth '' alice '' = Inr ''alice''"
    by code_simp
  with validated_subject_safe [OF this] show ?thesis by blast
qed

end
