(* ===== verification/Automation.thy ===== *)
theory Automation
  imports Fleet_Provider Config_Store Auth_Tokens
begin

text \<open>
  Automations (\<open>core/src/automation.rs\<close>): the rules (schedules, task templates, webhook signatures)
  and the engine that stores triggers, decides what is due and spawns. The calendar, the cron
  parser, JSON and the codecs belong to other crates and are fields of the environment; an instant
  is an integer, and a parsed schedule is the function that gives the last tick before an instant.
  Operations that spawn return \<open>None\<close> when the spawn panics.
\<close>

section \<open>Schedules\<close>

definition normalize_schedule :: "string \<Rightarrow> string" where
  "normalize_schedule schedule =
     (let trimmed = trim schedule
      in if length (split_whitespace trimmed) = 5 then ''0 '' @ trimmed else trimmed)"

type_synonym cron_parser = "string \<Rightarrow> string + (int \<Rightarrow> int option)"

definition parse_schedule :: "cron_parser \<Rightarrow> string \<Rightarrow> string + (int \<Rightarrow> int option)" where
  "parse_schedule cron schedule =
     (case cron (normalize_schedule schedule) of
        Inl e \<Rightarrow> Inl (''invalid cron schedule '' @ [CHR 0x27] @ schedule @ [CHR 0x27] @ '': '' @ e)
      | Inr sched \<Rightarrow> Inr sched)"

definition due_fire :: "cron_parser \<Rightarrow> string \<Rightarrow> int \<Rightarrow> int \<Rightarrow> int option" where
  "due_fire cron schedule since now =
     (case parse_schedule cron schedule of
        Inl _ \<Rightarrow> None
      | Inr last_before \<Rightarrow>
          (case last_before now of
             None \<Rightarrow> None
           | Some tick \<Rightarrow> if since < tick then Some tick else None))"

section \<open>Task templates\<close>

definition MAX_SUBSTITUTION :: nat where
  "MAX_SUBSTITUTION = 4096"

fun char_boundary_below :: "string \<Rightarrow> nat \<Rightarrow> nat" where
  "char_boundary_below s 0 = 0"
| "char_boundary_below s (Suc n) =
     (if is_char_boundary s (Suc n) then Suc n else char_boundary_below s n)"

text \<open>\<open>" [\<dots>truncated]"\<close> in UTF-8.\<close>

definition truncation_mark :: string where
  "truncation_mark = '' ['' @ [CHR 0xE2, CHR 0x80, CHR 0xA6] @ ''truncated]''"

definition truncate_value :: "string \<Rightarrow> string" where
  "truncate_value value =
     (if length value \<le> MAX_SUBSTITUTION then value
      else take (char_boundary_below value MAX_SUBSTITUTION) value @ truncation_mark)"

fun lookup_path :: "json \<Rightarrow> string list \<Rightarrow> json option" where
  "lookup_path v [] = Some v"
| "lookup_path v (seg # segs) =
     (case Option.bind (as_object v) (\<lambda>m. map_of m seg) of
        None \<Rightarrow> None
      | Some v' \<Rightarrow> lookup_path v' segs)"

definition lookup :: "(json \<Rightarrow> string) \<Rightarrow> json \<Rightarrow> string \<Rightarrow> string + string" where
  "lookup to_string payload path =
     (case lookup_path payload (split_on (CHR ''.'') path) of
        None \<Rightarrow> Inl (''task template references '' @ [CHR 0x27] @ path @ [CHR 0x27] @
                     '', absent from the payload'')
      | Some JNull \<Rightarrow> Inl (''task template references '' @ [CHR 0x27] @ path @ [CHR 0x27] @
                     '', null in the payload'')
      | Some (JString s) \<Rightarrow> Inr (truncate_value s)
      | Some other \<Rightarrow> Inr (truncate_value (to_string other)))"

text \<open>The loop of \<open>interpolate\<close>; \<open>out\<close> is the text so far.\<close>

lemma str_find_length: "str_find p s = Some i \<Longrightarrow> i \<le> length s"
  by (induction s arbitrary: i) (auto split: if_splits)

lemma str_find_shorter: "str_find p s = Some i \<Longrightarrow> p \<noteq> [] \<Longrightarrow> i + length p \<le> length s"
proof (induction s arbitrary: i)
  case (Cons c s)
  show ?case
  proof (cases "take (length p) (c # s) = p")
    case True
    then have "length p \<le> length (c # s)" by (metis length_take min.cobounded1)
    then show ?thesis using Cons.prems True by simp
  next
    case False
    then show ?thesis using Cons by auto
  qed
qed (auto split: if_splits)

function interpolate_from :: "(json \<Rightarrow> string) \<Rightarrow> json \<Rightarrow> string \<Rightarrow> string \<Rightarrow> string + string" where
  "interpolate_from to_string payload out rest =
     (case str_find ''{{'' rest of
        None \<Rightarrow> Inr (out @ rest)
      | Some start \<Rightarrow>
          (let after = drop (start + 2) rest
           in case str_find ''}}'' after of
                None \<Rightarrow> Inr (out @ rest)
              | Some end' \<Rightarrow>
                  (case lookup to_string payload (trim (take end' after)) of
                     Inl e \<Rightarrow> Inl e
                   | Inr v \<Rightarrow>
                       interpolate_from to_string payload (out @ take start rest @ v)
                         (drop (end' + 2) after))))"
  by pat_completeness auto
termination
proof (relation "measure (\<lambda>(_, _, _, rest). length rest)")
  fix to_string :: "json \<Rightarrow> string" and payload out rest start after end' v
  assume "str_find ''{{'' rest = Some start" "after = drop (start + 2) rest"
  then show "((to_string, payload, out @ take start rest @ v, drop (end' + 2) after),
      to_string, payload, out, rest) \<in> measure (\<lambda>(_, _, _, rest). length rest)"
    using str_find_shorter [of "''{{''" rest start] by simp
qed simp

declare interpolate_from.simps [simp del]

definition interpolate :: "(json \<Rightarrow> string) \<Rightarrow> string \<Rightarrow> json \<Rightarrow> string + string" where
  "interpolate to_string template payload = interpolate_from to_string payload [] template"

section \<open>Webhook signatures\<close>

text \<open>HMAC accepts a key of any length; \<open>verify_slice\<close> compares the whole digest.\<close>

definition verify_webhook_signature :: "auth_port \<Rightarrow> string \<Rightarrow> u8 list \<Rightarrow> string option \<Rightarrow> bool" where
  "verify_webhook_signature p secret body header =
     (case header of
        None \<Rightarrow> False
      | Some h \<Rightarrow>
          (case strip_prefix ''sha256='' (trim h) of
             None \<Rightarrow> False
           | Some hex_digest \<Rightarrow>
               (case hex_decode p hex_digest of
                  None \<Rightarrow> False
                | Some provided \<Rightarrow> hmac_sha256 p (as_bytes secret) body = provided)))"

definition mint_webhook_secret :: "auth_port \<Rightarrow> u8 list \<Rightarrow> string" where
  "mint_webhook_secret p bytes = hex_encode p bytes"

section \<open>The engine\<close>

record ('c, 'f) engine_env =
  ee_config :: "'c config_ops"
  ee_fleet :: "'f fleet_provider"
  ee_cron :: cron_parser
  ee_stamp :: "int \<Rightarrow> string"
  ee_parse_time :: "string \<Rightarrow> int option"
  ee_auth :: auth_port
  ee_json_print :: "json \<Rightarrow> string"
  ee_json_parse :: "u8 list \<Rightarrow> string + json"

record ('c, 'f) engine =
  en_config :: 'c
  en_fleet :: 'f

definition config_call ::
  "('c \<Rightarrow> 'a \<times> 'c) \<Rightarrow> ('c, 'f) engine \<Rightarrow> 'a \<times> ('c, 'f) engine" where
  "config_call f en = (case f (en_config en) of (r, c) \<Rightarrow> (r, en\<lparr>en_config := c\<rparr>))"

definition engine_list ::
  "('c, 'f) engine_env \<Rightarrow> ('c, 'f) engine \<Rightarrow> stored_automation list result \<times> ('c, 'f) engine" where
  "engine_list ee en = config_call (co_list_automations (ee_config ee)) en"

text \<open>The random bytes of the signing key are an argument.\<close>

definition create_automation_at ::
  "('c, 'f) engine_env \<Rightarrow> ('c, 'f) engine \<Rightarrow> create_automation_body \<Rightarrow> int \<Rightarrow> u8 list \<Rightarrow>
     stored_automation result \<times> ('c, 'f) engine" where
  "create_automation_at ee en body created_at random =
     (case (case cab_trigger body of
              Cron schedule \<Rightarrow> (case parse_schedule (ee_cron ee) schedule of Inl e \<Rightarrow> Some e | Inr _ \<Rightarrow> None)
            | Webhook \<Rightarrow> None) of
        Some e \<Rightarrow> (Inl (InvalidConfig e), en)
      | None \<Rightarrow>
          (case engine_list ee en of
             (Inl e, en') \<Rightarrow> (Inl e, en')
           | (Inr as, en') \<Rightarrow>
               if list_ex (\<lambda>sa. sa_id sa = cab_id body) as
               then (Inl (Conflict (''automation '' @ [CHR 0x27] @ cab_id body @ [CHR 0x27] @ '' already exists'')), en')
               else
                 (let secret = (case cab_trigger body of
                                  Webhook \<Rightarrow> Some (mint_webhook_secret (ee_auth ee) random)
                                | Cron _ \<Rightarrow> None);
                      stored = \<lparr>sa_automation = \<lparr>auto_id = cab_id body, auto_workspace = cab_workspace body,
                                  auto_trigger = cab_trigger body, auto_template = cab_template body,
                                  auto_enabled = cab_enabled body, auto_created_at = ee_stamp ee created_at,
                                  auto_last_fired_at = None\<rparr>,
                                sa_webhook_secret = secret\<rparr>
                  in case config_call (\<lambda>c. co_upsert_automation (ee_config ee) c stored) en' of
                       (Inl e, en'') \<Rightarrow> (Inl e, en'')
                     | (Inr _, en'') \<Rightarrow> (Inr stored, en''))))"

definition engine_automation ::
  "('c, 'f) engine_env \<Rightarrow> ('c, 'f) engine \<Rightarrow> string \<Rightarrow> stored_automation result \<times> ('c, 'f) engine" where
  "engine_automation ee en i =
     (case engine_list ee en of
        (Inl e, en') \<Rightarrow> (Inl e, en')
      | (Inr as, en') \<Rightarrow> (ok_or (find (\<lambda>sa. sa_id sa = i) as) (AutomationNotFound i), en'))"

definition engine_delete ::
  "('c, 'f) engine_env \<Rightarrow> ('c, 'f) engine \<Rightarrow> string \<Rightarrow> bool result \<times> ('c, 'f) engine" where
  "engine_delete ee en i = config_call (\<lambda>c. co_delete_automation (ee_config ee) c i) en"

definition set_automation_enabled ::
  "('c, 'f) engine_env \<Rightarrow> ('c, 'f) engine \<Rightarrow> string \<Rightarrow> bool \<Rightarrow> unit result \<times> ('c, 'f) engine" where
  "set_automation_enabled ee en i enabled =
     (case engine_automation ee en i of
        (Inl e, en') \<Rightarrow> (Inl e, en')
      | (Inr stored, en') \<Rightarrow>
          config_call (\<lambda>c. co_upsert_automation (ee_config ee) c
            (stored\<lparr>sa_automation := (sa_automation stored)\<lparr>auto_enabled := enabled\<rparr>\<rparr>)) en')"

definition automation_runs ::
  "('c, 'f) engine_env \<Rightarrow> ('c, 'f) engine \<Rightarrow> string \<Rightarrow> nat \<Rightarrow> automation_run list result \<times> ('c, 'f) engine" where
  "automation_runs ee en i limit = config_call (\<lambda>c. co_list_runs (ee_config ee) c i limit) en"

definition spawn_request_from :: "spawn_template \<Rightarrow> string \<Rightarrow> spawn_request" where
  "spawn_request_from tpl task =
     \<lparr>rq_prompt = task, rq_label = t_label tpl, rq_model = t_model tpl,
      rq_isolation_worktree = t_isolation_worktree tpl, rq_tool_allowlist = t_tool_allowlist tpl,
      rq_interactive = False, rq_frontmatter_path = t_frontmatter_path tpl,
      rq_timeout_secs = t_timeout_secs tpl, rq_provider_ref = t_provider_ref tpl,
      rq_permission_posture = t_posture tpl\<rparr>"

definition run_automation ::
  "('c, 'f) engine_env \<Rightarrow> ('c, 'f) engine \<Rightarrow> stored_automation \<Rightarrow> string \<Rightarrow> run_source \<Rightarrow> json option \<Rightarrow>
     automation_run option \<times> ('c, 'f) engine" where
  "run_automation ee en stored fired_at source payload =
     (let a = sa_automation stored;
          run = \<lparr>run_automation_id = auto_id a, run_fired_at = fired_at, run_source = source,
                 run_agent_id = None, run_error = None\<rparr>
      in case (case payload of
                 Some pl \<Rightarrow> interpolate (ee_json_print ee) (t_task (auto_template a)) pl
               | None \<Rightarrow> Inr (t_task (auto_template a))) of
           Inl e \<Rightarrow> (Some (run\<lparr>run_error := Some e\<rparr>), en)
         | Inr task \<Rightarrow>
             (case fp_ensure_agent (ee_fleet ee) (en_fleet en)
                     \<lparr>tk_workspace = auto_workspace a,
                      tk_request = spawn_request_from (auto_template a) task\<rparr> of
                (None, f) \<Rightarrow> (None, en\<lparr>en_fleet := f\<rparr>)
              | (Some (Inr h), f) \<Rightarrow> (Some (run\<lparr>run_agent_id := Some (ah_id h)\<rparr>), en\<lparr>en_fleet := f\<rparr>)
              | (Some (Inl e), f) \<Rightarrow> (Some (run\<lparr>run_error := Some (error_display e)\<rparr>), en\<lparr>en_fleet := f\<rparr>)))"

text \<open>A failure to record a run is logged only.\<close>

definition save_run ::
  "('c, 'f) engine_env \<Rightarrow> ('c, 'f) engine \<Rightarrow> automation_run \<Rightarrow> ('c, 'f) engine" where
  "save_run ee en run = snd (config_call (\<lambda>c. co_record_run (ee_config ee) c run) en)"

text \<open>The tick an automation owes at \<open>now\<close>: the guards of one iteration of \<open>tick_automations\<close>.\<close>

definition owed_tick :: "('c, 'f) engine_env \<Rightarrow> int \<Rightarrow> stored_automation \<Rightarrow> int option" where
  "owed_tick ee now stored =
     (let a = sa_automation stored
      in if \<not> auto_enabled a then None
         else case auto_trigger a of
                Webhook \<Rightarrow> None
              | Cron schedule \<Rightarrow>
                  (case ee_parse_time ee (case auto_last_fired_at a of None \<Rightarrow> auto_created_at a | Some l \<Rightarrow> l) of
                     None \<Rightarrow> None
                   | Some anchor \<Rightarrow> due_fire (ee_cron ee) schedule anchor now))"

text \<open>One iteration: the claim, the spawn and the record. \<open>False\<close> when the spawn panicked.\<close>

definition tick_one ::
  "('c, 'f) engine_env \<Rightarrow> int \<Rightarrow> stored_automation \<Rightarrow> ('c, 'f) engine \<Rightarrow> bool \<times> ('c, 'f) engine" where
  "tick_one ee now stored en =
     (case owed_tick ee now stored of
        None \<Rightarrow> (True, en)
      | Some tick \<Rightarrow>
          (let fire_at = ee_stamp ee tick
           in case config_call (\<lambda>c. co_claim (ee_config ee) c (sa_id stored) fire_at) en of
                (Inr True, en) \<Rightarrow>
                  (case run_automation ee en stored fire_at Schedule None of
                     (None, en) \<Rightarrow> (False, en)
                   | (Some run, en) \<Rightarrow> (True, save_run ee en run))
              | (Inr False, en) \<Rightarrow> (True, en)
              | (Inl _, en) \<Rightarrow> (True, en)))"

fun tick_all ::
  "('c, 'f) engine_env \<Rightarrow> int \<Rightarrow> stored_automation list \<Rightarrow> ('c, 'f) engine \<Rightarrow> bool \<times> ('c, 'f) engine" where
  "tick_all ee now [] en = (True, en)"
| "tick_all ee now (stored # rest) en =
     (case tick_one ee now stored en of
        (True, en') \<Rightarrow> tick_all ee now rest en'
      | (False, en') \<Rightarrow> (False, en'))"

definition tick_automations ::
  "('c, 'f) engine_env \<Rightarrow> int \<Rightarrow> ('c, 'f) engine \<Rightarrow> bool \<times> ('c, 'f) engine" where
  "tick_automations ee now en =
     (case engine_list ee en of
        (Inl _, en') \<Rightarrow> (True, en')
      | (Inr as, en') \<Rightarrow> tick_all ee now as en')"

text \<open>
  \<open>AutomationEngine::run\<close>: the list holds the clock at each round before shutdown; a panic ends the
  loop.
\<close>

fun engine_loop ::
  "('c, 'f) engine_env \<Rightarrow> int list \<Rightarrow> ('c, 'f) engine \<Rightarrow> bool \<times> ('c, 'f) engine" where
  "engine_loop ee [] en = (True, en)"
| "engine_loop ee (now # later) en =
     (case tick_automations ee now en of
        (True, en') \<Rightarrow> engine_loop ee later en'
      | (False, en') \<Rightarrow> (False, en'))"

definition engine_run ::
  "('c, 'f) engine_env \<Rightarrow> bool \<Rightarrow> int list \<Rightarrow> ('c, 'f) engine \<Rightarrow> bool \<times> ('c, 'f) engine" where
  "engine_run ee shutdown rounds en = (if shutdown then (True, en) else engine_loop ee rounds en)"

definition fire_and_save ::
  "('c, 'f) engine_env \<Rightarrow> ('c, 'f) engine \<Rightarrow> stored_automation \<Rightarrow> int \<Rightarrow> run_source \<Rightarrow> json option \<Rightarrow>
     automation_run result option \<times> ('c, 'f) engine" where
  "fire_and_save ee en stored now source payload =
     (case run_automation ee en stored (ee_stamp ee now) source payload of
        (None, en') \<Rightarrow> (None, en')
      | (Some run, en') \<Rightarrow> (Some (Inr run), save_run ee en' run))"

definition fire_automation ::
  "('c, 'f) engine_env \<Rightarrow> ('c, 'f) engine \<Rightarrow> string \<Rightarrow> int \<Rightarrow> run_source \<Rightarrow> json option \<Rightarrow>
     automation_run result option \<times> ('c, 'f) engine" where
  "fire_automation ee en i now source payload =
     (case engine_automation ee en i of
        (Inl e, en') \<Rightarrow> (Some (Inl e), en')
      | (Inr stored, en') \<Rightarrow> fire_and_save ee en' stored now source payload)"

definition trigger_webhook ::
  "('c, 'f) engine_env \<Rightarrow> ('c, 'f) engine \<Rightarrow> string \<Rightarrow> int \<Rightarrow> u8 list \<Rightarrow> string option \<Rightarrow>
     automation_run result option \<times> ('c, 'f) engine" where
  "trigger_webhook ee en i now body signature =
     (case engine_automation ee en i of
        (Inl e, en') \<Rightarrow> (Some (Inl e), en')
      | (Inr stored, en') \<Rightarrow>
          (case sa_webhook_secret stored of
             None \<Rightarrow> (Some (Inl (Unauthorized (''automation '' @ [CHR 0x27] @ i @ [CHR 0x27] @
                        '' has no webhook trigger''))), en')
           | Some secret \<Rightarrow>
               if \<not> verify_webhook_signature (ee_auth ee) secret body signature
               then (Some (Inl (Unauthorized (''bad or missing signature for automation '' @ [CHR 0x27] @ i @
                       [CHR 0x27]))), en')
               else if \<not> auto_enabled (sa_automation stored)
               then (Some (Inl (Conflict (''automation '' @ [CHR 0x27] @ i @ [CHR 0x27] @ '' is disabled''))), en')
               else (case ee_json_parse ee body of
                       Inl e \<Rightarrow> (Some (Inl (JsonError e)), en')
                     | Inr payload \<Rightarrow> fire_and_save ee en' stored now WebhookRun (Some payload))))"

end
