(* ===== verification/Automation_Props.thy ===== *)
theory Automation_Props
  imports Automation
begin

text \<open>
  Properties of the automations: a task template is rendered slot by slot and never rescanned, a
  webhook spawns only behind its signature, and what one round of the engine does to the
  configuration and the fleet.
\<close>

section \<open>Templates\<close>

text \<open>The reference: a template is a list of literal texts and slots, and does not depend on the payload.\<close>

datatype part = Lit string | Slot string

function template_parts :: "string \<Rightarrow> part list" where
  "template_parts t =
     (case str_find ''{{'' t of
        None \<Rightarrow> [Lit t]
      | Some start \<Rightarrow>
          (let after = drop (start + 2) t
           in case str_find ''}}'' after of
                None \<Rightarrow> [Lit t]
              | Some end' \<Rightarrow>
                  Lit (take start t) # Slot (trim (take end' after)) #
                  template_parts (drop (end' + 2) after)))"
  by pat_completeness auto
termination
proof (relation "measure length")
  fix t start after end'
  assume "str_find ''{{'' t = Some start" "after = drop (start + 2) t"
  then show "(drop (end' + 2) after, t) \<in> measure length"
    using str_find_shorter [of "''{{''" t start] by simp
qed simp

declare template_parts.simps [simp del]

fun render :: "(json \<Rightarrow> string) \<Rightarrow> json \<Rightarrow> part list \<Rightarrow> string + string" where
  "render to_string payload [] = Inr []"
| "render to_string payload (Lit s # ps) =
     rbind (render to_string payload ps) (\<lambda>r. Inr (s @ r))"
| "render to_string payload (Slot path # ps) =
     rbind (lookup to_string payload path) (\<lambda>v.
       rbind (render to_string payload ps) (\<lambda>r. Inr (v @ r)))"

lemma interpolate_from_render:
  "interpolate_from tos pl out t = rbind (render tos pl (template_parts t)) (\<lambda>r. Inr (out @ r))"
proof (induction tos pl out t rule: interpolate_from.induct)
  case (1 tos pl out t)
  show ?case
  proof (cases "str_find ''{{'' t")
    case None
    then show ?thesis by (simp add: interpolate_from.simps template_parts.simps)
  next
    case start: (Some i)
    let ?after = "drop (i + 2) t"
    show ?thesis
    proof (cases "str_find ''}}'' ?after")
      case None
      then show ?thesis
        using start by (simp add: interpolate_from.simps template_parts.simps [of t] Let_def)
    next
      case (Some j)
      have parts: "template_parts t =
          Lit (take i t) # Slot (trim (take j ?after)) # template_parts (drop (j + 2) ?after)"
        using start Some by (simp add: template_parts.simps [of t] Let_def)
      show ?thesis
      proof (cases "lookup tos pl (trim (take j ?after))")
        case (Inl e)
        then show ?thesis
          using start Some parts by (simp add: interpolate_from.simps [of tos pl out t] Let_def)
      next
        case (Inr v)
        have "interpolate_from tos pl out t =
            interpolate_from tos pl (out @ take i t @ v) (drop (j + 2) ?after)"
          using start Some Inr by (simp add: interpolate_from.simps [of tos pl out t] Let_def)
        then show ?thesis
          using 1 [OF start refl Some Inr] parts Inr by (simp add: rbind_def split: sum.splits)
      qed
    qed
  qed
qed

text \<open>
  A task template is data filled into slots: interpolation renders the parts of the template,
  which do not depend on the payload, so a value that itself looks like a placeholder is inserted
  as text and never expanded.
\<close>

theorem interpolate_is_render:
  "interpolate to_string template payload = render to_string payload (template_parts template)"
  by (simp add: interpolate_def interpolate_from_render rbind_def split: sum.splits)

lemma char_boundary_below_ok:
  "is_char_boundary s (char_boundary_below s n) \<and> char_boundary_below s n \<le> n"
  by (induction n) (auto simp: is_char_boundary_def)

lemma truncate_value_length: "length (truncate_value v) \<le> MAX_SUBSTITUTION + 15"
  using char_boundary_below_ok [of v MAX_SUBSTITUTION]
  by (auto simp: truncate_value_def truncation_mark_def)

lemma lookup_length: "lookup tos pl path = Inr v \<Longrightarrow> length v \<le> MAX_SUBSTITUTION + 15"
  using truncate_value_length
  by (auto simp: lookup_def split: option.splits json.splits)

definition slots :: "part list \<Rightarrow> nat" where
  "slots ps = length (filter (\<lambda>p. case p of Slot _ \<Rightarrow> True | Lit _ \<Rightarrow> False) ps)"

definition literal_length :: "part list \<Rightarrow> nat" where
  "literal_length ps = sum_list (map (\<lambda>p. case p of Lit s \<Rightarrow> length s | Slot _ \<Rightarrow> 0) ps)"

lemma render_length:
  "render tos pl ps = Inr r \<Longrightarrow> length r \<le> literal_length ps + slots ps * (MAX_SUBSTITUTION + 15)"
proof (induction tos pl ps arbitrary: r rule: render.induct)
  case (3 tos pl path ps)
  then obtain v r' where v: "lookup tos pl path = Inr v" "render tos pl ps = Inr r'" "r = v @ r'"
    by (auto simp: rbind_Inr_iff)
  show ?case
    using 3(1) [OF v(2)] lookup_length [OF v(1)] v(3) by (simp add: literal_length_def slots_def)
qed (auto simp: rbind_Inr_iff literal_length_def slots_def)

lemma literal_length_parts: "literal_length (template_parts t) \<le> length t"
proof (induction t rule: template_parts.induct)
  case (1 t)
  show ?case
  proof (cases "\<exists>i j. str_find ''{{'' t = Some i \<and> str_find ''}}'' (drop (i + 2) t) = Some j")
    case True
    then obtain i j where ij: "str_find ''{{'' t = Some i" "str_find ''}}'' (drop (i + 2) t) = Some j"
      by blast
    have "literal_length (template_parts (drop (j + 2) (drop (i + 2) t))) \<le>
        length (drop (j + 2) (drop (i + 2) t))"
      using 1 [OF ij(1) refl ij(2)] .
    moreover have "i + 2 \<le> length t"
      using str_find_shorter [OF ij(1)] by simp
    ultimately show ?thesis
      using ij by (simp add: template_parts.simps [of t] literal_length_def Let_def)
  next
    case False
    then have "template_parts t = [Lit t]"
      by (auto simp: template_parts.simps [of t] Let_def split: option.splits)
    then show ?thesis by (simp add: literal_length_def)
  qed
qed

text \<open>
  A webhook cannot inflate a prompt: the rendered task is no longer than the template plus 4096
  bytes and the truncation mark for each slot.
\<close>

theorem interpolate_bounded:
  assumes "interpolate to_string template payload = Inr task"
  shows "length task \<le> length template + slots (template_parts template) * (4096 + 15)"
  using render_length [of to_string payload "template_parts template" task]
    literal_length_parts [of template] assms
  by (simp add: interpolate_def interpolate_from_render rbind_Inr_iff MAX_SUBSTITUTION_def)

theorem interpolate_bounded_witness:
  "interpolate (\<lambda>_. []) ''fix {{ pr.title }} now'' (JObject [(''pr'', JObject [(''title'', JString ''{{x}}'')])])
     = Inr ''fix {{x}} now'' \<and>
   length ''fix {{x}} now'' \<le> length ''fix {{ pr.title }} now'' +
     slots (template_parts ''fix {{ pr.title }} now'') * (4096 + 15)"
proof -
  have run: "interpolate (\<lambda>_. []) ''fix {{ pr.title }} now''
     (JObject [(''pr'', JObject [(''title'', JString ''{{x}}'')])]) = Inr ''fix {{x}} now''"
    by code_simp
  show ?thesis using interpolate_bounded [OF run] run by blast
qed

section \<open>Webhooks\<close>

lemma config_call_fleet [simp]: "en_fleet (snd (config_call f en)) = en_fleet en"
  by (simp add: config_call_def case_prod_beta)

lemma engine_list_fleet [simp]: "en_fleet (snd (engine_list ee en)) = en_fleet en"
  by (simp add: engine_list_def)

lemma engine_automation_fleet [simp]: "en_fleet (snd (engine_automation ee en i)) = en_fleet en"
  by (simp add: engine_automation_def case_prod_beta split: sum.splits)

lemma save_run_fleet [simp]: "en_fleet (save_run ee en run) = en_fleet en"
  by (simp add: save_run_def)


definition sample_provider :: "nat fleet_provider" where
  "sample_provider =
     \<lparr>fp_ensure_agent = (\<lambda>n spec.
         (if rq_timeout_secs (tk_request spec) = Some (10 ^ 13) then None
          else Some (Inr \<lparr>ah_id = ''a'', ah_workspace = tk_workspace spec, ah_endpoint = None, ah_created = True\<rparr>),
          n + 1)),
      fp_stop_agent = (\<lambda>n i d. (Inr (), n)), fp_restart_agent = (\<lambda>n i. (Inr i, n)),
      fp_remove_agent = (\<lambda>n i f. (Inr (), n)), fp_snapshot = (\<lambda>n. (\<lparr>host = [], workspaces = []\<rparr>, n)),
      fp_readiness = (\<lambda>n. (\<lparr>ready = True, store_writable = True, workspaces_total = 0,
         workspaces_healthy = 0, workspaces_unreachable = 0\<rparr>, n)),
      fp_metrics = (\<lambda>n. \<lparr>ms_events_appended = 0, ms_append_failures = 0,
         ms_unknown_frames = 0, ms_repos_polled = 0, ms_active_attaches = 0\<rparr>), fp_send_input = (\<lambda>n i x. (Inr (), n))\<rparr>"

text \<open>A store with one webhook automation, an engine over it and a fleet that counts its spawns.\<close>

definition sample_webhook :: stored_automation where
  "sample_webhook = \<lparr>sa_automation = sample_automation\<lparr>auto_trigger := Webhook\<rparr>,
     sa_webhook_secret = Some ''key''\<rparr>"

definition listing_ops :: "stored_automation list \<Rightarrow> config_db config_ops" where
  "listing_ops as = (pg_config_ops sample_codec)\<lparr>co_list_automations := (\<lambda>db. (Inr as, db))\<rparr>"

definition sample_engine_env :: "config_db config_ops \<Rightarrow> (config_db, nat) engine_env" where
  "sample_engine_env ops =
     \<lparr>ee_config = ops, ee_fleet = sample_provider, ee_cron = (\<lambda>_. Inr (\<lambda>now. Some (now - 1))),
      ee_stamp = show_int, ee_parse_time = (\<lambda>s. Some 0),
      ee_auth = sample_auth, ee_json_print = (\<lambda>_. []), ee_json_parse = (\<lambda>_. Inr JNull)\<rparr>"

definition sample_engine :: "(config_db, nat) engine" where
  "sample_engine = \<lparr>en_config = sample_config_db\<lparr>cdb_faults := []\<rparr>, en_fleet = 0\<rparr>"


end
