(* ===== verification/Automation_Race.thy ===== *)
theory Automation_Race
  imports Automation_Props
begin

text \<open>
  Replicas that evaluate schedules concurrently (\<open>core/src/automation.rs\<close>, \<open>tick_automations\<close> on every
  replica, over one shared config store). A replica's round is cut at its calls to the store and to
  the fleet; the pieces of any number of replicas, the edits of operators and crashes interleave in
  every order. A round that is not interrupted is the round of the engine.
\<close>

datatype replica_phase =
    Resting
  | Ticking int "stored_automation list"
  | Holding int stored_automation string "stored_automation list"
  | Spawned int automation_run "stored_automation list"
  | Dead

text \<open>\<open>rp_won\<close> and \<open>rp_spawned\<close> record the claims won and the scheduled spawns requested, in order.\<close>

record ('c, 'f) replicas =
  rp_config :: 'c
  rp_fleet :: 'f
  rp_phase :: "nat \<Rightarrow> replica_phase"
  rp_won :: "(string \<times> string) list"
  rp_spawned :: "(string \<times> string) list"

inductive auto_step ::
  "('c, 'f) engine_env \<Rightarrow> (config_op \<Rightarrow> bool) \<Rightarrow> ('c, 'f) replicas \<Rightarrow> ('c, 'f) replicas \<Rightarrow> bool"
  for ee allowed where
  list: "rp_phase g k = Resting \<Longrightarrow> co_list_automations (ee_config ee) (rp_config g) = (r, c) \<Longrightarrow>
     auto_step ee allowed g (g\<lparr>rp_config := c, rp_phase := (rp_phase g)(k :=
       (case r of Inl _ \<Rightarrow> Resting | Inr as \<Rightarrow> Ticking now as))\<rparr>)"
| skip: "rp_phase g k = Ticking now (sa # rest) \<Longrightarrow> owed_tick ee now sa = None \<Longrightarrow>
     auto_step ee allowed g (g\<lparr>rp_phase := (rp_phase g)(k := Ticking now rest)\<rparr>)"
| won: "rp_phase g k = Ticking now (sa # rest) \<Longrightarrow> owed_tick ee now sa = Some tick \<Longrightarrow>
     co_claim (ee_config ee) (rp_config g) (sa_id sa) (ee_stamp ee tick) = (Inr True, c) \<Longrightarrow>
     auto_step ee allowed g (g\<lparr>rp_config := c,
       rp_phase := (rp_phase g)(k := Holding now sa (ee_stamp ee tick) rest),
       rp_won := rp_won g @ [(sa_id sa, ee_stamp ee tick)]\<rparr>)"
| lost: "rp_phase g k = Ticking now (sa # rest) \<Longrightarrow> owed_tick ee now sa = Some tick \<Longrightarrow>
     co_claim (ee_config ee) (rp_config g) (sa_id sa) (ee_stamp ee tick) = (rb, c) \<Longrightarrow> rb \<noteq> Inr True \<Longrightarrow>
     auto_step ee allowed g (g\<lparr>rp_config := c, rp_phase := (rp_phase g)(k := Ticking now rest)\<rparr>)"
| spawn: "rp_phase g k = Holding now sa t rest \<Longrightarrow>
     run_automation ee \<lparr>en_config = rp_config g, en_fleet = rp_fleet g\<rparr> sa t Schedule None = (run, en) \<Longrightarrow>
     auto_step ee allowed g (g\<lparr>rp_fleet := en_fleet en,
       rp_phase := (rp_phase g)(k := (case run of None \<Rightarrow> Dead | Some x \<Rightarrow> Spawned now x rest)),
       rp_spawned := rp_spawned g @ [(sa_id sa, t)]\<rparr>)"
| recorded: "rp_phase g k = Spawned now run rest \<Longrightarrow>
     co_record_run (ee_config ee) (rp_config g) run = (u, c) \<Longrightarrow>
     auto_step ee allowed g (g\<lparr>rp_config := c, rp_phase := (rp_phase g)(k := Ticking now rest)\<rparr>)"
| rest: "rp_phase g k = Ticking now [] \<Longrightarrow>
     auto_step ee allowed g (g\<lparr>rp_phase := (rp_phase g)(k := Resting)\<rparr>)"
| crash: "auto_step ee allowed g (g\<lparr>rp_phase := (rp_phase g)(k := Resting)\<rparr>)"
| edit: "allowed a \<Longrightarrow> config_act (ee_config ee) (rp_config g) a = ([], c) \<Longrightarrow>
     auto_step ee allowed g (g\<lparr>rp_config := c\<rparr>)"

inductive auto_reach ::
  "('c, 'f) engine_env \<Rightarrow> (config_op \<Rightarrow> bool) \<Rightarrow> ('c, 'f) replicas \<Rightarrow> ('c, 'f) replicas \<Rightarrow> bool"
  for ee allowed where
  refl: "auto_reach ee allowed g g"
| step: "auto_reach ee allowed g g' \<Longrightarrow> auto_step ee allowed g' g'' \<Longrightarrow> auto_reach ee allowed g g''"

lemma auto_reach_trans:
  "auto_reach ee ok g' g'' \<Longrightarrow> auto_reach ee ok g g' \<Longrightarrow> auto_reach ee ok g g''"
  by (induction rule: auto_reach.induct) (auto intro: auto_reach.step)

lemma auto_reach_step: "auto_step ee ok g g' \<Longrightarrow> auto_reach ee ok g g'"
  using auto_reach.step [OF auto_reach.refl] .

definition replicas_start :: "'c \<Rightarrow> 'f \<Rightarrow> ('c, 'f) replicas" where
  "replicas_start c f = \<lparr>rp_config = c, rp_fleet = f, rp_phase = (\<lambda>_. Resting), rp_won = [], rp_spawned = []\<rparr>"

section \<open>A round of the engine is a path\<close>

definition engine_at :: "('c, 'f) replicas \<Rightarrow> ('c, 'f) engine" where
  "engine_at g = \<lparr>en_config = rp_config g, en_fleet = rp_fleet g\<rparr>"

lemma engine_eta: "\<lparr>en_config = en_config en, en_fleet = en_fleet en\<rparr> = en"
  by simp

lemma tick_one_path:
  assumes "rp_phase g k = Ticking now (sa # rest)" "tick_one ee now sa (engine_at g) = (True, en)"
  shows "\<exists>g'. auto_reach ee ok g g' \<and> rp_phase g' k = Ticking now rest \<and> engine_at g' = en"
proof (cases "owed_tick ee now sa")
  case None
  then have "en = engine_at g" using assms(2) by (simp add: tick_one_def)
  then show ?thesis
    using auto_reach_step [OF auto_step.skip [OF assms(1) None]]
    by (intro exI conjI) (assumption, simp_all add: engine_at_def)
next
  case (Some tick)
  let ?t = "ee_stamp ee tick"
  obtain rb c where claim: "co_claim (ee_config ee) (rp_config g) (sa_id sa) ?t = (rb, c)" by fastforce
  have call: "config_call (\<lambda>c. co_claim (ee_config ee) c (sa_id sa) ?t) (engine_at g) =
      (rb, (engine_at g)\<lparr>en_config := c\<rparr>)"
    using claim by (simp add: config_call_def engine_at_def)
  show ?thesis
  proof (cases "rb = Inr True")
    case False
    then have "en = (engine_at g)\<lparr>en_config := c\<rparr>"
      using assms(2) Some call by (simp add: tick_one_def Let_def split: sum.splits bool.splits)
    then show ?thesis
      using auto_reach_step [OF auto_step.lost [OF assms(1) Some claim False]]
      by (intro exI conjI) (assumption, simp_all add: engine_at_def)
  next
    case True
    define g1 where "g1 = g\<lparr>rp_config := c, rp_phase := (rp_phase g)(k := Holding now sa ?t rest),
       rp_won := rp_won g @ [(sa_id sa, ?t)]\<rparr>"
    have s1: "auto_reach ee ok g g1"
      unfolding g1_def using assms(1) Some claim True by (intro auto_reach_step auto_step.won) simp_all
    obtain run en1 where run: "run_automation ee (engine_at g1) sa ?t Schedule None = (run, en1)"
      by fastforce
    have at1: "engine_at g1 = (engine_at g)\<lparr>en_config := c\<rparr>"
      by (simp add: g1_def engine_at_def)
    obtain x where x: "run = Some x" "en = save_run ee en1 x"
      using assms(2) Some call True run at1 by (auto simp: tick_one_def Let_def split: option.splits)
    define g2 where "g2 = g1\<lparr>rp_fleet := en_fleet en1,
       rp_phase := (rp_phase g1)(k := (case run of None \<Rightarrow> Dead | Some x \<Rightarrow> Spawned now x rest)),
       rp_spawned := rp_spawned g1 @ [(sa_id sa, ?t)]\<rparr>"
    have "rp_phase g1 k = Holding now sa ?t rest" by (simp add: g1_def)
    then have s2: "auto_step ee ok g1 g2"
      unfolding g2_def using run by (intro auto_step.spawn) (simp_all add: engine_at_def)
    have cfg: "en_config en1 = rp_config g1"
      using run by (auto simp: run_automation_def Let_def engine_at_def split: prod.splits option.splits sum.splits)
    obtain u c' where rec: "co_record_run (ee_config ee) (rp_config g2) x = (u, c')" by fastforce
    have "rp_phase g2 k = Spawned now x rest" using x(1) by (simp add: g2_def)
    then have s3: "auto_step ee ok g2 (g2\<lparr>rp_config := c', rp_phase := (rp_phase g2)(k := Ticking now rest)\<rparr>)"
      using rec by (rule auto_step.recorded)
    have "en = \<lparr>en_config = c', en_fleet = en_fleet en1\<rparr>"
      using x(2) rec cfg by (simp add: save_run_def config_call_def g2_def)
    moreover have "auto_reach ee ok g (g2\<lparr>rp_config := c', rp_phase := (rp_phase g2)(k := Ticking now rest)\<rparr>)"
      using s1 s2 s3 by (blast intro: auto_reach.step)
    ultimately show ?thesis
      by (intro exI conjI) (assumption, simp_all add: engine_at_def g2_def)
  qed
qed

lemma tick_all_path:
  assumes "rp_phase g k = Ticking now as" "tick_all ee now as (engine_at g) = (True, en)"
  shows "\<exists>g'. auto_reach ee ok g g' \<and> rp_phase g' k = Ticking now [] \<and> engine_at g' = en"
  using assms
proof (induction as arbitrary: g)
  case Nil
  then show ?case by (auto intro: auto_reach.refl)
next
  case (Cons sa as)
  obtain b en1 where one: "tick_one ee now sa (engine_at g) = (b, en1)" by fastforce
  then have b: "b = True" and rest: "tick_all ee now as en1 = (True, en)"
    using Cons.prems(2) by (auto split: bool.splits)
  obtain g1 where g1: "auto_reach ee ok g g1" "rp_phase g1 k = Ticking now as" "engine_at g1 = en1"
    using tick_one_path [OF Cons.prems(1) one [unfolded b]] by blast
  obtain g2 where "auto_reach ee ok g1 g2" "rp_phase g2 k = Ticking now []" "engine_at g2 = en"
    using Cons.IH [OF g1(2)] rest g1(3) by blast
  then show ?case using auto_reach_trans [OF _ g1(1)] by blast
qed

section \<open>No tick is spawned twice\<close>

definition held :: "string \<Rightarrow> replica_phase \<Rightarrow> string option" where
  "held i ph = (case ph of Holding _ sa t _ \<Rightarrow> if sa_id sa = i then Some t else None | _ \<Rightarrow> None)"

lemma held_simps [simp]:
  "held i Resting = None" "held i (Ticking now as) = None" "held i (Spawned now run as) = None"
  "held i Dead = None" "held i (Holding now sa t as) = (if sa_id sa = i then Some t else None)"
  by (simp_all add: held_def)

text \<open>
  The bookkeeping of one automation: every tick won is at most the last fired one; what was spawned
  or is held was won; a held tick is held once and not spawned.
\<close>

definition race_ledger :: "string \<Rightarrow> ('c, 'f) replicas \<Rightarrow> bool" where
  "race_ledger i g \<longleftrightarrow>
     distinct (ticks_won i (rp_won g)) \<and> distinct (ticks_won i (rp_spawned g)) \<and>
     set (ticks_won i (rp_spawned g)) \<subseteq> set (ticks_won i (rp_won g)) \<and>
     (\<forall>k t. held i (rp_phase g k) = Some t \<longrightarrow>
        t \<in> set (ticks_won i (rp_won g)) \<and> t \<notin> set (ticks_won i (rp_spawned g))) \<and>
     (\<forall>k k' t. held i (rp_phase g k) = Some t \<and> held i (rp_phase g k') = Some t \<longrightarrow> k = k')"

definition fired_bound :: "string \<Rightarrow> (string \<rightharpoonup> stored_automation) \<Rightarrow> string list \<Rightarrow> bool" where
  "fired_bound i v ticks \<longleftrightarrow>
     (\<forall>t \<in> set ticks. \<exists>l. Option.bind (v i) sa_fired = Some l \<and> t \<le> l)"

lemma ledger_drop:
  "race_ledger i g \<Longrightarrow> held i ph = None \<Longrightarrow> race_ledger i (g\<lparr>rp_phase := (rp_phase g)(k := ph)\<rparr>)"
  "race_ledger i (g\<lparr>rp_config := c\<rparr>) \<longleftrightarrow> race_ledger i g"
  "race_ledger i g \<Longrightarrow> held i ph = None \<Longrightarrow>
     race_ledger i (g\<lparr>rp_config := c, rp_phase := (rp_phase g)(k := ph)\<rparr>)"
  by (auto simp: race_ledger_def)

lemma ledger_won:
  assumes "race_ledger i g" "rp_phase g k = Ticking now as" "sa_id sa = i \<longrightarrow> t \<notin> set (ticks_won i (rp_won g))"
  shows "race_ledger i (g\<lparr>rp_config := c, rp_phase := (rp_phase g)(k := Holding now sa t rest),
       rp_won := rp_won g @ [(sa_id sa, t)]\<rparr>)"
  using assms unfolding race_ledger_def by (auto split: if_splits)

lemma ledger_spawn:
  assumes "race_ledger i g" "rp_phase g k = Holding now sa t rest" "held i ph = None"
  shows "race_ledger i (g\<lparr>rp_fleet := f, rp_phase := (rp_phase g)(k := ph),
       rp_spawned := rp_spawned g @ [(sa_id sa, t)]\<rparr>)"
proof (cases "sa_id sa = i")
  case True
  then have "held i (rp_phase g k) = Some t" using assms(2) by simp
  then have "t \<in> set (ticks_won i (rp_won g))" "t \<notin> set (ticks_won i (rp_spawned g))"
    "\<And>k'. held i (rp_phase g k') = Some t \<Longrightarrow> k' = k"
    using assms(1) unfolding race_ledger_def by blast+
  then show ?thesis
    using assms(1,3) True unfolding race_ledger_def by auto
next
  case False
  then show ?thesis using assms(1,3) unfolding race_ledger_def by auto
qed

context config_store
begin

definition race_ok :: "string \<Rightarrow> ('c, 'f) replicas \<Rightarrow> bool" where
  "race_ok i g \<longleftrightarrow> inv (rp_config g) \<and> race_ledger i g \<and>
     fired_bound i (view (rp_config g)) (ticks_won i (rp_won g))"

lemma race_step_ok:
  fixes g :: "('c, 'f) replicas"
  assumes "auto_step ee allowed g g'" "ee_config ee = ops" "race_ok i g"
    and allowed: "\<And>a. allowed a \<Longrightarrow> a \<noteq> CDelete i \<and> (\<forall>sa. a = CUpsert sa \<longrightarrow> good sa)"
  shows "race_ok i g'"
  using assms(1)
proof cases
  case (list k r c now)
  then show ?thesis
    using assms(2,3) list_ok [of "rp_config g" r c]
    by (auto simp: race_ok_def ledger_drop split: sum.splits)
next
  case (won k now sa rest tick c)
  have claim: "co_claim ops (rp_config g) (sa_id sa) (ee_stamp ee tick) = (Inr True, c)"
    using won assms(2) by simp
  have inv: "inv (rp_config g)" using assms(3) by (simp add: race_ok_def)
  obtain old where old: "inv c" "view (rp_config g) (sa_id sa) = Some old" "beats (ee_stamp ee tick) (sa_fired old)"
      "view c = (view (rp_config g))(sa_id sa \<mapsto> with_fired old (Some (ee_stamp ee tick)))"
    using claim_ok [OF inv claim] by auto
  have fresh: "t < ee_stamp ee tick" if "sa_id sa = i" "t \<in> set (ticks_won i (rp_won g))" for t
    using assms(3) that old(2,3) by (auto simp: race_ok_def fired_bound_def beats_def)
  have "fired_bound i (view c) (ticks_won i (rp_won g @ [(sa_id sa, ee_stamp ee tick)]))"
    using assms(3) old(4) fresh by (auto simp: race_ok_def fired_bound_def dest: less_imp_le)
  moreover have "race_ledger i g'"
    unfolding won(1) using assms(3) won(2) fresh by (intro ledger_won) (auto simp: race_ok_def)
  ultimately show ?thesis using won(1) old(1) by (simp add: race_ok_def)
next
  case (lost k now sa rest tick rb c)
  then show ?thesis
    using assms(2,3) claim_ok [of "rp_config g" "sa_id sa" "ee_stamp ee tick" rb c]
    by (auto simp: race_ok_def ledger_drop split: sum.splits bool.splits)
next
  case (spawn k now sa t rest run en)
  then show ?thesis
    using assms(3) ledger_spawn [of i g k now sa t rest] by (auto simp: race_ok_def split: option.splits)
next
  case (recorded k now run rest u c)
  then show ?thesis
    using assms(2,3) record_frame [of "rp_config g" run u c] by (auto simp: race_ok_def ledger_drop)
next
  case (edit a c)
  have "inv c \<and> Option.bind (view c i) sa_fired = Option.bind (view (rp_config g) i) sa_fired"
    using act_step [of "rp_config g" a "[]" c i] allowed [OF edit(2)] edit(3) assms(2,3)
    by (auto simp: race_ok_def)
  then show ?thesis using assms(3) edit(1) by (simp add: race_ok_def ledger_drop fired_bound_def)
qed (use assms(3) in \<open>auto simp: race_ok_def ledger_drop\<close>)

lemma race_reach_ok:
  fixes g :: "('c, 'f) replicas"
  assumes "auto_reach ee allowed g g'" "ee_config ee = ops" "race_ok i g"
    and "\<And>a. allowed a \<Longrightarrow> a \<noteq> CDelete i \<and> (\<forall>sa. a = CUpsert sa \<longrightarrow> good sa)"
  shows "race_ok i g'"
  using assms(1,3)
proof (induction rule: auto_reach.induct)
  case (step g g' g'')
  then show ?case using race_step_ok [OF step.hyps(2) assms(2)] assms(4) by blast
qed

lemma race_start_ok: "inv c \<Longrightarrow> race_ok i (replicas_start c f)"
  by (simp add: race_ok_def race_ledger_def fired_bound_def replicas_start_def)

end


definition sample_race_db :: config_db where
  "sample_race_db = \<lparr>cdb_repos = [], cdb_autos = [\<lparr>ar_id = ''nightly'', ar_spec = [], ar_secret = None,
     ar_last_fired = None\<rparr>], cdb_runs = [], cdb_faults = []\<rparr>"


end
