(* ===== verification/Api_Auth.thy ===== *)
theory Api_Auth
  imports Auth_Tokens
begin

text \<open>
  Inbound authentication of the API (\<open>api/src/auth\<close>): the scope table of the routes, the session
  cookies, the middleware every request passes, and the handlers of \<open>/api/session\<close>. A header map is
  the list of its entries, each value as \<open>HeaderValue::to_str\<close> reads it (\<open>None\<close> when it is not visible
  ASCII); the clock is an argument.
\<close>

type_synonym headers = "(string \<times> string option) list"

text \<open>\<open>headers.get(name)\<close> is the first entry of that name; then \<open>to_str().ok()\<close>.\<close>

definition header_text :: "headers \<Rightarrow> string \<Rightarrow> string option" where
  "header_text hs name = Option.bind (map_of hs name) id"

section \<open>Configuration\<close>

definition session_key_min_len :: nat where
  "session_key_min_len = 32"

type_synonym session_key = "u8 list"

definition session_key_from_bytes :: "u8 list \<Rightarrow> string + session_key" where
  "session_key_from_bytes bytes =
     (if length bytes < session_key_min_len
      then Inl (''session key must be at least '' @ show_nat session_key_min_len @
                '' bytes (got '' @ show_nat (length bytes) @ '')'')
      else Inr bytes)"

record auth_state =
  as_tokens :: "token_entry list option"
  as_session_key :: session_key
  as_cookie_secure :: bool

definition auth_disabled :: "session_key \<Rightarrow> auth_state" where
  "auth_disabled random = \<lparr>as_tokens = None, as_session_key = random, as_cookie_secure = False\<rparr>"

definition auth_enabled :: "token_entry list \<Rightarrow> session_key \<Rightarrow> bool \<Rightarrow> auth_state" where
  "auth_enabled toks key secure =
     \<lparr>as_tokens = Some toks, as_session_key = key, as_cookie_secure = secure\<rparr>"

definition is_enabled :: "auth_state \<Rightarrow> bool" where
  "is_enabled a \<longleftrightarrow> as_tokens a \<noteq> None"

datatype via = Bearer | Cookie

record principal =
  token_name :: string
  pr_scope :: scope
  pr_via :: via
  expires_unix :: "int option"

datatype access = Open | Requires scope

section \<open>The scope table\<close>

definition open_routes :: "string list" where
  "open_routes = [''/healthz'', ''/readyz'', ''/'', ''/assets/{*path}'', ''/api/session'', ''/api/openapi.json'']"

definition read_routes :: "string list" where
  "read_routes =
     [''/api/metrics'', ''/api/capabilities'', ''/api/fleet'', ''/api/fleet/stream'', ''/api/usage'',
      ''/api/workspaces'', ''/api/workspaces/{workspace}/agents'', ''/api/agents/{id}'',
      ''/api/agents/{id}/events'', ''/api/agents/{id}/stream'', ''/api/automations'',
      ''/api/automations/{id}/runs'']"

definition operate_routes :: "string list" where
  "operate_routes =
     [''/api/workspaces/{workspace}/agents'', ''/api/agents/{id}/kill'', ''/api/agents/{id}/respawn'',
      ''/api/agents/{id}/input'', ''/api/agents/{id}/end-input'', ''/api/automations/{id}/run'']"

definition required_access :: "string \<Rightarrow> string \<Rightarrow> access" where
  "required_access method route =
     (if route \<in> set open_routes then Open
      else if method = ''POST'' \<and> route = ''/api/automations/{id}/trigger'' then Open
      else if method \<in> {''GET'', ''HEAD''} \<and> route \<in> set read_routes then Requires Read
      else if (method = ''POST'' \<and> route \<in> set operate_routes) \<or>
              (method = ''DELETE'' \<and> route = ''/api/agents/{id}'') then Requires Operate
      else if route = ''/mcp'' then Requires Operate
      else Requires Admin)"

section \<open>Session cookies (\<open>session.rs\<close>)\<close>

definition session_ttl_secs :: int where
  "session_ttl_secs = 12 * 60 * 60"

definition session_mac :: "auth_port \<Rightarrow> session_key \<Rightarrow> string \<Rightarrow> int \<Rightarrow> u8 list \<Rightarrow> string" where
  "session_mac p key name expires hash =
     b64url p (hmac_sha256 p key
       (as_bytes (''v1'' @ [CHR 0x0A] @ name @ [CHR 0x0A] @ show_int expires @ [CHR 0x0A]) @ take 16 hash))"

definition session_sign :: "auth_port \<Rightarrow> session_key \<Rightarrow> token_entry \<Rightarrow> int \<Rightarrow> string" where
  "session_sign p key e expires =
     ''v1.'' @ te_name e @ ''.'' @ show_int expires @ ''.'' @
     session_mac p key (te_name e) expires (te_hash e)"

definition session_verify ::
  "auth_port \<Rightarrow> session_key \<Rightarrow> token_entry list \<Rightarrow> string \<Rightarrow> int \<Rightarrow> (token_entry \<times> int) option" where
  "session_verify p key toks value now =
     (case splitn 4 (CHR ''.'') value of
        [version, name, exp_text, given] \<Rightarrow>
          if version \<noteq> ''v1'' then None
          else (case parse_i64 exp_text of
              None \<Rightarrow> None
            | Some expires \<Rightarrow>
                if expires \<le> now then None
                else (case by_name toks name of
                    None \<Rightarrow> None
                  | Some e \<Rightarrow>
                      if constant_time_eq (as_bytes (session_mac p key name expires (te_hash e)))
                           (as_bytes given)
                      then Some (e, expires) else None))
      | _ \<Rightarrow> None)"

definition cookie_value :: "headers \<Rightarrow> string option" where
  "cookie_value hs =
     find_map (\<lambda>pair. strip_prefix ''prospero_session='' (trim pair))
       (concat (map (split_on (CHR '';''))
         (List.map_filter snd (filter (\<lambda>(n, v). n = ''cookie'') hs))))"

definition same_origin :: "headers \<Rightarrow> bool" where
  "same_origin hs \<longleftrightarrow>
     (case header_text hs ''sec-fetch-site'' of
        Some site \<Rightarrow> site = ''same-origin''
      | None \<Rightarrow>
          (case (header_text hs ''origin'', header_text hs ''host'') of
             (Some origin, Some hst) \<Rightarrow> map_option snd (split_once ''://'' origin) = Some hst
           | _ \<Rightarrow> False))"

definition ascii_lower :: "char \<Rightarrow> char" where
  "ascii_lower c = (if is_ascii_uppercase c then byte (of_char c + 32) else c)"

definition eq_ignore_ascii_case :: "string \<Rightarrow> string \<Rightarrow> bool" where
  "eq_ignore_ascii_case a b \<longleftrightarrow> map ascii_lower a = map ascii_lower b"

definition is_https :: "headers \<Rightarrow> bool" where
  "is_https hs \<longleftrightarrow>
     (case header_text hs ''x-forwarded-proto'' of
        None \<Rightarrow> False | Some proto \<Rightarrow> eq_ignore_ascii_case proto ''https'')"

definition set_cookie :: "string \<Rightarrow> int \<Rightarrow> bool \<Rightarrow> string" where
  "set_cookie value max_age secure =
     ''prospero_session='' @ value @ ''; HttpOnly; SameSite=Strict; Path=/; Max-Age='' @ show_int max_age @
     (if secure then ''; Secure'' else [])"

definition clear_cookie :: "bool \<Rightarrow> string" where
  "clear_cookie secure = set_cookie [] 0 secure"

section \<open>Resolving the caller\<close>

definition subject_header :: "auth_port \<Rightarrow> headers \<Rightarrow> string + string option" where
  "subject_header p hs =
     (case map_of hs ''x-prospero-on-behalf-of'' of
        None \<Rightarrow> Inr None
      | Some None \<Rightarrow> Inl ''on-behalf-of must be valid UTF-8 text''
      | Some (Some text) \<Rightarrow>
          (case validate_subject p text of Inl e \<Rightarrow> Inl e | Inr s \<Rightarrow> Inr (Some s)))"

definition bearer_token :: "headers \<Rightarrow> string option" where
  "bearer_token hs =
     Option.bind (header_text hs ''authorization'') (\<lambda>v. map_option trim (strip_prefix ''Bearer '' v))"

definition resolve_principal :: "auth_port \<Rightarrow> auth_state \<Rightarrow> int \<Rightarrow> headers \<Rightarrow> principal option" where
  "resolve_principal p a now hs =
     (case as_tokens a of
        None \<Rightarrow> None
      | Some toks \<Rightarrow>
          (case bearer_token hs of
             Some token \<Rightarrow>
               map_option (\<lambda>e. \<lparr>token_name = te_name e, pr_scope = te_scope e, pr_via = Bearer,
                               expires_unix = None\<rparr>) (authenticate p toks token)
           | None \<Rightarrow>
               (case cookie_value hs of
                  None \<Rightarrow> None
                | Some v \<Rightarrow>
                    map_option (\<lambda>(e, expires).
                        \<lparr>token_name = te_name e, pr_scope = te_scope e, pr_via = Cookie,
                         expires_unix = Some expires\<rparr>)
                      (session_verify p (as_session_key a) toks v now))))"

section \<open>The middleware\<close>

record request =
  rq_method :: string
  rq_route :: "string option"
  rq_headers :: headers

record audit_line =
  au_actor :: string
  au_on_behalf_of :: string
  au_method :: string
  au_route :: string

text \<open>
  \<open>next\<close> is the handler with its effect on the state of the server, run with the actor and the
  subject of its task locals and the principal of its request. The result is the rejection or the
  handler's response, the audit lines and the state.
\<close>

definition middleware ::
  "auth_port \<Rightarrow> auth_state \<Rightarrow> int \<Rightarrow> request \<Rightarrow>
   (string option \<Rightarrow> string option \<Rightarrow> principal option \<Rightarrow> 'w \<Rightarrow> 'r \<times> 'w) \<Rightarrow> 'w \<Rightarrow>
   (api_error + 'r) \<times> audit_line list \<times> 'w" where
  "middleware p a now req next w =
     (case subject_header p (rq_headers req) of
        Inl why \<Rightarrow> (Inl (BadRequest why), [], w)
      | Inr subject \<Rightarrow>
          if \<not> is_enabled a
          then (let (r, w') = next None subject None w in (Inr r, [], w'))
          else
            let route = (case rq_route req of None \<Rightarrow> [] | Some r \<Rightarrow> r)
            in (case required_access (rq_method req) route of
                 Open \<Rightarrow> (let (r, w') = next None subject None w in (Inr r, [], w'))
               | Requires need \<Rightarrow>
                   (case resolve_principal p a now (rq_headers req) of
                      None \<Rightarrow> (Inl ApiUnauthorized, [], w)
                    | Some pr \<Rightarrow>
                        if pr_scope pr < need
                        then (Inl (Forbidden (''requires scope '' @ scope_as_str need)), [], w)
                        else if pr_via pr = Cookie \<and> rq_method req \<notin> {''GET'', ''HEAD''} \<and>
                                \<not> same_origin (rq_headers req)
                        then (Inl (Forbidden ''cross-origin request''), [], w)
                        else
                          let lines = (if rq_method req \<notin> {''GET'', ''HEAD''}
                                       then [\<lparr>au_actor = token_name pr,
                                              au_on_behalf_of = (case subject of None \<Rightarrow> ''-'' | Some s \<Rightarrow> s),
                                              au_method = rq_method req, au_route = route\<rparr>]
                                       else []);
                              (r, w') = next (Some (token_name pr)) subject (Some pr) w
                          in (Inr r, lines, w'))))"

section \<open>The session handlers (\<open>handlers.rs\<close>)\<close>

datatype session_info = SiDisabled | SiToken string scope "string option"

definition session_info_of :: "auth_port \<Rightarrow> principal \<Rightarrow> session_info" where
  "session_info_of p pr =
     SiToken (token_name pr) (pr_scope pr) (Option.bind (expires_unix pr) (rfc3339_of_unix p))"

definition get_session :: "auth_port \<Rightarrow> auth_state \<Rightarrow> int \<Rightarrow> headers \<Rightarrow> api_error + session_info" where
  "get_session p a now hs =
     (if \<not> is_enabled a then Inr SiDisabled
      else case resolve_principal p a now hs of
          None \<Rightarrow> Inl ApiUnauthorized
        | Some pr \<Rightarrow> Inr (session_info_of p pr))"

text \<open>The response of \<open>post_session\<close> is its body and the \<open>Set-Cookie\<close> header.\<close>

definition post_session ::
  "auth_port \<Rightarrow> auth_state \<Rightarrow> int \<Rightarrow> headers \<Rightarrow> string \<Rightarrow> api_error + session_info \<times> string" where
  "post_session p a now hs token =
     (case as_tokens a of
        None \<Rightarrow> Inl (NotFound ''authentication is disabled'')
      | Some toks \<Rightarrow>
          (case authenticate p toks token of
             None \<Rightarrow> Inl ApiUnauthorized
           | Some e \<Rightarrow>
               let expires = now + session_ttl_secs;
                   value = session_sign p (as_session_key a) e expires;
                   secure = (as_cookie_secure a \<or> is_https hs);
                   pr = \<lparr>token_name = te_name e, pr_scope = te_scope e, pr_via = Cookie,
                         expires_unix = Some expires\<rparr>
               in Inr (session_info_of p pr, set_cookie value session_ttl_secs secure)))"

definition delete_session :: "auth_state \<Rightarrow> headers \<Rightarrow> nat \<times> string" where
  "delete_session a hs = (204, clear_cookie (as_cookie_secure a \<or> is_https hs))"

section \<open>The scope table\<close>

lemma mutation_needs_operate:
  "m \<noteq> ''GET'' \<Longrightarrow> m \<noteq> ''HEAD'' \<Longrightarrow> required_access m r = Requires sc \<Longrightarrow> Operate \<le> sc"
  by (cases sc) (simp_all add: required_access_def less_eq_scope_def split: if_splits)

text \<open>
  The scope table fails closed. The routes that need no credential are the listed ones and the
  webhook trigger; any other request that is not a read needs at least the operate scope; and a
  route that no row of the table lists needs admin, whatever the method.
\<close>

theorem required_access_fails_closed:
  "(required_access m r = Open \<longleftrightarrow>
      r \<in> set open_routes \<or> (m = ''POST'' \<and> r = ''/api/automations/{id}/trigger'')) \<and>
   (m \<noteq> ''GET'' \<and> m \<noteq> ''HEAD'' \<and> required_access m r \<noteq> Open \<longrightarrow>
      (\<exists>sc. required_access m r = Requires sc \<and> Operate \<le> sc)) \<and>
   (r \<notin> set (open_routes @ read_routes @ operate_routes @
            [''/mcp'', ''/api/agents/{id}'', ''/api/automations/{id}/trigger'']) \<longrightarrow>
      required_access m r = Requires Admin)"
proof (intro conjI impI)
  show "required_access m r = Open \<longleftrightarrow>
      r \<in> set open_routes \<or> (m = ''POST'' \<and> r = ''/api/automations/{id}/trigger'')"
    by (simp add: required_access_def)
  show "\<exists>sc. required_access m r = Requires sc \<and> Operate \<le> sc"
    if "m \<noteq> ''GET'' \<and> m \<noteq> ''HEAD'' \<and> required_access m r \<noteq> Open"
    using that mutation_needs_operate [of m r] by (cases "required_access m r") auto
qed (simp add: required_access_def)

theorem required_access_fails_closed_witness:
  "required_access ''DELETE'' ''/api/secrets'' = Requires Admin \<and>
   required_access ''POST'' ''/api/agents/{id}/kill'' \<noteq> Open \<and>
   (\<exists>sc. required_access ''POST'' ''/api/agents/{id}/kill'' = Requires sc \<and> Operate \<le> sc)"
proof -
  have "''/api/secrets'' \<notin> set (open_routes @ read_routes @ operate_routes @
            [''/mcp'', ''/api/agents/{id}'', ''/api/automations/{id}/trigger''])"
    by code_simp
  moreover have "required_access ''POST'' ''/api/agents/{id}/kill'' \<noteq> Open"
    by code_simp
  ultimately show ?thesis
    using required_access_fails_closed [of "''DELETE''" "''/api/secrets''"]
      required_access_fails_closed [of "''POST''" "''/api/agents/{id}/kill''"] by blast
qed

section \<open>Session cookies\<close>

lemma show_int_no_dot: "CHR ''.'' \<notin> set (show_int i)"
  using show_nat_digits [of "nat i"] show_nat_digits [of "nat (- i)"]
  by (auto simp: show_int_def list_all_iff)

lemma name_no_dot: "validate_token_name p n = Inr () \<Longrightarrow> CHR ''.'' \<notin> set n"
  using valid_name(4) [of p n]
  by (auto simp: list_all_iff name_char_def is_ascii_lowercase_def is_ascii_digit_def)

lemma splitn_field:
  "d \<notin> set f \<Longrightarrow> splitn (Suc (Suc n)) d (f @ d # rest) = f # splitn (Suc n) d rest"
  by simp

lemma splitn_cookie:
  assumes "CHR ''.'' \<notin> set n" "CHR ''.'' \<notin> set t"
  shows "splitn 4 (CHR ''.'') (''v1.'' @ n @ ''.'' @ t @ ''.'' @ m) = [''v1'', n, t, m]"
proof -
  have "splitn (Suc (Suc 2)) (CHR ''.'') (''v1'' @ CHR ''.'' # (n @ CHR ''.'' # (t @ CHR ''.'' # m))) =
      [''v1'', n, t, m]"
    using assms by (simp only: splitn_field numeral_2_eq_2) simp
  then show ?thesis by (simp add: eval_nat_numeral)
qed

lemma splitn_Suc_Some:
  assumes "splitn (Suc (Suc n)) d s = f # g # fs"
  shows "\<exists>rest. s = f @ d # rest \<and> splitn (Suc n) d rest = g # fs"
proof (cases "dropWhile (\<lambda>c. c \<noteq> d) s")
  case Nil
  then show ?thesis using assms by (simp del: dropWhile_eq_Nil_conv)
next
  case (Cons x rest)
  then have "x = d"
    using hd_dropWhile [of "\<lambda>c. c \<noteq> d" s] by simp
  then have "s = takeWhile (\<lambda>c. c \<noteq> d) s @ d # rest"
    using takeWhile_dropWhile_id [of "\<lambda>c. c \<noteq> d" s] Cons by simp
  then show ?thesis using assms Cons by auto
qed

lemma sign_verify:
  assumes "by_name toks (te_name e) = Some e" "validate_token_name p (te_name e) = Inr ()"
    "now < expires" "- (2 ^ 63) \<le> expires" "expires < 2 ^ 63"
  shows "session_verify p key toks (session_sign p key e expires) now = Some (e, expires)"
  using assms name_no_dot [OF assms(2)] show_int_no_dot [of expires] parse_i64_show_int [OF assms(4,5)]
  by (simp add: session_verify_def session_sign_def splitn_cookie constant_time_eq_iff
      del: splitn.simps append_Cons)

lemma splitn_4:
  assumes "splitn 4 d s = [a, b, c, r]"
  shows "s = a @ [d] @ b @ [d] @ c @ [d] @ r"
proof -
  have "splitn (Suc (Suc (Suc (Suc 0)))) d s = [a, b, c, r]"
    using assms by (simp add: eval_nat_numeral)
  from splitn_Suc_Some [OF this] obtain s1 where
    s1: "s = a @ d # s1" "splitn (Suc (Suc (Suc 0))) d s1 = [b, c, r]" by auto
  from splitn_Suc_Some [OF s1(2)] obtain s2 where
    s2: "s1 = b @ d # s2" "splitn (Suc (Suc 0)) d s2 = [c, r]" by auto
  from splitn_Suc_Some [OF s2(2)] obtain s3 where "s2 = c @ d # s3" "splitn (Suc 0) d s3 = [r]"
    by auto
  with s1 s2 show ?thesis by simp
qed

text \<open>
  C20. A session cookie that verifies names a token of the current tokens file, has not expired, and
  carries the MAC under the server's key of that name, its expiry and the current hash of the token:
  with the token removed there is no session, and with the token rotated the old cookie verifies
  only if the MAC over the new hash collides with the one over the old hash.
\<close>

theorem session_verify_sound:
  assumes "session_verify p key toks v now = Some (e, expires)"
  shows "e \<in> set toks \<and> now < expires \<and>
    (\<exists>t. parse_i64 t = Some expires \<and>
       v = ''v1.'' @ te_name e @ ''.'' @ t @ ''.'' @ session_mac p key (te_name e) expires (te_hash e)) \<and>
    (\<forall>old. v = session_sign p key old expires \<and> validate_token_name p (te_name old) = Inr () \<longrightarrow>
       te_name e = te_name old \<and>
       session_mac p key (te_name e) expires (te_hash e) = session_mac p key (te_name e) expires (te_hash old))"
proof -
  obtain n t given where split: "splitn 4 (CHR ''.'') v = [''v1'', n, t, given]"
    and t: "parse_i64 t = Some expires" and live: "now < expires" and e: "by_name toks n = Some e"
    and mac: "session_mac p key n expires (te_hash e) = given"
    using assms
    by (auto simp: session_verify_def constant_time_eq_iff split: list.splits option.splits if_splits)
  have v: "v = ''v1.'' @ te_name e @ ''.'' @ t @ ''.'' @ session_mac p key (te_name e) expires (te_hash e)"
    using splitn_4 [OF split] by_name_Some [OF e] mac by simp
  have rotated: "te_name e = te_name old \<and>
       session_mac p key (te_name e) expires (te_hash e) = session_mac p key (te_name e) expires (te_hash old)"
    if "v = session_sign p key old expires" "validate_token_name p (te_name old) = Inr ()" for old
  proof -
    have "splitn 4 (CHR ''.'') v = [''v1'', te_name old, show_int expires,
        session_mac p key (te_name old) expires (te_hash old)]"
      using that(1) splitn_cookie [OF name_no_dot [OF that(2)] show_int_no_dot]
      by (simp only: session_sign_def)
    then show ?thesis using split mac by_name_Some [OF e] by auto
  qed
  show ?thesis
    using by_name_Some [OF e] live t v rotated by blast
qed

definition sample_entry :: token_entry where
  "sample_entry = \<lparr>te_name = ''ops'', te_scope = Operate, te_hash = hash_token sample_auth ''pspo_x''\<rparr>"

lemma sample_entry_valid: "validate_token_name sample_auth (te_name sample_entry) = Inr ()"
  by code_simp

theorem session_verify_sound_witness:
  "session_verify sample_auth [] [sample_entry] (session_sign sample_auth [] sample_entry 100) 7
     = Some (sample_entry, 100) \<and> (7 :: int) < 100"
proof -
  have "session_verify sample_auth [] [sample_entry] (session_sign sample_auth [] sample_entry 100) 7
     = Some (sample_entry, 100)"
    by (rule sign_verify) (simp_all add: sample_entry_valid by_name_def)
  with session_verify_sound [OF this] show ?thesis by blast
qed

section \<open>The middleware\<close>

lemma resolve_principal_Some:
  assumes "resolve_principal p a now hs = Some pr" "as_tokens a = Some toks"
  shows "\<exists>e \<in> set toks. token_name pr = te_name e \<and> pr_scope pr = te_scope e"
  using assms
  by (auto simp: resolve_principal_def session_verify_def split: option.splits list.splits if_splits
      dest: authenticate_Some by_name_Some)

text \<open>
  C5. With tokens configured, the handler of a route that needs a scope runs only for a caller whose
  credential is a current token of at least that scope, and a cookie only from the same origin when
  the request changes something; the handler is then attributed to that token, and a change leaves
  exactly one audit line that names it. Otherwise the state of the server is untouched.
\<close>

theorem middleware_authorizes:
  assumes "middleware p a now req next w = (res, lines, w')" "as_tokens a = Some toks"
    "required_access (rq_method req) (case rq_route req of None \<Rightarrow> [] | Some r \<Rightarrow> r) = Requires need"
  shows "(\<exists>err. res = Inl err \<and> lines = [] \<and> w' = w) \<or>
    (\<exists>pr subject r e.
       resolve_principal p a now (rq_headers req) = Some pr \<and> need \<le> pr_scope pr \<and>
       e \<in> set toks \<and> token_name pr = te_name e \<and> pr_scope pr = te_scope e \<and>
       (pr_via pr = Cookie \<and> rq_method req \<notin> {''GET'', ''HEAD''} \<longrightarrow> same_origin (rq_headers req)) \<and>
       subject_header p (rq_headers req) = Inr subject \<and>
       next (Some (te_name e)) subject (Some pr) w = (r, w') \<and> res = Inr r \<and>
       map au_actor lines = (if rq_method req \<in> {''GET'', ''HEAD''} then [] else [te_name e]))"
proof -
  let ?go = "\<lambda>pr subject. next (Some (token_name pr)) subject (Some pr) w"
  have en: "is_enabled a" using assms(2) by (simp add: is_enabled_def)
  have "(\<exists>err. res = Inl err \<and> lines = [] \<and> w' = w) \<or>
    (\<exists>pr subject. resolve_principal p a now (rq_headers req) = Some pr \<and> \<not> pr_scope pr < need \<and>
       (pr_via pr = Cookie \<and> rq_method req \<notin> {''GET'', ''HEAD''} \<longrightarrow> same_origin (rq_headers req)) \<and>
       subject_header p (rq_headers req) = Inr subject \<and> res = Inr (fst (?go pr subject)) \<and>
       w' = snd (?go pr subject) \<and>
       map au_actor lines = (if rq_method req \<in> {''GET'', ''HEAD''} then [] else [token_name pr]))"
    using assms(1) en
    by (auto simp: middleware_def assms(3) Let_def case_prod_beta
        split: sum.splits option.splits if_splits)
  then show ?thesis
  proof
    assume "\<exists>pr subject. resolve_principal p a now (rq_headers req) = Some pr \<and> \<not> pr_scope pr < need \<and>
       (pr_via pr = Cookie \<and> rq_method req \<notin> {''GET'', ''HEAD''} \<longrightarrow> same_origin (rq_headers req)) \<and>
       subject_header p (rq_headers req) = Inr subject \<and> res = Inr (fst (?go pr subject)) \<and>
       w' = snd (?go pr subject) \<and>
       map au_actor lines = (if rq_method req \<in> {''GET'', ''HEAD''} then [] else [token_name pr])"
    then obtain pr subject where pr: "resolve_principal p a now (rq_headers req) = Some pr"
      and rest: "\<not> pr_scope pr < need"
       "pr_via pr = Cookie \<and> rq_method req \<notin> {''GET'', ''HEAD''} \<longrightarrow> same_origin (rq_headers req)"
       "subject_header p (rq_headers req) = Inr subject" "res = Inr (fst (?go pr subject))"
       "w' = snd (?go pr subject)"
       "map au_actor lines = (if rq_method req \<in> {''GET'', ''HEAD''} then [] else [token_name pr])"
      by blast
    from resolve_principal_Some [OF pr assms(2)] obtain e where
      e: "e \<in> set toks" "token_name pr = te_name e" "pr_scope pr = te_scope e" by blast
    have "next (Some (te_name e)) subject (Some pr) w = (fst (?go pr subject), snd (?go pr subject))"
      using e(2) by simp
    with pr rest e show ?thesis by (metis not_less)
  qed simp
qed

definition sample_auth_state :: auth_state where
  "sample_auth_state = auth_enabled [sample_entry] (replicate 32 1) False"

definition sample_kill :: request where
  "sample_kill = \<lparr>rq_method = ''POST'', rq_route = Some ''/api/agents/{id}/kill'',
     rq_headers = [(''authorization'', Some ''Bearer pspo_x'')]\<rparr>"

theorem middleware_authorizes_witness:
  "\<exists>pr. middleware sample_auth sample_auth_state 7 sample_kill (\<lambda>act subj pr n. (act, n + 1)) (0 :: nat)
     = (Inr (Some ''ops''), [\<lparr>au_actor = ''ops'', au_on_behalf_of = ''-'', au_method = ''POST'',
          au_route = ''/api/agents/{id}/kill''\<rparr>], 1) \<and>
     resolve_principal sample_auth sample_auth_state 7 (rq_headers sample_kill) = Some pr \<and>
     Operate \<le> pr_scope pr"
proof -
  have run: "middleware sample_auth sample_auth_state 7 sample_kill (\<lambda>act subj pr n. (act, n + 1)) (0 :: nat)
     = (Inr (Some ''ops''), [\<lparr>au_actor = ''ops'', au_on_behalf_of = ''-'', au_method = ''POST'',
          au_route = ''/api/agents/{id}/kill''\<rparr>], 1)"
    by code_simp
  have "as_tokens sample_auth_state = Some [sample_entry]"
    by (simp add: sample_auth_state_def auth_enabled_def)
  moreover have "required_access (rq_method sample_kill)
      (case rq_route sample_kill of None \<Rightarrow> [] | Some r \<Rightarrow> r) = Requires Operate"
    by code_simp
  ultimately show ?thesis
    using middleware_authorizes [OF run] run by blast
qed

section \<open>Signing in\<close>

lemma cookie_value_single:
  assumes "list_all plain_char v" "v \<noteq> []" "CHR '';'' \<notin> set v"
  shows "cookie_value [(''cookie'', Some (''prospero_session='' @ v))] = Some v"
proof -
  have "list_all plain_char ''prospero_session=''"
    by (simp add: plain_char_def)
  then have "trim (''prospero_session='' @ [] @ v) = ''prospero_session='' @ [] @ v"
    using assms by (intro trim_words) simp_all
  moreover have "split_on (CHR '';'') (''prospero_session='' @ v) = [''prospero_session='' @ v]"
    using assms(3) by (intro split_on_fresh) simp
  ultimately show ?thesis
    using strip_prefix_append [of "''prospero_session=''" v]
    by (simp add: cookie_value_def map_filter_simps del: append_Cons split_on.simps)
qed

lemma show_int_plain: "list_all plain_char (show_int i)"
proof -
  have "list_all plain_char (show_nat n)" for n
    using show_nat_digits [of n] by (rule list.pred_mono_strong) (simp add: is_ascii_digit_def plain_char_def)
  then show ?thesis by (simp add: show_int_def plain_char_def)
qed

lemma show_int_no_semi: "CHR '';'' \<notin> set (show_int i)"
  using show_nat_digits [of "nat i"] show_nat_digits [of "nat (- i)"]
  by (auto simp: show_int_def list_all_iff is_ascii_digit_def)

lemma name_no_semi: "validate_token_name p n = Inr () \<Longrightarrow> CHR '';'' \<notin> set n"
  using valid_name(4) [of p n]
  by (auto simp: list_all_iff name_char_def is_ascii_lowercase_def is_ascii_digit_def)

text \<open>
  C24. A sign-in works: for a token of a loaded tokens file, the cookie that \<open>POST /api/session\<close> sets,
  sent back before it expires, is accepted by \<open>GET /api/session\<close>, which reports the session the
  sign-in announced. (Base64url text is plain ASCII without a semicolon.)
\<close>

theorem sign_in_then_whoami:
  assumes "as_tokens a = Some toks" "token_set_inv p toks" "authenticate p toks token = Some e"
    "\<forall>b. list_all plain_char (b64url p b) \<and> CHR '';'' \<notin> set (b64url p b)"
    "now \<le> later" "later < now + session_ttl_secs" "- (2 ^ 63) \<le> now" "now + session_ttl_secs < 2 ^ 63"
  shows "\<exists>body value.
    post_session p a now hs token =
      Inr (body, set_cookie value session_ttl_secs (as_cookie_secure a \<or> is_https hs)) \<and>
    get_session p a later [(''cookie'', Some (''prospero_session='' @ value))] = Inr body"
proof -
  let ?exp = "now + session_ttl_secs"
  let ?v = "session_sign p (as_session_key a) e ?exp"
  have e: "e \<in> set toks" and valid: "validate_token_name p (te_name e) = Inr ()"
    and named: "by_name toks (te_name e) = Some e"
    using authenticate_Some [OF assms(3)] assms(2) by_name_distinct [of toks e]
    by (auto simp: token_set_inv_def list_all_iff)
  have "list_all plain_char ?v" "CHR '';'' \<notin> set ?v" "?v \<noteq> []"
    using assms(4) valid_name(2) [OF valid] name_no_semi [OF valid] show_int_plain show_int_no_semi
    by (auto simp: session_sign_def session_mac_def plain_char_def)
  then have cookie: "cookie_value [(''cookie'', Some (''prospero_session='' @ ?v))] = Some ?v"
    by (intro cookie_value_single)
  have "session_verify p (as_session_key a) toks ?v later = Some (e, ?exp)"
    using assms(5-8) named valid by (intro sign_verify) (simp_all add: session_ttl_secs_def)
  then have "get_session p a later [(''cookie'', Some (''prospero_session='' @ ?v))] =
      Inr (session_info_of p \<lparr>token_name = te_name e, pr_scope = te_scope e, pr_via = Cookie,
         expires_unix = Some ?exp\<rparr>)"
    using assms(1) cookie
    by (simp add: get_session_def is_enabled_def resolve_principal_def bearer_token_def header_text_def)
  then show ?thesis
    using assms(1,3) by (auto simp: post_session_def Let_def)
qed

lemma sample_b64_plain: "list_all plain_char (sample_hex b) \<and> CHR '';'' \<notin> set (sample_hex b)"
proof -
  have nibble: "plain_char (nibble_char n) \<and> nibble_char n \<noteq> CHR '';''" if "n < 16" for n
    using nibble_char_range [OF that] by (auto simp: plain_char_def is_ascii_digit_def)
  have "plain_char c \<and> c \<noteq> CHR '';''" if "c \<in> set (sample_hex b)" for c
    using that nibble [OF unat_div_16] nibble [OF mod_less_divisor] by (auto simp: sample_hex_def)
  then show ?thesis by (auto simp: list_all_iff)
qed

theorem sign_in_then_whoami_witness:
  "\<exists>body value.
    post_session sample_auth sample_auth_state 1000 [] ''pspo_x'' =
      Inr (body, set_cookie value session_ttl_secs (as_cookie_secure sample_auth_state \<or> is_https [])) \<and>
    get_session sample_auth sample_auth_state 1001 [(''cookie'', Some (''prospero_session='' @ value))] = Inr body"
proof (rule sign_in_then_whoami)
  show "as_tokens sample_auth_state = Some [sample_entry]"
    by (simp add: sample_auth_state_def auth_enabled_def)
  show "token_set_inv sample_auth [sample_entry]" by code_simp
  show "authenticate sample_auth [sample_entry] ''pspo_x'' = Some sample_entry" by code_simp
  show "\<forall>b. list_all plain_char (b64url sample_auth b) \<and> CHR '';'' \<notin> set (b64url sample_auth b)"
    using sample_b64_plain by (simp add: sample_auth_def)
qed (simp_all add: session_ttl_secs_def)

end
