(* ===== verification/Usage_Report.thy ===== *)
theory Usage_Report
  imports Event_Store Deadline
begin

text \<open>
  The usage report (\<open>api/src/dto.rs\<close>): the window of \<open>GET /api/usage\<close> and the fold of the store's
  (workspace, day) rows into groups. The calendar is the \<open>chrono\<close> record of \<open>Deadline\<close>, the text of
  its parse errors and the \<open>Debug\<close> form of a string are arguments; floating-point addition is too.
\<close>

section \<open>The window\<close>

record usage_query =
  uq_since :: "string option"
  uq_until :: "string option"
  uq_days :: "int option"

definition DEFAULT_USAGE_WINDOW_DAYS :: int where
  "DEFAULT_USAGE_WINDOW_DAYS = 7"

definition nanos_per_day :: int where
  "nanos_per_day = 86400 * 1000000000"

definition parse_bound ::
  "chrono \<Rightarrow> (string \<Rightarrow> string) \<Rightarrow> (string \<Rightarrow> string) \<Rightarrow> string \<Rightarrow> string \<Rightarrow> string + int" where
  "parse_bound ch dbg why name raw =
     (case ch_parse ch raw of
        Some t \<Rightarrow> Inr t
      | None \<Rightarrow> Inl (name @ '': '' @ dbg raw @ '' is not an RFC-3339 timestamp ('' @ why raw @ '')''))"

definition usage_window ::
  "chrono \<Rightarrow> (string \<Rightarrow> string) \<Rightarrow> (string \<Rightarrow> string) \<Rightarrow> usage_query \<Rightarrow> int \<Rightarrow> string + string \<times> string" where
  "usage_window ch dbg why q now =
     rbind (case uq_until q of Some raw \<Rightarrow> parse_bound ch dbg why ''until'' raw | None \<Rightarrow> Inr now) (\<lambda>until.
     rbind (case uq_since q of
              Some raw \<Rightarrow> parse_bound ch dbg why ''since'' raw
            | None \<Rightarrow>
                (let days = max (case uq_days q of Some d \<Rightarrow> d | None \<Rightarrow> DEFAULT_USAGE_WINDOW_DAYS) 1
                 in if days > MAX_USAGE_WINDOW_DAYS
                    then Inl (''days: at most '' @ show_int MAX_USAGE_WINDOW_DAYS @ '', got '' @ show_int days)
                    else case chrono_add ch until (- (days * nanos_per_day)) of
                        Some t \<Rightarrow> Inr t
                      | None \<Rightarrow> Inl (''days: '' @ show_int days @ '' reaches before any representable date'')))
       (\<lambda>since. Inr (ch_print ch since, ch_print ch until)))"

text \<open>
  The window of a usage report is always in the spelling events are stamped with, for explicit
  bounds too; without an explicit start it starts between one day and the maximum number of days
  before its end, and the date arithmetic never overflows: it is an error instead.
\<close>

theorem usage_window_canonical:
  assumes "usage_window ch dbg why q now = Inr (since, until)"
  shows "\<exists>s u. since = ch_print ch s \<and> until = ch_print ch u \<and>
    (case uq_until q of Some raw \<Rightarrow> ch_parse ch raw = Some u | None \<Rightarrow> u = now) \<and>
    (case uq_since q of
       Some raw \<Rightarrow> ch_parse ch raw = Some s
     | None \<Rightarrow> \<exists>days. 1 \<le> days \<and> days \<le> MAX_USAGE_WINDOW_DAYS \<and> s = u - days * nanos_per_day \<and>
         ch_min ch \<le> s \<and> s \<le> ch_max ch)"
proof -
  from assms obtain u s where
    u: "(case uq_until q of Some raw \<Rightarrow> parse_bound ch dbg why ''until'' raw | None \<Rightarrow> Inr now) = Inr u"
    and s: "(case uq_since q of
              Some raw \<Rightarrow> parse_bound ch dbg why ''since'' raw
            | None \<Rightarrow>
                (let days = max (case uq_days q of Some d \<Rightarrow> d | None \<Rightarrow> DEFAULT_USAGE_WINDOW_DAYS) 1
                 in if days > MAX_USAGE_WINDOW_DAYS
                    then Inl (''days: at most '' @ show_int MAX_USAGE_WINDOW_DAYS @ '', got '' @ show_int days)
                    else case chrono_add ch u (- (days * nanos_per_day)) of
                        Some t \<Rightarrow> Inr t
                      | None \<Rightarrow> Inl (''days: '' @ show_int days @ '' reaches before any representable date''))) = Inr s"
    and out: "since = ch_print ch s" "until = ch_print ch u"
    by (auto simp: usage_window_def rbind_Inr_iff)
  let ?days = "max (case uq_days q of Some d \<Rightarrow> d | None \<Rightarrow> DEFAULT_USAGE_WINDOW_DAYS) 1"
  have "uq_since q = None \<Longrightarrow> 1 \<le> ?days \<and> ?days \<le> MAX_USAGE_WINDOW_DAYS \<and> s = u - ?days * nanos_per_day \<and>
         ch_min ch \<le> s \<and> s \<le> ch_max ch"
    using s by (auto simp: Let_def chrono_add_def split: if_splits)
  moreover have "uq_since q = Some raw \<Longrightarrow> ch_parse ch raw = Some s" for raw
    using s by (simp add: parse_bound_def split: option.splits)
  ultimately have win: "case uq_since q of
       Some raw \<Rightarrow> ch_parse ch raw = Some s
     | None \<Rightarrow> \<exists>days. 1 \<le> days \<and> days \<le> MAX_USAGE_WINDOW_DAYS \<and> s = u - days * nanos_per_day \<and>
         ch_min ch \<le> s \<and> s \<le> ch_max ch"
    by (cases "uq_since q") (simp only: option.case, iprover, simp)
  moreover have "case uq_until q of Some raw \<Rightarrow> ch_parse ch raw = Some u | None \<Rightarrow> u = now"
    using u by (simp add: parse_bound_def split: option.splits)
  ultimately show ?thesis using out by blast
qed

definition sample_chrono :: chrono where
  "sample_chrono = \<lparr>ch_print = show_int, ch_parse = parse_i64, ch_min = - (2 ^ 60), ch_max = 2 ^ 62\<rparr>"

theorem usage_window_canonical_witness:
  "usage_window sample_chrono id id \<lparr>uq_since = None, uq_until = None, uq_days = Some 0\<rparr> (2 * nanos_per_day)
     = Inr (show_int nanos_per_day, show_int (2 * nanos_per_day)) \<and>
   (\<exists>s u. show_int nanos_per_day = ch_print sample_chrono s \<and>
      show_int (2 * nanos_per_day) = ch_print sample_chrono u)"
proof -
  have run: "usage_window sample_chrono id id \<lparr>uq_since = None, uq_until = None, uq_days = Some 0\<rparr> (2 * nanos_per_day)
     = Inr (show_int nanos_per_day, show_int (2 * nanos_per_day))"
    by (simp add: usage_window_def sample_chrono_def nanos_per_day_def chrono_add_def
        MAX_USAGE_WINDOW_DAYS_def)
  from usage_window_canonical [OF run] run show ?thesis by blast
qed

section \<open>The report\<close>

definition row_outcomes :: "usage_row \<Rightarrow> outcome_counts" where
  "row_outcomes r = \<lparr>oc_done = u_done r, oc_failed = u_failed r, oc_killed = u_killed r,
     oc_crashed = u_crashed r, oc_timed_out = u_timed_out r\<rparr>"

definition row_bucket :: "usage_row \<Rightarrow> usage_bucket" where
  "row_bucket r = \<lparr>ub_day = u_day r, ub_cost_usd = u_cost_usd r, ub_turns = u_turns r,
     ub_outcomes = row_outcomes r\<rparr>"

definition add_outcomes :: "outcome_counts \<Rightarrow> outcome_counts \<Rightarrow> outcome_counts" where
  "add_outcomes a b = \<lparr>oc_done = oc_done a + oc_done b, oc_failed = oc_failed a + oc_failed b,
     oc_killed = oc_killed a + oc_killed b, oc_crashed = oc_crashed a + oc_crashed b,
     oc_timed_out = oc_timed_out a + oc_timed_out b\<rparr>"

definition empty_outcomes :: outcome_counts where
  "empty_outcomes = \<lparr>oc_done = 0, oc_failed = 0, oc_killed = 0, oc_crashed = 0, oc_timed_out = 0\<rparr>"

definition empty_group :: "string \<Rightarrow> usage_group" where
  "empty_group w = \<lparr>ug_workspace = w, ug_cost_usd = 0, ug_turns = 0, ug_outcomes = empty_outcomes,
     ug_series = []\<rparr>"

definition add_row :: "(f64 \<Rightarrow> f64 \<Rightarrow> f64) \<Rightarrow> usage_row \<Rightarrow> usage_group \<Rightarrow> usage_group" where
  "add_row fadd r g = g\<lparr>ug_cost_usd := fadd (ug_cost_usd g) (u_cost_usd r),
     ug_turns := ug_turns g + u_turns r, ug_outcomes := add_outcomes (ug_outcomes g) (row_outcomes r),
     ug_series := ug_series g @ [row_bucket r]\<rparr>"

text \<open>The \<open>BTreeMap\<close> by workspace: the groups in key order; \<open>entry(..).or_insert_with(..)\<close> then the update.\<close>

fun group_entry :: "string \<Rightarrow> (usage_group \<Rightarrow> usage_group) \<Rightarrow> usage_group list \<Rightarrow> usage_group list" where
  "group_entry w f [] = [f (empty_group w)]"
| "group_entry w f (g # gs) =
     (if ug_workspace g = w then f g # gs
      else if w < ug_workspace g then f (empty_group w) # g # gs
      else g # group_entry w f gs)"

definition collect_groups :: "(f64 \<Rightarrow> f64 \<Rightarrow> f64) \<Rightarrow> usage_row list \<Rightarrow> usage_group list" where
  "collect_groups fadd rows = fold (\<lambda>r. group_entry (u_workspace r) (add_row fadd r)) rows []"

definition usage_report :: "(f64 \<Rightarrow> f64 \<Rightarrow> f64) \<Rightarrow> usage_row list \<Rightarrow> string \<Rightarrow> string \<Rightarrow> usage_report" where
  "usage_report fadd rows since until =
     \<lparr>ur_since = since, ur_until = until,
      ur_groups = map (\<lambda>g. g\<lparr>ug_series := sort_key ub_day (ug_series g)\<rparr>) (collect_groups fadd rows)\<rparr>"

text \<open>The reference: one workspace's rows, in the order the store gave them.\<close>

definition rows_of :: "string \<Rightarrow> usage_row list \<Rightarrow> usage_row list" where
  "rows_of w rows = filter (\<lambda>r. u_workspace r = w) rows"

definition group_of :: "(f64 \<Rightarrow> f64 \<Rightarrow> f64) \<Rightarrow> string \<Rightarrow> usage_row list \<Rightarrow> usage_group" where
  "group_of fadd w rows = fold (add_row fadd) (rows_of w rows) (empty_group w)"

lemma add_row_workspace [simp]: "ug_workspace (add_row fadd r g) = ug_workspace g"
  by (simp add: add_row_def)

lemma empty_group_workspace [simp]: "ug_workspace (empty_group w) = w"
  by (simp add: empty_group_def)

lemma group_entry_names:
  assumes "\<And>g. ug_workspace (f g) = ug_workspace g" "sorted_wrt (<) (map ug_workspace gs)"
  shows "set (map ug_workspace (group_entry w f gs)) = insert w (set (map ug_workspace gs)) \<and>
    sorted_wrt (<) (map ug_workspace (group_entry w f gs))"
  using assms
proof (induction w f gs rule: group_entry.induct)
  case (2 w f g gs)
  consider "ug_workspace g = w" | "w < ug_workspace g" | "ug_workspace g < w"
    by (metis linorder_less_linear)
  then show ?case
    using 2 by cases (auto dest: less_trans order.strict_implies_not_eq simp: order.asym)
qed simp

lemma group_entry_find:
  assumes "\<And>g. ug_workspace (f g) = ug_workspace g" "sorted_wrt (<) (map ug_workspace gs)"
  shows "find (\<lambda>g. ug_workspace g = v) (group_entry w f gs) =
    (if v = w then Some (f (case find (\<lambda>g. ug_workspace g = w) gs of None \<Rightarrow> empty_group w | Some g \<Rightarrow> g))
     else find (\<lambda>g. ug_workspace g = v) gs)"
  using assms
proof (induction w f gs rule: group_entry.induct)
  case (2 w f g gs)
  have "w < ug_workspace g \<Longrightarrow> find (\<lambda>h. ug_workspace h = w) gs = None"
    using "2.prems"(2) by (auto simp: find_None_iff)
  with 2 show ?case by (auto split: option.splits)
qed auto

lemma collect_groups_snoc:
  "collect_groups fadd (rows @ [r]) = group_entry (u_workspace r) (add_row fadd r) (collect_groups fadd rows)"
  by (simp add: collect_groups_def)

lemma collect_groups_spec:
  "sorted_wrt (<) (map ug_workspace (collect_groups fadd rows)) \<and>
   set (map ug_workspace (collect_groups fadd rows)) = u_workspace ` set rows \<and>
   (\<forall>w. find (\<lambda>g. ug_workspace g = w) (collect_groups fadd rows) =
      (if w \<in> u_workspace ` set rows then Some (group_of fadd w rows) else None))"
proof (induction rows rule: rev_induct)
  case Nil
  then show ?case by (simp add: collect_groups_def)
next
  case (snoc r rows)
  let ?gs = "collect_groups fadd rows"
  have sorted: "sorted_wrt (<) (map ug_workspace ?gs)" using snoc by simp
  have names: "set (map ug_workspace (collect_groups fadd (rows @ [r]))) = u_workspace ` set (rows @ [r])"
    "sorted_wrt (<) (map ug_workspace (collect_groups fadd (rows @ [r])))"
    using group_entry_names [of "add_row fadd r" ?gs "u_workspace r", OF _ sorted] snoc
    by (simp_all add: collect_groups_snoc)
  have group: "group_of fadd w (rows @ [r]) =
      (if w = u_workspace r then add_row fadd r (group_of fadd w rows) else group_of fadd w rows)" for w
    by (simp add: group_of_def rows_of_def)
  have fresh: "w \<notin> u_workspace ` set rows \<Longrightarrow> group_of fadd w rows = empty_group w" for w
  proof -
    assume "w \<notin> u_workspace ` set rows"
    then have "rows_of w rows = []" by (auto simp: rows_of_def filter_empty_conv)
    then show ?thesis by (simp add: group_of_def)
  qed
  have "find (\<lambda>g. ug_workspace g = w) (collect_groups fadd (rows @ [r])) =
      (if w \<in> u_workspace ` set (rows @ [r]) then Some (group_of fadd w (rows @ [r])) else None)" for w
    using group_entry_find [of "add_row fadd r" ?gs w "u_workspace r", OF _ sorted] snoc group [of w]
      fresh [of w]
    by (auto simp: collect_groups_snoc)
  with names show ?case by blast
qed

text \<open>
  The report has exactly one group per workspace with rows, in the order of their names; a
  group's totals are the sums over its workspace's rows and its series holds one bucket per row in
  the order of the days.
\<close>

theorem usage_report_groups:
  "let gs = ur_groups (usage_report fadd rows since until) in
   sorted_wrt (<) (map ug_workspace gs) \<and> set (map ug_workspace gs) = u_workspace ` set rows \<and>
   (\<forall>g \<in> set gs.
      let rs = rows_of (ug_workspace g) rows in
      ug_cost_usd g = fold (\<lambda>r c. fadd c (u_cost_usd r)) rs 0 \<and>
      ug_turns g = sum_list (map u_turns rs) \<and>
      outcome_total (ug_outcomes g) = sum_list (map (outcome_total \<circ> row_outcomes) rs) \<and>
      oc_timed_out (ug_outcomes g) = sum_list (map u_timed_out rs) \<and>
      ug_series g = sort_key ub_day (map row_bucket rs))"
proof -
  let ?gs = "collect_groups fadd rows"
  let ?fin = "\<lambda>g. g\<lparr>ug_series := sort_key ub_day (ug_series g)\<rparr>"
  have totals: "ug_cost_usd (fold (add_row fadd) rs g) = fold (\<lambda>r c. fadd c (u_cost_usd r)) rs (ug_cost_usd g)"
    "ug_turns (fold (add_row fadd) rs g) = ug_turns g + sum_list (map u_turns rs)"
    "outcome_total (ug_outcomes (fold (add_row fadd) rs g)) =
       outcome_total (ug_outcomes g) + sum_list (map (outcome_total \<circ> row_outcomes) rs)"
    "oc_timed_out (ug_outcomes (fold (add_row fadd) rs g)) =
       oc_timed_out (ug_outcomes g) + sum_list (map u_timed_out rs)"
    "ug_series (fold (add_row fadd) rs g) = ug_series g @ map row_bucket rs" for rs g
    by (induction rs arbitrary: g)
      (simp_all add: add_row_def add_outcomes_def outcome_total_def row_outcomes_def)
  have member: "g = group_of fadd (ug_workspace g) rows" if "g \<in> set ?gs" for g
  proof -
    have "distinct (map ug_workspace ?gs)"
      using collect_groups_spec [of fadd rows] by (simp add: strict_sorted_iff)
    then have "find (\<lambda>h. ug_workspace h = ug_workspace g) ?gs = Some g"
      using that by (rule find_key_distinct)
    then show ?thesis using collect_groups_spec [of fadd rows] by (auto split: if_splits)
  qed
  have group: "ug_cost_usd g = fold (\<lambda>r c. fadd c (u_cost_usd r)) (rows_of (ug_workspace g) rows) 0"
      "ug_turns g = sum_list (map u_turns (rows_of (ug_workspace g) rows))"
      "outcome_total (ug_outcomes g) = sum_list (map (outcome_total \<circ> row_outcomes) (rows_of (ug_workspace g) rows))"
      "oc_timed_out (ug_outcomes g) = sum_list (map u_timed_out (rows_of (ug_workspace g) rows))"
      "ug_series g = map row_bucket (rows_of (ug_workspace g) rows)" if "g \<in> set ?gs" for g
  proof -
    have g: "g = fold (add_row fadd) (rows_of (ug_workspace g) rows) (empty_group (ug_workspace g))"
      using member [OF that] by (simp add: group_of_def)
    note t = totals [of "rows_of (ug_workspace g) rows" "empty_group (ug_workspace g)", folded g]
    show "ug_cost_usd g = fold (\<lambda>r c. fadd c (u_cost_usd r)) (rows_of (ug_workspace g) rows) 0"
      "ug_turns g = sum_list (map u_turns (rows_of (ug_workspace g) rows))"
      "outcome_total (ug_outcomes g) = sum_list (map (outcome_total \<circ> row_outcomes) (rows_of (ug_workspace g) rows))"
      "oc_timed_out (ug_outcomes g) = sum_list (map u_timed_out (rows_of (ug_workspace g) rows))"
      "ug_series g = map row_bucket (rows_of (ug_workspace g) rows)"
      using t by (simp_all add: empty_group_def empty_outcomes_def outcome_total_def)
  qed
  have names: "map ug_workspace (map ?fin ?gs) = map ug_workspace ?gs" by simp
  show ?thesis
    unfolding Let_def usage_report_def usage_report.select_convs names
    using collect_groups_spec [of fadd rows] group by auto
qed

definition sample_usage_rows :: "usage_row list" where
  "sample_usage_rows = map (\<lambda>(w, d, n). \<lparr>u_workspace = w, u_day = d, u_cost_usd = 0, u_turns = n,
     u_done = 1, u_failed = 0, u_killed = 0, u_crashed = 0, u_timed_out = 0\<rparr>)
     [(''web'', ''2026-01-02'', 3), (''api'', ''2026-01-01'', 5), (''web'', ''2026-01-01'', 4)]"

theorem usage_report_groups_witness:
  "let gs = ur_groups (usage_report (+) sample_usage_rows [] []) in
   set (map ug_workspace gs) = {''api'', ''web''} \<and>
   list_all (\<lambda>g. ug_turns g = sum_list (map u_turns (rows_of (ug_workspace g) sample_usage_rows))) gs"
  using usage_report_groups [of "(+)" sample_usage_rows "[]" "[]"]
  by (auto simp: Let_def list_all_iff sample_usage_rows_def)


end
