(* ===== verification/Api_Handlers.thy ===== *)
theory Api_Handlers
  imports Api_Auth Automation Usage_Report
begin

text \<open>
  The REST handlers (\<open>api/src/handlers.rs\<close>, \<open>api/src/automations.rs\<close>), the tools of the MCP server
  (\<open>api/src/mcp.rs\<close>) and the state they share (\<open>api/src/lib.rs\<close>). A handler acts on the state \<open>'x\<close> of
  the server, which the fleet provider, the admin plane and the event store read and change; the
  automation handlers act on the engine, whose fleet is that state. \<open>None\<close> is the panic of a spawn.
\<close>

record ('c, 'x) app_env =
  app_fleet :: "'x fleet_provider"
  app_admin :: "'x fleet_admin option"
  app_store :: "'x store_ops"
  app_auth :: auth_state
  app_automations :: "('c, 'x) engine_env option"

text \<open>\<open>?\<close> on a core error.\<close>

definition lift_core :: "'a result \<Rightarrow> api_error + 'a" where
  "lift_core r = (case r of Inl e \<Rightarrow> Inl (ApiCore e) | Inr a \<Rightarrow> Inr a)"

definition unsupported_on_backend :: api_error where
  "unsupported_on_backend = MethodNotAllowed
     (''not supported by the active fleet backend (k8s workspaces are '' @
      ''CalibanTask/namespace-driven, not a prospero registry)'')"

section \<open>Reads\<close>

definition get_fleet :: "('c, 'x) app_env \<Rightarrow> 'x \<Rightarrow> fleet_snapshot \<times> 'x" where
  "get_fleet app x = fp_snapshot (app_fleet app) x"

definition get_usage ::
  "('c, 'x) app_env \<Rightarrow> chrono \<Rightarrow> (string \<Rightarrow> string) \<Rightarrow> (string \<Rightarrow> string) \<Rightarrow> (f64 \<Rightarrow> f64 \<Rightarrow> f64) \<Rightarrow> int \<Rightarrow>
     usage_query \<Rightarrow> 'x \<Rightarrow> (api_error + usage_report) \<times> 'x" where
  "get_usage app ch dbg why fadd now q x =
     (case usage_window ch dbg why q now of
        Inl e \<Rightarrow> (Inl (BadRequest e), x)
      | Inr (since, until) \<Rightarrow>
          (case st_usage (app_store app) x since until of
             (Inl e, x') \<Rightarrow> (Inl (ApiCore e), x')
           | (Inr rows, x') \<Rightarrow> (Inr (usage_report fadd rows since until), x')))"

record workspace_summary =
  sm_name :: string
  sm_root :: string
  sm_sources :: "source_checkout list"
  sm_health :: workspace_health
  sm_agent_count :: nat
  sm_config :: repo_provider_config
  sm_source_specs :: "workspace_source_spec list"
  sm_display_name :: "string option"
  sm_providers :: "provider_info list"
  sm_default_provider :: "string option"
  sm_status :: "workspace_status_info option"

definition summary_of_workspace :: "(path \<Rightarrow> string) \<Rightarrow> workspace \<Rightarrow> workspace_summary" where
  "summary_of_workspace display r =
     \<lparr>sm_name = ws_name r, sm_root = display (ws_root r), sm_sources = ws_sources r,
      sm_health = ws_health r, sm_agent_count = length (ws_agents r), sm_config = ws_config r,
      sm_source_specs = [], sm_display_name = None, sm_providers = [], sm_default_provider = None,
      sm_status = None\<rparr>"

definition agent_count_in :: "fleet_snapshot \<Rightarrow> string \<Rightarrow> nat" where
  "agent_count_in snap name =
     length (filter (\<lambda>a. agent_workspace a = name) (concat (map ws_agents (workspaces snap))))"

definition summary_of_info :: "fleet_snapshot \<Rightarrow> workspace_info \<Rightarrow> workspace_summary" where
  "summary_of_info snap wi =
     \<lparr>sm_name = wi_name wi, sm_root = [],
      sm_sources = map (\<lambda>s. \<lparr>source_name = wss_name s, source_path = wss_path s\<rparr>) (wi_sources wi),
      sm_health = Healthy, sm_agent_count = agent_count_in snap (wi_name wi),
      sm_config = default_provider_config, sm_source_specs = wi_sources wi,
      sm_display_name = wi_display_name wi, sm_providers = wi_providers wi,
      sm_default_provider = wi_default_provider wi, sm_status = wi_status wi\<rparr>"

text \<open>\<open>display\<close> is the lossy rendering of a path.\<close>

definition get_workspaces ::
  "(path \<Rightarrow> string) \<Rightarrow> ('c, 'x) app_env \<Rightarrow> 'x \<Rightarrow> workspace_summary list \<times> 'x" where
  "get_workspaces display app x =
     (let (snap, x1) = fp_snapshot (app_fleet app) x;
          (records, x2) = (case app_admin app of
             Some adm \<Rightarrow> (case fa_list_workspaces adm x1 of (r, x') \<Rightarrow> (unwrap_or r [], x'))
           | None \<Rightarrow> ([], x1))
      in if records = [] then (map (summary_of_workspace display) (workspaces snap), x2)
         else (map (summary_of_info snap) records, x2))"

definition get_workspace_agents ::
  "('c, 'x) app_env \<Rightarrow> string \<Rightarrow> 'x \<Rightarrow> (api_error + agent list) \<times> 'x" where
  "get_workspace_agents app w x =
     (case fp_snapshot (app_fleet app) x of
        (snap, x') \<Rightarrow>
          (case find (\<lambda>r. ws_name r = w) (workspaces snap) of
             Some r \<Rightarrow> (Inr (ws_agents r), x')
           | None \<Rightarrow> (Inl (ApiCore (WorkspaceNotFound w)), x')))"

definition get_agent :: "('c, 'x) app_env \<Rightarrow> string \<Rightarrow> 'x \<Rightarrow> (api_error + agent) \<times> 'x" where
  "get_agent app i x =
     (case fp_snapshot (app_fleet app) x of
        (snap, x') \<Rightarrow>
          (case find_agent snap i of
             Some (_, a) \<Rightarrow> (Inr a, x')
           | None \<Rightarrow> (Inl (ApiCore (AgentNotFound i)), x')))"

text \<open>The conditions are evaluated from left to right, each only when the ones before it hold.\<close>

definition get_agent_events ::
  "('c, 'x) app_env \<Rightarrow> string \<Rightarrow> nat \<Rightarrow> 'x \<Rightarrow> (api_error + fleet_event list) \<times> 'x" where
  "get_agent_events app i from x =
     (case st_replay (app_store app) x i from of
        (Inl e, x1) \<Rightarrow> (Inl (ApiCore e), x1)
      | (Inr events, x1) \<Rightarrow>
          if events \<noteq> [] then (Inr events, x1)
          else (case st_high_water (app_store app) x1 i of
              (Inl e, x2) \<Rightarrow> (Inl (ApiCore e), x2)
            | (Inr hw, x2) \<Rightarrow>
                if hw \<noteq> 0 then (Inr events, x2)
                else (case fp_snapshot (app_fleet app) x2 of
                    (snap, x3) \<Rightarrow>
                      if find_agent snap i = None then (Inl (ApiCore (AgentNotFound i)), x3)
                      else (Inr events, x3))))"

definition get_metrics :: "('c, 'x) app_env \<Rightarrow> 'x \<Rightarrow> metrics_snapshot" where
  "get_metrics app x = fp_metrics (app_fleet app) x"

text \<open>\<open>Capabilities\<close>: whether there is an admin plane, and whether it works asynchronously.\<close>

definition get_capabilities :: "('c, 'x) app_env \<Rightarrow> bool \<times> bool" where
  "get_capabilities app =
     (app_admin app \<noteq> None, case app_admin app of Some adm \<Rightarrow> fa_async adm | None \<Rightarrow> False)"

definition readyz :: "('c, 'x) app_env \<Rightarrow> 'x \<Rightarrow> (nat \<times> readiness) \<times> 'x" where
  "readyz app x =
     (case fp_readiness (app_fleet app) x of
        (rd, x') \<Rightarrow> ((if ready rd then 200 else 503, rd), x'))"

section \<open>The workspace plane\<close>

definition with_admin ::
  "('c, 'x) app_env \<Rightarrow> ('x fleet_admin \<Rightarrow> (api_error + 'a) \<times> 'x) \<Rightarrow> 'x \<Rightarrow> (api_error + 'a) \<times> 'x" where
  "with_admin app f x =
     (case app_admin app of None \<Rightarrow> (Inl unsupported_on_backend, x) | Some adm \<Rightarrow> f adm)"

definition post_workspace ::
  "('c, 'x) app_env \<Rightarrow> string \<Rightarrow> string \<Rightarrow> workspace_config \<Rightarrow> 'x \<Rightarrow> (api_error + nat) \<times> 'x" where
  "post_workspace app name root cfg x =
     with_admin app (\<lambda>adm.
       case fa_add_workspace adm x name root cfg of
         (Inl e, x') \<Rightarrow> (Inl (ApiCore e), x')
       | (Inr _, x') \<Rightarrow> (Inr (if fa_async adm then 202 else 201), x')) x"

definition put_workspace_config ::
  "('c, 'x) app_env \<Rightarrow> string \<Rightarrow> workspace_config \<Rightarrow> 'x \<Rightarrow> (api_error + nat) \<times> 'x" where
  "put_workspace_config app name cfg x =
     with_admin app (\<lambda>adm.
       case fa_set_config adm x name cfg of
         (Inl e, x') \<Rightarrow> (Inl (ApiCore e), x')
       | (Inr _, x') \<Rightarrow> (Inr (if fa_async adm then 202 else 204), x')) x"

definition delete_workspace ::
  "('c, 'x) app_env \<Rightarrow> string \<Rightarrow> 'x \<Rightarrow> (api_error + nat) \<times> 'x" where
  "delete_workspace app name x =
     with_admin app (\<lambda>adm.
       case fa_remove_workspace adm x name of
         (Inl e, x') \<Rightarrow> (Inl (ApiCore e), x')
       | (Inr True, x') \<Rightarrow> (Inr 204, x')
       | (Inr False, x') \<Rightarrow> (Inl (ApiCore (WorkspaceNotFound name)), x')) x"

section \<open>Agents\<close>

text \<open>\<open>dto::spawn_request\<close>.\<close>

definition spawn_request_of :: "spawn_body \<Rightarrow> spawn_request" where
  "spawn_request_of b =
     \<lparr>rq_prompt = sb_prompt b, rq_label = sb_label b, rq_model = sb_model b,
      rq_isolation_worktree = body_isolation_worktree b, rq_tool_allowlist = sb_tool_allowlist b,
      rq_interactive = sb_interactive b, rq_frontmatter_path = sb_frontmatter_path b,
      rq_timeout_secs = sb_timeout_secs b, rq_provider_ref = sb_provider_ref b,
      rq_permission_posture = sb_posture b\<rparr>"

record spawned_response =
  sr_agent_id :: string
  sr_workspace :: string
  sr_isolated :: bool
  sr_created :: bool

definition post_agent ::
  "('c, 'x) app_env \<Rightarrow> string \<Rightarrow> principal option \<Rightarrow> spawn_body \<Rightarrow> 'x \<Rightarrow>
     (api_error + spawned_response) option \<times> 'x" where
  "post_agent app w pr body x =
     (if sb_posture body = Unattended \<and> (case pr of Some p \<Rightarrow> pr_scope p < Admin | None \<Rightarrow> False)
      then (Some (Inl (Forbidden ''unattended requires admin scope'')), x)
      else
        (let rq = spawn_request_of body
         in case fp_ensure_agent (app_fleet app) x \<lparr>tk_workspace = w, tk_request = rq\<rparr> of
              (None, x') \<Rightarrow> (None, x')
            | (Some (Inl e), x') \<Rightarrow> (Some (Inl (ApiCore e)), x')
            | (Some (Inr h), x') \<Rightarrow>
                (Some (Inr \<lparr>sr_agent_id = ah_id h, sr_workspace = w,
                           sr_isolated = rq_isolation_worktree rq, sr_created = ah_created h\<rparr>), x')))"

definition post_kill :: "('c, 'x) app_env \<Rightarrow> string \<Rightarrow> 'x \<Rightarrow> (api_error + nat) \<times> 'x" where
  "post_kill app i x =
     apfst (\<lambda>r. rbind (lift_core r) (\<lambda>_. Inr 202)) (fp_stop_agent (app_fleet app) x i DrainKill)"

definition post_respawn :: "('c, 'x) app_env \<Rightarrow> string \<Rightarrow> 'x \<Rightarrow> (api_error + string) \<times> 'x" where
  "post_respawn app i x = apfst lift_core (fp_restart_agent (app_fleet app) x i)"

definition post_input :: "('c, 'x) app_env \<Rightarrow> string \<Rightarrow> string \<Rightarrow> 'x \<Rightarrow> (api_error + nat) \<times> 'x" where
  "post_input app i text x =
     apfst (\<lambda>r. rbind (lift_core r) (\<lambda>_. Inr 202)) (fp_send_input (app_fleet app) x i (UserMessage text))"

definition post_end_input :: "('c, 'x) app_env \<Rightarrow> string \<Rightarrow> 'x \<Rightarrow> (api_error + nat) \<times> 'x" where
  "post_end_input app i x =
     apfst (\<lambda>r. rbind (lift_core r) (\<lambda>_. Inr 202)) (fp_send_input (app_fleet app) x i EndInput)"

definition delete_agent :: "('c, 'x) app_env \<Rightarrow> string \<Rightarrow> 'x \<Rightarrow> (api_error + nat) \<times> 'x" where
  "delete_agent app i x =
     apfst (\<lambda>r. rbind (lift_core r) (\<lambda>_. Inr 204)) (fp_remove_agent (app_fleet app) x i False)"

section \<open>Automations (\<open>automations.rs\<close>)\<close>

definition SIGNATURE_HEADER :: string where
  "SIGNATURE_HEADER = ''x-prospero-signature''"

definition RUNS_DEFAULT :: nat where
  "RUNS_DEFAULT = 50"

definition with_engine ::
  "('c, 'x) app_env \<Rightarrow> (('c, 'x) engine_env \<Rightarrow> (api_error + 'a) option \<times> ('c, 'x) engine) \<Rightarrow>
     ('c, 'x) engine \<Rightarrow> (api_error + 'a) option \<times> ('c, 'x) engine" where
  "with_engine app f en =
     (case app_automations app of
        None \<Rightarrow> (Some (Inl (MethodNotAllowed
          (''automations need a shared config store; run with --database-url '' @
           ''(or the local backend) to enable them''))), en)
      | Some ee \<Rightarrow> f ee)"

definition get_automations ::
  "('c, 'x) app_env \<Rightarrow> ('c, 'x) engine \<Rightarrow> (api_error + automation list) option \<times> ('c, 'x) engine" where
  "get_automations app en =
     with_engine app (\<lambda>ee. apfst (\<lambda>r. Some (rbind (lift_core r) (\<lambda>as. Inr (map sa_automation as))))
       (engine_list ee en)) en"

text \<open>The response of a creation carries the signing key, once.\<close>

definition post_automation ::
  "('c, 'x) app_env \<Rightarrow> create_automation_body \<Rightarrow> int \<Rightarrow> u8 list \<Rightarrow> ('c, 'x) engine \<Rightarrow>
     (api_error + nat \<times> automation \<times> string option) option \<times> ('c, 'x) engine" where
  "post_automation app body now random en =
     with_engine app (\<lambda>ee.
       apfst (\<lambda>r. Some (rbind (lift_core r) (\<lambda>sa. Inr (201, sa_automation sa, sa_webhook_secret sa))))
         (create_automation_at ee en body now random)) en"

definition delete_automation_route ::
  "('c, 'x) app_env \<Rightarrow> string \<Rightarrow> ('c, 'x) engine \<Rightarrow> (api_error + nat) option \<times> ('c, 'x) engine" where
  "delete_automation_route app i en =
     with_engine app (\<lambda>ee.
       case engine_delete ee en i of
         (Inl e, en') \<Rightarrow> (Some (Inl (ApiCore e)), en')
       | (Inr True, en') \<Rightarrow> (Some (Inr 204), en')
       | (Inr False, en') \<Rightarrow> (Some (Inl (NotFound (''automation not found: '' @ i))), en')) en"

definition put_enabled ::
  "('c, 'x) app_env \<Rightarrow> string \<Rightarrow> bool \<Rightarrow> ('c, 'x) engine \<Rightarrow> (api_error + nat) option \<times> ('c, 'x) engine" where
  "put_enabled app i enabled en =
     with_engine app (\<lambda>ee. apfst (\<lambda>r. Some (rbind (lift_core r) (\<lambda>_. Inr 204)))
       (set_automation_enabled ee en i enabled)) en"

definition get_runs ::
  "('c, 'x) app_env \<Rightarrow> string \<Rightarrow> nat option \<Rightarrow> ('c, 'x) engine \<Rightarrow>
     (api_error + automation_run list) option \<times> ('c, 'x) engine" where
  "get_runs app i limit en =
     with_engine app (\<lambda>ee. apfst (\<lambda>r. Some (lift_core r))
       (automation_runs ee en i (case limit of Some n \<Rightarrow> n | None \<Rightarrow> RUNS_DEFAULT))) en"

definition post_run ::
  "('c, 'x) app_env \<Rightarrow> string \<Rightarrow> int \<Rightarrow> ('c, 'x) engine \<Rightarrow> (api_error + automation_run) option \<times> ('c, 'x) engine" where
  "post_run app i now en =
     with_engine app (\<lambda>ee. apfst (map_option lift_core) (fire_automation ee en i now Manual None)) en"

definition post_trigger ::
  "('c, 'x) app_env \<Rightarrow> string \<Rightarrow> headers \<Rightarrow> u8 list \<Rightarrow> int \<Rightarrow> ('c, 'x) engine \<Rightarrow>
     (api_error + automation_run) option \<times> ('c, 'x) engine" where
  "post_trigger app i hs body now en =
     with_engine app (\<lambda>ee. apfst (map_option lift_core)
       (trigger_webhook ee en i now body (header_text hs SIGNATURE_HEADER))) en"

section \<open>The MCP tools (\<open>mcp.rs\<close>)\<close>

datatype tool_result = ToolOk json | ToolErr string

fun status_wire :: "agent_status \<Rightarrow> string" where
  "status_wire Spawning = ''spawning''"
| "status_wire Running = ''running''"
| "status_wire Idle = ''idle''"
| "status_wire Killed = ''killed''"
| "status_wire Done = ''done''"
| "status_wire Failed = ''failed''"
| "status_wire Crashed = ''crashed''"

definition opt_json :: "string option \<Rightarrow> json" where
  "opt_json o' = (case o' of None \<Rightarrow> JNull | Some s \<Rightarrow> JString s)"

definition agent_json :: "agent \<Rightarrow> json" where
  "agent_json a = JObject
     [(''agent_id'', JString (agent_id a)), (''detail'', opt_json (agent_detail a)),
      (''interactive'', JBool (agent_interactive a)), (''isolated'', JBool (isolated a)),
      (''name'', JString (agent_name a)), (''reason'', opt_json (agent_reason a)),
      (''started_at'', JString (started_at a)), (''status'', JString (status_wire (agent_status a))),
      (''workspace'', JString (agent_workspace a))]"

definition mcp_list_workspaces :: "('c, 'x) app_env \<Rightarrow> 'x \<Rightarrow> tool_result \<times> 'x" where
  "mcp_list_workspaces app x =
     apfst (\<lambda>snap. ToolOk (JObject [(''workspaces'', JArray (map (\<lambda>w. JObject
         [(''agents'', JNumber (PosInt (length (ws_agents w)))), (''healthy'', JBool (ws_health w = Healthy)),
          (''name'', JString (ws_name w))]) (workspaces snap)))]))
       (fp_snapshot (app_fleet app) x)"

definition mcp_list_agents :: "('c, 'x) app_env \<Rightarrow> 'x \<Rightarrow> tool_result \<times> 'x" where
  "mcp_list_agents app x =
     apfst (\<lambda>snap. ToolOk (JObject [(''agents'', JArray (map agent_json (concat (map ws_agents (workspaces snap)))))]))
       (fp_snapshot (app_fleet app) x)"

record spawn_args =
  sa_workspace :: string
  sa_prompt :: string
  sa_label :: "string option"
  sa_model :: "string option"
  sa_interactive :: bool
  sa_timeout_secs :: "nat option"

definition mcp_spawn_request :: "spawn_args \<Rightarrow> spawn_request" where
  "mcp_spawn_request args =
     (spawn_request_new (sa_prompt args))\<lparr>rq_label := sa_label args, rq_model := sa_model args,
        rq_interactive := sa_interactive args, rq_timeout_secs := sa_timeout_secs args\<rparr>"

definition mcp_spawn_agent :: "('c, 'x) app_env \<Rightarrow> spawn_args \<Rightarrow> 'x \<Rightarrow> tool_result option \<times> 'x" where
  "mcp_spawn_agent app args x =
     (case fp_ensure_agent (app_fleet app) x
             \<lparr>tk_workspace = sa_workspace args, tk_request = mcp_spawn_request args\<rparr> of
        (None, x') \<Rightarrow> (None, x')
      | (Some (Inr h), x') \<Rightarrow>
          (Some (ToolOk (JObject [(''agent_id'', JString (ah_id h)), (''created'', JBool (ah_created h)),
                                 (''workspace'', JString (sa_workspace args))])), x')
      | (Some (Inl e), x') \<Rightarrow> (Some (ToolErr (''spawn failed: '' @ error_display e)), x'))"

definition mcp_agent_status :: "('c, 'x) app_env \<Rightarrow> string \<Rightarrow> 'x \<Rightarrow> tool_result \<times> 'x" where
  "mcp_agent_status app i x =
     apfst (\<lambda>snap. case find_agent snap i of
          Some (_, a) \<Rightarrow> ToolOk (agent_json a)
        | None \<Rightarrow> ToolErr (''unknown agent: '' @ i))
       (fp_snapshot (app_fleet app) x)"

definition EVENTS_DEFAULT :: nat where
  "EVENTS_DEFAULT = 100"

definition EVENTS_MAX :: nat where
  "EVENTS_MAX = 500"

definition events_limit :: "nat option \<Rightarrow> nat" where
  "events_limit limit = min (case limit of Some n \<Rightarrow> n | None \<Rightarrow> EVENTS_DEFAULT) EVENTS_MAX"

text \<open>A page of a history: its events, whether there are more, and where the next page starts.\<close>

definition events_page :: "nat \<Rightarrow> fleet_event list \<Rightarrow> fleet_event list \<times> bool \<times> nat option" where
  "events_page limit events =
     (let page = take limit events
      in (page, limit < length events, if page = [] then None else Some (seq (last page) + 1)))"

text \<open>\<open>event_json\<close> is the serialisation of an event.\<close>

definition mcp_agent_events ::
  "(fleet_event \<Rightarrow> json) \<Rightarrow> ('c, 'x) app_env \<Rightarrow> string \<Rightarrow> nat \<Rightarrow> nat option \<Rightarrow> 'x \<Rightarrow> tool_result \<times> 'x" where
  "mcp_agent_events event_json app i from limit x =
     apfst (\<lambda>r. case r of
          Inl e \<Rightarrow> ToolErr (''reading history failed: '' @ error_display e)
        | Inr events \<Rightarrow>
            (case events_page (events_limit limit) events of
               (page, truncated, nxt) \<Rightarrow>
                 ToolOk (JObject [(''events'', JArray (map event_json page)),
                   (''next_from'', case nxt of None \<Rightarrow> JNull | Some n \<Rightarrow> JNumber (PosInt n)),
                   (''truncated'', JBool truncated)])))
       (st_replay (app_store app) x i from)"

definition mcp_unit :: "string \<Rightarrow> json \<Rightarrow> 'a result \<times> 'x \<Rightarrow> tool_result \<times> 'x" where
  "mcp_unit what ok r =
     apfst (\<lambda>r. case r of Inl e \<Rightarrow> ToolErr (what @ '' failed: '' @ error_display e) | Inr _ \<Rightarrow> ToolOk ok) r"

definition mcp_send_input :: "('c, 'x) app_env \<Rightarrow> string \<Rightarrow> string \<Rightarrow> 'x \<Rightarrow> tool_result \<times> 'x" where
  "mcp_send_input app i text x =
     mcp_unit ''send'' (JObject [(''delivered'', JBool True)])
       (fp_send_input (app_fleet app) x i (UserMessage text))"

definition mcp_end_input :: "('c, 'x) app_env \<Rightarrow> string \<Rightarrow> 'x \<Rightarrow> tool_result \<times> 'x" where
  "mcp_end_input app i x =
     mcp_unit ''end-input'' (JObject [(''delivered'', JBool True)])
       (fp_send_input (app_fleet app) x i EndInput)"

definition mcp_kill_agent :: "('c, 'x) app_env \<Rightarrow> string \<Rightarrow> 'x \<Rightarrow> tool_result \<times> 'x" where
  "mcp_kill_agent app i x =
     mcp_unit ''kill'' (JObject [(''killed'', JString i)]) (fp_stop_agent (app_fleet app) x i DrainKill)"

definition mcp_respawn_agent :: "('c, 'x) app_env \<Rightarrow> string \<Rightarrow> 'x \<Rightarrow> tool_result \<times> 'x" where
  "mcp_respawn_agent app i x =
     apfst (\<lambda>r. case r of
          Inl e \<Rightarrow> ToolErr (''respawn failed: '' @ error_display e)
        | Inr new \<Rightarrow> ToolOk (JObject [(''agent_id'', JString new)]))
       (fp_restart_agent (app_fleet app) x i)"

end
