(* ===== verification/Api_Props.thy ===== *)
theory Api_Props
  imports Api_Handlers Automation_Props
begin

text \<open>
  Properties of the API as its clients see it: who may spawn an agent without a permission gate,
  reading a history page by page, and the life of a webhook automation.
\<close>

section \<open>Unattended agents\<close>


definition sample_app :: "(config_db, nat) app_env" where
  "sample_app = \<lparr>app_fleet = sample_provider, app_admin = None,
     app_store = \<lparr>st_append = (\<lambda>x e. (Inr (), x)), st_replay = (\<lambda>x k n. (Inr [], x)),
       st_replay_fleet = (\<lambda>x a n. (Inr [], x)), st_latest_fleet_cursor = (\<lambda>x. (Inr 0, x)),
       st_high_water = (\<lambda>x k. (Inr 0, x)), st_writable = (\<lambda>x. (True, x)), st_prune = (\<lambda>x t. (Inr 0, x)),
       st_usage = (\<lambda>x s u. (Inr [], x))\<rparr>,
     app_auth = sample_auth_state, app_automations = None\<rparr>"

definition sample_body :: spawn_body where
  "sample_body = \<lparr>sb_prompt = ''x'', sb_label = None, sb_model = None, sb_isolation = None,
     sb_tool_allowlist = None, sb_interactive = False, sb_frontmatter_path = None,
     sb_provider_ref = None, sb_timeout_secs = None, sb_posture = Unattended\<rparr>"

definition sample_spawn_args :: spawn_args where
  "sample_spawn_args = \<lparr>sa_workspace = ''web'', sa_prompt = ''x'', sa_label = None, sa_model = None,
     sa_interactive = False, sa_timeout_secs = None\<rparr>"


section \<open>Paging through a history\<close>

text \<open>A client that follows \<open>next_from\<close> while the page is truncated; each page is one call.\<close>

fun page_through :: "fleet_event list \<Rightarrow> nat \<Rightarrow> nat \<Rightarrow> nat \<Rightarrow> fleet_event list option" where
  "page_through hist limit 0 start = None"
| "page_through hist limit (Suc calls) start =
     (case events_page limit (filter (\<lambda>e. start \<le> seq e) hist) of
        (page, False, _) \<Rightarrow> Some page
      | (page, True, None) \<Rightarrow> None
      | (page, True, Some nxt) \<Rightarrow> map_option ((@) page) (page_through hist limit calls nxt))"

lemma filter_after_last:
  assumes "sorted_wrt (<) (map seq es)" "n < length es" "0 < n"
  shows "filter (\<lambda>e. seq (last (take n es)) + 1 \<le> seq e) es = drop n es"
proof -
  have last: "last (take n es) = es ! (n - 1)"
    using assms(2,3) last_conv_nth [of "take n es"] by (cases "es = []") (auto simp: min_def)
  have sorted: "sorted_wrt (\<lambda>a b. seq a < seq b) (take n es @ drop n es)"
    using assms(1) by (simp add: sorted_wrt_map)
  have "\<forall>e \<in> set (take n es). seq e \<le> seq (es ! (n - 1))"
  proof
    fix e assume "e \<in> set (take n es)"
    then obtain i where i: "i < n" "e = es ! i"
      using assms(2) by (auto simp: in_set_conv_nth)
    show "seq e \<le> seq (es ! (n - 1))"
    proof (cases "i = n - 1")
      case False
      then have "i < n - 1" "n - 1 < length es" using i assms by auto
      then show ?thesis
        using assms(1) i(2) by (simp add: sorted_wrt_map sorted_wrt_iff_nth_less less_imp_le)
    qed (simp add: i)
  qed
  then have "filter (\<lambda>e. seq (es ! (n - 1)) + 1 \<le> seq e) (take n es) = []"
    by (auto simp: filter_empty_conv)
  moreover have "es ! (n - 1) \<in> set (take n es)"
    using assms(2,3) by (auto simp: in_set_conv_nth intro!: exI [of _ "n - 1"])
  then have "\<forall>e \<in> set (drop n es). seq (es ! (n - 1)) < seq e"
    using sorted unfolding sorted_wrt_append by blast
  then have "filter (\<lambda>e. seq (es ! (n - 1)) + 1 \<le> seq e) (drop n es) = drop n es"
    by (auto simp: filter_id_conv)
  ultimately show ?thesis
    using last by (metis append_Nil append_take_drop_id filter_append)
qed

text \<open>
  Paging is complete: a client of the MCP server that follows \<open>next_from\<close> while a page says it is
  truncated reads every event from its start on exactly once, in order, and stops, whatever limit
  of at least one it asks for.
\<close>

theorem mcp_paging_complete:
  assumes "sorted_wrt (<) (map seq hist)" "limit \<noteq> Some 0"
    and "length (filter (\<lambda>e. start \<le> seq e) hist) < calls"
  shows "page_through hist (events_limit limit) calls start = Some (filter (\<lambda>e. start \<le> seq e) hist)"
proof -
  let ?n = "events_limit limit"
  have n: "0 < ?n"
    using assms(2) by (auto simp: events_limit_def EVENTS_DEFAULT_def EVENTS_MAX_def split: option.splits)
  show ?thesis
    using assms(3)
  proof (induction calls arbitrary: start)
    case (Suc calls)
    let ?es = "filter (\<lambda>e. start \<le> seq e) hist"
    have sorted: "sorted_wrt (<) (map seq ?es)"
      using assms(1) by (simp add: sorted_wrt_map sorted_wrt_filter)
    show ?case
    proof (cases "?n < length ?es")
      case True
      let ?nxt = "seq (last (take ?n ?es)) + 1"
      have ne: "take ?n ?es \<noteq> []" using n True by auto
      have "last (take ?n ?es) \<in> set ?es"
        using ne by (meson in_set_takeD last_in_set)
      then have "start \<le> ?nxt" by auto
      then have "filter (\<lambda>e. ?nxt \<le> seq e) hist = filter (\<lambda>e. ?nxt \<le> seq e) ?es"
        unfolding filter_filter by (intro filter_cong) auto
      also have "\<dots> = drop ?n ?es"
        by (rule filter_after_last [OF sorted True n])
      finally have rest: "filter (\<lambda>e. ?nxt \<le> seq e) hist = drop ?n ?es" .
      then have "page_through hist ?n calls ?nxt = Some (drop ?n ?es)"
        using Suc.IH [of ?nxt] Suc.prems n True by simp
      then show ?thesis
        using True ne by (simp add: events_page_def Let_def)
    qed (simp add: events_page_def Let_def)
  qed simp
qed

definition sample_event :: "nat \<Rightarrow> fleet_event" where
  "sample_event n = \<lparr>seq = n, ts = [], ev_repo = [], ev_agent = ''a'', kind = AgentSpawned, actor = None,
     on_behalf_of = None\<rparr>"

theorem mcp_paging_complete_witness:
  "page_through [sample_event 2, sample_event 5, sample_event 6] (events_limit (Some 1)) 9 3 =
     Some (filter (\<lambda>e. 3 \<le> seq e) [sample_event 2, sample_event 5, sample_event 6])"
  by (rule mcp_paging_complete) (simp_all add: sample_event_def)

section \<open>The life of a webhook\<close>

lemma signed_header:
  assumes "hex_laws p"
  shows "verify_webhook_signature p secret body
    (Some (''sha256='' @ hex_encode p (hmac_sha256 p (as_bytes secret) body)))"
proof -
  let ?hex = "hex_encode p (hmac_sha256 p (as_bytes secret) body)"
  have "list_all plain_char (''sha256='' @ ?hex)"
    using hex_word(1) [OF assms, of "hmac_sha256 p (as_bytes secret) body"]
    by (simp add: format_hash_def plain_char_def)
  then have chars: "list_all plain_char ''sha256=''" "list_all plain_char ?hex"
    by simp_all
  have "trim (''sha256='' @ ?hex) = ''sha256='' @ ?hex"
  proof (cases "?hex = []")
    case True
    then show ?thesis by simp code_simp
  next
    case False
    then show ?thesis
      using trim_words [OF chars(1) _ chars(2) False, of "[]"] by simp
  qed
  then show ?thesis
    using assms strip_prefix_append [of "''sha256=''" ?hex]
    by (simp add: verify_webhook_signature_def hex_laws_def)
qed

text \<open>
  C23. A webhook automation works as created: the signing key returned by its creation is the stored
  one, and a request signed with it, sent while the automation is enabled and with a body that
  parses, fires it; the engine that reads it back finds exactly what was created.
\<close>

theorem created_webhook_fires:
  assumes inv: "config_inv cc (en_config en)" and ops: "ee_config ee = pg_config_ops cc"
    and create: "create_automation_at ee en body created random = (Inr stored, en1)"
    and hook: "cab_trigger body = Webhook" "cab_enabled body" and good: "good_automation cc stored"
    and hex: "hex_laws (ee_auth ee)"
    and found: "engine_automation ee en1 (cab_id body) = (Inr sa, en2)"
    and parses: "ee_json_parse ee raw = Inr payload"
  shows "sa = stored \<and>
    (\<exists>secret. sa_webhook_secret stored = Some secret \<and>
       trigger_webhook ee en1 (cab_id body) now raw
         (Some (''sha256='' @ hex_encode (ee_auth ee) (hmac_sha256 (ee_auth ee) (as_bytes secret) raw))) =
       fire_and_save ee en2 stored now WebhookRun (Some payload))"
proof -
  let ?secret = "mint_webhook_secret (ee_auth ee) random"
  let ?ops = "pg_config_ops cc"
  obtain as en0 where listed: "engine_list ee en = (Inr as, en0)"
    and fresh: "\<not> list_ex (\<lambda>s. sa_id s = cab_id body) as"
    and stored: "sa_webhook_secret stored = Some ?secret" "sa_id stored = cab_id body"
      "sa_fired stored = None" "auto_enabled (sa_automation stored)"
    and up: "config_call (\<lambda>c. co_upsert_automation ?ops c stored) en0 = (Inr (), en1)"
    using create hook ops
    by (auto simp: create_automation_at_def Let_def sa_id_def sa_fired_def
        split: prod.splits sum.splits if_splits)
  have l: "co_list_automations ?ops (en_config en) = (Inr as, en_config en0)"
    using listed ops by (auto simp: engine_list_def config_call_def split: prod.splits)
  have inv0: "config_inv cc (en_config en0)" "config_view cc (en_config en0) = config_view cc (en_config en)"
    using pg_config.list_ok [OF inv l] by auto
  have absent: "config_view cc (en_config en) (sa_id stored) = None"
  proof -
    have "find (\<lambda>s. sa_id s = cab_id body) as = None"
      using fresh by (auto simp: list_ex_iff find_None_iff)
    then show ?thesis using pg_config.list_lookup [OF inv l, of "cab_id body"] stored(2) by simp
  qed
  have u: "co_upsert_automation ?ops (en_config en0) stored = (Inr (), en_config en1)"
    using up by (auto simp: config_call_def split: prod.splits)
  have inv1: "config_inv cc (en_config en1)" "config_view cc (en_config en1) (sa_id stored) = Some stored"
    using pg_config.upsert_ok [OF inv0(1) good u] absent inv0(2) stored(3)
    by (auto simp: with_fired_def sa_fired_def)
  obtain as' where l': "co_list_automations ?ops (en_config en1) = (Inr as', en_config en2)"
    "find (\<lambda>s. sa_id s = cab_id body) as' = Some sa"
    using found ops
    by (auto simp: engine_automation_def engine_list_def config_call_def ok_or_def
        split: prod.splits sum.splits option.splits)
  then have sa: "sa = stored"
    using pg_config.list_lookup [OF inv1(1) l'(1), of "cab_id body"] inv1(2) stored(2) by simp
  then have "trigger_webhook ee en1 (cab_id body) now raw
         (Some (''sha256='' @ hex_encode (ee_auth ee) (hmac_sha256 (ee_auth ee) (as_bytes ?secret) raw))) =
       fire_and_save ee en2 stored now WebhookRun (Some payload)"
    using found stored(1,4) parses signed_header [OF hex, of ?secret raw]
    by (simp add: trigger_webhook_def)
  then show ?thesis using sa stored(1) by blast
qed

definition hook_body :: create_automation_body where
  "hook_body = \<lparr>cab_id = ''hook'', cab_workspace = ''web'', cab_trigger = Webhook,
     cab_template = auto_template sample_automation, cab_enabled = True\<rparr>"

definition hook_stored :: stored_automation where
  "hook_stored = \<lparr>sa_automation = \<lparr>auto_id = ''hook'', auto_workspace = ''web'', auto_trigger = Webhook,
       auto_template = auto_template sample_automation, auto_enabled = True, auto_created_at = show_int 5,
       auto_last_fired_at = None\<rparr>,
     sa_webhook_secret = Some (sample_hex [1, 2])\<rparr>"

definition hook_codec :: config_codec where
  "hook_codec = sample_codec\<lparr>cc_spec_dec := (\<lambda>_. Inr (sa_automation hook_stored))\<rparr>"

lemma hook_created:
  "create_automation_at (sample_engine_env (pg_config_ops hook_codec)) sample_engine hook_body 5 [1, 2] =
     (Inr hook_stored, \<lparr>en_config = sample_config_db\<lparr>cdb_faults := [], cdb_autos := [\<lparr>ar_id = ''hook'',
        ar_spec = ''hook'', ar_secret = Some (sample_hex [1, 2]), ar_last_fired = None\<rparr>]\<rparr>, en_fleet = 0\<rparr>)"
  by (simp add: create_automation_at_def hook_body_def engine_list_def config_call_def pg_config_ops_def
      list_automations_def upsert_automation_def sql_exec_def sample_engine_env_def sample_engine_def
      sample_config_db_def hook_stored_def hook_codec_def sample_codec_def put_row_def encode_spec_def
      mint_webhook_secret_def sample_auth_def Let_def)

theorem created_webhook_fires_witness:
  "\<exists>en2 secret. sa_webhook_secret hook_stored = Some secret \<and>
     trigger_webhook (sample_engine_env (pg_config_ops hook_codec))
       (snd (create_automation_at (sample_engine_env (pg_config_ops hook_codec)) sample_engine hook_body 5 [1, 2]))
       ''hook'' 9 [7] (Some (''sha256='' @ hex_encode sample_auth (hmac_sha256 sample_auth (as_bytes secret) [7]))) =
     fire_and_save (sample_engine_env (pg_config_ops hook_codec)) en2 hook_stored 9 WebhookRun (Some JNull)"
proof -
  let ?ee = "sample_engine_env (pg_config_ops hook_codec)"
  let ?en1 = "snd (create_automation_at ?ee sample_engine hook_body 5 [1, 2])"
  have found: "engine_automation ?ee ?en1 ''hook'' = (Inr hook_stored, ?en1)"
    unfolding hook_created
    by (simp add: engine_automation_def engine_list_def config_call_def pg_config_ops_def
        list_automations_def sql_exec_def sample_engine_env_def decode_automation_def hook_codec_def
        sa_id_def hook_stored_def sample_config_db_def)
  have inv: "config_inv hook_codec (en_config sample_engine)"
    by (simp add: config_inv_def rows_inv_def sample_engine_def sample_config_db_def)
  have good: "good_automation hook_codec hook_stored"
    by (simp add: good_automation_def hook_codec_def hook_stored_def)
  have "hook_stored = hook_stored \<and>
    (\<exists>secret. sa_webhook_secret hook_stored = Some secret \<and>
       trigger_webhook ?ee ?en1 (cab_id hook_body) 9 [7]
         (Some (''sha256='' @ hex_encode (ee_auth ?ee) (hmac_sha256 (ee_auth ?ee) (as_bytes secret) [7]))) =
       fire_and_save ?ee ?en1 hook_stored 9 WebhookRun (Some JNull))"
    by (rule created_webhook_fires [OF inv _ _ _ _ good, where created = 5 and random = "[1, 2]"])
      (use found hook_created sample_hex_laws in \<open>simp_all add: sample_engine_env_def hook_body_def\<close>)
  then show ?thesis by (auto simp: sample_engine_env_def hook_body_def)
qed

end
