(* ===== verification/K8s_Crd.thy ===== *)
theory K8s_Crd
  imports Fleet_Provider Auth_Tokens
begin

text \<open>
  The Kubernetes backend's view of the operator's custom resources (\<open>core/src/k8s/crd.rs\<close>), the
  projections between them and the fleet's own model (\<open>core/src/k8s/fleet.rs\<close>), the condition that
  reports a finished agent (\<open>core/src/k8s/status.rs\<close>) and the workspace administration
  (\<open>core/src/k8s/workspace_api.rs\<close>). The client of the API server is third-party code: its calls are
  the fields of a port. A resource's metadata keeps the three fields the code reads; the creation
  time is its rendering.
\<close>

section \<open>Custom resources (\<open>crd.rs\<close>)\<close>

text \<open>
  \<open>Provider\<close>, \<open>ResolvedProvider\<close> and \<open>IsolationSpec\<close> have the fields of the backend-neutral types and share
  their records; an \<open>EnvEntry\<close> is a pair, a by-name reference is the name.
\<close>

record object_meta =
  om_name :: "string option"
  om_uid :: "string option"
  om_creation :: "string option"

record crd_source =
  cs_name :: string
  cs_repo :: string
  cs_ref :: string
  cs_path :: string

record crd_task =
  cd_prompt :: string
  cd_agent_type :: "string option"
  cd_interactive :: "bool option"
  cd_posture :: "permission_posture option"

record caliban_task_spec =
  cp_workspace_ref :: string
  cp_provider_ref :: "string option"
  cp_task :: crd_task
  cp_isolation :: "isolation_config option"
  cp_tools :: "string list option"

record crd_condition =
  cn_type :: string
  cn_status :: string
  cn_reason :: string
  cn_message :: "string option"

record resolved_workspace =
  rs_sources :: "crd_source list"
  rs_provider :: provider_spec
  rs_env :: "(string \<times> string) list"
  rs_isolation :: "isolation_config option"

record caliban_task_status =
  ck_phase :: string
  ck_endpoint :: "string option"
  ck_sandbox :: "string option"
  ck_resolved :: "resolved_workspace option"
  ck_conditions :: "crd_condition list"
  ck_posture :: "permission_posture option"

record caliban_task =
  ct_meta :: object_meta
  ct_spec :: caliban_task_spec
  ct_status :: "caliban_task_status option"

record workspace_spec =
  wp_display_name :: string
  wp_sources :: "crd_source list"
  wp_providers :: "provider_spec list"
  wp_default_provider :: "string option"
  wp_env :: "(string \<times> string) list"
  wp_isolation :: "isolation_config option"

record workspace_status =
  wt_phase :: string
  wt_observed_generation :: "int option"
  wt_message :: "string option"

record workspace_cr =
  wr_meta :: object_meta
  wr_spec :: workspace_spec
  wr_status :: "workspace_status option"

text \<open>\<open>CalibanTask::new\<close> and \<open>Workspace::new\<close>: a named resource without a status.\<close>

definition new_meta :: "string \<Rightarrow> object_meta" where
  "new_meta name = \<lparr>om_name = Some name, om_uid = None, om_creation = None\<rparr>"

definition caliban_task_new :: "string \<Rightarrow> caliban_task_spec \<Rightarrow> caliban_task" where
  "caliban_task_new name spec = \<lparr>ct_meta = new_meta name, ct_spec = spec, ct_status = None\<rparr>"

definition workspace_new :: "string \<Rightarrow> workspace_spec \<Rightarrow> workspace_cr" where
  "workspace_new name spec = \<lparr>wr_meta = new_meta name, wr_spec = spec, wr_status = None\<rparr>"

definition or_default :: "string option \<Rightarrow> string" where
  "or_default o' = (case o' of Some s \<Rightarrow> s | None \<Rightarrow> [])"

definition ct_name :: "caliban_task \<Rightarrow> string option" where
  "ct_name t = om_name (ct_meta t)"

section \<open>Building a task (\<open>fleet.rs\<close>)\<close>

definition task_name_input :: "task_spec \<Rightarrow> u8 list" where
  "task_name_input spec =
     as_bytes (tk_workspace spec) @ [0] @ as_bytes (rq_prompt (tk_request spec)) @ [0] @
     (case rq_label (tk_request spec) of Some l \<Rightarrow> as_bytes l | None \<Rightarrow> [])"

definition task_name :: "auth_port \<Rightarrow> task_spec \<Rightarrow> string" where
  "task_name p spec = ''ct-'' @ take 16 (hex_encode p (sha256 p (task_name_input spec)))"

definition build_calibantask :: "task_spec \<Rightarrow> string \<Rightarrow> caliban_task" where
  "build_calibantask spec name =
     (let rq = tk_request spec
      in caliban_task_new name
           \<lparr>cp_workspace_ref = tk_workspace spec, cp_provider_ref = rq_provider_ref rq,
            cp_task = \<lparr>cd_prompt = rq_prompt rq, cd_agent_type = None,
                       cd_interactive = (if rq_interactive rq then Some True else None),
                       cd_posture = (if rq_permission_posture rq \<noteq> Supervised
                                     then Some (rq_permission_posture rq) else None)\<rparr>,
            cp_isolation = None, cp_tools = rq_tool_allowlist rq\<rparr>)"

section \<open>Reading a task (\<open>fleet.rs\<close>)\<close>

text \<open>\<open>str::contains\<close>.\<close>

fun str_contains :: "string \<Rightarrow> string \<Rightarrow> bool" where
  "str_contains pat [] = (pat = [])"
| "str_contains pat (c # s) = (take (length pat) (c # s) = pat \<or> str_contains pat s)"

definition validate_caliband_endpoint :: "auth_port \<Rightarrow> string \<Rightarrow> unit result" where
  "validate_caliband_endpoint p addr =
     (if trim addr = [] then Inl (FleetError ''CalibanTask status.calibandEndpoint is empty'')
      else if str_contains ''://'' addr
      then Inl (FleetError (''CalibanTask status.calibandEndpoint must be a bare host:port, not a URL: '' @
                            str_debug p addr))
      else if list_ex is_whitespace (utf8_chars addr)
      then Inl (FleetError (''CalibanTask status.calibandEndpoint contains whitespace: '' @ str_debug p addr))
      else Inr ())"

definition handle_from :: "auth_port \<Rightarrow> caliban_task \<Rightarrow> string \<Rightarrow> agent_handle option result" where
  "handle_from p task repo =
     (case ct_status task of
        None \<Rightarrow> Inr None
      | Some st \<Rightarrow>
          if ck_phase st \<noteq> ''Running'' then Inr None
          else case ck_endpoint st of
                 None \<Rightarrow> Inr None
               | Some addr \<Rightarrow>
                   (case ct_name task of
                      None \<Rightarrow> Inr None
                    | Some name \<Rightarrow>
                        rbind (validate_caliband_endpoint p addr) (\<lambda>_.
                          Inr (Some \<lparr>ah_id = name, ah_workspace = repo, ah_endpoint = Some (Tcp addr),
                                     ah_created = False\<rparr>))))"

definition admitted_posture :: "caliban_task \<Rightarrow> permission_posture" where
  "admitted_posture task =
     (case Option.bind (ct_status task) ck_posture of Some q \<Rightarrow> q | None \<Rightarrow> Supervised)"

definition spawn_spec_from_task :: "caliban_task \<Rightarrow> spawn_spec" where
  "spawn_spec_from_task task =
     (let provider = map_option rs_provider (Option.bind (ct_status task) ck_resolved);
          spec = ct_spec task
      in \<lparr>sp_label = ct_name task, sp_frontmatter_path = None,
          sp_initial_prompt = cd_prompt (cp_task spec), sp_model = Option.bind provider ps_model,
          sp_provider = map_option ps_kind provider, sp_tool_allowlist = cp_tools spec,
          sp_isolation_worktree = (Option.bind (cp_isolation spec) worktrees = Some ''per-source''),
          sp_inherit_hooks = True,
          sp_interactive = (case cd_interactive (cp_task spec) of Some b \<Rightarrow> b | None \<Rightarrow> False),
          sp_permission_posture = wire_posture_of (admitted_posture task), sp_drive_protocol = Ndjson\<rparr>)"

definition phase_to_status :: "string \<Rightarrow> agent_status" where
  "phase_to_status phase =
     (if phase \<in> set [[], ''Pending'', ''Provisioning''] then Spawning
      else if phase = ''Running'' then Running
      else if phase = ''Draining'' then Idle
      else if phase = ''Completed'' then Done
      else Failed)"

text \<open>The iteration order of the hash map of the current uids is the parameter \<open>ord\<close>.\<close>

definition recreated_names ::
  "(string set \<Rightarrow> string list) \<Rightarrow> (string \<rightharpoonup> string) \<Rightarrow> (string \<rightharpoonup> string) \<Rightarrow> string list" where
  "recreated_names ord last_uids current =
     filter (\<lambda>n. case last_uids n of Some prev \<Rightarrow> Some prev \<noteq> current n | None \<Rightarrow> False) (ord (dom current))"

definition unready_reason :: "caliban_task \<Rightarrow> string option \<times> string option" where
  "unready_reason task =
     (case Option.bind (ct_status task) (\<lambda>s. find (\<lambda>c. cn_type c = ''Ready'') (ck_conditions s)) of
        None \<Rightarrow> (None, None)
      | Some cond \<Rightarrow>
          if cn_status cond = ''True'' then (None, None)
          else (if cn_reason cond = [] then None else Some (cn_reason cond), cn_message cond))"

definition agent_from_task :: "caliban_task \<Rightarrow> agent" where
  "agent_from_task task =
     (let name = or_default (ct_name task);
          (reason, detail) = unready_reason task
      in \<lparr>agent_id = name, agent_name = name, agent_workspace = cp_workspace_ref (ct_spec task),
          agent_status = phase_to_status (or_default (map_option ck_phase (ct_status task))),
          started_at = or_default (om_creation (ct_meta task)), isolated = False, agent_interactive = False,
          session_dir = [], agent_posture = admitted_posture task, agent_reason = reason,
          agent_detail = detail\<rparr>)"

definition workspace_view :: "workspace_cr \<Rightarrow> agent list \<Rightarrow> workspace" where
  "workspace_view ws agents =
     \<lparr>ws_name = or_default (om_name (wr_meta ws)), ws_root = [],
      ws_sources = map (\<lambda>s. \<lparr>source_name = cs_name s, source_path = cs_path s\<rparr>) (wp_sources (wr_spec ws)),
      ws_health = Healthy, ws_config = default_provider_config, ws_agents = agents\<rparr>"

section \<open>Calls to the API server\<close>

text \<open>
  \<open>CalibanTaskApi\<close> and \<open>WorkspaceApi\<close> as records of operations, and their implementation on the kube
  client, whose calls fail with an API status or something else (\<open>kube::Error\<close>).
\<close>

record 'k task_api =
  ta_apply :: "'k \<Rightarrow> caliban_task \<Rightarrow> unit result \<times> 'k"
  ta_get :: "'k \<Rightarrow> string \<Rightarrow> caliban_task option result \<times> 'k"
  ta_delete :: "'k \<Rightarrow> string \<Rightarrow> unit result \<times> 'k"
  ta_list :: "'k \<Rightarrow> caliban_task list result \<times> 'k"
  ta_condition :: "'k \<Rightarrow> string \<Rightarrow> crd_condition \<Rightarrow> unit result \<times> 'k"

record 'k workspace_api =
  wa_apply :: "'k \<Rightarrow> workspace_cr \<Rightarrow> unit result \<times> 'k"
  wa_get :: "'k \<Rightarrow> string \<Rightarrow> workspace_cr option result \<times> 'k"
  wa_list :: "'k \<Rightarrow> workspace_cr list result \<times> 'k"
  wa_delete :: "'k \<Rightarrow> string \<Rightarrow> bool result \<times> 'k"

datatype kube_error = KubeApi nat string | KubeOther string

record ('k, 'r) kube_port =
  kp_apply :: "'k \<Rightarrow> string \<Rightarrow> 'r \<Rightarrow> kube_error option \<times> 'k"
  kp_get :: "'k \<Rightarrow> string \<Rightarrow> (kube_error + 'r option) \<times> 'k"
  kp_delete :: "'k \<Rightarrow> string \<Rightarrow> kube_error option \<times> 'k"
  kp_list :: "'k \<Rightarrow> (kube_error + 'r list) \<times> 'k"
  kp_patch_status :: "'k \<Rightarrow> string \<Rightarrow> json \<Rightarrow> kube_error option \<times> 'k"

fun kube_error_text :: "kube_error \<Rightarrow> string" where
  "kube_error_text (KubeApi code m) = m"
| "kube_error_text (KubeOther m) = m"

definition map_kube_err :: "string \<Rightarrow> kube_error \<Rightarrow> core_error" where
  "map_kube_err op' e = FleetError (op' @ '': '' @ kube_error_text e)"

definition kube_unit :: "string \<Rightarrow> kube_error option \<Rightarrow> unit result" where
  "kube_unit op' e = (case e of None \<Rightarrow> Inr () | Some err \<Rightarrow> Inl (map_kube_err op' err))"

definition kube_result :: "string \<Rightarrow> kube_error + 'a \<Rightarrow> 'a result" where
  "kube_result op' r = (case r of Inr a \<Rightarrow> Inr a | Inl err \<Rightarrow> Inl (map_kube_err op' err))"

text \<open>The list is decoded item by item; one that does not decode is skipped.\<close>

definition parse_calibantask_list :: "(json \<Rightarrow> string + caliban_task) \<Rightarrow> json list \<Rightarrow> caliban_task list" where
  "parse_calibantask_list decode items =
     List.map_filter (\<lambda>item. case decode item of Inr task \<Rightarrow> Some task | Inl _ \<Rightarrow> None) items"

definition condition_json :: "crd_condition \<Rightarrow> json" where
  "condition_json c =
     JObject ([(''type'', JString (cn_type c)), (''status'', JString (cn_status c)),
               (''reason'', JString (cn_reason c))] @
              (case cn_message c of Some m \<Rightarrow> [(''message'', JString m)] | None \<Rightarrow> []))"

definition status_condition_patch :: "string \<Rightarrow> crd_condition \<Rightarrow> json" where
  "status_condition_patch name c =
     JObject [(''apiVersion'', JString ''caliban.caliban-ai.dev/v1alpha1''), (''kind'', JString ''CalibanTask''),
              (''metadata'', JObject [(''name'', JString name)]),
              (''status'', JObject [(''conditions'', JArray [condition_json c])])]"

text \<open>
  \<open>KubeTaskApi\<close>; \<open>dyn\<close> lists the same resources as untyped objects, whose re-serialisation may fail.
\<close>

definition kube_task_api ::
  "('k, caliban_task) kube_port \<Rightarrow> ('k \<Rightarrow> (kube_error + (string + json) list) \<times> 'k) \<Rightarrow>
     (json \<Rightarrow> string + caliban_task) \<Rightarrow> 'k task_api" where
  "kube_task_api kp dyn decode =
     \<lparr>ta_apply = (\<lambda>k ct. case ct_name ct of
          None \<Rightarrow> (Inl (FleetError ''CalibanTask missing metadata.name''), k)
        | Some name \<Rightarrow> apfst (kube_unit ''apply CalibanTask'') (kp_apply kp k name ct)),
      ta_get = (\<lambda>k name. apfst (kube_result ''get CalibanTask'') (kp_get kp k name)),
      ta_delete = (\<lambda>k name. apfst (\<lambda>e. case e of
          Some (KubeApi code m) \<Rightarrow> if code = 404 then Inr () else Inl (map_kube_err ''delete CalibanTask'' (KubeApi code m))
        | _ \<Rightarrow> kube_unit ''delete CalibanTask'' e) (kp_delete kp k name)),
      ta_list = (\<lambda>k. apfst (\<lambda>r. rbind (kube_result ''list CalibanTask'' r) (\<lambda>items.
          case find_map (\<lambda>i. case i of Inl e \<Rightarrow> Some e | Inr _ \<Rightarrow> None) items of
            Some e \<Rightarrow> Inl (FleetError (''list CalibanTask: re-serialize item: '' @ e))
          | None \<Rightarrow> Inr (parse_calibantask_list decode (List.map_filter (\<lambda>i. case i of Inl _ \<Rightarrow> None | Inr v \<Rightarrow> Some v) items))))
          (dyn k)),
      ta_condition = (\<lambda>k name c. apfst (kube_unit ''apply CalibanTask status condition'')
          (kp_patch_status kp k name (status_condition_patch name c)))\<rparr>"

definition kube_workspace_api :: "('k, workspace_cr) kube_port \<Rightarrow> 'k workspace_api" where
  "kube_workspace_api kp =
     \<lparr>wa_apply = (\<lambda>k ws. case om_name (wr_meta ws) of
          None \<Rightarrow> (Inl (FleetError ''Workspace missing metadata.name''), k)
        | Some name \<Rightarrow> apfst (kube_unit ''apply Workspace'') (kp_apply kp k name ws)),
      wa_get = (\<lambda>k name. apfst (kube_result ''get Workspace'') (kp_get kp k name)),
      wa_list = (\<lambda>k. apfst (kube_result ''list Workspace'') (kp_list kp k)),
      wa_delete = (\<lambda>k name. apfst (\<lambda>e. case e of
          None \<Rightarrow> Inr True
        | Some (KubeApi code m) \<Rightarrow> if code = 404 then Inr False else Inl (map_kube_err ''delete Workspace'' (KubeApi code m))
        | Some err \<Rightarrow> Inl (map_kube_err ''delete Workspace'' err)) (kp_delete kp k name))\<rparr>"

section \<open>Settled agents (\<open>status.rs\<close>)\<close>

definition AGENTS_SETTLED :: string where
  "AGENTS_SETTLED = ''AgentsSettled''"

definition agents_settled_condition :: "agent_status list \<Rightarrow> crd_condition" where
  "agents_settled_condition agents =
     (let settled = (agents \<noteq> [] \<and> list_all is_terminal agents);
          (flag, reason) =
            (if \<not> settled then (''False'', ''AgentsActive'')
             else if list_ex (\<lambda>s. s = Failed \<or> s = Crashed) agents then (''True'', ''Failed'')
             else (''True'', ''Succeeded''))
      in \<lparr>cn_type = AGENTS_SETTLED, cn_status = flag, cn_reason = reason, cn_message = None\<rparr>)"

definition report_agents_settled ::
  "'k task_api \<Rightarrow> (string \<times> agent_status list) list \<Rightarrow> 'k \<Rightarrow> 'k" where
  "report_agents_settled api observed k =
     foldl (\<lambda>k (name, agents). snd (ta_condition api k name (agents_settled_condition agents))) k observed"

section \<open>Workspace administration (\<open>workspace_api.rs\<close>)\<close>

definition validate_k8s_config :: "auth_port \<Rightarrow> workspace_config \<Rightarrow> unit result" where
  "validate_k8s_config p cfg =
     (if wc_sources cfg = [] then Inl (InvalidConfig ''workspace requires at least one source'')
      else case find (\<lambda>s. trim (wss_name s) = [] \<or> trim (wss_repo s) = [] \<or> trim (wss_path s) = [])
                  (wc_sources cfg) of
        Some s \<Rightarrow> Inl (InvalidConfig (''source '' @ str_debug p (wss_name s) @ '' needs a name, repo, and path''))
      | None \<Rightarrow>
          if wc_providers cfg = [] then Inl (InvalidConfig ''workspace requires at least one provider'')
          else case find (\<lambda>q. trim (ps_name q) = [] \<or> trim (ps_kind q) = []) (wc_providers cfg) of
                 Some q \<Rightarrow> Inl (InvalidConfig (''provider '' @ str_debug p (ps_name q) @ '' needs a name and kind''))
               | None \<Rightarrow> Inr ())"

text \<open>The environment is a \<open>BTreeMap\<close>, iterated in the order of its keys.\<close>

definition workspace_from_config :: "string \<Rightarrow> workspace_config \<Rightarrow> workspace_cr" where
  "workspace_from_config name cfg =
     workspace_new name
       \<lparr>wp_display_name = (case wc_display_name cfg of Some d \<Rightarrow> d | None \<Rightarrow> name),
        wp_sources = map (\<lambda>s. \<lparr>cs_name = wss_name s, cs_repo = wss_repo s,
                               cs_ref = (case wss_ref s of Some r \<Rightarrow> r | None \<Rightarrow> ''main''),
                               cs_path = wss_path s\<rparr>) (wc_sources cfg),
        wp_providers = wc_providers cfg, wp_default_provider = wc_default_provider cfg,
        wp_env = map (\<lambda>n. (n, the (env (wc_local cfg) n))) (sorted_list_of_set (dom (env (wc_local cfg)))),
        wp_isolation = wc_isolation cfg\<rparr>"

definition workspace_info_of :: "workspace_cr \<Rightarrow> workspace_info" where
  "workspace_info_of ws =
     \<lparr>wi_name = or_default (om_name (wr_meta ws)),
      wi_display_name = (if wp_display_name (wr_spec ws) = [] then None else Some (wp_display_name (wr_spec ws))),
      wi_sources = map (\<lambda>s. \<lparr>wss_name = cs_name s, wss_repo = cs_repo s, wss_ref = Some (cs_ref s),
                             wss_path = cs_path s\<rparr>) (wp_sources (wr_spec ws)),
      wi_providers = map (\<lambda>q. \<lparr>pi_name = ps_name q, pi_kind = ps_kind q, pi_base_url = ps_base_url q,
                               pi_model = ps_model q, pi_has_credentials = (ps_credentials_ref q \<noteq> None)\<rparr>)
                        (wp_providers (wr_spec ws)),
      wi_default_provider = wp_default_provider (wr_spec ws),
      wi_status = map_option (\<lambda>s. \<lparr>wsi_phase = wt_phase s, wsi_message = wt_message s\<rparr>) (wr_status ws)\<rparr>"

definition k8s_put_workspace ::
  "auth_port \<Rightarrow> 'k workspace_api \<Rightarrow> 'k \<Rightarrow> string \<Rightarrow> workspace_config \<Rightarrow> unit result \<times> 'k" where
  "k8s_put_workspace p api k name cfg =
     (case validate_k8s_config p cfg of
        Inl e \<Rightarrow> (Inl e, k)
      | Inr _ \<Rightarrow> wa_apply api k (workspace_from_config name cfg))"

definition k8s_workspace_admin :: "auth_port \<Rightarrow> 'k workspace_api \<Rightarrow> 'k fleet_admin" where
  "k8s_workspace_admin p api =
     \<lparr>fa_add_workspace = (\<lambda>k name root cfg. k8s_put_workspace p api k name cfg),
      fa_remove_workspace = wa_delete api,
      fa_set_config = k8s_put_workspace p api,
      fa_list_workspaces = (\<lambda>k. apfst (\<lambda>r. rbind r (\<lambda>ws. Inr (map workspace_info_of ws))) (wa_list api k)),
      fa_async = True\<rparr>"

end
