(* ===== verification/K8s_Fleet.thy ===== *)
theory K8s_Fleet
  imports K8s_Crd
begin

text \<open>
  The Kubernetes fleet (\<open>core/src/k8s/fleet.rs\<close>): the session plane with its attach tasks, the shared
  poll loop that compares the listed tasks with what it knew, records outcomes and attaches, the
  streams of changes its subscribers read, and the operations of \<open>FleetProvider\<close>. As for the local
  manager, an operation runs without interruption, the answers of the outside come from a world
  that the operations thread, and an attach task is queued when it is started and runs as a step of
  its own. A hash map is a partial map; \<open>ke_order\<close> is the order in which one is iterated.
\<close>

section \<open>State and environment\<close>

record k8s_task =
  kt_generation :: nat
  kt_agent :: string
  kt_repo :: string
  kt_addr :: string
  kt_spec :: "spawn_spec option"

record ('s, 'w) k8s_fleet =
  kf_known :: "string \<rightharpoonup> agent"
  kf_changes :: "fleet_change list"
  kf_attached :: "string \<rightharpoonup> nat"
  kf_generation :: nat
  kf_terminal :: "string set"
  kf_recorded :: "string set"
  kf_uids :: "string \<rightharpoonup> string"
  kf_emitter :: "'s emitter"
  kf_tasks :: "k8s_task list"
  kf_world :: 'w

text \<open>
  \<open>ke_timed_out\<close> says whether a dial of the overlay misses its deadline. \<open>ke_workspaces\<close> is the registry
  when one is wired.
\<close>

record ('s, 'w) k8s_env =
  ke_auth :: auth_port
  ke_api :: "'w task_api"
  ke_workspaces :: "'w workspace_api option"
  ke_ops :: "'s store_ops"
  ke_emit :: emit_env
  ke_attach :: "'w attach_port"
  ke_try_acquire :: "'w \<Rightarrow> string \<Rightarrow> lease option \<times> 'w"
  ke_release :: "'w \<Rightarrow> string \<Rightarrow> 'w"
  ke_tls :: "string option"
  ke_token :: "string option"
  ke_thinking :: bool
  ke_timed_out :: "'w \<Rightarrow> caliband_client \<Rightarrow> bool \<times> 'w"
  ke_order :: "string set \<Rightarrow> string list"

abbreviation ke_port :: "('s, 'w) k8s_env \<Rightarrow> 'w caliband_port" where
  "ke_port ke \<equiv> ap_port (ke_attach ke)"

definition k8s_new :: "'s \<Rightarrow> 'w \<Rightarrow> ('s, 'w) k8s_fleet" where
  "k8s_new store w =
     \<lparr>kf_known = Map.empty, kf_changes = [], kf_attached = Map.empty, kf_generation = 0, kf_terminal = {},
      kf_recorded = {}, kf_uids = Map.empty, kf_emitter = emitter_new store, kf_tasks = [], kf_world = w\<rparr>"

definition k8s_outside :: "('w \<Rightarrow> 'a \<times> 'w) \<Rightarrow> ('s, 'w) k8s_fleet \<Rightarrow> 'a \<times> ('s, 'w) k8s_fleet" where
  "k8s_outside f kf = (case f (kf_world kf) of (r, w) \<Rightarrow> (r, kf\<lparr>kf_world := w\<rparr>))"

definition k8s_emit ::
  "('s, 'w) k8s_env \<Rightarrow> ('s, 'w) k8s_fleet \<Rightarrow> string \<Rightarrow> string \<Rightarrow> event_kind \<Rightarrow> ('s, 'w) k8s_fleet" where
  "k8s_emit ke kf repo i k = kf\<lparr>kf_emitter := emit (ke_ops ke) (ke_emit ke) (kf_emitter kf) repo i k\<rparr>"

section \<open>The pod's agent\<close>

datatype pod_agent_error = TerminalAgent core_error | Transient core_error

fun pod_error_terminal :: "pod_agent_error \<Rightarrow> bool" where
  "pod_error_terminal (TerminalAgent _) = True"
| "pod_error_terminal (Transient _) = False"

fun of_pod_error :: "pod_agent_error \<Rightarrow> core_error" where
  "of_pod_error (TerminalAgent e) = e"
| "of_pod_error (Transient e) = e"

definition ensure_pod_agent ::
  "'w caliband_port \<Rightarrow> 'w \<Rightarrow> caliband_client \<Rightarrow> spawn_spec option \<Rightarrow> (pod_agent_error + string) \<times> 'w" where
  "ensure_pod_agent port w c spec =
     (case client_list port w c of
        (Inl e, w) \<Rightarrow> (Inl (Transient e), w)
      | (Inr agents, w) \<Rightarrow>
          (case find (\<lambda>rec. \<not> is_terminal (domain_status (ar_status rec))) agents of
             Some rec \<Rightarrow> (Inr (ar_id rec), w)
           | None \<Rightarrow>
               (case agents of
                  rec # _ \<Rightarrow>
                    (Inl (TerminalAgent (FleetError (''pod caliband'' @ [CHR 0x27] @ ''s agent '' @ ar_id rec @
                       '' is in terminal state '' @ wire_status_debug (ar_status rec) @
                       ''; not attaching (its per-agent endpoint will never bind). The worker died at or '' @
                       ''after spawn '' @ [CHR 0xE2, CHR 0x80, CHR 0x94] @
                       '' check the pod'' @ [CHR 0x27] @ ''s caliband for the cause.''))), w)
                | [] \<Rightarrow>
                    (case spec of
                       Some sp \<Rightarrow>
                         (case client_spawn port w c sp of
                            (Inl e, w) \<Rightarrow> (Inl (Transient e), w)
                          | (Inr (i, _), w) \<Rightarrow> (Inr i, w))
                     | None \<Rightarrow>
                         (Inl (Transient (FleetError
                            ''pod caliband has no registered agent and no spawn spec to create one'')), w)))))"

section \<open>The session plane\<close>

definition cleanup_attach :: "string \<Rightarrow> nat \<Rightarrow> ('s, 'w) k8s_fleet \<Rightarrow> ('s, 'w) k8s_fleet" where
  "cleanup_attach i g kf =
     (if kf_attached kf i = Some g then kf\<lparr>kf_attached := (kf_attached kf)(i := None)\<rparr> else kf)"

definition session_attach ::
  "('s, 'w) k8s_env \<Rightarrow> ('s, 'w) k8s_fleet \<Rightarrow> string \<Rightarrow> string \<Rightarrow> endpoint \<Rightarrow> spawn_spec option \<Rightarrow>
     ('s, 'w) k8s_fleet" where
  "session_attach ke kf repo i ep spec =
     (case ep of
        Unix _ \<Rightarrow> kf
      | Tcp addr \<Rightarrow>
          if i \<in> kf_terminal kf then kf
          else if kf_attached kf i \<noteq> None then kf
          else case k8s_outside (\<lambda>w. ke_try_acquire ke w i) kf of
                 (None, kf) \<Rightarrow> kf
               | (Some _, kf) \<Rightarrow>
                   (let g = kf_generation kf; kf = kf\<lparr>kf_generation := g + 1\<rparr>
                    in if kf_attached kf i \<noteq> None then kf
                       else kf\<lparr>kf_attached := (kf_attached kf)(i \<mapsto> g),
                               kf_tasks := kf_tasks kf @ [\<lparr>kt_generation = g, kt_agent = i, kt_repo = repo,
                                                           kt_addr = addr, kt_spec = spec\<rparr>]\<rparr>))"

text \<open>
  The body of the spawned task, for at most \<open>n\<close> connections of its attach loop: the pod's agent is
  resolved, its stream read, and the reservation and the lease given back at the end.
\<close>

definition finish_task :: "('s, 'w) k8s_env \<Rightarrow> k8s_task \<Rightarrow> ('s, 'w) k8s_fleet \<Rightarrow> ('s, 'w) k8s_fleet" where
  "finish_task ke t kf =
     (let kf = cleanup_attach (kt_agent t) (kt_generation t) kf
      in kf\<lparr>kf_tasks := remove1 t (kf_tasks kf), kf_world := ke_release ke (kf_world kf) (kt_agent t)\<rparr>)"

definition run_k8s_task ::
  "('s, 'w) k8s_env \<Rightarrow> nat \<Rightarrow> k8s_task \<Rightarrow> ('s, 'w) k8s_fleet \<Rightarrow> ('s, 'w) k8s_fleet" where
  "run_k8s_task ke n t kf =
     (let c = connect_tcp (kt_addr t) (ke_tls ke) (ke_token ke)
      in case k8s_outside (\<lambda>w. ensure_pod_agent (ke_port ke) w c (kt_spec t)) kf of
           (Inl e, kf) \<Rightarrow>
             finish_task ke t
               (if pod_error_terminal e then kf\<lparr>kf_terminal := insert (kt_agent t) (kf_terminal kf)\<rparr> else kf)
         | (Inr attach_id, kf) \<Rightarrow>
             (case attach_loop n (ke_ops ke) (ke_emit ke) (ke_attach ke) (ke_thinking ke) default_backoff c
                     \<lparr>at_repo = kt_repo t, at_agent_id = kt_agent t, at_attach_id = attach_id\<rparr> 0 0
                     (kf_emitter kf) (kf_world kf) of
                (r, fs, em, w) \<Rightarrow>
                  (let kf = kf\<lparr>kf_emitter := em, kf_world := w\<rparr>
                   in case r of None \<Rightarrow> kf | Some _ \<Rightarrow> finish_task ke t kf)))"

definition forget_terminal :: "string \<Rightarrow> ('s, 'w) k8s_fleet \<Rightarrow> ('s, 'w) k8s_fleet" where
  "forget_terminal i kf = kf\<lparr>kf_terminal := kf_terminal kf - {i}\<rparr>"

text \<open>\<open>SessionPlane::stop\<close>: the reservation's task is aborted.\<close>

definition session_stop ::
  "('s, 'w) k8s_env \<Rightarrow> ('s, 'w) k8s_fleet \<Rightarrow> string \<Rightarrow> ('s, 'w) k8s_fleet" where
  "session_stop ke kf i =
     (let kf = (case kf_attached kf i of
                  None \<Rightarrow> kf
                | Some g \<Rightarrow> kf\<lparr>kf_attached := (kf_attached kf)(i := None),
                              kf_tasks := filter (\<lambda>t. kt_generation t \<noteq> g) (kf_tasks kf)\<rparr>);
          kf = forget_terminal i kf
      in kf\<lparr>kf_world := ke_release ke (kf_world kf) i\<rparr>)"

definition active_count :: "('s, 'w) k8s_fleet \<Rightarrow> nat" where
  "active_count kf = card (dom (kf_attached kf))"

section \<open>The overlay of the pods' answers\<close>

text \<open>The addresses to ask, in the order found, and the address of each task that is asked.\<close>

fun overlay_endpoints ::
  "auth_port \<Rightarrow> (string \<Rightarrow> bool) \<Rightarrow> caliban_task list \<Rightarrow> (string \<rightharpoonup> string) \<Rightarrow> string list \<Rightarrow>
     (string \<rightharpoonup> string) \<times> string list" where
  "overlay_endpoints p incl [] eps addrs = (eps, addrs)"
| "overlay_endpoints p incl (task # tasks) eps addrs =
     (let name = or_default (ct_name task)
      in if \<not> incl name then overlay_endpoints p incl tasks eps addrs
         else case handle_from p task (cp_workspace_ref (ct_spec task)) of
                Inr (Some h) \<Rightarrow>
                  (case ah_endpoint h of
                     Some (Tcp addr) \<Rightarrow>
                       overlay_endpoints p incl tasks (eps(name \<mapsto> addr))
                         (if addr \<in> set addrs then addrs else addrs @ [addr])
                   | _ \<Rightarrow> overlay_endpoints p incl tasks eps addrs)
              | _ \<Rightarrow> overlay_endpoints p incl tasks eps addrs)"

definition dial_pod :: "('s, 'w) k8s_env \<Rightarrow> string \<Rightarrow> 'w \<Rightarrow> agent_record option \<times> 'w" where
  "dial_pod ke addr w =
     (let c = connect_tcp addr (ke_tls ke) (ke_token ke)
      in case ke_timed_out ke w c of
           (True, w) \<Rightarrow> (None, w)
         | (False, w) \<Rightarrow>
             (case client_list (ke_port ke) w c of
                (Inr (rec # _), w) \<Rightarrow> (Some rec, w)
              | (_, w) \<Rightarrow> (None, w)))"

fun dial_pods ::
  "('s, 'w) k8s_env \<Rightarrow> string list \<Rightarrow> (string \<rightharpoonup> agent_record) \<Rightarrow> 'w \<Rightarrow> (string \<rightharpoonup> agent_record) \<times> 'w" where
  "dial_pods ke [] records w = (records, w)"
| "dial_pods ke (addr # addrs) records w =
     (case dial_pod ke addr w of
        (None, w) \<Rightarrow> dial_pods ke addrs records w
      | (Some rec, w) \<Rightarrow> dial_pods ke addrs (records(addr \<mapsto> rec)) w)"

definition pod_record ::
  "(string \<rightharpoonup> string) \<Rightarrow> (string \<rightharpoonup> agent_record) \<Rightarrow> agent \<Rightarrow> agent_record option" where
  "pod_record eps records a = Option.bind (eps (agent_id a)) records"

definition overlay_agent :: "(agent \<Rightarrow> agent_record option) \<Rightarrow> agent \<Rightarrow> agent" where
  "overlay_agent live a =
     (case live a of
        Some rec \<Rightarrow> a\<lparr>agent_interactive := sp_interactive (ar_spec rec),
                     agent_status := domain_status (ar_status rec)\<rparr>
      | None \<Rightarrow> a)"

text \<open>The result: the refreshed agents, and the status of each agent whose pod answered.\<close>

definition overlay_pod_status ::
  "('s, 'w) k8s_env \<Rightarrow> caliban_task list \<Rightarrow> (string \<Rightarrow> bool) \<Rightarrow> agent list \<Rightarrow> 'w \<Rightarrow>
     agent list \<times> (string \<rightharpoonup> agent_status) \<times> 'w" where
  "overlay_pod_status ke tasks incl agents w =
     (case overlay_endpoints (ke_auth ke) incl tasks Map.empty [] of
        (eps, addrs) \<Rightarrow>
          if addrs = [] then (agents, Map.empty, w)
          else case dial_pods ke addrs Map.empty w of
                 (records, w) \<Rightarrow>
                   (let live = pod_record eps records
                    in (map (overlay_agent live) agents,
                        map_of (rev (List.map_filter (\<lambda>a. map_option
                          (\<lambda>rec. (agent_id a, domain_status (ar_status rec))) (live a)) agents)),
                        w)))"

section \<open>The poll loop\<close>

definition OBSERVER_STREAM_KEY :: string where
  "OBSERVER_STREAM_KEY = ''__fleet_observer''"

definition current_uids :: "caliban_task list \<Rightarrow> (string \<rightharpoonup> string)" where
  "current_uids tasks =
     map_of (rev (List.map_filter (\<lambda>t. map_option (\<lambda>n. (n, or_default (om_uid (ct_meta t)))) (ct_name t)) tasks))"

text \<open>The verdict already reached for the same incarnation of an agent.\<close>

definition settled_verdict :: "(string \<rightharpoonup> agent) \<Rightarrow> agent \<Rightarrow> agent_status option" where
  "settled_verdict known a =
     (case known (agent_id a) of
        None \<Rightarrow> None
      | Some prev \<Rightarrow>
          if is_terminal (agent_status prev) \<and> started_at prev = started_at a
          then Some (agent_status prev) else None)"

definition settled_map :: "(string \<rightharpoonup> agent) \<Rightarrow> agent list \<Rightarrow> (string \<rightharpoonup> agent_status)" where
  "settled_map known agents =
     map_of (rev (List.map_filter (\<lambda>a. map_option (\<lambda>s. (agent_id a, s)) (settled_verdict known a)) agents))"

definition carry_settled :: "(string \<rightharpoonup> agent_status) \<Rightarrow> agent \<Rightarrow> agent" where
  "carry_settled settled a =
     (case settled (agent_id a) of Some s \<Rightarrow> a\<lparr>agent_status := s\<rparr> | None \<Rightarrow> a)"

text \<open>What the comparison reports for one listed agent.\<close>

definition agent_change :: "(string \<rightharpoonup> agent) \<Rightarrow> string \<Rightarrow> agent \<Rightarrow> fleet_change list" where
  "agent_change known name a =
     (case known name of
        None \<Rightarrow> [FcDiscovered name (agent_workspace a) a]
      | Some prev \<Rightarrow>
          if agent_status prev \<noteq> agent_status a
          then [FcStatusChanged name (agent_workspace a) (agent_status prev) (agent_status a)] else [])"

definition attach_order ::
  "auth_port \<Rightarrow> caliban_task \<Rightarrow> agent \<Rightarrow> (string \<times> string \<times> endpoint \<times> spawn_spec) list" where
  "attach_order p task a =
     (case handle_from p task (agent_workspace a) of
        Inr (Some h) \<Rightarrow>
          (case ah_endpoint h of
             Some ep \<Rightarrow> [(agent_workspace a, ah_id h, ep, spawn_spec_from_task task)]
           | None \<Rightarrow> [])
      | _ \<Rightarrow> [])"

text \<open>
  The pass over the listed tasks. \<open>todo\<close> holds the agents by name and loses one when it has been
  looked at; the results are what is known then, the changes and the attachments to make.
\<close>

fun diff_tasks ::
  "auth_port \<Rightarrow> caliban_task list \<Rightarrow> (string \<rightharpoonup> agent) \<Rightarrow> (string \<rightharpoonup> agent) \<Rightarrow>
     (string \<rightharpoonup> agent) \<times> fleet_change list \<times> (string \<times> string \<times> endpoint \<times> spawn_spec) list" where
  "diff_tasks p [] todo known = (known, [], [])"
| "diff_tasks p (task # tasks) todo known =
     (case ct_name task of
        None \<Rightarrow> diff_tasks p tasks todo known
      | Some name \<Rightarrow>
          (case todo name of
             None \<Rightarrow> diff_tasks p tasks todo known
           | Some a \<Rightarrow>
               (case diff_tasks p tasks (todo(name := None)) (known(name \<mapsto> a)) of
                  (known', changes, atts) \<Rightarrow>
                    (known', agent_change known name a @ changes, attach_order p task a @ atts))))"

definition gone_changes ::
  "(string set \<Rightarrow> string list) \<Rightarrow> (string \<rightharpoonup> agent) \<Rightarrow> string set \<Rightarrow> fleet_change list" where
  "gone_changes ord known seen =
     map (\<lambda>n. FcGone n (agent_workspace (the (known n)))) (ord (dom known - seen))"

definition fleet_diff ::
  "auth_port \<Rightarrow> (string set \<Rightarrow> string list) \<Rightarrow> caliban_task list \<Rightarrow> agent list \<Rightarrow> (string \<rightharpoonup> agent) \<Rightarrow>
     (string \<rightharpoonup> agent) \<times> fleet_change list \<times> (string \<times> string \<times> endpoint \<times> spawn_spec) list" where
  "fleet_diff p ord tasks agents known =
     (let seen = set (List.map_filter ct_name tasks);
          todo = map_of (rev (map (\<lambda>a. (agent_id a, a)) agents))
      in case diff_tasks p tasks todo known of
           (known', changes, atts) \<Rightarrow> (known' |` seen, changes @ gone_changes ord known' seen, atts))"

fun terminal_change :: "event_kind \<Rightarrow> bool" where
  "terminal_change (StatusChanged _ s) = is_terminal s"
| "terminal_change _ = False"

definition already_recorded_terminal ::
  "('s, 'w) k8s_env \<Rightarrow> ('s, 'w) k8s_fleet \<Rightarrow> string \<Rightarrow> bool \<times> ('s, 'w) k8s_fleet" where
  "already_recorded_terminal ke kf i =
     (if i \<in> kf_recorded kf then (True, kf)
      else case st_replay (ke_ops ke) (em_store (kf_emitter kf)) i 0 of
             (r, s) \<Rightarrow>
               (case r of Inr es \<Rightarrow> list_ex (\<lambda>e. terminal_change (kind e)) es | Inl _ \<Rightarrow> False,
                kf\<lparr>kf_emitter := (kf_emitter kf)\<lparr>em_store := s\<rparr>,
                   kf_recorded := insert i (kf_recorded kf)\<rparr>))"

definition record_change ::
  "('s, 'w) k8s_env \<Rightarrow> ('s, 'w) k8s_fleet \<Rightarrow> fleet_change \<Rightarrow> ('s, 'w) k8s_fleet" where
  "record_change ke kf c =
     (case c of
        FcStatusChanged i ws old new \<Rightarrow>
          if is_terminal new
          then (case already_recorded_terminal ke kf i of
                  (True, kf) \<Rightarrow> kf
                | (False, kf) \<Rightarrow> k8s_emit ke kf ws i (StatusChanged old new))
          else k8s_emit ke kf ws i (StatusChanged old new)
      | _ \<Rightarrow> kf)"

definition forget_gone :: "('s, 'w) k8s_fleet \<Rightarrow> fleet_change \<Rightarrow> ('s, 'w) k8s_fleet" where
  "forget_gone kf c = (case c of FcGone i _ \<Rightarrow> forget_terminal i kf | _ \<Rightarrow> kf)"

text \<open>The part of an iteration that the observer's lease guards.\<close>

definition observe_changes ::
  "('s, 'w) k8s_env \<Rightarrow> (string \<rightharpoonup> agent_status) \<Rightarrow> fleet_change list \<Rightarrow> ('s, 'w) k8s_fleet \<Rightarrow>
     ('s, 'w) k8s_fleet" where
  "observe_changes ke refreshed changes kf =
     (case k8s_outside (\<lambda>w. ke_try_acquire ke w OBSERVER_STREAM_KEY) kf of
        (None, kf) \<Rightarrow> kf
      | (Some _, kf) \<Rightarrow>
          (let observed = map (\<lambda>n. (n, [the (refreshed n)])) (ke_order ke (dom refreshed));
               kf = kf\<lparr>kf_world := report_agents_settled (ke_api ke) observed (kf_world kf)\<rparr>
           in foldl (record_change ke) kf changes))"

text \<open>One iteration after a successful list.\<close>

definition observe_tasks ::
  "('s, 'w) k8s_env \<Rightarrow> caliban_task list \<Rightarrow> ('s, 'w) k8s_fleet \<Rightarrow> ('s, 'w) k8s_fleet" where
  "observe_tasks ke tasks kf =
     (let uids = current_uids tasks;
          recreated = recreated_names (ke_order ke) (kf_uids kf) uids;
          kf = kf\<lparr>kf_uids := uids\<rparr>;
          agents = map agent_from_task tasks;
          settled = settled_map (kf_known kf) agents
      in case overlay_pod_status ke tasks (\<lambda>n. settled n = None) agents (kf_world kf) of
           (agents, refreshed, w) \<Rightarrow>
             (case fleet_diff (ke_auth ke) (ke_order ke) tasks (map (carry_settled settled) agents) (kf_known kf) of
                (known, changes, atts) \<Rightarrow>
                  (let kf = observe_changes ke refreshed changes (kf\<lparr>kf_world := w, kf_known := known\<rparr>);
                       kf = foldl forget_gone kf changes;
                       kf = foldl (\<lambda>kf n. forget_terminal n kf) kf recreated;
                       kf = kf\<lparr>kf_changes := kf_changes kf @ changes\<rparr>
                   in foldl (\<lambda>kf (repo, i, ep, spec). session_attach ke kf repo i ep (Some spec)) kf atts)))"

definition k8s_poll :: "('s, 'w) k8s_env \<Rightarrow> ('s, 'w) k8s_fleet \<Rightarrow> ('s, 'w) k8s_fleet" where
  "k8s_poll ke kf =
     (case k8s_outside (ta_list (ke_api ke)) kf of
        (Inl _, kf) \<Rightarrow> kf
      | (Inr tasks, kf) \<Rightarrow> observe_tasks ke tasks kf)"

section \<open>Subscribers\<close>

text \<open>
  \<open>watch_fleet\<close>: the agents known when it starts, then the changes of the loop without the first
  discovery of an agent it has reported itself. \<open>Inl\<close> is a lag, with the agents known then.
\<close>

definition seed_changes :: "(string set \<Rightarrow> string list) \<Rightarrow> (string \<rightharpoonup> agent) \<Rightarrow> fleet_change list" where
  "seed_changes ord known =
     map (\<lambda>n. FcDiscovered n (agent_workspace (the (known n))) (the (known n))) (ord (dom known))"

fun watch_tail ::
  "(string set \<Rightarrow> string list) \<Rightarrow> string set \<Rightarrow> ((string \<rightharpoonup> agent) + fleet_change) list \<Rightarrow> fleet_change list" where
  "watch_tail ord seen [] = []"
| "watch_tail ord seen (Inr c # items) =
     (case c of
        FcDiscovered i _ _ \<Rightarrow>
          if i \<in> seen then watch_tail ord (seen - {i}) items else c # watch_tail ord seen items
      | _ \<Rightarrow> c # watch_tail ord seen items)"
| "watch_tail ord seen (Inl known # items) =
     seed_changes ord known @ watch_tail ord (dom known) items"

definition watch_fleet ::
  "(string set \<Rightarrow> string list) \<Rightarrow> (string \<rightharpoonup> agent) \<Rightarrow> ((string \<rightharpoonup> agent) + fleet_change) list \<Rightarrow>
     fleet_change list" where
  "watch_fleet ord known items = seed_changes ord known @ watch_tail ord (dom known) items"

section \<open>The operations of the provider\<close>

definition k8s_ensure_agent ::
  "('s, 'w) k8s_env \<Rightarrow> ('s, 'w) k8s_fleet \<Rightarrow> task_spec \<Rightarrow> agent_handle result \<times> ('s, 'w) k8s_fleet" where
  "k8s_ensure_agent ke kf spec =
     (let name = task_name (ke_auth ke) spec
      in case k8s_outside (\<lambda>w. ta_get (ke_api ke) w name) kf of
           (Inl e, kf) \<Rightarrow> (Inl e, kf)
         | (Inr found, kf) \<Rightarrow>
             (case k8s_outside (\<lambda>w. ta_apply (ke_api ke) w (build_calibantask spec name)) kf of
                (Inl e, kf) \<Rightarrow> (Inl e, kf)
              | (Inr _, kf) \<Rightarrow>
                  (Inr \<lparr>ah_id = name, ah_workspace = tk_workspace spec, ah_endpoint = None,
                        ah_created = (found = None)\<rparr>, kf)))"

text \<open>
  The waits for a deletion: each element is what the other tasks and the outside do during one
  sleep, the end of the list is the deadline.
\<close>

fun stop_wait ::
  "('s, 'w) k8s_env \<Rightarrow> string \<Rightarrow> (('s, 'w) k8s_fleet \<Rightarrow> ('s, 'w) k8s_fleet) list \<Rightarrow> ('s, 'w) k8s_fleet \<Rightarrow>
     unit result \<times> ('s, 'w) k8s_fleet" where
  "stop_wait ke i waits kf =
     (case k8s_outside (\<lambda>w. ta_get (ke_api ke) w i) kf of
        (Inl e, kf) \<Rightarrow> (Inl e, kf)
      | (Inr None, kf) \<Rightarrow> (Inr (), kf)
      | (Inr (Some _), kf) \<Rightarrow>
          (case waits of [] \<Rightarrow> (Inr (), kf) | others # rest \<Rightarrow> stop_wait ke i rest (others kf)))"

definition k8s_stop_agent ::
  "('s, 'w) k8s_env \<Rightarrow> (nat \<Rightarrow> (('s, 'w) k8s_fleet \<Rightarrow> ('s, 'w) k8s_fleet) list) \<Rightarrow> ('s, 'w) k8s_fleet \<Rightarrow>
     string \<Rightarrow> drain_policy \<Rightarrow> unit result \<times> ('s, 'w) k8s_fleet" where
  "k8s_stop_agent ke waits kf i drain =
     (case k8s_outside (\<lambda>w. ta_delete (ke_api ke) w i) (session_stop ke kf i) of
        (Inl e, kf) \<Rightarrow> (Inl e, kf)
      | (Inr _, kf) \<Rightarrow>
          (case drain of
             DrainKill \<Rightarrow> (Inr (), kf)
           | Graceful timeout_ms \<Rightarrow> stop_wait ke i (waits timeout_ms) kf))"

fun restart_wait ::
  "('s, 'w) k8s_env \<Rightarrow> string \<Rightarrow> (('s, 'w) k8s_fleet \<Rightarrow> ('s, 'w) k8s_fleet) list \<Rightarrow> ('s, 'w) k8s_fleet \<Rightarrow>
     unit result \<times> ('s, 'w) k8s_fleet" where
  "restart_wait ke i waits kf =
     (case k8s_outside (\<lambda>w. ta_get (ke_api ke) w i) kf of
        (Inl e, kf) \<Rightarrow> (Inl e, kf)
      | (Inr None, kf) \<Rightarrow> (Inr (), kf)
      | (Inr (Some _), kf) \<Rightarrow>
          (case waits of
             [] \<Rightarrow> (Inl (FleetError (''restart: CalibanTask '' @ i @ '' did not delete within the budget'')), kf)
           | others # rest \<Rightarrow> restart_wait ke i rest (others kf)))"

definition k8s_restart_agent ::
  "('s, 'w) k8s_env \<Rightarrow> (('s, 'w) k8s_fleet \<Rightarrow> ('s, 'w) k8s_fleet) list \<Rightarrow> ('s, 'w) k8s_fleet \<Rightarrow> string \<Rightarrow>
     string result \<times> ('s, 'w) k8s_fleet" where
  "k8s_restart_agent ke waits kf i =
     (case k8s_outside (\<lambda>w. ta_get (ke_api ke) w i) kf of
        (Inl e, kf) \<Rightarrow> (Inl e, kf)
      | (Inr None, kf) \<Rightarrow> (Inl (AgentNotFound i), kf)
      | (Inr (Some old), kf) \<Rightarrow>
          (case k8s_outside (\<lambda>w. ta_delete (ke_api ke) w i) (session_stop ke kf i) of
             (Inl e, kf) \<Rightarrow> (Inl e, kf)
           | (Inr _, kf) \<Rightarrow>
               (case restart_wait ke i waits kf of
                  (Inl e, kf) \<Rightarrow> (Inl e, kf)
                | (Inr _, kf) \<Rightarrow>
                    (case k8s_outside (\<lambda>w. ta_apply (ke_api ke) w (caliban_task_new i (ct_spec old))) kf of
                       (Inl e, kf) \<Rightarrow> (Inl e, kf)
                     | (Inr _, kf) \<Rightarrow> (Inr i, kf)))))"

definition k8s_remove_agent ::
  "('s, 'w) k8s_env \<Rightarrow> ('s, 'w) k8s_fleet \<Rightarrow> string \<Rightarrow> bool \<Rightarrow> unit result \<times> ('s, 'w) k8s_fleet" where
  "k8s_remove_agent ke kf i force = k8s_outside (\<lambda>w. ta_delete (ke_api ke) w i) (session_stop ke kf i)"

text \<open>
  The agents under their workspaces: \<open>HashMap::remove\<close> gives each group to the first workspace of its
  name.
\<close>

fun regroup :: "workspace_cr list \<Rightarrow> agent list \<Rightarrow> workspace list" where
  "regroup [] agents = []"
| "regroup (ws # rest) agents =
     (let name = or_default (om_name (wr_meta ws))
      in workspace_view ws (filter (\<lambda>a. agent_workspace a = name) agents) #
         regroup rest (filter (\<lambda>a. agent_workspace a \<noteq> name) agents))"

definition synthetic_workspace :: "agent list \<Rightarrow> workspace" where
  "synthetic_workspace agents =
     \<lparr>ws_name = ''k8s'', ws_root = [], ws_sources = [], ws_health = Healthy,
      ws_config = default_provider_config, ws_agents = agents\<rparr>"

definition k8s_snapshot ::
  "('s, 'w) k8s_env \<Rightarrow> ('s, 'w) k8s_fleet \<Rightarrow> fleet_snapshot \<times> ('s, 'w) k8s_fleet" where
  "k8s_snapshot ke kf =
     (case k8s_outside (ta_list (ke_api ke)) kf of
        (r, kf) \<Rightarrow>
          (let tasks = unwrap_or r []
           in case overlay_pod_status ke tasks (\<lambda>_. True) (map agent_from_task tasks) (kf_world kf) of
                (agents, _, w) \<Rightarrow>
                  (let kf = kf\<lparr>kf_world := w\<rparr>;
                       fallback = \<lparr>host = ''k8s'', workspaces = [synthetic_workspace agents]\<rparr>
                   in case ke_workspaces ke of
                        None \<Rightarrow> (fallback, kf)
                      | Some api \<Rightarrow>
                          (case k8s_outside (wa_list api) kf of
                             (Inl _, kf) \<Rightarrow> (fallback, kf)
                           | (Inr registered, kf) \<Rightarrow>
                               (\<lparr>host = ''k8s'', workspaces = regroup registered agents\<rparr>, kf)))))"

definition k8s_readiness ::
  "('s, 'w) k8s_env \<Rightarrow> ('s, 'w) k8s_fleet \<Rightarrow> readiness \<times> ('s, 'w) k8s_fleet" where
  "k8s_readiness ke kf =
     (case st_writable (ke_ops ke) (em_store (kf_emitter kf)) of
        (writable, s) \<Rightarrow>
          (case k8s_outside (ta_list (ke_api ke)) (kf\<lparr>kf_emitter := (kf_emitter kf)\<lparr>em_store := s\<rparr>\<rparr>) of
             (r, kf) \<Rightarrow>
               (\<lparr>ready = (writable \<and> is_ok r), store_writable = writable, workspaces_total = 1,
                 workspaces_healthy = of_bool (is_ok r), workspaces_unreachable = of_bool (\<not> is_ok r)\<rparr>, kf)))"

definition k8s_metrics :: "('s, 'w) k8s_fleet \<Rightarrow> metrics_snapshot" where
  "k8s_metrics kf = metrics_snapshot_of (em_metrics (kf_emitter kf)) (active_count kf)"

definition k8s_send_input ::
  "('s, 'w) k8s_env \<Rightarrow> ('s, 'w) k8s_fleet \<Rightarrow> string \<Rightarrow> attach_inbound \<Rightarrow> unit result \<times> ('s, 'w) k8s_fleet" where
  "k8s_send_input ke kf i frame =
     (case k8s_outside (\<lambda>w. ta_get (ke_api ke) w i) kf of
        (Inl e, kf) \<Rightarrow> (Inl e, kf)
      | (Inr None, kf) \<Rightarrow> (Inl (AgentNotFound i), kf)
      | (Inr (Some task), kf) \<Rightarrow>
          (case handle_from (ke_auth ke) task ''k8s'' of
             Inl e \<Rightarrow> (Inl e, kf)
           | Inr None \<Rightarrow> (Inl (InvalidState ''send_input'' i ''not attachable''), kf)
           | Inr (Some h) \<Rightarrow>
               (case ah_endpoint h of
                  Some (Tcp addr) \<Rightarrow>
                    (let c = connect_tcp addr (ke_tls ke) (ke_token ke)
                     in case k8s_outside (\<lambda>w. ensure_pod_agent (ke_port ke) w c None) kf of
                          (Inl e, kf) \<Rightarrow> (Inl (of_pod_error e), kf)
                        | (Inr pod_id, kf) \<Rightarrow>
                            (case k8s_outside (\<lambda>w. client_attach (ke_port ke) w c pod_id) kf of
                               (Inl e, kf) \<Rightarrow> (Inl e, kf)
                             | (Inr per_agent, kf) \<Rightarrow>
                                 k8s_outside (\<lambda>w. send_inbound (ke_port ke) w c per_agent frame) kf))
                | _ \<Rightarrow> (Inl (FleetError ''k8s agent endpoint is not Tcp''), kf))))"

definition k8s_fleet_provider ::
  "('s, 'w) k8s_env \<Rightarrow> (nat \<Rightarrow> (('s, 'w) k8s_fleet \<Rightarrow> ('s, 'w) k8s_fleet) list) \<Rightarrow>
     (('s, 'w) k8s_fleet \<Rightarrow> ('s, 'w) k8s_fleet) list \<Rightarrow> ('s, 'w) k8s_fleet fleet_provider" where
  "k8s_fleet_provider ke waits restart_waits =
     \<lparr>fp_ensure_agent = (\<lambda>kf spec. apfst Some (k8s_ensure_agent ke kf spec)),
      fp_stop_agent = k8s_stop_agent ke waits, fp_restart_agent = k8s_restart_agent ke restart_waits,
      fp_remove_agent = k8s_remove_agent ke, fp_snapshot = k8s_snapshot ke, fp_readiness = k8s_readiness ke,
      fp_metrics = k8s_metrics, fp_send_input = k8s_send_input ke\<rparr>"

end
