(* ===== verification/K8s_Props.thy ===== *)
theory K8s_Props
  imports K8s_Fleet Fleet_Log
begin

text \<open>
  Properties of the Kubernetes fleet: what the process does in any run (\<open>k8s_reach\<close>) with its attach
  tasks and with the outcomes it publishes, what a poll writes to the log, what it broadcasts, and
  what its subscribers and its readers see.
\<close>

section \<open>Runs\<close>

text \<open>
  The runs of one process: polls, attach tasks, the operations of the provider, and anything the
  outside does. During the waits of an operation the rest of the process runs.
\<close>

inductive k8s_reach :: "('s, 'w) k8s_env \<Rightarrow> ('s, 'w) k8s_fleet \<Rightarrow> ('s, 'w) k8s_fleet \<Rightarrow> bool" for ke where
  reach_refl: "k8s_reach ke kf kf"
| reach_trans: "k8s_reach ke kf kf1 \<Longrightarrow> k8s_reach ke kf1 kf2 \<Longrightarrow> k8s_reach ke kf kf2"
| reach_outside: "k8s_reach ke kf (kf\<lparr>kf_world := w\<rparr>)"
| reach_poll: "k8s_reach ke kf (k8s_poll ke kf)"
| reach_task: "t \<in> set (kf_tasks kf) \<Longrightarrow> k8s_reach ke kf (run_k8s_task ke n t kf)"
| reach_stream: "k8s_reach ke kf (session_attach ke kf repo i ep None)"
| reach_ensure: "k8s_reach ke kf (snd (k8s_ensure_agent ke kf spec))"
| reach_stop: "\<forall>f \<in> set (waits ms). \<forall>x. k8s_reach ke x (f x) \<Longrightarrow>
    drain = DrainKill \<or> drain = Graceful ms \<Longrightarrow> k8s_reach ke kf (snd (k8s_stop_agent ke waits kf i drain))"
| reach_restart: "\<forall>f \<in> set restart_waits. \<forall>x. k8s_reach ke x (f x) \<Longrightarrow>
    k8s_reach ke kf (snd (k8s_restart_agent ke restart_waits kf i))"
| reach_remove: "k8s_reach ke kf (snd (k8s_remove_agent ke kf i force))"
| reach_snapshot: "k8s_reach ke kf (snd (k8s_snapshot ke kf))"
| reach_readiness: "k8s_reach ke kf (snd (k8s_readiness ke kf))"
| reach_input: "k8s_reach ke kf (snd (k8s_send_input ke kf i frame))"

text \<open>
  A property of the process state that every step keeps. The steps are the polls, the tasks, the
  stops and attachments of the session plane and the changes that leave process state alone.
\<close>

locale k8s_invariant =
  fixes ke :: "('s, 'w) k8s_env" and P :: "('s, 'w) k8s_fleet \<Rightarrow> bool"
  assumes inv_world: "P kf \<Longrightarrow> P (kf\<lparr>kf_world := w\<rparr>)"
    and inv_store: "P kf \<Longrightarrow> P (kf\<lparr>kf_emitter := (kf_emitter kf)\<lparr>em_store := s\<rparr>\<rparr>)"
    and inv_attach: "P kf \<Longrightarrow> P (session_attach ke kf repo i ep spec)"
    and inv_stop: "P kf \<Longrightarrow> P (session_stop ke kf i)"
    and inv_task: "P kf \<Longrightarrow> t \<in> set (kf_tasks kf) \<Longrightarrow> P (run_k8s_task ke n t kf)"
    and inv_observe: "P kf \<Longrightarrow> P (observe_changes ke refreshed changes (kf\<lparr>kf_world := w, kf_known := known\<rparr>))"
    and inv_forget: "P kf \<Longrightarrow> P (forget_terminal i kf)"
    and inv_uids: "P kf \<Longrightarrow> P (kf\<lparr>kf_uids := uids\<rparr>)"
    and inv_changes: "P kf \<Longrightarrow> P (kf\<lparr>kf_changes := changes\<rparr>)"
begin

lemma inv_outside: "P kf \<Longrightarrow> P (snd (k8s_outside f kf))"
  by (auto simp: k8s_outside_def inv_world split: prod.splits)

lemma inv_outsideD: "k8s_outside f kf = (r, kf') \<Longrightarrow> P kf \<Longrightarrow> P kf'"
  using inv_outside [of kf f] by simp

lemma inv_foldl: "P kf \<Longrightarrow> (\<And>kf x. P kf \<Longrightarrow> P (f kf x)) \<Longrightarrow> P (foldl f kf xs)"
  by (induction xs arbitrary: kf) auto

lemma inv_observe_tasks:
  assumes "P kf"
  shows "P (observe_tasks ke tasks kf)"
proof -
  have forget: "P (forget_gone kf c)" if "P kf" for kf c
    using that by (auto simp: forget_gone_def inv_forget split: fleet_change.splits)
  show ?thesis
    unfolding observe_tasks_def Let_def
    by (auto split!: prod.splits intro!: inv_foldl inv_attach inv_changes inv_forget forget inv_observe inv_uids assms)
qed

lemma inv_poll: "P kf \<Longrightarrow> P (k8s_poll ke kf)"
  unfolding k8s_poll_def
  by (auto split: prod.splits sum.splits intro: inv_observe_tasks inv_outsideD)

lemma inv_stop_wait:
  "P kf \<Longrightarrow> \<forall>f \<in> set ws. \<forall>x. P x \<longrightarrow> P (f x) \<Longrightarrow> P (snd (stop_wait ke i ws kf))"
proof (induction ws arbitrary: kf)
  case Nil
  then show ?case by (auto split: prod.splits sum.splits option.splits intro: inv_outsideD)
next
  case (Cons f ws)
  then show ?case
    by (subst stop_wait.simps) (auto simp del: stop_wait.simps split: prod.splits sum.splits option.splits intro: inv_outsideD)
qed

lemma inv_restart_wait:
  "P kf \<Longrightarrow> \<forall>f \<in> set ws. \<forall>x. P x \<longrightarrow> P (f x) \<Longrightarrow> P (snd (restart_wait ke i ws kf))"
proof (induction ws arbitrary: kf)
  case Nil
  then show ?case by (auto split: prod.splits sum.splits option.splits intro: inv_outsideD)
next
  case (Cons f ws)
  then show ?case
    by (subst restart_wait.simps) (auto simp del: restart_wait.simps split: prod.splits sum.splits option.splits intro: inv_outsideD)
qed

lemma inv_ops:
  assumes "P kf"
  shows "P (snd (k8s_ensure_agent ke kf spec))" "P (snd (k8s_remove_agent ke kf i force))"
    "P (snd (k8s_snapshot ke kf))" "P (snd (k8s_readiness ke kf))" "P (snd (k8s_send_input ke kf i frame))"
proof -
  show "P (snd (k8s_ensure_agent ke kf spec))"
    using assms unfolding k8s_ensure_agent_def Let_def
    by (auto split: prod.splits sum.splits intro: inv_outsideD)
  show "P (snd (k8s_remove_agent ke kf i force))"
    using assms by (simp add: k8s_remove_agent_def inv_outside inv_stop)
  show "P (snd (k8s_snapshot ke kf))"
    using assms unfolding k8s_snapshot_def Let_def
    by (auto split: prod.splits sum.splits option.splits intro: inv_outsideD inv_world)
  show "P (snd (k8s_readiness ke kf))"
    using assms unfolding k8s_readiness_def
    by (auto split: prod.splits intro: inv_outsideD inv_store)
  show "P (snd (k8s_send_input ke kf i frame))"
    using assms unfolding k8s_send_input_def Let_def
    by (simp split: prod.splits sum.splits option.splits endpoint.splits)
      (blast intro: inv_outsideD inv_outside)
qed

lemma inv_stop_agent:
  assumes "P kf" "\<forall>f \<in> set (waits ms). \<forall>x. P x \<longrightarrow> P (f x)" "drain = DrainKill \<or> drain = Graceful ms"
  shows "P (snd (k8s_stop_agent ke waits kf i drain))"
  using assms unfolding k8s_stop_agent_def
  by (auto simp del: stop_wait.simps split: prod.splits sum.splits drain_policy.splits
      intro!: inv_stop_wait intro: inv_outsideD inv_stop)

lemma inv_restart_agent:
  assumes "P kf" "\<forall>f \<in> set ws. \<forall>x. P x \<longrightarrow> P (f x)"
  shows "P (snd (k8s_restart_agent ke ws kf i))"
proof -
  have "P kf'" if "restart_wait ke i ws kf0 = (r, kf')" "P kf0" for kf0 kf' r
    using inv_restart_wait [OF that(2) assms(2), of i] that(1) by simp
  then show ?thesis
    using assms(1) unfolding k8s_restart_agent_def
    by (simp del: restart_wait.simps split: prod.splits sum.splits option.splits)
      (blast intro: inv_outsideD inv_stop)
qed

lemma inv_reach: "k8s_reach ke kf kf' \<Longrightarrow> P kf \<Longrightarrow> P kf'"
  by (induction rule: k8s_reach.induct)
    (auto intro: inv_world inv_poll inv_task inv_attach inv_ops inv_stop_agent inv_restart_agent)

end

section \<open>Attach tasks\<close>

text \<open>
  The reservations are exactly the running tasks: one per agent, with the generation of the task.
\<close>

definition session_inv :: "('s, 'w) k8s_fleet \<Rightarrow> bool" where
  "session_inv kf \<longleftrightarrow>
     distinct (map kt_agent (kf_tasks kf)) \<and> distinct (map kt_generation (kf_tasks kf)) \<and>
     (\<forall>t \<in> set (kf_tasks kf). kt_generation t < kf_generation kf) \<and>
     kf_attached kf = map_of (map (\<lambda>t. (kt_agent t, kt_generation t)) (kf_tasks kf))"

lemma session_inv_cong:
  "kf_tasks kf' = kf_tasks kf \<Longrightarrow> kf_attached kf' = kf_attached kf \<Longrightarrow> kf_generation kf' = kf_generation kf \<Longrightarrow>
     session_inv kf' = session_inv kf"
  by (simp add: session_inv_def)

lemma session_inv_frame [simp]:
  "session_inv (kf\<lparr>kf_world := w\<rparr>) = session_inv kf" "session_inv (kf\<lparr>kf_emitter := em\<rparr>) = session_inv kf"
  "session_inv (kf\<lparr>kf_terminal := ids\<rparr>) = session_inv kf" "session_inv (kf\<lparr>kf_known := known\<rparr>) = session_inv kf"
  "session_inv (kf\<lparr>kf_uids := uids\<rparr>) = session_inv kf" "session_inv (kf\<lparr>kf_changes := cs\<rparr>) = session_inv kf"
  by (simp_all add: session_inv_def)

lemma map_of_key_Some:
  assumes "distinct (map k xs)" "t \<in> set xs"
  shows "map_of (map (\<lambda>t. (k t, v t)) xs) (k t) = Some (v t)"
  using assms by (intro map_of_is_SomeI) (auto simp: comp_def)

lemma map_of_key_filter:
  "map_of (map (\<lambda>t. (k t, v t)) (filter (\<lambda>t. k t \<noteq> i) xs)) = (map_of (map (\<lambda>t. (k t, v t)) xs))(i := None)"
  by (induction xs) auto

lemma filter_key_eq:
  assumes "distinct (map k xs)" "distinct (map v xs)" "t \<in> set xs"
  shows "filter (\<lambda>x. v x \<noteq> v t) xs = filter (\<lambda>x. k x \<noteq> k t) xs" "remove1 t xs = filter (\<lambda>x. k x \<noteq> k t) xs"
proof -
  have inj: "v x = v t \<longleftrightarrow> x = t" "k x = k t \<longleftrightarrow> x = t" if "x \<in> set xs" for x
    using assms that by (auto simp: distinct_map inj_on_def)
  then show "filter (\<lambda>x. v x \<noteq> v t) xs = filter (\<lambda>x. k x \<noteq> k t) xs"
    by (intro filter_cong) auto
  have "distinct xs" using assms(1) by (simp add: distinct_map)
  then show "remove1 t xs = filter (\<lambda>x. k x \<noteq> k t) xs"
    using inj(2) by (auto simp: distinct_remove1_removeAll removeAll_filter_not_eq intro!: filter_cong)
qed

lemma session_inv_drop:
  assumes "session_inv kf" "t \<in> set (kf_tasks kf)"
    and "kf_tasks kf' = filter (\<lambda>x. kt_agent x \<noteq> kt_agent t) (kf_tasks kf)"
      "kf_attached kf' = (kf_attached kf)(kt_agent t := None)" "kf_generation kf' = kf_generation kf"
  shows "session_inv kf'"
  using assms by (auto simp: session_inv_def map_of_key_filter distinct_map_filter)

lemma session_inv_attached:
  assumes "session_inv kf"
  shows "kf_attached kf i = Some g \<longleftrightarrow> (\<exists>t \<in> set (kf_tasks kf). kt_agent t = i \<and> kt_generation t = g)"
proof
  assume "kf_attached kf i = Some g"
  then show "\<exists>t \<in> set (kf_tasks kf). kt_agent t = i \<and> kt_generation t = g"
    using assms by (auto simp: session_inv_def dest!: map_of_SomeD)
next
  assume "\<exists>t \<in> set (kf_tasks kf). kt_agent t = i \<and> kt_generation t = g"
  then show "kf_attached kf i = Some g"
    using assms map_of_key_Some [of kt_agent "kf_tasks kf" _ kt_generation] by (auto simp: session_inv_def)
qed

lemma session_inv_finish:
  assumes "session_inv kf" "t \<in> set (kf_tasks kf)"
  shows "session_inv (finish_task ke t kf)"
proof -
  have "kf_attached kf (kt_agent t) = Some (kt_generation t)"
    using session_inv_attached [OF assms(1)] assms(2) by auto
  then show ?thesis
    using assms filter_key_eq(2) [of kt_agent "kf_tasks kf" kt_generation t]
    by (intro session_inv_drop [OF assms])
      (auto simp: finish_task_def cleanup_attach_def Let_def session_inv_def)
qed

lemma session_inv_stop:
  assumes "session_inv kf"
  shows "session_inv (session_stop ke kf i)"
proof (cases "kf_attached kf i")
  case None
  then show ?thesis
    using assms by (auto simp: session_stop_def forget_terminal_def session_inv_def)
next
  case (Some g)
  then obtain t where t: "t \<in> set (kf_tasks kf)" "kt_agent t = i" "kt_generation t = g"
    using session_inv_attached [OF assms] by auto
  then show ?thesis
    using assms Some filter_key_eq(1) [of kt_agent "kf_tasks kf" kt_generation t]
    by (intro session_inv_drop [OF assms t(1)])
      (auto simp: session_stop_def forget_terminal_def session_inv_def)
qed

lemma session_inv_attach:
  assumes "session_inv kf"
  shows "session_inv (session_attach ke kf repo i ep spec)"
proof -
  have new: "session_inv (kf\<lparr>kf_world := w, kf_generation := Suc g, kf_attached := (kf_attached kf)(i \<mapsto> g),
      kf_tasks := kf_tasks kf @ [t]\<rparr>)"
    if "kf_attached kf i = None" "g = kf_generation kf" "kt_agent t = i" "kt_generation t = g" for w g t
  proof -
    have "i \<notin> kt_agent ` set (kf_tasks kf)"
      using that(1) session_inv_attached [OF assms, of i] by force
    moreover have "g \<notin> kt_generation ` set (kf_tasks kf)"
      using assms that(2) by (auto simp: session_inv_def)
    moreover have "map_of (map (\<lambda>t. (kt_agent t, kt_generation t)) (kf_tasks kf)) ++ [i \<mapsto> g] =
        [i \<mapsto> g] ++ map_of (map (\<lambda>t. (kt_agent t, kt_generation t)) (kf_tasks kf))"
      using that(1) assms by (intro map_add_comm) (auto simp: session_inv_def)
    ultimately show ?thesis
      using assms that by (auto simp: session_inv_def less_Suc_eq)
  qed
  have same: "session_inv (kf\<lparr>kf_world := w\<rparr>)" for w
    using assms by (simp add: session_inv_def)
  have "kf\<lparr>kf_world := w, kf_generation := kf_generation kf + 1, kf_attached := A, kf_tasks := T\<rparr> =
      kf\<lparr>kf_world := w, kf_generation := Suc (kf_generation kf), kf_attached := A, kf_tasks := T\<rparr>" for w A T
    by simp
  then show ?thesis
    unfolding session_attach_def k8s_outside_def Let_def
    using new same assms by (auto split: endpoint.splits prod.splits option.splits)
qed

lemma record_change_session:
  "kf_tasks (record_change ke kf c) = kf_tasks kf" "kf_attached (record_change ke kf c) = kf_attached kf"
  "kf_generation (record_change ke kf c) = kf_generation kf" "kf_known (record_change ke kf c) = kf_known kf"
  "kf_changes (record_change ke kf c) = kf_changes kf" "kf_world (record_change ke kf c) = kf_world kf"
  "kf_terminal (record_change ke kf c) = kf_terminal kf"
  by (auto simp: record_change_def k8s_emit_def already_recorded_terminal_def
      split: fleet_change.splits prod.splits bool.splits)

lemma record_changes_session:
  "kf_tasks (foldl (record_change ke) kf cs) = kf_tasks kf"
  "kf_attached (foldl (record_change ke) kf cs) = kf_attached kf"
  "kf_generation (foldl (record_change ke) kf cs) = kf_generation kf"
  "kf_known (foldl (record_change ke) kf cs) = kf_known kf"
  "kf_changes (foldl (record_change ke) kf cs) = kf_changes kf"
  "kf_terminal (foldl (record_change ke) kf cs) = kf_terminal kf"
  by (induction cs arbitrary: kf) (simp_all add: record_change_session)

lemma observe_changes_session:
  "kf_tasks (observe_changes ke r cs kf) = kf_tasks kf"
  "kf_attached (observe_changes ke r cs kf) = kf_attached kf"
  "kf_generation (observe_changes ke r cs kf) = kf_generation kf"
  "kf_known (observe_changes ke r cs kf) = kf_known kf"
  "kf_changes (observe_changes ke r cs kf) = kf_changes kf"
  "kf_terminal (observe_changes ke r cs kf) = kf_terminal kf"
  by (auto simp: observe_changes_def k8s_outside_def Let_def record_changes_session
      split: prod.splits option.splits)

lemma session_inv_task:
  assumes "session_inv kf" "t \<in> set (kf_tasks kf)"
  shows "session_inv (run_k8s_task ke n t kf)"
  unfolding run_k8s_task_def Let_def k8s_outside_def
  by (auto intro!: session_inv_finish simp: assms split!: prod.splits sum.splits option.splits)

lemma session_inv_observe: "session_inv kf \<Longrightarrow> session_inv (observe_changes ke r cs kf)"
  using session_inv_cong [OF observe_changes_session(1-3) [of ke r cs kf]] by blast

interpretation k8s_session: k8s_invariant ke session_inv for ke
  by unfold_locales
    (simp_all add: session_inv_attach session_inv_stop session_inv_task session_inv_observe forget_terminal_def)

section \<open>Published outcomes\<close>

definition outcomes :: "string \<Rightarrow> fleet_event list \<Rightarrow> fleet_event list" where
  "outcomes i es = filter (\<lambda>e. ev_agent e = i \<and> terminal_change (kind e)) es"

lemma outcomes_simps [simp]:
  "outcomes i [] = []" "outcomes i (es @ es') = outcomes i es @ outcomes i es'"
  "outcomes i (e # es) = (if ev_agent e = i \<and> terminal_change (kind e) then e # outcomes i es else outcomes i es)"
  by (simp_all add: outcomes_def)

lemma next_seq_bus: "next_seq ops em k = (n, em') \<Longrightarrow> em_bus em' = em_bus em"
  by (auto simp: next_seq_def Let_def split: option.splits prod.splits)

lemma append_loop_bus:
  "append_loop ops n em ev = (err, ev', em') \<Longrightarrow>
     em_bus em' = em_bus em \<and> ev_agent ev' = ev_agent ev \<and> kind ev' = kind ev"
proof (induction n arbitrary: em ev)
  case (Suc n)
  then show ?case
    by (fastforce simp: reseed_seq_def dest: next_seq_bus split: prod.splits sum.splits if_splits)
qed (auto split: prod.splits sum.splits)

lemma next_event_bus:
  "next_event ops ee em repo ag k = (ev, em') \<Longrightarrow> em_bus em' = em_bus em \<and> ev_agent ev = ag \<and> kind ev = k"
  by (auto simp: next_event_def dest: next_seq_bus split: prod.splits)

lemma gap_outcomes: "outcomes i (em_bus (emit_persist_gap ops ee em repo ag n e)) = outcomes i (em_bus em)"
  by (auto simp: emit_persist_gap_def append_with_seq_retry_def publish_def meter_append_def
      dest!: next_event_bus append_loop_bus split: prod.splits)

lemma emit_outcomes:
  "\<exists>ev. ev_agent ev = ag \<and> kind ev = k \<and>
     (\<forall>i. outcomes i (em_bus (emit ops ee em repo ag k)) = outcomes i (em_bus em) @ outcomes i [ev])"
proof -
  obtain ev em1 where ev: "next_event ops ee em repo ag k = (ev, em1)" by fastforce
  obtain err ev' em2 where app: "append_loop ops SEQ_CONFLICT_RETRIES em1 ev = (err, ev', em2)"
    by (metis prod_cases3)
  have facts: "em_bus em2 = em_bus em" "ev_agent ev' = ag" "kind ev' = k"
    using next_event_bus [OF ev] append_loop_bus [OF app] by auto
  then show ?thesis
    by (intro exI [of _ ev'])
      (auto simp: emit_def ev append_with_seq_retry_def app gap_outcomes Let_def
         publish_def meter_append_def split: option.splits)
qed

lemma attach_frame_outcomes:
  "attach_frame ops ee parse th tgt em l = (fin, em') \<Longrightarrow> outcomes i (em_bus em') = outcomes i (em_bus em)"
proof -
  assume run: "attach_frame ops ee parse th tgt em l = (fin, em')"
  have plain: "\<not> terminal_change k" if "normalize_frame frame th = NEvent k" for frame k
    using that by (auto simp: normalize_frame_def Let_def split: option.splits if_splits prod.splits)
  show ?thesis
  proof (cases "frame_kind parse th l")
    case None
    then show ?thesis using attach_frame_kind(2) [OF None, of ops ee tgt em] run by auto
  next
    case (Some k)
    then have "\<not> terminal_change k"
      using plain by (auto simp: frame_kind_def split: sum.splits normalized.splits)
    then show ?thesis
      using attach_frame_kind(1) [OF Some, of ops ee tgt em] run
        emit_outcomes [of "at_agent_id tgt" k ops ee em "at_repo tgt"] by auto
  qed
qed

lemma attach_read_outcomes:
  "attach_read ops ee parse th tgt items idx saw fs em = (r, fs', em') \<Longrightarrow>
     outcomes i (em_bus em') = outcomes i (em_bus em)"
proof (induction ops ee parse th tgt items idx saw fs em rule: attach_read.induct)
  case (4 ops ee parse th tgt l items idx saw fs em)
  then show ?case
    by (auto dest: attach_frame_outcomes split: if_splits prod.splits)
qed auto

lemma attach_once_outcomes:
  "attach_once ops ee ap th c tgt fs em w = (r, fs', em', w') \<Longrightarrow>
     outcomes i (em_bus em') = outcomes i (em_bus em)"
  by (auto simp: attach_once_def dest: attach_read_outcomes split: prod.splits sum.splits)

lemma attach_loop_outcomes:
  "attach_loop n ops ee ap th b c tgt attempt fs em w = (r, fs', em', w') \<Longrightarrow>
     outcomes i (em_bus em') = outcomes i (em_bus em)"
proof (induction n arbitrary: attempt fs em w)
  case (Suc n)
  then show ?case
    by (auto simp: Let_def dest!: attach_once_outcomes [where i = i] split: prod.splits if_splits)
qed simp

text \<open>At most one outcome per agent, and none that is not remembered.\<close>

definition outcome_inv :: "('s, 'w) k8s_fleet \<Rightarrow> bool" where
  "outcome_inv kf \<longleftrightarrow>
     (\<forall>i. length (outcomes i (em_bus (kf_emitter kf))) \<le> 1 \<and>
        (outcomes i (em_bus (kf_emitter kf)) \<noteq> [] \<longrightarrow> i \<in> kf_recorded kf))"

lemma outcome_inv_cong:
  "(\<And>i. outcomes i (em_bus (kf_emitter kf')) = outcomes i (em_bus (kf_emitter kf))) \<Longrightarrow>
     kf_recorded kf \<subseteq> kf_recorded kf' \<Longrightarrow> outcome_inv kf \<Longrightarrow> outcome_inv kf'"
  by (auto simp: outcome_inv_def)

lemma outcome_inv_emit:
  assumes "outcome_inv kf" "is_terminal new \<Longrightarrow> outcomes i (em_bus (kf_emitter kf)) = [] \<and> i \<in> kf_recorded kf"
  shows "outcome_inv (k8s_emit ke kf ws i (StatusChanged old new))"
proof -
  obtain ev where ev: "ev_agent ev = i" "kind ev = StatusChanged old new"
    "\<And>j. outcomes j (em_bus (emit (ke_ops ke) (ke_emit ke) (kf_emitter kf) ws i (StatusChanged old new))) =
       outcomes j (em_bus (kf_emitter kf)) @ outcomes j [ev]"
    using emit_outcomes by blast
  show ?thesis
    using assms ev by (auto simp: outcome_inv_def k8s_emit_def)
qed

lemma outcome_inv_record:
  assumes "outcome_inv kf"
  shows "outcome_inv (record_change ke kf c)"
proof (cases c)
  case (FcStatusChanged i ws old new)
  show ?thesis
  proof (cases "is_terminal new \<and> i \<notin> kf_recorded kf")
    case True
    obtain r s where rs: "st_replay (ke_ops ke) (em_store (kf_emitter kf)) i 0 = (r, s)" by fastforce
    let ?kf = "kf\<lparr>kf_emitter := (kf_emitter kf)\<lparr>em_store := s\<rparr>, kf_recorded := insert i (kf_recorded kf)\<rparr>"
    have inv: "outcome_inv ?kf" using assms by (rule outcome_inv_cong [rotated 2]) auto
    have "outcomes i (em_bus (kf_emitter ?kf)) = []" using assms True by (auto simp: outcome_inv_def)
    then have "outcome_inv (k8s_emit ke ?kf ws i (StatusChanged old new))"
      using inv by (intro outcome_inv_emit) auto
    then show ?thesis
      using inv True by (auto simp: FcStatusChanged record_change_def already_recorded_terminal_def rs split: bool.splits)
  next
    case False
    then show ?thesis
      using assms by (auto simp: FcStatusChanged record_change_def already_recorded_terminal_def intro!: outcome_inv_emit)
  qed
qed (simp_all add: record_change_def assms)

lemma outcome_inv_observe:
  assumes "outcome_inv kf"
  shows "outcome_inv (observe_changes ke r cs kf)"
proof -
  have "outcome_inv (foldl (record_change ke) kf' cs)" if "outcome_inv kf'" for kf'
    using that by (induction cs arbitrary: kf') (simp_all add: outcome_inv_record)
  then show ?thesis
    using assms by (auto simp: observe_changes_def k8s_outside_def Let_def outcome_inv_def split: prod.splits option.splits)
qed

lemma session_outcomes:
  "em_bus (kf_emitter (session_attach ke kf repo i ep spec)) = em_bus (kf_emitter kf)"
  "kf_recorded (session_attach ke kf repo i ep spec) = kf_recorded kf"
  "em_bus (kf_emitter (session_stop ke kf i)) = em_bus (kf_emitter kf)"
  "kf_recorded (session_stop ke kf i) = kf_recorded kf"
  "em_bus (kf_emitter (finish_task ke t kf)) = em_bus (kf_emitter kf)"
  "kf_recorded (finish_task ke t kf) = kf_recorded kf"
  by (auto simp: session_attach_def session_stop_def finish_task_def cleanup_attach_def forget_terminal_def
      k8s_outside_def Let_def split: endpoint.splits prod.splits option.splits)

lemma run_task_outcomes:
  "outcomes i (em_bus (kf_emitter (run_k8s_task ke n t kf))) = outcomes i (em_bus (kf_emitter kf)) \<and>
   kf_recorded (run_k8s_task ke n t kf) = kf_recorded kf"
  unfolding run_k8s_task_def Let_def k8s_outside_def
  by (auto simp: session_outcomes dest!: attach_loop_outcomes [where i = i]
      split!: prod.splits sum.splits option.splits if_splits)

interpretation k8s_outcome: k8s_invariant ke outcome_inv for ke
  by unfold_locales
    (auto simp: run_task_outcomes session_outcomes forget_terminal_def
       intro!: outcome_inv_observe elim!: outcome_inv_cong [rotated 2])

text \<open>
  C12. In any run of one process, whatever the API server, the pods, the leases and the store answer,
  each agent's outcome is published at most once, although every poll sees the finished agent
  again; and an agent never has two attach tasks.
\<close>

theorem k8s_outcome_published_once:
  assumes "k8s_reach ke (k8s_new store w) kf"
  shows "length (outcomes i (em_bus (kf_emitter kf))) \<le> 1 \<and> distinct (map kt_agent (kf_tasks kf)) \<and>
    dom (kf_attached kf) = kt_agent ` set (kf_tasks kf)"
proof -
  have "outcome_inv (k8s_new store w)" "session_inv (k8s_new store w)"
    by (simp_all add: outcome_inv_def session_inv_def k8s_new_def emitter_new_def)
  then have inv: "outcome_inv kf" "session_inv kf"
    using k8s_outcome.inv_reach [OF assms] k8s_session.inv_reach [OF assms] by auto
  then show ?thesis
    by (auto simp: outcome_inv_def session_inv_def dom_map_of_conv_image_fst image_image)
qed

section \<open>Recorded outcomes\<close>

text \<open>
  The log holds at most one outcome per agent, and one for every agent the process remembers.
\<close>

definition logged :: "kind_dec \<Rightarrow> (events_db, 'w) k8s_fleet \<Rightarrow> fleet_event list" where
  "logged dec kf = sql_hist dec (em_store (kf_emitter kf))"

definition has_outcome :: "string \<Rightarrow> fleet_event list \<Rightarrow> bool" where
  "has_outcome i es \<longleftrightarrow> list_ex (\<lambda>e. stream_key e = i \<and> terminal_change (kind e)) es"

definition outcome_log :: "kind_dec \<Rightarrow> (events_db, 'w) k8s_fleet \<Rightarrow> bool" where
  "outcome_log dec kf \<longleftrightarrow>
     (\<forall>i. i \<noteq> [] \<longrightarrow> length (outcomes i (logged dec kf)) \<le> 1) \<and>
     (\<forall>i \<in> kf_recorded kf. i \<noteq> [] \<longrightarrow> has_outcome i (logged dec kf))"

definition status_changes :: "fleet_change list \<Rightarrow> nat" where
  "status_changes cs = length (filter (\<lambda>c. case c of FcStatusChanged _ _ _ _ \<Rightarrow> True | _ \<Rightarrow> False) cs)"

lemma no_outcome: "i \<noteq> [] \<Longrightarrow> \<not> has_outcome i es \<Longrightarrow> outcomes i es = []"
  by (auto simp: has_outcome_def list_ex_iff outcomes_def filter_empty_conv stream_key_def stream_key_for_def)

lemma has_outcome_append [simp]: "has_outcome i (es @ es') \<longleftrightarrow> has_outcome i es \<or> has_outcome i es'"
  by (auto simp: has_outcome_def)

lemma has_outcome_snoc: "ev_agent ev = i \<Longrightarrow> i \<noteq> [] \<Longrightarrow> terminal_change (kind ev) \<Longrightarrow> has_outcome i [ev]"
  by (simp add: has_outcome_def stream_key_def stream_key_for_def)

lemma emit_logged:
  assumes "ke_ops ke = sqlite_ops fsum enc dec \<or> ke_ops ke = pg_ops fsum enc dec"
    and "writer_ok dec (Suc n) (kf_emitter kf)" "encodable enc dec k"
  shows "\<exists>ev. ev_repo ev = repo \<and> ev_agent ev = i \<and> kind ev = k \<and> logged dec (k8s_emit ke kf repo i k) = logged dec kf @ [ev] \<and>
     writer_ok dec n (kf_emitter (k8s_emit ke kf repo i k))"
  using emit_step [OF assms, of _ "ke_emit ke" repo i]
  by (auto simp: k8s_emit_def logged_def emission_of_def)

lemma already_recorded_no_fault:
  assumes "ke_ops ke = sqlite_ops fsum enc dec \<or> ke_ops ke = pg_ops fsum enc dec"
    and "writer_ok dec n (kf_emitter kf)" "i \<notin> kf_recorded kf"
  shows "already_recorded_terminal ke kf i =
    (has_outcome i (logged dec kf), kf\<lparr>kf_recorded := insert i (kf_recorded kf)\<rparr>)"
proof -
  have "st_replay (ke_ops ke) (em_store (kf_emitter kf)) i 0 =
      (Inr (stream_history (logged dec kf) i 0), em_store (kf_emitter kf))"
    using sql_replay_no_fault [of dec "em_store (kf_emitter kf)" 0 i] assms(1,2)
    by (auto simp: sqlite_ops_def pg_ops_def writer_ok_def logged_def)
  then show ?thesis
    using assms(3)
    by (simp add: already_recorded_terminal_def list_ex_iff has_outcome_def stream_history_set) blast
qed

lemma record_change_log:
  assumes ops: "ke_ops ke = sqlite_ops fsum enc dec \<or> ke_ops ke = pg_ops fsum enc dec"
    and ok: "writer_ok dec (status_changes [c] + n) (kf_emitter kf)" and enc: "\<And>a b. encodable enc dec (StatusChanged a b)"
    and log: "outcome_log dec kf"
  shows "outcome_log dec (record_change ke kf c) \<and> writer_ok dec n (kf_emitter (record_change ke kf c)) \<and>
    (\<exists>evs. logged dec (record_change ke kf c) = logged dec kf @ evs) \<and>
    (\<forall>i ws old new. c = FcStatusChanged i ws old new \<and> is_terminal new \<and> i \<noteq> [] \<longrightarrow>
       has_outcome i (logged dec (record_change ke kf c)))"
proof (cases c)
  case (FcStatusChanged i ws old new)
  have ok1: "writer_ok dec (Suc n) (kf_emitter kf)" using ok by (simp add: FcStatusChanged status_changes_def)
  have ok0: "writer_ok dec n (kf_emitter kf)" using ok1 by (rule writer_ok_mono) simp
  show ?thesis
  proof (cases "is_terminal new \<and> (i \<in> kf_recorded kf \<or> has_outcome i (logged dec kf))")
    case True
    have "outcome_log dec (kf\<lparr>kf_recorded := insert i (kf_recorded kf)\<rparr>)"
      using log True by (auto simp: outcome_log_def logged_def)
    moreover have "logged dec (kf\<lparr>kf_recorded := S\<rparr>) = logged dec kf" for S by (simp add: logged_def)
    ultimately show ?thesis
      using log True ok0 already_recorded_no_fault [OF ops ok0, of i]
      by (cases "i \<in> kf_recorded kf")
        (auto simp: FcStatusChanged record_change_def already_recorded_terminal_def outcome_log_def)
  next
    case False
    define kf1 where "kf1 = (if is_terminal new then kf\<lparr>kf_recorded := insert i (kf_recorded kf)\<rparr> else kf)"
    have run: "record_change ke kf c = k8s_emit ke kf1 ws i (StatusChanged old new)"
      using False already_recorded_no_fault [OF ops ok0, of i]
      by (auto simp: FcStatusChanged record_change_def kf1_def)
    have kf1: "writer_ok dec (Suc n) (kf_emitter kf1)" "logged dec kf1 = logged dec kf"
      "kf_recorded kf1 = (if is_terminal new then insert i (kf_recorded kf) else kf_recorded kf)"
      using ok1 by (simp_all add: kf1_def logged_def)
    obtain ev where ev: "ev_agent ev = i" "kind ev = StatusChanged old new"
      "logged dec (record_change ke kf c) = logged dec kf @ [ev]"
      "writer_ok dec n (kf_emitter (record_change ke kf c))" "ev_repo ev = ws"
      using emit_logged [OF ops kf1(1) enc [of old new], of ws i] kf1(2) run by metis
    have rec: "kf_recorded (record_change ke kf c) = kf_recorded kf1" by (simp add: run k8s_emit_def)
    have mine: "has_outcome i [ev]" if "is_terminal new" "i \<noteq> []"
      using has_outcome_snoc [of ev i] ev(1,2) that by simp
    have log': "outcome_log dec (record_change ke kf c)"
      using log False ev(1,2) mine no_outcome [of i "logged dec kf"]
      unfolding outcome_log_def ev(3) rec kf1(3) by auto
    show ?thesis using log' ev mine by (auto simp: FcStatusChanged)
  qed
qed (use ok log in \<open>simp_all add: record_change_def status_changes_def\<close>)

lemma status_changes_Cons: "status_changes (c # cs) = status_changes [c] + status_changes cs"
  by (simp add: status_changes_def)

lemma status_changes_simps [simp]:
  "status_changes [] = 0" "status_changes (cs @ cs') = status_changes cs + status_changes cs'"
  by (simp_all add: status_changes_def)

lemma record_changes_log:
  assumes ops: "ke_ops ke = sqlite_ops fsum enc dec \<or> ke_ops ke = pg_ops fsum enc dec"
    and enc: "\<And>a b. encodable enc dec (StatusChanged a b)"
    and "writer_ok dec (status_changes cs + n) (kf_emitter kf)" "outcome_log dec kf"
  shows "outcome_log dec (foldl (record_change ke) kf cs) \<and>
    writer_ok dec n (kf_emitter (foldl (record_change ke) kf cs)) \<and>
    (\<exists>evs. logged dec (foldl (record_change ke) kf cs) = logged dec kf @ evs) \<and>
    (\<forall>i ws old new. FcStatusChanged i ws old new \<in> set cs \<and> is_terminal new \<and> i \<noteq> [] \<longrightarrow>
       has_outcome i (logged dec (foldl (record_change ke) kf cs)))"
  using assms(3,4)
proof (induction cs arbitrary: kf)
  case (Cons c cs)
  have "writer_ok dec (status_changes [c] + (status_changes cs + n)) (kf_emitter kf)"
    using Cons.prems(1) status_changes_Cons [of c cs] by (simp add: add.assoc)
  note step = record_change_log [OF ops this enc Cons.prems(2)]
  note rest = Cons.IH [of "record_change ke kf c"]
  show ?case using step rest by auto blast
qed (auto intro: exI [of _ "[]"])


lemma diff_tasks_status_changes:
  "diff_tasks p tasks todo known = (known', cs, atts) \<Longrightarrow> status_changes cs \<le> length tasks"
proof (induction p tasks todo known arbitrary: known' cs atts rule: diff_tasks.induct)
  case (2 p task tasks todo known)
  have one: "status_changes (agent_change known n a) \<le> 1" for n a
    by (simp add: agent_change_def status_changes_def split: option.splits)
  show ?case
  proof (cases "ct_name task")
    case None
    then show ?thesis using "2.IH"(1) "2.prems" by (auto intro: le_SucI)
  next
    case (Some name)
    show ?thesis
    proof (cases "todo name")
      case None
      then show ?thesis using Some "2.IH"(2) "2.prems" by (auto intro: le_SucI)
    next
      case (Some a)
      obtain known1 cs1 atts1 where rest: "diff_tasks p tasks (todo(name := None)) (known(name \<mapsto> a)) = (known1, cs1, atts1)"
        by (metis prod_cases3)
      have "status_changes cs1 \<le> length tasks" using "2.IH"(3) [OF \<open>ct_name task = Some name\<close> Some rest] .
      then show ?thesis
        using "2.prems" rest Some \<open>ct_name task = Some name\<close> one [of name a] by auto
    qed
  qed
qed simp

lemma fleet_diff_status_changes:
  "fleet_diff p ord tasks agents known = (known', cs, atts) \<Longrightarrow> status_changes cs \<le> length tasks"
  by (auto simp: fleet_diff_def Let_def gone_changes_def status_changes_def filter_empty_conv
      dest!: diff_tasks_status_changes split: prod.splits)

text \<open>What a poll does after it has recorded: the log and the memory of outcomes stay.\<close>

lemma forget_frame [simp]:
  "kf_emitter (forget_terminal i kf) = kf_emitter kf" "kf_recorded (forget_terminal i kf) = kf_recorded kf"
  "kf_emitter (forget_gone kf c) = kf_emitter kf" "kf_recorded (forget_gone kf c) = kf_recorded kf"
  "kf_known (forget_terminal i kf) = kf_known kf" "kf_known (forget_gone kf c) = kf_known kf"
  "kf_changes (forget_terminal i kf) = kf_changes kf" "kf_changes (forget_gone kf c) = kf_changes kf"
  "kf_world (forget_terminal i kf) = kf_world kf" "kf_world (forget_gone kf c) = kf_world kf"
  by (simp_all add: forget_terminal_def forget_gone_def split: fleet_change.splits)

lemma session_attach_frame [simp]:
  "kf_emitter (session_attach ke kf repo i ep spec) = kf_emitter kf"
  "kf_recorded (session_attach ke kf repo i ep spec) = kf_recorded kf"
  "kf_known (session_attach ke kf repo i ep spec) = kf_known kf"
  "kf_changes (session_attach ke kf repo i ep spec) = kf_changes kf"
  by (auto simp: session_attach_def k8s_outside_def Let_def split: endpoint.splits prod.splits option.splits)

lemma foldl_frame: "(\<And>kf x. g (f kf x) = g kf) \<Longrightarrow> g (foldl f kf xs) = g kf"
  by (induction xs arbitrary: kf) simp_all

lemma observe_tasks_result:
  assumes "observe_tasks ke tasks kf = kf'"
  shows "\<exists>agents refreshed w known cs atts.
    overlay_pod_status ke tasks (\<lambda>n. settled_map (kf_known kf) (map agent_from_task tasks) n = None)
      (map agent_from_task tasks) (kf_world kf) = (agents, refreshed, w) \<and>
    fleet_diff (ke_auth ke) (ke_order ke) tasks
      (map (carry_settled (settled_map (kf_known kf) (map agent_from_task tasks))) agents) (kf_known kf) = (known, cs, atts) \<and>
    kf_changes kf' = kf_changes kf @ cs \<and> kf_known kf' = known \<and>
    kf_emitter kf' = kf_emitter (observe_changes ke refreshed cs
      (kf\<lparr>kf_uids := current_uids tasks, kf_world := w, kf_known := known\<rparr>)) \<and>
    kf_recorded kf' = kf_recorded (observe_changes ke refreshed cs
      (kf\<lparr>kf_uids := current_uids tasks, kf_world := w, kf_known := known\<rparr>))"
  using assms unfolding observe_tasks_def Let_def
  by (auto simp: foldl_frame [where g = kf_emitter] foldl_frame [where g = kf_recorded]
      foldl_frame [where g = kf_known] foldl_frame [where g = kf_changes] observe_changes_session
      split: prod.splits)

text \<open>Whether this replica wins the observer's lease at the moment a poll asks for it.\<close>

definition observes :: "('s, 'w) k8s_env \<Rightarrow> bool" where
  "observes ke \<longleftrightarrow> (\<forall>w. fst (ke_try_acquire ke w OBSERVER_STREAM_KEY) \<noteq> None)"



section \<open>Changes and subscribers\<close>

text \<open>The statuses a reader of the changes knows.\<close>

definition apply_change :: "(string \<rightharpoonup> agent_status) \<Rightarrow> fleet_change \<Rightarrow> (string \<rightharpoonup> agent_status)" where
  "apply_change m c =
     (case c of
        FcDiscovered i _ a \<Rightarrow> m(i \<mapsto> agent_status a)
      | FcStatusChanged i _ _ new \<Rightarrow> m(i \<mapsto> new)
      | FcGone i _ \<Rightarrow> m(i := None)
      | FcWorkspaceHealth _ _ \<Rightarrow> m)"

definition statuses :: "(string \<rightharpoonup> agent) \<Rightarrow> (string \<rightharpoonup> agent_status)" where
  "statuses known n = map_option agent_status (known n)"

definition task_names :: "caliban_task list \<Rightarrow> string set" where
  "task_names tasks = set (List.map_filter ct_name tasks)"

text \<open>The iteration of a finite hash map meets each key once.\<close>

definition key_order :: "(string set \<Rightarrow> string list) \<Rightarrow> bool" where
  "key_order ord \<longleftrightarrow> (\<forall>S. finite S \<longrightarrow> set (ord S) = S \<and> distinct (ord S))"

lemma task_names_simps [simp]:
  "task_names [] = {}" "task_names (t # tasks) = (case ct_name t of None \<Rightarrow> {} | Some n \<Rightarrow> {n}) \<union> task_names tasks"
  by (simp_all add: task_names_def List.map_filter_simps split: option.splits)

lemma agent_change_applies: "foldl apply_change (statuses known) (agent_change known n a) = statuses (known(n \<mapsto> a))"
  by (auto simp: agent_change_def apply_change_def statuses_def fun_eq_iff split: option.splits)

lemma diff_tasks_applies:
  "diff_tasks p tasks todo known = (known', cs, atts) \<Longrightarrow>
     foldl apply_change (statuses known) cs = statuses known' \<and>
     dom known' = dom known \<union> (task_names tasks \<inter> dom todo)"
proof (induction p tasks todo known arbitrary: known' cs atts rule: diff_tasks.induct)
  case (2 p task tasks todo known)
  show ?case
  proof (cases "Option.bind (ct_name task) todo")
    case None
    then show ?thesis
      using "2.prems" "2.IH"(1,2) by (auto simp: bind_eq_None_conv split: option.splits)
  next
    case (Some a)
    then obtain n where n: "ct_name task = Some n" "todo n = Some a"
      by (auto simp: bind_eq_Some_conv)
    obtain k1 c1 t1 where rest: "diff_tasks p tasks (todo(n := None)) (known(n \<mapsto> a)) = (k1, c1, t1)"
      by (metis prod_cases3)
    have out: "known' = k1" "cs = agent_change known n a @ c1" using "2.prems" n rest by auto
    note IH = "2.IH"(3) [OF n rest]
    have "dom k1 = insert n (dom known) \<union> (task_names tasks \<inter> (dom todo - {n}))"
      unfolding conjunct2 [OF IH] by (auto split: if_splits)
    moreover have "foldl apply_change (statuses (known(n \<mapsto> a))) c1 = statuses k1"
      by (rule conjunct1 [OF IH])
    moreover have "n \<in> dom todo" using n(2) by (rule domI)
    ultimately show ?thesis
      unfolding out foldl_append agent_change_applies using n(1) by auto
  qed
qed simp

lemma gone_applies: "foldl apply_change m (map (\<lambda>n. FcGone n (f n)) ns) = m |` (- set ns)"
  by (induction ns arbitrary: m) (auto simp: apply_change_def restrict_map_def fun_eq_iff)

lemma fleet_diff_applies:
  assumes "fleet_diff p ord tasks agents known = (known', cs, atts)" "key_order ord" "finite (dom known)"
    and "map agent_id agents = map (or_default \<circ> ct_name) tasks"
  shows "foldl apply_change (statuses known) cs = statuses known' \<and> dom known' = task_names tasks"
proof -
  let ?todo = "map_of (rev (map (\<lambda>a. (agent_id a, a)) agents))"
  obtain k1 c1 where d: "diff_tasks p tasks ?todo known = (k1, c1, atts)"
    and out: "known' = k1 |` task_names tasks" "cs = c1 @ gone_changes ord k1 (task_names tasks)"
    using assms(1) by (auto simp: fleet_diff_def Let_def task_names_def split: prod.splits)
  have "dom ?todo = set (map agent_id agents)" by (simp add: dom_map_of_conv_image_fst image_image)
  then have "dom ?todo = (or_default \<circ> ct_name) ` set tasks" by (simp add: assms(4))
  moreover have "task_names tasks \<subseteq> (or_default \<circ> ct_name) ` set tasks"
    by (induction tasks) (auto simp: or_default_def split: option.splits)
  ultimately have dom1: "dom k1 = dom known \<union> task_names tasks"
    and fold1: "foldl apply_change (statuses known) c1 = statuses k1"
    using diff_tasks_applies [OF d] by auto
  have "set (ord (dom k1 - task_names tasks)) = dom k1 - task_names tasks"
    using assms(2,3) dom1 by (simp add: key_order_def task_names_def)
  then have "foldl apply_change (statuses known) cs = statuses k1 |` (- (dom k1 - task_names tasks))"
    by (simp add: out(2) fold1 gone_changes_def gone_applies)
  also have "\<dots> = statuses known'"
    using dom1 by (auto simp: out(1) statuses_def restrict_map_def fun_eq_iff)
  finally show ?thesis
    using dom1 by (simp add: out(1) Int_absorb1)
qed

lemma overlay_ids:
  assumes "overlay_pod_status ke tasks incl agents w = (agents', refreshed, w')"
  shows "map agent_id agents' = map agent_id agents"
proof -
  have "agent_id (overlay_agent live a) = agent_id a" for live a
    by (simp add: overlay_agent_def split: option.splits)
  then show ?thesis
    using assms by (auto simp: overlay_pod_status_def Let_def comp_def split: prod.splits if_splits)
qed

lemma agent_from_task_id: "agent_id (agent_from_task t) = or_default (ct_name t)"
  by (simp add: agent_from_task_def Let_def split: prod.splits)

lemma carry_settled_id: "agent_id (carry_settled s a) = agent_id a"
  by (simp add: carry_settled_def split: option.splits)

lemma poll_applies:
  assumes "key_order (ke_order ke)" "finite (dom (kf_known kf))"
  shows "\<exists>cs. kf_changes (k8s_poll ke kf) = kf_changes kf @ cs \<and>
    foldl apply_change (statuses (kf_known kf)) cs = statuses (kf_known (k8s_poll ke kf)) \<and>
    finite (dom (kf_known (k8s_poll ke kf))) \<and>
    (\<forall>tasks. fst (ta_list (ke_api ke) (kf_world kf)) = Inr tasks \<longrightarrow>
       dom (kf_known (k8s_poll ke kf)) = task_names tasks)"
proof -
  obtain r w where list: "ta_list (ke_api ke) (kf_world kf) = (r, w)" by fastforce
  show ?thesis
  proof (cases r)
    case (Inl e)
    then show ?thesis
      using assms list by (intro exI [of _ "[]"]) (simp add: k8s_poll_def k8s_outside_def)
  next
    case (Inr tasks)
    let ?kf = "kf\<lparr>kf_world := w\<rparr>"
    have "observe_tasks ke tasks ?kf = k8s_poll ke kf" by (simp add: k8s_poll_def k8s_outside_def list Inr)
    then obtain agents refreshed w1 cs atts where
      overlay: "overlay_pod_status ke tasks (\<lambda>n. settled_map (kf_known kf) (map agent_from_task tasks) n = None)
          (map agent_from_task tasks) w = (agents, refreshed, w1)"
      and diff: "fleet_diff (ke_auth ke) (ke_order ke) tasks
          (map (carry_settled (settled_map (kf_known kf) (map agent_from_task tasks))) agents) (kf_known kf) =
          (kf_known (k8s_poll ke kf), cs, atts)"
      and changes: "kf_changes (k8s_poll ke kf) = kf_changes kf @ cs"
      using observe_tasks_result [of ke tasks ?kf "k8s_poll ke kf"] by auto
    have "map agent_id (map (carry_settled s) agents) = map (or_default \<circ> ct_name) tasks" for s
      using overlay_ids [OF overlay] by (simp add: carry_settled_id agent_from_task_id comp_def)
    with fleet_diff_applies [OF diff assms] changes list Inr show ?thesis
      by (auto simp: task_names_def)
  qed
qed


definition polls :: "('s, 'w) k8s_env \<Rightarrow> nat \<Rightarrow> ('s, 'w) k8s_fleet \<Rightarrow> ('s, 'w) k8s_fleet" where
  "polls ke n = k8s_poll ke ^^ n"

lemma polls_apply:
  assumes "key_order (ke_order ke)" "finite (dom (kf_known kf))"
  shows "\<exists>cs. kf_changes (polls ke n kf) = kf_changes kf @ cs \<and>
    foldl apply_change (statuses (kf_known kf)) cs = statuses (kf_known (polls ke n kf)) \<and>
    finite (dom (kf_known (polls ke n kf)))"
proof (induction n)
  case (Suc n)
  then show ?case
    using poll_applies [OF assms(1), of "polls ke n kf"] by (auto simp: polls_def)
qed (use assms in \<open>simp add: polls_def\<close>)

lemma seed_applies:
  assumes "key_order ord" "finite (dom known)"
  shows "foldl apply_change Map.empty (seed_changes ord known) = statuses known"
proof -
  have "foldl apply_change m (map (\<lambda>n. FcDiscovered n (f n) (g n)) ns) =
      (\<lambda>n. if n \<in> set ns then Some (agent_status (g n)) else m n)" for m f g ns
    by (induction ns arbitrary: m) (auto simp: apply_change_def fun_eq_iff)
  then show ?thesis
    using assms by (auto simp: seed_changes_def statuses_def key_order_def fun_eq_iff)
qed

definition rediscovers :: "string set \<Rightarrow> fleet_change \<Rightarrow> bool" where
  "rediscovers seen c = (case c of FcDiscovered i _ _ \<Rightarrow> i \<in> seen | _ \<Rightarrow> False)"

lemma watch_tail_changes:
  "\<not> list_ex (rediscovers seen) cs \<Longrightarrow> watch_tail ord seen (map Inr cs) = cs"
  by (induction cs) (auto simp: rediscovers_def split: fleet_change.splits)

text \<open>
  A subscriber sees what the loop knows: after any number of polls, the changes it was handed
  give the statuses the loop knows, provided no agent it was seeded with is discovered again.
\<close>

theorem subscriber_follows_loop:
  assumes "key_order (ke_order ke)" "finite (dom (kf_known kf))"
    and "kf_changes (polls ke n kf) = kf_changes kf @ cs"
    and "\<not> list_ex (rediscovers (dom (kf_known kf))) cs"
  shows "foldl apply_change Map.empty (watch_fleet (ke_order ke) (kf_known kf) (map Inr cs)) =
    statuses (kf_known (polls ke n kf))"
  using polls_apply [OF assms(1,2), of n] assms(3) watch_tail_changes [OF assms(4)] seed_applies [OF assms(1,2)]
  by (auto simp: watch_fleet_def)

text \<open>
  The proviso is needed. A subscriber seeded with an agent that goes and comes back under the
  same name, as a restart makes it do when a poll falls in between, is told that it has gone and
  never that it is back.
\<close>

theorem subscriber_misses_restart:
  assumes "key_order ord" "finite (dom known)" "known i = Some a"
  shows "foldl apply_change Map.empty (watch_fleet ord known [Inr (FcGone i ws), Inr (FcDiscovered i ws b)]) i = None \<and>
    foldl apply_change (statuses known) [FcGone i ws, FcDiscovered i ws b] i = Some (agent_status b)"
  using assms(3) seed_applies [OF assms(1,2)]
  by (auto simp: watch_fleet_def apply_change_def dom_def)


section \<open>A concrete fleet\<close>

text \<open>One task without an endpoint, running when first listed and completed from then on.\<close>

definition sample_ct :: "string \<Rightarrow> caliban_task" where
  "sample_ct phase = (build_calibantask \<lparr>tk_workspace = ''web'', tk_request = spawn_request_new ''tidy''\<rparr> ''ct-1'')
     \<lparr>ct_status := Some \<lparr>ck_phase = phase, ck_endpoint = None, ck_sandbox = None, ck_resolved = None,
        ck_conditions = [], ck_posture = None\<rparr>\<rparr>"

definition sample_task_api :: "nat task_api" where
  "sample_task_api =
     \<lparr>ta_apply = (\<lambda>w ct. (Inr (), w)), ta_get = (\<lambda>w n. (Inr None, w)), ta_delete = (\<lambda>w n. (Inr (), w)),
      ta_list = (\<lambda>w. (Inr [sample_ct (if w = 0 then ''Running'' else ''Completed'')], w + 1)),
      ta_condition = (\<lambda>w n c. (Inr (), w))\<rparr>"

definition sample_k8s :: "(events_db, nat) k8s_env" where
  "sample_k8s =
     \<lparr>ke_auth = sample_auth, ke_api = sample_task_api, ke_workspaces = None,
      ke_ops = sqlite_ops (\<lambda>_. 0) life_enc life_dec, ke_emit = sample_env, ke_attach = sample_attach,
      ke_try_acquire = (\<lambda>w k. (self_try_acquire k, w)), ke_release = (\<lambda>w k. w), ke_tls = None, ke_token = None,
      ke_thinking = False, ke_timed_out = (\<lambda>w c. (False, w)), ke_order = sorted_list_of_set\<rparr>"

definition sample_k8s_fleet :: "nat \<Rightarrow> (events_db, nat) k8s_fleet" where
  "sample_k8s_fleet w = (k8s_new \<lparr>db_rows = [], db_next = 1, db_faults = []\<rparr> w)
     \<lparr>kf_known := [''ct-1'' \<mapsto> agent_from_task (sample_ct ''Running'')]\<rparr>"

lemma sample_k8s_facts:
  "key_order (ke_order sample_k8s)" "observes sample_k8s" "finite (dom (kf_known (sample_k8s_fleet w)))"
  "kf_emitter (sample_k8s_fleet w) = sample_emitter []" "kf_changes (sample_k8s_fleet w) = []"
  "ta_list (ke_api sample_k8s) 2 = (Inr [sample_ct ''Completed''], 3)" "kf_world (sample_k8s_fleet w) = w"
  by (simp_all add: key_order_def observes_def sample_k8s_def sample_k8s_fleet_def k8s_new_def
      sample_emitter_def sample_task_api_def self_try_acquire_def)

theorem k8s_outcome_published_once_witness:
  "length (outcomes ''ct-1'' (em_bus (kf_emitter (k8s_poll sample_k8s (k8s_poll sample_k8s
     (k8s_new \<lparr>db_rows = [], db_next = 1, db_faults = []\<rparr> 0)))))) \<le> 1"
proof -
  have "k8s_reach sample_k8s (k8s_new \<lparr>db_rows = [], db_next = 1, db_faults = []\<rparr> 0)
      (k8s_poll sample_k8s (k8s_poll sample_k8s (k8s_new \<lparr>db_rows = [], db_next = 1, db_faults = []\<rparr> 0)))"
    by (intro reach_trans [OF reach_poll reach_poll])
  from k8s_outcome_published_once [OF this] show ?thesis by blast
qed

lemma sample_poll_changes:
  "kf_changes (k8s_poll sample_k8s (sample_k8s_fleet 2)) = [FcStatusChanged ''ct-1'' ''web'' Running Done]"
proof -
  let ?kf = "(sample_k8s_fleet 2)\<lparr>kf_world := 3\<rparr>" and ?tasks = "[sample_ct ''Completed'']"
  have poll: "observe_tasks sample_k8s ?tasks ?kf = k8s_poll sample_k8s (sample_k8s_fleet 2)"
    by (simp add: k8s_poll_def k8s_outside_def sample_k8s_facts)
  have agents: "agent_status (agent_from_task (sample_ct ''Running'')) = Running"
      "agent_status (agent_from_task (sample_ct ''Completed'')) = Done"
      "agent_id (agent_from_task (sample_ct p)) = ''ct-1''" "agent_workspace (agent_from_task (sample_ct p)) = ''web''"
      "ct_name (sample_ct p) = Some ''ct-1''" for p
    by (simp_all add: agent_from_task_def sample_ct_def build_calibantask_def caliban_task_new_def new_meta_def
        ct_name_def or_default_def unready_reason_def phase_to_status_def Let_def)
  have known: "kf_known ?kf = [''ct-1'' \<mapsto> agent_from_task (sample_ct ''Running'')]"
    by (simp add: sample_k8s_fleet_def)
  have settled: "settled_map [''ct-1'' \<mapsto> agent_from_task (sample_ct ''Running'')] (map agent_from_task ?tasks) = Map.empty"
    by (simp add: settled_map_def settled_verdict_def agents List.map_filter_simps)
  have overlay: "overlay_pod_status sample_k8s ?tasks incl (map agent_from_task ?tasks) w =
      (map agent_from_task ?tasks, Map.empty, w)" for incl w
    by (simp add: overlay_pod_status_def handle_from_def sample_ct_def build_calibantask_def
        caliban_task_new_def Let_def)
  show ?thesis
    using observe_tasks_result [OF poll] unfolding known settled overlay
    by (auto simp: sample_k8s_facts carry_settled_def agents fleet_diff_def agent_change_def gone_changes_def
        List.map_filter_simps Let_def sample_k8s_def)
qed



theorem subscriber_follows_loop_witness:
  "foldl apply_change Map.empty (watch_fleet sorted_list_of_set (kf_known (sample_k8s_fleet 2))
     [Inr (FcStatusChanged ''ct-1'' ''web'' Running Done)]) =
   statuses (kf_known (polls sample_k8s 1 (sample_k8s_fleet 2)))"
proof -
  have "kf_changes (polls sample_k8s 1 (sample_k8s_fleet 2)) =
      kf_changes (sample_k8s_fleet 2) @ [FcStatusChanged ''ct-1'' ''web'' Running Done]"
    by (simp add: polls_def sample_poll_changes sample_k8s_facts)
  from subscriber_follows_loop [OF sample_k8s_facts(1,3) this] show ?thesis
    by (simp add: rediscovers_def sample_k8s_def)
qed

theorem subscriber_misses_restart_witness:
  "foldl apply_change Map.empty (watch_fleet sorted_list_of_set
     [''ct-1'' \<mapsto> agent_from_task (sample_ct ''Running'')]
     [Inr (FcGone ''ct-1'' ''web''), Inr (FcDiscovered ''ct-1'' ''web'' (agent_from_task (sample_ct ''Running'')))]) ''ct-1'' = None"
proof -
  have "key_order sorted_list_of_set" "finite (dom [''ct-1'' \<mapsto> agent_from_task (sample_ct ''Running'')])"
    by (simp_all add: key_order_def)
  from subscriber_misses_restart [OF this, of "''ct-1''" _ "''web''"] show ?thesis by simp
qed

end
