(* ===== verification/K8s_Views.thy ===== *)
theory K8s_Views
  imports K8s_Props
begin

text \<open>
  What the Kubernetes backend shows and names: the names of tasks, the statuses of finished agents,
  the snapshot grouped by workspace, and the workspace configuration that is written and read back.
\<close>

section \<open>Names\<close>

definition dns_char :: "char \<Rightarrow> bool" where
  "dns_char c \<longleftrightarrow> is_ascii_lowercase c \<or> is_ascii_digit c \<or> c = CHR ''-''"

lemma task_name_shape:
  assumes "hex_laws p"
  shows "length (task_name p spec) = 19" "list_all dns_char (task_name p spec)"
    "hd (task_name p spec) = CHR ''c''" "last (task_name p spec) \<noteq> CHR ''-''"
proof -
  let ?h = "hex_encode p (sha256 p (task_name_input spec))"
  have len: "length ?h = 64" and cs: "list_all (\<lambda>c. is_ascii_digit c \<or> (97 \<le> (of_char c :: nat) \<and> of_char c \<le> (102 :: nat))) ?h"
    using assms by (simp_all add: hex_laws_def)
  show "length (task_name p spec) = 19" by (simp add: task_name_def len)
  have low: "is_ascii_digit c \<or> is_ascii_lowercase c" if "c \<in> set (take 16 ?h)" for c
    using cs set_take_subset [of 16 ?h] that by (auto simp: list_all_iff is_ascii_lowercase_def subset_iff)
  then show "list_all dns_char (task_name p spec)"
    by (auto simp: task_name_def list_all_iff dns_char_def is_ascii_lowercase_def)
  show "hd (task_name p spec) = CHR ''c''" by (simp add: task_name_def)
  have "take 16 ?h \<noteq> []" using len by auto
  then have "last (task_name p spec) \<in> set (take 16 ?h)"
    by (metis task_name_def last_appendR last_in_set)
  then show "last (task_name p spec) \<noteq> CHR ''-''"
    using low [of "CHR ''-''"] by (auto simp: is_ascii_digit_def is_ascii_lowercase_def)
qed

text \<open>
  C18. Every agent id the backend hands out is a well-formed DNS label of 19 characters, is the same
  for every request with the same workspace, prompt and label, and the answer says that the agent
  was created exactly when no task of that name was there.
\<close>

theorem ensure_agent_names_task:
  assumes "hex_laws (ke_auth ke)" "k8s_ensure_agent ke kf spec = (Inr h, kf')"
  shows "length (ah_id h) = 19 \<and> list_all dns_char (ah_id h) \<and> hd (ah_id h) = CHR ''c'' \<and>
    last (ah_id h) \<noteq> CHR ''-'' \<and>
    (\<forall>spec'. tk_workspace spec' = tk_workspace spec \<and>
       rq_prompt (tk_request spec') = rq_prompt (tk_request spec) \<and>
       rq_label (tk_request spec') = rq_label (tk_request spec) \<longrightarrow> task_name (ke_auth ke) spec' = ah_id h) \<and>
    (ah_created h \<longleftrightarrow> fst (ta_get (ke_api ke) (kf_world kf) (ah_id h)) = Inr None)"
proof -
  obtain found w where get: "ta_get (ke_api ke) (kf_world kf) (task_name (ke_auth ke) spec) = (Inr found, w)"
    and h: "ah_id h = task_name (ke_auth ke) spec" "ah_created h = (found = None)"
    using assms(2) by (auto simp: k8s_ensure_agent_def k8s_outside_def Let_def split: prod.splits sum.splits)
  show ?thesis
    using task_name_shape [OF assms(1), of spec] get h by (auto simp: task_name_def task_name_input_def)
qed

theorem ensure_agent_names_task_witness:
  "\<exists>h kf. k8s_ensure_agent sample_k8s (sample_k8s_fleet 0)
       \<lparr>tk_workspace = ''web'', tk_request = spawn_request_new ''tidy''\<rparr> = (Inr h, kf) \<and>
     length (ah_id h) = 19 \<and> ah_created h"
proof -
  let ?spec = "\<lparr>tk_workspace = ''web'', tk_request = spawn_request_new ''tidy''\<rparr>"
  obtain h kf where run: "k8s_ensure_agent sample_k8s (sample_k8s_fleet 0) ?spec = (Inr h, kf)"
    by (simp add: k8s_ensure_agent_def k8s_outside_def sample_k8s_def sample_task_api_def Let_def)
  have "hex_laws (ke_auth sample_k8s)" using sample_hex_laws by (simp add: sample_k8s_def)
  from ensure_agent_names_task [OF this run] run show ?thesis
    by (auto simp: sample_k8s_def sample_task_api_def)
qed

section \<open>Finished agents\<close>

lemma diff_tasks_known:
  "diff_tasks p tasks todo known = (known', cs, atts) \<Longrightarrow>
     known' n = (if n \<in> task_names tasks \<and> todo n \<noteq> None then todo n else known n)"
proof (induction p tasks todo known arbitrary: known' cs atts rule: diff_tasks.induct)
  case (2 p task tasks todo known)
  show ?case
  proof (cases "Option.bind (ct_name task) todo")
    case None
    then show ?thesis
      using "2.prems" "2.IH"(1,2) by (auto simp: bind_eq_None_conv split: option.splits)
  next
    case (Some a)
    then obtain m where m: "ct_name task = Some m" "todo m = Some a"
      by (auto simp: bind_eq_Some_conv)
    obtain k1 c1 t1 where rest: "diff_tasks p tasks (todo(m := None)) (known(m \<mapsto> a)) = (k1, c1, t1)"
      by (metis prod_cases3)
    have "known' = k1" using "2.prems" m rest by auto
    then show ?thesis using "2.IH"(3) [OF m rest] m by auto
  qed
qed simp

lemma distinct_ids:
  assumes "distinct (map agent_id agents)" "a \<in> set agents"
  shows "map_of (rev (map (\<lambda>a. (agent_id a, f a)) agents)) (agent_id a) = Some (f a)"
proof -
  have "distinct (map fst (rev (map (\<lambda>a. (agent_id a, f a)) agents)))"
    using assms(1) by (simp add: rev_map [symmetric] comp_def)
  then show ?thesis using assms(2) by (intro map_of_is_SomeI) auto
qed

lemma settled_map_prev:
  assumes "distinct (map agent_id agents)" "a \<in> set agents" "settled_verdict known a = Some s"
  shows "settled_map known agents (agent_id a) = Some s"
proof -
  let ?l = "List.map_filter (\<lambda>a. map_option (\<lambda>s. (agent_id a, s)) (settled_verdict known a)) agents"
  have "distinct (map fst ?l)"
    using assms(1) by (induction agents) (auto simp: List.map_filter_simps List.map_filter_def split: option.splits)
  moreover have "(agent_id a, s) \<in> set ?l"
    using assms(2,3) by (force simp: List.map_filter_def)
  ultimately show ?thesis
    unfolding settled_map_def by (intro map_of_is_SomeI) (simp_all flip: rev_map)
qed

text \<open>
  C14. A finished agent stays finished: as long as its task is listed with the same creation time,
  a poll keeps the verdict, although the task's phase goes on saying that it runs.
\<close>

theorem finished_agent_stays_finished:
  assumes "fst (ta_list (ke_api ke) (kf_world kf)) = Inr tasks" "distinct (map (or_default \<circ> ct_name) tasks)"
    and "t \<in> set tasks" "ct_name t = Some i"
    and "kf_known kf i = Some prev" "is_terminal (agent_status prev)"
    and "started_at prev = or_default (om_creation (ct_meta t))"
  shows "statuses (kf_known (k8s_poll ke kf)) i = Some (agent_status prev)"
proof -
  obtain w where list: "ta_list (ke_api ke) (kf_world kf) = (Inr tasks, w)"
    using assms(1) by (metis prod.collapse)
  let ?kf = "kf\<lparr>kf_world := w\<rparr>" and ?as = "map agent_from_task tasks"
  let ?settled = "settled_map (kf_known kf) ?as"
  have "observe_tasks ke tasks ?kf = k8s_poll ke kf" by (simp add: k8s_poll_def k8s_outside_def list)
  then obtain agents refreshed w1 cs atts where
    overlay: "overlay_pod_status ke tasks (\<lambda>n. ?settled n = None) ?as w = (agents, refreshed, w1)"
    and diff: "fleet_diff (ke_auth ke) (ke_order ke) tasks (map (carry_settled ?settled) agents) (kf_known kf) =
        (kf_known (k8s_poll ke kf), cs, atts)"
    using observe_tasks_result [of ke tasks ?kf "k8s_poll ke kf"] by auto
  have ids: "map agent_id agents = map (or_default \<circ> ct_name) tasks"
    using overlay_ids [OF overlay] by (simp add: agent_from_task_id comp_def)
  have dist: "distinct (map agent_id ?as)" using assms(2) by (simp add: agent_from_task_id comp_def)
  have tid: "agent_id (agent_from_task t) = i" using assms(4) by (simp add: agent_from_task_id or_default_def)
  have "started_at (agent_from_task t) = or_default (om_creation (ct_meta t))"
    by (simp add: agent_from_task_def Let_def split: prod.splits)
  then have "settled_verdict (kf_known kf) (agent_from_task t) = Some (agent_status prev)"
    using assms(5-7) tid by (simp add: settled_verdict_def)
  then have verdict: "?settled i = Some (agent_status prev)"
    using settled_map_prev [OF dist, of "agent_from_task t"] assms(3) tid by simp
  have "i \<in> set (map agent_id agents)"
    unfolding ids using imageI [OF assms(3), of "or_default \<circ> ct_name"] assms(4) by (simp add: or_default_def)
  then obtain a where a: "a \<in> set agents" "agent_id a = i" by auto
  let ?cs = "map (carry_settled ?settled) agents"
  have "distinct (map agent_id ?cs)" using ids assms(2) by (simp add: carry_settled_id comp_def)
  then have todo: "map_of (rev (map (\<lambda>a. (agent_id a, a)) ?cs)) i = Some (carry_settled ?settled a)"
    using distinct_ids [of ?cs "carry_settled ?settled a" "\<lambda>a. a"] a by (simp add: carry_settled_id)
  have named: "i \<in> task_names tasks" using assms(3,4) by (force simp: task_names_def List.map_filter_def)
  obtain k1 c1 t1 where d: "diff_tasks (ke_auth ke) tasks (map_of (rev (map (\<lambda>a. (agent_id a, a)) ?cs))) (kf_known kf) = (k1, c1, t1)"
    by (rule prod_cases3)
  have "kf_known (k8s_poll ke kf) = k1 |` task_names tasks"
    using diff d by (simp add: fleet_diff_def Let_def task_names_def)
  then have "kf_known (k8s_poll ke kf) i = Some (carry_settled ?settled a)"
    using diff_tasks_known [OF d, of i] todo named by simp
  then show ?thesis using verdict a by (simp add: statuses_def carry_settled_def)
qed

theorem finished_agent_stays_finished_witness:
  "statuses (kf_known (k8s_poll sample_k8s ((sample_k8s_fleet 0)
     \<lparr>kf_known := [''ct-1'' \<mapsto> agent_from_task (sample_ct ''Completed'')]\<rparr>))) ''ct-1'' = Some Done"
proof -
  let ?kf = "(sample_k8s_fleet 0)\<lparr>kf_known := [''ct-1'' \<mapsto> agent_from_task (sample_ct ''Completed'')]\<rparr>"
  have agent: "agent_status (agent_from_task (sample_ct ''Completed'')) = Done"
      "started_at (agent_from_task (sample_ct ''Completed'')) = or_default (om_creation (ct_meta (sample_ct ''Running'')))"
      "ct_name (sample_ct ''Running'') = Some ''ct-1''"
    by (simp_all add: agent_from_task_def sample_ct_def build_calibantask_def caliban_task_new_def new_meta_def
        ct_name_def or_default_def unready_reason_def phase_to_status_def Let_def)
  have list: "fst (ta_list (ke_api sample_k8s) (kf_world ?kf)) = Inr [sample_ct ''Running'']"
    by (simp add: sample_k8s_def sample_task_api_def sample_k8s_fleet_def k8s_new_def)
  have "statuses (kf_known (k8s_poll sample_k8s ?kf)) ''ct-1'' =
      Some (agent_status (agent_from_task (sample_ct ''Completed'')))"
    by (rule finished_agent_stays_finished [OF list _ _ agent(3)]) (simp_all add: agent)
  then show ?thesis by (simp add: agent)
qed

section \<open>The snapshot\<close>

lemma overlay_workspaces:
  assumes "overlay_pod_status ke tasks incl agents w = (agents', refreshed, w')"
  shows "map (\<lambda>a. (agent_id a, agent_workspace a)) agents' = map (\<lambda>a. (agent_id a, agent_workspace a)) agents"
proof -
  have "(agent_id (overlay_agent live a), agent_workspace (overlay_agent live a)) = (agent_id a, agent_workspace a)"
    for live a by (simp add: overlay_agent_def split: option.splits)
  then show ?thesis
    using assms by (auto simp: overlay_pod_status_def Let_def comp_def split: prod.splits if_splits)
qed

definition workspace_name :: "workspace_cr \<Rightarrow> string" where
  "workspace_name ws = or_default (om_name (wr_meta ws))"

lemma regroup_distinct:
  "distinct (map workspace_name wss) \<Longrightarrow>
   regroup wss agents =
     map (\<lambda>ws. workspace_view ws (filter (\<lambda>a. agent_workspace a = workspace_name ws) agents)) wss"
proof (induction wss arbitrary: agents)
  case (Cons ws wss)
  have "filter (\<lambda>a. agent_workspace a = workspace_name w)
      (filter (\<lambda>a. agent_workspace a \<noteq> workspace_name ws) agents) =
      filter (\<lambda>a. agent_workspace a = workspace_name w) agents" if "w \<in> set wss" for w
    using Cons.prems that by (auto simp: image_iff intro: filter_cong)
  then show ?case using Cons by (simp add: Let_def workspace_name_def)
qed simp

lemma filter_fst_snd:
  "map f (filter (\<lambda>a. g a = x) xs) = map fst (filter (\<lambda>q. snd q = x) (map (\<lambda>a. (f a, g a)) xs))"
  by (induction xs) auto

text \<open>
  With the registry wired, the snapshot shows every registered workspace once, in the registry's
  order, each with exactly the agents of the tasks that reference it, in the order of the list; a
  task whose workspace is not registered is shown nowhere.
\<close>

theorem k8s_snapshot_groups:
  assumes "ke_workspaces ke = Some api" "fst (ta_list (ke_api ke) (kf_world kf)) = Inr tasks"
    and "\<And>w. fst (wa_list api w) = Inr registered" "distinct (map workspace_name registered)"
  shows "map (\<lambda>ws. (ws_name ws, map agent_id (ws_agents ws))) (workspaces (fst (k8s_snapshot ke kf))) =
    map (\<lambda>r. (workspace_name r, map (or_default \<circ> ct_name)
      (filter (\<lambda>t. cp_workspace_ref (ct_spec t) = workspace_name r) tasks))) registered"
proof -
  obtain w where list: "ta_list (ke_api ke) (kf_world kf) = (Inr tasks, w)"
    using assms(2) by (metis prod.collapse)
  obtain agents refreshed w1 where
    overlay: "overlay_pod_status ke tasks (\<lambda>_. True) (map agent_from_task tasks) w = (agents, refreshed, w1)"
    by (metis prod_cases3)
  obtain w2 where wss: "wa_list api w1 = (Inr registered, w2)"
    using assms(3) [of w1] by (metis prod.collapse)
  have "agent_workspace (agent_from_task t) = cp_workspace_ref (ct_spec t)" for t
    by (simp add: agent_from_task_def Let_def split: prod.splits)
  then have pairs: "map (\<lambda>a. (agent_id a, agent_workspace a)) agents =
      map (\<lambda>t. ((or_default \<circ> ct_name) t, cp_workspace_ref (ct_spec t))) tasks"
    using overlay_workspaces [OF overlay] by (simp add: agent_from_task_id comp_def)
  have "map agent_id (filter (\<lambda>a. agent_workspace a = n) agents) =
      map (or_default \<circ> ct_name) (filter (\<lambda>t. cp_workspace_ref (ct_spec t) = n) tasks)" for n
    unfolding filter_fst_snd [where f = agent_id] filter_fst_snd [where f = "or_default \<circ> ct_name"] pairs ..
  moreover have "workspaces (fst (k8s_snapshot ke kf)) = regroup registered agents"
    by (simp add: k8s_snapshot_def k8s_outside_def list overlay assms(1) wss unwrap_or_def)
  ultimately show ?thesis
    by (simp add: regroup_distinct [OF assms(4)] workspace_view_def workspace_name_def)
qed

definition sample_registry :: "nat workspace_api" where
  "sample_registry =
     \<lparr>wa_apply = (\<lambda>w _. (Inr (), w)), wa_get = (\<lambda>w _. (Inr None, w)),
      wa_list = (\<lambda>w. (Inr [workspace_new ''api'' \<lparr>wp_display_name = [], wp_sources = [], wp_providers = [],
                              wp_default_provider = None, wp_env = [], wp_isolation = None\<rparr>,
                           workspace_new ''web'' \<lparr>wp_display_name = [], wp_sources = [], wp_providers = [],
                              wp_default_provider = None, wp_env = [], wp_isolation = None\<rparr>], w)),
      wa_delete = (\<lambda>w _. (Inr False, w))\<rparr>"

theorem k8s_snapshot_groups_witness:
  "map (\<lambda>ws. (ws_name ws, map agent_id (ws_agents ws)))
     (workspaces (fst (k8s_snapshot (sample_k8s\<lparr>ke_workspaces := Some sample_registry\<rparr>) (sample_k8s_fleet 0)))) =
   [(''api'', []), (''web'', [''ct-1''])]"
proof -
  let ?ke = "sample_k8s\<lparr>ke_workspaces := Some sample_registry\<rparr>"
  obtain ws1 ws2 where reg: "\<And>w. fst (wa_list sample_registry w) = Inr [ws1, ws2]"
    and names: "workspace_name ws1 = ''api''" "workspace_name ws2 = ''web''"
    by (simp add: sample_registry_def workspace_name_def workspace_new_def new_meta_def or_default_def)
  have list: "fst (ta_list (ke_api ?ke) (kf_world (sample_k8s_fleet 0))) = Inr [sample_ct ''Running'']"
    by (simp add: sample_k8s_def sample_task_api_def sample_k8s_fleet_def k8s_new_def)
  show ?thesis
    using k8s_snapshot_groups [OF _ list reg] names
    by (simp add: sample_ct_def build_calibantask_def caliban_task_new_def new_meta_def ct_name_def or_default_def Let_def)
qed

section \<open>Workspace configuration\<close>

definition blank :: "string \<Rightarrow> bool" where
  "blank s \<longleftrightarrow> trim s = []"

lemma validated_k8s_config:
  "validate_k8s_config p cfg = Inr () \<longleftrightarrow>
     wc_sources cfg \<noteq> [] \<and> wc_providers cfg \<noteq> [] \<and>
     (\<forall>s \<in> set (wc_sources cfg). \<not> blank (wss_name s) \<and> \<not> blank (wss_repo s) \<and> \<not> blank (wss_path s)) \<and>
     (\<forall>q \<in> set (wc_providers cfg). \<not> blank (ps_name q) \<and> \<not> blank (ps_kind q))"
  by (auto simp: validate_k8s_config_def blank_def find_None_iff split: option.splits if_splits)
    (auto simp: find_Some_iff)

text \<open>
  A workspace configuration survives the way through its resource: what is shown of the resource
  is the configuration that was set, with \<open>main\<close> for a missing ref and the name for a missing display
  name, its environment is unchanged with every variable once, and the resource satisfies the bounds
  its schema sets (at least one source and provider, none with a blank name, repository, path or kind).
\<close>

theorem workspace_config_roundtrip:
  assumes "k8s_put_workspace p api k n cfg = (Inr (), k')" "finite (dom (env (wc_local cfg)))"
  shows "\<exists>ws. wa_apply api k ws = (Inr (), k') \<and>
    workspace_info_of ws =
      \<lparr>wi_name = n,
       wi_display_name = (let d = case_option n id (wc_display_name cfg) in if d = [] then None else Some d),
       wi_sources = map (\<lambda>s. s\<lparr>wss_ref := Some (case_option ''main'' id (wss_ref s))\<rparr>) (wc_sources cfg),
       wi_providers = map (\<lambda>q. \<lparr>pi_name = ps_name q, pi_kind = ps_kind q, pi_base_url = ps_base_url q,
         pi_model = ps_model q, pi_has_credentials = (ps_credentials_ref q \<noteq> None)\<rparr>) (wc_providers cfg),
       wi_default_provider = wc_default_provider cfg, wi_status = None\<rparr> \<and>
    map_of (wp_env (wr_spec ws)) = env (wc_local cfg) \<and> distinct (map fst (wp_env (wr_spec ws))) \<and>
    wp_sources (wr_spec ws) \<noteq> [] \<and> wp_providers (wr_spec ws) \<noteq> [] \<and>
    (\<forall>s \<in> set (wp_sources (wr_spec ws)). \<not> blank (cs_name s) \<and> \<not> blank (cs_repo s) \<and> \<not> blank (cs_path s)) \<and>
    (\<forall>q \<in> set (wp_providers (wr_spec ws)). \<not> blank (ps_name q) \<and> \<not> blank (ps_kind q))"
proof -
  let ?ws = "workspace_from_config n cfg" and ?env = "env (wc_local cfg)"
  have valid: "validate_k8s_config p cfg = Inr ()" and applied: "wa_apply api k ?ws = (Inr (), k')"
    using assms(1) by (auto simp: k8s_put_workspace_def split: sum.splits)
  have "map_of (wp_env (wr_spec ?ws)) = ?env" "distinct (map fst (wp_env (wr_spec ?ws)))"
    using map_of_map_keys [of "sorted_list_of_set (dom ?env)" ?env] assms(2)
    by (simp_all add: workspace_from_config_def workspace_new_def comp_def)
  then show ?thesis
    using valid applied
    by (intro exI [of _ ?ws])
      (auto simp: validated_k8s_config workspace_from_config_def workspace_new_def new_meta_def
        workspace_info_of_def or_default_def split: option.splits)
qed

definition sample_workspace_config :: workspace_config where
  "sample_workspace_config =
     \<lparr>wc_display_name = None,
      wc_sources = [\<lparr>wss_name = ''src'', wss_repo = ''git'', wss_ref = None, wss_path = ''app''\<rparr>],
      wc_providers = [\<lparr>ps_name = ''main'', ps_kind = ''openai'', ps_base_url = None, ps_model = None,
                       ps_credentials_ref = None\<rparr>],
      wc_default_provider = None, wc_isolation = None, wc_local = default_provider_config\<rparr>"

theorem workspace_config_roundtrip_witness:
  "\<exists>ws. wa_apply sample_registry 0 ws = (Inr (), 0) \<and> wi_name (workspace_info_of ws) = ''web'' \<and>
     map wss_ref (wi_sources (workspace_info_of ws)) = [Some ''main'']"
proof -
  have blanks: "\<not> blank ''src''" "\<not> blank ''git''" "\<not> blank ''app''" "\<not> blank ''main''" "\<not> blank ''openai''"
    by code_simp+
  have "validate_k8s_config sample_auth sample_workspace_config = Inr ()"
    by (simp add: validated_k8s_config sample_workspace_config_def blanks)
  then have put: "k8s_put_workspace sample_auth sample_registry 0 ''web'' sample_workspace_config = (Inr (), 0)"
    by (simp add: k8s_put_workspace_def sample_registry_def)
  have fin: "finite (dom (env (wc_local sample_workspace_config)))"
    by (simp add: sample_workspace_config_def default_provider_config_def)
  from workspace_config_roundtrip [OF put fin] show ?thesis
    by (auto simp: sample_workspace_config_def)
qed

end
