(* ===== verification/Wire_Json.thy ===== *)
theory Wire_Json
  imports Sql_Store "HOL-Library.Monad_Syntax"
begin

text \<open>
  The JSON of the types that cross a process boundary (\<open>crates/types\<close>), as their serde attributes give it:
  the events a server streams and stores, and the bodies a client sends. A value that does not fit is
  \<open>None\<close>. The text of a value belongs to \<open>serde_json\<close>; an object keeps its members in key order, the last
  one of a key.
\<close>

section \<open>Objects\<close>

fun object_insert :: "string \<Rightarrow> 'v \<Rightarrow> (string \<times> 'v) list \<Rightarrow> (string \<times> 'v) list" where
  "object_insert k v [] = [(k, v)]"
| "object_insert k v ((k', v') # rest) =
     (if k = k' then (k, v) # rest
      else if k < k' then (k, v) # (k', v') # rest
      else (k', v') # object_insert k v rest)"

definition json_object :: "(string \<times> json) list \<Rightarrow> json" where
  "json_object ms = JObject (foldl (\<lambda>m (k, v). object_insert k v m) [] ms)"

text \<open>A member that is left out when the option is \<open>None\<close>, and one left out when the flag is off.\<close>

definition opt_member :: "string \<Rightarrow> ('a \<Rightarrow> json) \<Rightarrow> 'a option \<Rightarrow> (string \<times> json) list" where
  "opt_member k f o' = (case o' of None \<Rightarrow> [] | Some x \<Rightarrow> [(k, f x)])"

definition flag_member :: "string \<Rightarrow> bool \<Rightarrow> (string \<times> json) list" where
  "flag_member k b = (if b then [(k, JBool True)] else [])"

definition json_nat :: "nat \<Rightarrow> json" where
  "json_nat n = JNumber (PosInt n)"

text \<open>A double that is not a number or infinite has no JSON number and is written as \<open>null\<close>.\<close>

definition f64_finite :: "f64 \<Rightarrow> bool" where
  "f64_finite x \<longleftrightarrow> unat x div 2 ^ 52 mod 2 ^ 11 \<noteq> 2047"

definition json_f64 :: "f64 \<Rightarrow> json" where
  "json_f64 x = (if f64_finite x then JNumber (Float x) else JNull)"

section \<open>Reading members\<close>

definition need :: "(json \<Rightarrow> 'a option) \<Rightarrow> json \<Rightarrow> string \<Rightarrow> 'a option" where
  "need f v k = Option.bind (json_get v k) f"

definition with_default :: "'a \<Rightarrow> (json \<Rightarrow> 'a option) \<Rightarrow> json \<Rightarrow> string \<Rightarrow> 'a option" where
  "with_default d f v k = (case json_get v k of None \<Rightarrow> Some d | Some x \<Rightarrow> f x)"

fun nullable :: "(json \<Rightarrow> 'a option) \<Rightarrow> json \<Rightarrow> 'a option option" where
  "nullable f JNull = Some None"
| "nullable f v = map_option Some (f v)"

fun each :: "(json \<Rightarrow> 'a option) \<Rightarrow> json list \<Rightarrow> 'a list option" where
  "each f [] = Some []"
| "each f (x # xs) = do { y \<leftarrow> f x; ys \<leftarrow> each f xs; Some (y # ys) }"

fun as_strings :: "json \<Rightarrow> string list option" where
  "as_strings (JArray vs) = each as_str vs"
| "as_strings _ = None"

definition as_u32_json :: "json \<Rightarrow> nat option" where
  "as_u32_json v = do { n \<leftarrow> as_u64_json v; if n < 2 ^ 32 then Some n else None }"

text \<open>An integer is taken for a double as well; \<open>conv\<close> is the conversion.\<close>

fun as_f64_json :: "(json_number \<Rightarrow> f64) \<Rightarrow> json \<Rightarrow> f64 option" where
  "as_f64_json conv (JNumber (Float x)) = Some x"
| "as_f64_json conv (JNumber n) = Some (conv n)"
| "as_f64_json conv _ = None"

section \<open>Events\<close>

definition status_of_text :: "string \<Rightarrow> agent_status option" where
  "status_of_text s =
     find (\<lambda>st. status_text st = s) [Spawning, Running, Idle, Killed, Done, Failed, Crashed]"

fun stream_text :: "output_stream \<Rightarrow> string" where
  "stream_text Stdout = ''stdout''"
| "stream_text Thinking = ''thinking''"

definition stream_of_text :: "string \<Rightarrow> output_stream option" where
  "stream_of_text s = find (\<lambda>st. stream_text st = s) [Stdout, Thinking]"

fun health_json :: "workspace_health \<Rightarrow> json" where
  "health_json Healthy = json_object [(''state'', JString ''healthy'')]"
| "health_json (Unreachable reason) =
     json_object [(''state'', JString ''unreachable''), (''reason'', JString reason)]"

definition health_of_json :: "json \<Rightarrow> workspace_health option" where
  "health_of_json v = do {
     st \<leftarrow> need as_str v ''state'';
     if st = ''healthy'' then Some Healthy
     else if st = ''unreachable'' then map_option Unreachable (need as_str v ''reason'')
     else None }"

fun kind_members :: "event_kind \<Rightarrow> (string \<times> json) list" where
  "kind_members (AgentInit model tools session) =
     [(''model'', JString model), (''tools'', JArray (map JString tools)), (''session_id'', JString session)]"
| "kind_members (StatusChanged a b) = [(''from'', JString (status_text a)), (''to'', JString (status_text b))]"
| "kind_members (Output st chunk) = [(''stream'', JString (stream_text st)), (''chunk'', JString chunk)]"
| "kind_members (ToolStarted i name input) = [(''id'', JString i), (''name'', JString name), (''input'', input)]"
| "kind_members (ToolFinished i name ok res truncated) =
     [(''id'', JString i), (''name'', JString name), (''ok'', JBool ok)] @
     opt_member ''result'' JString res @ flag_member ''truncated'' truncated"
| "kind_members (AgentFinished outcome cost turns) =
     [(''outcome'', JString outcome), (''cost_usd'', json_f64 cost), (''turns'', json_nat turns)]"
| "kind_members (StorePersistFailed n detail) = [(''lost_seq'', json_nat n), (''detail'', JString detail)]"
| "kind_members (DeadlineSet d) = [(''deadline'', JString d)]"
| "kind_members (AgentTimedOut d) = [(''deadline'', JString d)]"
| "kind_members (RepoHealth h) = [(''state'', health_json h)]"
| "kind_members _ = []"

definition kind_json :: "event_kind \<Rightarrow> json" where
  "kind_json k = json_object ((''kind'', JString (kind_tag k)) # kind_members k)"

definition kind_of_json :: "(json_number \<Rightarrow> f64) \<Rightarrow> json \<Rightarrow> event_kind option" where
  "kind_of_json conv v = do {
     tag \<leftarrow> need as_str v ''kind'';
     if tag = ''agent_spawned'' then Some AgentSpawned
     else if tag = ''agent_discovered'' then Some AgentDiscovered
     else if tag = ''agent_init'' then do {
       model \<leftarrow> need as_str v ''model''; tools \<leftarrow> need as_strings v ''tools'';
       session \<leftarrow> need as_str v ''session_id''; Some (AgentInit model tools session) }
     else if tag = ''status_changed'' then do {
       a \<leftarrow> Option.bind (need as_str v ''from'') status_of_text;
       b \<leftarrow> Option.bind (need as_str v ''to'') status_of_text; Some (StatusChanged a b) }
     else if tag = ''output'' then do {
       st \<leftarrow> Option.bind (need as_str v ''stream'') stream_of_text;
       chunk \<leftarrow> need as_str v ''chunk''; Some (Output st chunk) }
     else if tag = ''tool_started'' then do {
       i \<leftarrow> with_default [] as_str v ''id''; name \<leftarrow> need as_str v ''name'';
       input \<leftarrow> need Some v ''input''; Some (ToolStarted i name input) }
     else if tag = ''tool_finished'' then do {
       i \<leftarrow> with_default [] as_str v ''id''; name \<leftarrow> need as_str v ''name''; ok \<leftarrow> need as_bool v ''ok'';
       res \<leftarrow> with_default None (nullable as_str) v ''result'';
       truncated \<leftarrow> with_default False as_bool v ''truncated''; Some (ToolFinished i name ok res truncated) }
     else if tag = ''agent_finished'' then do {
       outcome \<leftarrow> need as_str v ''outcome''; cost \<leftarrow> need (as_f64_json conv) v ''cost_usd'';
       turns \<leftarrow> need as_u32_json v ''turns''; Some (AgentFinished outcome cost turns) }
     else if tag = ''agent_gone'' then Some AgentGone
     else if tag = ''store_persist_failed'' then do {
       n \<leftarrow> need as_u64_json v ''lost_seq''; detail \<leftarrow> need as_str v ''detail'';
       Some (StorePersistFailed n detail) }
     else if tag = ''deadline_set'' then map_option DeadlineSet (need as_str v ''deadline'')
     else if tag = ''agent_timed_out'' then map_option AgentTimedOut (need as_str v ''deadline'')
     else if tag = ''repo_health'' then map_option RepoHealth (need health_of_json v ''state'')
     else None }"

definition event_json :: "fleet_event \<Rightarrow> json" where
  "event_json e = json_object
     ([(''seq'', json_nat (seq e)), (''ts'', JString (ts e)), (''repo'', JString (ev_repo e)),
       (''agent_id'', JString (ev_agent e)), (''kind'', kind_json (kind e))] @
      opt_member ''actor'' JString (actor e) @ opt_member ''on_behalf_of'' JString (on_behalf_of e))"

definition event_of_json :: "(json_number \<Rightarrow> f64) \<Rightarrow> json \<Rightarrow> fleet_event option" where
  "event_of_json conv v = do {
     n \<leftarrow> need as_u64_json v ''seq''; t \<leftarrow> need as_str v ''ts''; r \<leftarrow> need as_str v ''repo'';
     i \<leftarrow> need as_str v ''agent_id''; k \<leftarrow> need (kind_of_json conv) v ''kind'';
     who \<leftarrow> with_default None (nullable as_str) v ''actor'';
     for_whom \<leftarrow> with_default None (nullable as_str) v ''on_behalf_of'';
     Some \<lparr>seq = n, ts = t, ev_repo = r, ev_agent = i, kind = k, actor = who, on_behalf_of = for_whom\<rparr> }"

section \<open>Bodies\<close>

definition posture_of_json :: "json \<Rightarrow> permission_posture option" where
  "posture_of_json v =
     (if as_str v = Some ''supervised'' then Some Supervised
      else if as_str v = Some ''unattended'' then Some Unattended else None)"

definition spawn_body_of_json :: "json \<Rightarrow> spawn_body option" where
  "spawn_body_of_json v = do {
     prompt \<leftarrow> need as_str v ''prompt'';
     label \<leftarrow> with_default None (nullable as_str) v ''label'';
     model \<leftarrow> with_default None (nullable as_str) v ''model'';
     isolation \<leftarrow> with_default None (nullable as_str) v ''isolation'';
     tools \<leftarrow> with_default None (nullable as_strings) v ''tool_allowlist'';
     inter \<leftarrow> with_default False as_bool v ''interactive'';
     frontmatter \<leftarrow> with_default None (nullable as_str) v ''frontmatter_path'';
     provider \<leftarrow> with_default None (nullable as_str) v ''provider_ref'';
     timeout \<leftarrow> with_default None (nullable as_u64_json) v ''timeout_secs'';
     posture \<leftarrow> with_default Supervised posture_of_json v ''permission_posture'';
     Some \<lparr>sb_prompt = prompt, sb_label = label, sb_model = model, sb_isolation = isolation,
           sb_tool_allowlist = tools, sb_interactive = inter, sb_frontmatter_path = frontmatter,
           sb_provider_ref = provider, sb_timeout_secs = timeout, sb_posture = posture\<rparr> }"

definition trigger_of_json :: "json \<Rightarrow> trigger option" where
  "trigger_of_json v = do {
     tag \<leftarrow> need as_str v ''kind'';
     if tag = ''cron'' then map_option Cron (need as_str v ''schedule'')
     else if tag = ''webhook'' then Some Webhook else None }"

definition template_of_json :: "json \<Rightarrow> spawn_template option" where
  "template_of_json v = do {
     task \<leftarrow> need as_str v ''task'';
     label \<leftarrow> with_default None (nullable as_str) v ''label'';
     model \<leftarrow> with_default None (nullable as_str) v ''model'';
     tools \<leftarrow> with_default None (nullable as_strings) v ''tool_allowlist'';
     frontmatter \<leftarrow> with_default None (nullable as_str) v ''frontmatter_path'';
     provider \<leftarrow> with_default None (nullable as_str) v ''provider_ref'';
     timeout \<leftarrow> with_default None (nullable as_u64_json) v ''timeout_secs'';
     isolation \<leftarrow> with_default True as_bool v ''isolation_worktree'';
     posture \<leftarrow> with_default Supervised posture_of_json v ''permission_posture'';
     Some \<lparr>t_task = task, t_label = label, t_model = model, t_tool_allowlist = tools,
           t_frontmatter_path = frontmatter, t_provider_ref = provider, t_timeout_secs = timeout,
           t_isolation_worktree = isolation, t_posture = posture\<rparr> }"

definition create_automation_of_json :: "json \<Rightarrow> create_automation_body option" where
  "create_automation_of_json v = do {
     i \<leftarrow> need as_str v ''id''; w \<leftarrow> need as_str v ''workspace'';
     trig \<leftarrow> need trigger_of_json v ''trigger''; tpl \<leftarrow> need template_of_json v ''template'';
     on \<leftarrow> with_default True as_bool v ''enabled'';
     Some \<lparr>cab_id = i, cab_workspace = w, cab_trigger = trig, cab_template = tpl, cab_enabled = on\<rparr> }"

section \<open>Reading what was written\<close>

lemma map_of_object_insert: "map_of (object_insert k v m) = (map_of m)(k \<mapsto> v)"
  by (induction k v m rule: object_insert.induct) auto

lemma json_get_object: "json_get (json_object ms) k = map_of (rev ms) k"
proof -
  have "map_of (foldl (\<lambda>m (k, v). object_insert k v m) acc ms) = map_of acc ++ map_of (rev ms)" for acc
    by (induction ms arbitrary: acc) (auto simp: map_of_object_insert map_add_def fun_eq_iff split: option.split)
  then show ?thesis by (simp add: json_object_def)
qed

text \<open>An object has one member per key, in key order.\<close>

lemma object_insert_keys: "set (map fst (object_insert k v m)) \<subseteq> insert k (set (map fst m))"
  by (induction k v m rule: object_insert.induct) auto

lemma object_insert_sorted:
  "sorted_wrt (<) (map fst m) \<Longrightarrow> sorted_wrt (<) (map fst (object_insert k v m))"
proof (induction k v m rule: object_insert.induct)
  case (2 k v k' v' rest)
  consider "k = k'" | "k < k'" | "k' < k" by (rule linorder_cases)
  then show ?case
  proof cases
    case 2
    then have "\<forall>y \<in> set (map fst rest). k < y" using "2.prems" by (auto intro: less_trans)
    then show ?thesis using 2 "2.prems" by simp
  next
    case 3
    then have "\<forall>y \<in> set (map fst (object_insert k v rest)). k' < y"
      using "2.prems" object_insert_keys [of k v rest] 3 by (metis insertE list.simps(9) prod.sel(1) sorted_wrt.simps(2) subsetD)
    then show ?thesis using 3 "2.IH" "2.prems" by (auto dest: less_asym)
  qed (use "2.prems" in simp)
qed simp

lemma json_object_sorted:
  "json_object ms = JObject m \<Longrightarrow> sorted_wrt (<) (map fst m)"
proof -
  have "sorted_wrt (<) (map fst (foldl (\<lambda>m (k, v). object_insert k v m) acc ms))"
    if "sorted_wrt (<) (map fst acc)" for acc
    using that by (induction ms arbitrary: acc) (auto simp: object_insert_sorted)
  then show "json_object ms = JObject m \<Longrightarrow> sorted_wrt (<) (map fst m)" by (auto simp: json_object_def)
qed

lemma each_map [simp]: "each as_str (map JString ss) = Some ss"
  by (induction ss) auto

lemma status_of_text_simp [simp]: "status_of_text (status_text st) = Some st"
  by (cases st) (simp_all add: status_of_text_def)

lemma stream_of_text_simp [simp]: "stream_of_text (stream_text st) = Some st"
  by (cases st) (simp_all add: stream_of_text_def)

lemmas wire_simps = need_def with_default_def json_get_object opt_member_def flag_member_def json_nat_def

lemma health_roundtrip [simp]: "health_of_json (health_json h) = Some h"
  by (cases h) (simp_all add: health_of_json_def wire_simps)

text \<open>A kind is in the range of its Rust types and its cost is a number.\<close>

fun kind_in_range :: "event_kind \<Rightarrow> bool" where
  "kind_in_range (AgentFinished _ cost turns) \<longleftrightarrow> f64_finite cost \<and> turns < 2 ^ 32"
| "kind_in_range _ = True"

lemma kind_roundtrip: "kind_in_range k \<Longrightarrow> kind_of_json conv (kind_json k) = Some k"
  by (cases k)
    (auto simp: kind_of_json_def kind_json_def wire_simps as_u32_json_def json_f64_def split: option.split)

text \<open>The codec of the \<open>kind\<close> column: \<open>print\<close> and \<open>parse\<close> are \<open>serde_json\<close>'s text of a value.\<close>

definition kind_enc :: "(json \<Rightarrow> string) \<Rightarrow> event_kind \<Rightarrow> string" where
  "kind_enc print k = print (kind_json k)"

definition kind_dec ::
  "(json_number \<Rightarrow> f64) \<Rightarrow> (string \<Rightarrow> json option) \<Rightarrow> (string \<Rightarrow> string) \<Rightarrow> string \<Rightarrow> string + event_kind" where
  "kind_dec conv parse err s =
     (case Option.bind (parse s) (kind_of_json conv) of Some k \<Rightarrow> Inr k | None \<Rightarrow> Inl (err s))"

text \<open>The member a list of members leaves under a key, without a case split over the optional ones.\<close>

definition member :: "(string \<times> json) list \<Rightarrow> string \<Rightarrow> json option" where
  "member ms k = map_of (rev ms) k"

lemma json_get_member: "json_get (json_object ms) k = member ms k"
  by (simp add: member_def json_get_object)

lemma member_simps:
  "member [] k = None"
  "member ((k', v) # ms) k = (if k' = k then (case member ms k of None \<Rightarrow> Some v | Some w \<Rightarrow> Some w) else member ms k)"
  "member (xs @ ys) k = (case member ys k of None \<Rightarrow> member xs k | Some w \<Rightarrow> Some w)"
  "member (opt_member k' f o') k = (if k' = k then map_option f o' else None)"
  "member (flag_member k' b) k = (if k' = k \<and> b then Some (JBool True) else None)"
  "member (if b then [] else [(k', v)]) k = (if k' = k then (if b then None else Some v) else None)"
  "member (if b then [(k', v)] else []) k = (if k' = k then (if b then Some v else None) else None)"
  by (simp_all add: member_def opt_member_def flag_member_def map_add_def split: option.split)

text \<open>An optional member read by its field.\<close>

lemma read_optional:
  "json_get v k = map_option JString s \<Longrightarrow> with_default None (nullable as_str) v k = Some s"
  "json_get v k = map_option json_nat n \<Longrightarrow> with_default None (nullable as_u64_json) v k = Some n"
  "json_get v k = None \<Longrightarrow> with_default d f v k = Some d"
  "json_get v k = Some w \<Longrightarrow> with_default d f v k = f w"
  "json_get v k = Some w \<Longrightarrow> need f v k = f w"
  by (cases s; cases n; simp add: with_default_def need_def json_nat_def)+

text \<open>
  C37. An event survives the wire and the log: its JSON is read back as the event it was written from, with
  every field, whatever its kind, as long as its numbers are numbers in their range; and where the
  text of a value parses back to it, an event in sequence is one the SQL stores can hold.
\<close>

theorem event_wire_roundtrip:
  assumes "kind_in_range (kind e)"
  shows "event_of_json conv (event_json e) = Some e \<and>
    (parse (print (kind_json (kind e))) = Some (kind_json (kind e)) \<and> seq e < 2 ^ 63 \<longrightarrow>
       storable (kind_enc print) (kind_dec conv parse err) e)"
proof -
  have "event_of_json conv (event_json e) = Some e"
    using kind_roundtrip [OF assms, of conv] by (cases e) (simp add: event_of_json_def event_json_def wire_simps split: option.split)
  moreover have "storable (kind_enc print) (kind_dec conv parse err) e"
    if "parse (print (kind_json (kind e))) = Some (kind_json (kind e))" "seq e < 2 ^ 63"
    using that kind_roundtrip [OF assms, of conv] by (simp add: storable_def kind_enc_def kind_dec_def)
  ultimately show ?thesis by blast
qed

text \<open>
  What older servers stored still reads: a finish without id, result and truncation, an event without
  actor and subject. A cost that is not a number is written as \<open>null\<close> and does not read back.
\<close>

lemma old_finish_reads:
  "kind_of_json conv (json_object [(''kind'', JString ''tool_finished''), (''name'', JString n), (''ok'', JBool b)]) =
     Some (ToolFinished [] n b None False)"
  by (simp add: kind_of_json_def wire_simps)

lemma nan_cost_unreadable:
  "\<not> f64_finite cost \<Longrightarrow> kind_of_json conv (kind_json (AgentFinished outcome cost turns)) = None"
  by (simp add: kind_of_json_def kind_json_def wire_simps json_f64_def)

section \<open>Witnesses\<close>

definition sample_wire_event :: fleet_event where
  "sample_wire_event =
     \<lparr>seq = 3, ts = ''t'', ev_repo = ''r'', ev_agent = ''a'', kind = AgentFinished ''success'' 0 2,
      actor = Some ''ci'', on_behalf_of = None\<rparr>"

theorem event_wire_roundtrip_witness:
  "event_of_json (\<lambda>_. 0) (event_json sample_wire_event) = Some sample_wire_event"
proof -
  have "kind_in_range (kind sample_wire_event)" by (simp add: sample_wire_event_def f64_finite_def)
  from event_wire_roundtrip [OF this] show ?thesis by blast
qed


end
