(* ===== verification/K8s_Fake.thy ===== *)
theory K8s_Fake
  imports K8s_Views Wire_Json
begin

text \<open>
  What the Kubernetes backend relies on of its API server, as the contracts \<open>task_store\<close> and
  \<open>workspace_store\<close>, and the in-memory servers of \<open>core/src/k8s/fake.rs\<close> that meet them. The operations of
  the fleet and of the workspace administration are proved over the contracts: an agent that is
  ensured is discovered by the next poll, one that is stopped is reported gone, a restart keeps the
  task, and what is set of a workspace is what is listed. The latency of the fake's writes has no
  state and is left out.
\<close>

section \<open>The fake servers (\<open>fake.rs\<close>)\<close>

record fake_k8s =
  fk_store :: "string \<rightharpoonup> caliban_task"
  fk_applied :: bool
  fk_conditions :: "string \<times> string \<rightharpoonup> crd_condition"

definition fake_k8s_new :: fake_k8s where
  "fake_k8s_new = \<lparr>fk_store = Map.empty, fk_applied = False, fk_conditions = Map.empty\<rparr>"

definition status_condition :: "fake_k8s \<Rightarrow> string \<Rightarrow> string \<Rightarrow> crd_condition option" where
  "status_condition fk name cond_type = fk_conditions fk (name, cond_type)"

text \<open>\<open>CalibanTaskStatus::default\<close>.\<close>

definition task_status_default :: caliban_task_status where
  "task_status_default = \<lparr>ck_phase = [], ck_endpoint = None, ck_sandbox = None, ck_resolved = None,
     ck_conditions = [], ck_posture = None\<rparr>"

definition fake_reconciled :: "string \<Rightarrow> caliban_task \<Rightarrow> caliban_task" where
  "fake_reconciled name ct =
     ct\<lparr>ct_status := Some \<lparr>ck_phase = ''Running'', ck_endpoint = Some (name @ ''.fake.svc:8443''),
        ck_sandbox = Some (name @ ''-sandbox''), ck_resolved = None, ck_conditions = [], ck_posture = None\<rparr>\<rparr>"

definition fake_apply :: "fake_k8s \<Rightarrow> caliban_task \<Rightarrow> unit result \<times> fake_k8s" where
  "fake_apply fk ct =
     (case ct_name ct of
        None \<Rightarrow> (Inl (FleetError ''CalibanTask missing metadata.name''), fk)
      | Some name \<Rightarrow> (Inr (), fk\<lparr>fk_store := (fk_store fk)(name \<mapsto> fake_reconciled name ct), fk_applied := True\<rparr>))"

definition simulate_reap :: "string \<Rightarrow> fake_k8s \<Rightarrow> fake_k8s" where
  "simulate_reap i fk = fk\<lparr>fk_store := (fk_store fk)(i := None)\<rparr>"

definition with_condition :: "crd_condition \<Rightarrow> caliban_task \<Rightarrow> caliban_task" where
  "with_condition c task =
     (let st = (case ct_status task of Some s \<Rightarrow> s | None \<Rightarrow> task_status_default)
      in task\<lparr>ct_status := Some (st\<lparr>ck_conditions :=
           filter (\<lambda>d. cn_type d \<noteq> cn_type c) (ck_conditions st) @ [c]\<rparr>)\<rparr>)"

definition fake_apply_condition :: "fake_k8s \<Rightarrow> string \<Rightarrow> crd_condition \<Rightarrow> unit result \<times> fake_k8s" where
  "fake_apply_condition fk name c =
     (Inr (), fk\<lparr>fk_conditions := (fk_conditions fk)((name, cn_type c) \<mapsto> c),
        fk_store := (fk_store fk)(name := map_option (with_condition c) (fk_store fk name))\<rparr>)"

text \<open>\<open>ord\<close> is the order in which the hash map is iterated.\<close>

definition fake_list :: "(string set \<Rightarrow> string list) \<Rightarrow> fake_k8s \<Rightarrow> caliban_task list" where
  "fake_list ord fk = map (\<lambda>n. the (fk_store fk n)) (ord (dom (fk_store fk)))"

definition fake_task_api :: "(string set \<Rightarrow> string list) \<Rightarrow> fake_k8s task_api" where
  "fake_task_api ord =
     \<lparr>ta_apply = fake_apply, ta_get = (\<lambda>fk n. (Inr (fk_store fk n), fk)),
      ta_delete = (\<lambda>fk n. (Inr (), simulate_reap n fk)), ta_list = (\<lambda>fk. (Inr (fake_list ord fk), fk)),
      ta_condition = fake_apply_condition\<rparr>"

text \<open>\<open>FakeWorkspaceApi\<close>: a \<open>BTreeMap\<close>, as its entries in the order of their keys.\<close>

type_synonym fake_workspaces = "(string \<times> workspace_cr) list"

definition fake_set_status :: "string \<Rightarrow> string \<Rightarrow> string option \<Rightarrow> fake_workspaces \<Rightarrow> fake_workspaces" where
  "fake_set_status name phase message m =
     map (\<lambda>(n, ws). (n, if n = name
        then ws\<lparr>wr_status := Some \<lparr>wt_phase = phase, wt_observed_generation = None, wt_message = message\<rparr>\<rparr>
        else ws)) m"

definition fake_apply_workspace :: "fake_workspaces \<Rightarrow> workspace_cr \<Rightarrow> unit result \<times> fake_workspaces" where
  "fake_apply_workspace m ws =
     (case om_name (wr_meta ws) of
        None \<Rightarrow> (Inl (FleetError ''Workspace missing metadata.name''), m)
      | Some name \<Rightarrow>
          (let next_ws = (case (wr_status ws, map_of m name) of
                            (None, Some existing) \<Rightarrow> ws\<lparr>wr_status := wr_status existing\<rparr>
                          | _ \<Rightarrow> ws)
           in (Inr (), object_insert name next_ws m)))"

definition fake_workspace_api :: "fake_workspaces workspace_api" where
  "fake_workspace_api =
     \<lparr>wa_apply = fake_apply_workspace, wa_get = (\<lambda>m n. (Inr (map_of m n), m)),
      wa_list = (\<lambda>m. (Inr (map snd m), m)),
      wa_delete = (\<lambda>m n. (Inr (map_of m n \<noteq> None), filter (\<lambda>(k, _). k \<noteq> n) m))\<rparr>"

section \<open>Tasks\<close>

subsection \<open>The contract\<close>

text \<open>
  A server whose writes take effect at once: applying keeps the metadata and the specification and may
  set the status, deleting removes, a listing has every task once, under its name.
\<close>

locale task_store =
  fixes api :: "'w task_api" and tasks :: "'w \<Rightarrow> string \<rightharpoonup> caliban_task" and valid :: "'w \<Rightarrow> bool"
  assumes apply_ok: "valid w \<Longrightarrow> ct_name t = Some n \<Longrightarrow> \<exists>w' t'. ta_apply api w t = (Inr (), w') \<and> valid w' \<and>
      tasks w' = (tasks w)(n \<mapsto> t') \<and> ct_meta t' = ct_meta t \<and> ct_spec t' = ct_spec t"
    and get_ok: "valid w \<Longrightarrow> ta_get api w n = (Inr (tasks w n), w)"
    and delete_ok: "valid w \<Longrightarrow> \<exists>w'. ta_delete api w n = (Inr (), w') \<and> valid w' \<and> tasks w' = (tasks w)(n := None)"
    and list_ok: "valid w \<Longrightarrow> \<exists>ts. ta_list api w = (Inr ts, w) \<and> set ts = ran (tasks w)"
    and named: "valid w \<Longrightarrow> tasks w n = Some t \<Longrightarrow> ct_name t = Some n"

text \<open>Giving a lease back does not touch the tasks.\<close>

definition release_keeps :: "('s, 'w) k8s_env \<Rightarrow> ('w \<Rightarrow> string \<rightharpoonup> caliban_task) \<Rightarrow> ('w \<Rightarrow> bool) \<Rightarrow> bool" where
  "release_keeps ke tasks valid \<longleftrightarrow>
     (\<forall>w i. valid w \<longrightarrow> valid (ke_release ke w i) \<and> tasks (ke_release ke w i) = tasks w)"

lemma session_stop_frame:
  "kf_world (session_stop ke kf i) = ke_release ke (kf_world kf) i" "kf_known (session_stop ke kf i) = kf_known kf"
  "kf_changes (session_stop ke kf i) = kf_changes kf"
  by (simp_all add: session_stop_def forget_terminal_def Let_def split: option.splits)

context task_store begin

lemma list_names:
  assumes "valid w"
  shows "\<exists>ts. ta_list api w = (Inr ts, w) \<and> task_names ts = dom (tasks w)"
proof -
  obtain ts where ts: "ta_list api w = (Inr ts, w)" "set ts = ran (tasks w)" using list_ok [OF assms] by blast
  have "task_names ts = {n. \<exists>t \<in> set ts. ct_name t = Some n}"
    by (force simp: task_names_def List.map_filter_def)
  also have "\<dots> = dom (tasks w)"
    using named [OF assms] by (fastforce simp: ts(2) ran_def dom_def)
  finally show ?thesis using ts(1) by blast
qed

lemma ensure:
  assumes "ke_api ke = api" "valid (kf_world kf)" "n = task_name (ke_auth ke) spec"
  shows "\<exists>w t. k8s_ensure_agent ke kf spec =
      (Inr \<lparr>ah_id = n, ah_workspace = tk_workspace spec, ah_endpoint = None,
            ah_created = (tasks (kf_world kf) n = None)\<rparr>, kf\<lparr>kf_world := w\<rparr>) \<and>
    valid w \<and> tasks w = (tasks (kf_world kf))(n \<mapsto> t) \<and> ct_spec t = ct_spec (build_calibantask spec n)"
proof -
  let ?t = "build_calibantask spec n"
  have "ct_name ?t = Some n"
    by (simp add: build_calibantask_def caliban_task_new_def new_meta_def ct_name_def Let_def)
  from apply_ok [OF assms(2) this] show ?thesis
    using get_ok [OF assms(2)] by (auto simp: k8s_ensure_agent_def k8s_outside_def assms(1,3) Let_def)
qed

lemma deleted:
  assumes "ke_api ke = api" "valid (kf_world kf)" "release_keeps ke tasks valid"
  shows "\<exists>w. k8s_outside (\<lambda>w. ta_delete (ke_api ke) w i) (session_stop ke kf i) =
      (Inr (), (session_stop ke kf i)\<lparr>kf_world := w\<rparr>) \<and> valid w \<and> tasks w = (tasks (kf_world kf))(i := None)"
proof -
  have "valid (kf_world (session_stop ke kf i))" "tasks (kf_world (session_stop ke kf i)) = tasks (kf_world kf)"
    using assms(2,3) by (simp_all add: session_stop_frame release_keeps_def)
  from delete_ok [OF this(1), of i] this(2) show ?thesis
    by (auto simp: k8s_outside_def assms(1))
qed

lemma stop:
  assumes "ke_api ke = api" "valid (kf_world kf)" "release_keeps ke tasks valid"
  shows "\<exists>w. k8s_stop_agent ke waits kf i drain = (Inr (), (session_stop ke kf i)\<lparr>kf_world := w\<rparr>) \<and>
      valid w \<and> tasks w = (tasks (kf_world kf))(i := None)"
proof -
  obtain w where w: "k8s_outside (\<lambda>w. ta_delete (ke_api ke) w i) (session_stop ke kf i) =
      (Inr (), (session_stop ke kf i)\<lparr>kf_world := w\<rparr>)" "valid w" "tasks w = (tasks (kf_world kf))(i := None)"
    using deleted [OF assms] by blast
  have "stop_wait ke i ws ((session_stop ke kf i)\<lparr>kf_world := w\<rparr>) =
      (Inr (), (session_stop ke kf i)\<lparr>kf_world := w\<rparr>)" for ws
    using get_ok [OF w(2), of i] w(3) by (subst stop_wait.simps) (simp add: k8s_outside_def assms(1))
  with w show ?thesis by (auto simp: k8s_stop_agent_def split: drain_policy.splits)
qed

lemma restart_unknown:
  assumes "ke_api ke = api" "valid (kf_world kf)" "tasks (kf_world kf) i = None"
  shows "k8s_restart_agent ke waits kf i = (Inl (AgentNotFound i), kf)"
  using get_ok [OF assms(2), of i] assms(1,3) by (simp add: k8s_restart_agent_def k8s_outside_def)

lemma restart:
  assumes "ke_api ke = api" "valid (kf_world kf)" "release_keeps ke tasks valid" "tasks (kf_world kf) i = Some old"
  shows "\<exists>w t. k8s_restart_agent ke waits kf i = (Inr i, (session_stop ke kf i)\<lparr>kf_world := w\<rparr>) \<and> valid w \<and>
      tasks w = (tasks (kf_world kf))(i \<mapsto> t) \<and> ct_meta t = new_meta i \<and> ct_spec t = ct_spec old"
proof -
  let ?kf = "session_stop ke kf i"
  obtain w where w: "k8s_outside (\<lambda>w. ta_delete (ke_api ke) w i) ?kf = (Inr (), ?kf\<lparr>kf_world := w\<rparr>)"
      "valid w" "tasks w = (tasks (kf_world kf))(i := None)"
    using deleted [OF assms(1-3)] by blast
  have waited: "restart_wait ke i ws (?kf\<lparr>kf_world := w\<rparr>) = (Inr (), ?kf\<lparr>kf_world := w\<rparr>)" for ws
    using get_ok [OF w(2), of i] w(3) by (subst restart_wait.simps) (simp add: k8s_outside_def assms(1))
  have "ct_name (caliban_task_new i (ct_spec old)) = Some i"
    by (simp add: caliban_task_new_def new_meta_def ct_name_def)
  from apply_ok [OF w(2) this] obtain w' t where
    a: "ta_apply api w (caliban_task_new i (ct_spec old)) = (Inr (), w')" "valid w'"
      "tasks w' = (tasks w)(i \<mapsto> t)" "ct_meta t = new_meta i" "ct_spec t = ct_spec old"
    by (auto simp: caliban_task_new_def)
  have found: "k8s_outside (\<lambda>w. ta_get (ke_api ke) w i) kf = (Inr (Some old), kf)"
    using get_ok [OF assms(2), of i] assms(1,4) by (simp add: k8s_outside_def)
  have applied: "k8s_outside (\<lambda>w. ta_apply (ke_api ke) w (caliban_task_new i (ct_spec old))) (?kf\<lparr>kf_world := w\<rparr>) =
      (Inr (), ?kf\<lparr>kf_world := w'\<rparr>)"
    by (simp add: k8s_outside_def assms(1) a(1))
  show ?thesis
    using a by (intro exI [of _ w'] exI [of _ t])
      (simp add: k8s_restart_agent_def found w(1) waited applied w(3) del: restart_wait.simps)
qed

end

subsection \<open>Polls over the contract\<close>

lemma poll_diff:
  assumes "ta_list (ke_api ke) (kf_world kf) = (Inr tasks, w)"
  shows "\<exists>agents cs atts.
    map (\<lambda>a. (agent_id a, agent_workspace a)) agents =
      map (\<lambda>t. (or_default (ct_name t), cp_workspace_ref (ct_spec t))) tasks \<and>
    fleet_diff (ke_auth ke) (ke_order ke) tasks agents (kf_known kf) = (kf_known (k8s_poll ke kf), cs, atts) \<and>
    kf_changes (k8s_poll ke kf) = kf_changes kf @ cs"
proof -
  have "observe_tasks ke tasks (kf\<lparr>kf_world := w\<rparr>) = k8s_poll ke kf" by (simp add: k8s_poll_def k8s_outside_def assms)
  then obtain agents refreshed w1 cs atts where
    overlay: "overlay_pod_status ke tasks (\<lambda>n. settled_map (kf_known kf) (map agent_from_task tasks) n = None)
        (map agent_from_task tasks) w = (agents, refreshed, w1)"
    and diff: "fleet_diff (ke_auth ke) (ke_order ke) tasks
        (map (carry_settled (settled_map (kf_known kf) (map agent_from_task tasks))) agents) (kf_known kf) =
        (kf_known (k8s_poll ke kf), cs, atts)"
    and changes: "kf_changes (k8s_poll ke kf) = kf_changes kf @ cs"
    using observe_tasks_result [of ke tasks "kf\<lparr>kf_world := w\<rparr>" "k8s_poll ke kf"] by auto
  have "agent_workspace (agent_from_task t) = cp_workspace_ref (ct_spec t)" for t
    by (simp add: agent_from_task_def Let_def split: prod.splits)
  moreover have "agent_workspace (carry_settled s a) = agent_workspace a" for s a
    by (simp add: carry_settled_def split: option.splits)
  ultimately have "map (\<lambda>a. (agent_id a, agent_workspace a)) (map (carry_settled s) agents) =
      map (\<lambda>t. (or_default (ct_name t), cp_workspace_ref (ct_spec t))) tasks" for s
    using overlay_workspaces [OF overlay] by (simp add: carry_settled_id agent_from_task_id comp_def)
  with diff changes show ?thesis by blast
qed

lemma diff_tasks_discovers:
  "\<lbrakk>diff_tasks p tasks todo known = (known', cs, atts); known n = None; todo n = Some a; n \<in> task_names tasks\<rbrakk> \<Longrightarrow>
   FcDiscovered n (agent_workspace a) a \<in> set cs"
proof (induction p tasks todo known arbitrary: known' cs atts rule: diff_tasks.induct)
  case (2 p task tasks todo known)
  show ?case
  proof (cases "Option.bind (ct_name task) todo")
    case None
    then show ?thesis
      using "2.prems" "2.IH"(1,2) by (auto simp: bind_eq_None_conv split: option.splits)
  next
    case (Some b)
    then obtain m where m: "ct_name task = Some m" "todo m = Some b"
      by (auto simp: bind_eq_Some_conv)
    obtain k1 c1 t1 where rest: "diff_tasks p tasks (todo(m := None)) (known(m \<mapsto> b)) = (k1, c1, t1)"
      by (metis prod_cases3)
    have out: "cs = agent_change known m b @ c1" using "2.prems"(1) m rest by auto
    show ?thesis
    proof (cases "m = n")
      case True
      then show ?thesis using "2.prems"(2,3) m by (simp add: out agent_change_def)
    next
      case False
      then have "FcDiscovered n (agent_workspace a) a \<in> set c1"
        using "2.IH"(3) [OF m rest] "2.prems"(2-4) m(1) by auto
      then show ?thesis by (simp add: out)
    qed
  qed
qed simp

lemma fleet_diff_discovers:
  assumes "fleet_diff p ord tasks agents known = (known', cs, atts)" "known n = None" "n \<in> task_names tasks"
    and "map agent_id agents = map (or_default \<circ> ct_name) tasks"
  shows "(\<exists>a \<in> set agents. agent_id a = n \<and> FcDiscovered n (agent_workspace a) a \<in> set cs) \<and> known' n \<noteq> None"
proof -
  let ?todo = "map_of (rev (map (\<lambda>a. (agent_id a, a)) agents))"
  obtain k1 c1 where d: "diff_tasks p tasks ?todo known = (k1, c1, atts)"
    and out: "set c1 \<subseteq> set cs" "known' = k1 |` task_names tasks"
    using assms(1) by (auto simp: fleet_diff_def task_names_def Let_def split: prod.splits)
  have "task_names tasks \<subseteq> (or_default \<circ> ct_name) ` set tasks"
    by (induction tasks) (auto simp: or_default_def split: option.splits)
  with assms(3) have "n \<in> (or_default \<circ> ct_name) ` set tasks" by (rule rev_subsetD)
  then have "n \<in> set (map agent_id agents)" by (simp add: assms(4))
  then have "?todo n \<noteq> None" by (auto simp: map_of_eq_None_iff image_image)
  then obtain a where a: "?todo n = Some a" by blast
  then have "a \<in> set agents" "agent_id a = n" by (auto dest: map_of_SomeD)
  moreover have "n \<in> dom k1" using diff_tasks_applies [OF d] assms(3) a by auto
  ultimately show ?thesis using diff_tasks_discovers [OF d assms(2) a assms(3)] out assms(3) by auto
qed

lemma fleet_diff_gone:
  assumes "fleet_diff p ord tasks agents known = (known', cs, atts)" "key_order ord" "finite (dom known)"
    and "known n \<noteq> None" "n \<notin> task_names tasks"
  shows "(\<exists>ws. FcGone n ws \<in> set cs) \<and> known' n = None"
proof -
  let ?todo = "map_of (rev (map (\<lambda>a. (agent_id a, a)) agents))"
  obtain k1 c1 where d: "diff_tasks p tasks ?todo known = (k1, c1, atts)"
    and out: "cs = c1 @ gone_changes ord k1 (task_names tasks)" "known' = k1 |` task_names tasks"
    using assms(1) by (auto simp: fleet_diff_def Let_def task_names_def split: prod.splits)
  have dom: "dom k1 = dom known \<union> (task_names tasks \<inter> dom ?todo)" using diff_tasks_applies [OF d] by blast
  then have "n \<in> set (ord (dom k1 - task_names tasks))"
    using assms(2-5) by (auto simp: key_order_def task_names_def)
  then show ?thesis using assms(5) by (auto simp: out gone_changes_def)
qed

section \<open>The life of an agent\<close>

text \<open>
  C15. An agent that is ensured is discovered: over any server that keeps the contract, \<open>ensure_agent\<close>
  returns the name of the task, says truly whether it has created it, and the next poll tells the
  subscribers of the new agent, under the workspace it was asked for.
\<close>

theorem ensured_agent_is_discovered:
  assumes store: "task_store (ke_api ke) tasks valid" and w: "valid (kf_world kf)"
    and n: "n = task_name (ke_auth ke) spec" "kf_known kf n = None"
    and run: "k8s_ensure_agent ke kf spec = (r, kf')"
  shows "\<exists>a cs. r = Inr \<lparr>ah_id = n, ah_workspace = tk_workspace spec, ah_endpoint = None,
      ah_created = (tasks (kf_world kf) n = None)\<rparr> \<and>
    kf_changes (k8s_poll ke kf') = kf_changes kf @ cs \<and> agent_id a = n \<and>
    FcDiscovered n (tk_workspace spec) a \<in> set cs \<and> kf_known (k8s_poll ke kf') n \<noteq> None"
proof -
  note ensure = task_store.ensure [OF store refl w n(1)]
  then obtain w' t where out: "kf' = kf\<lparr>kf_world := w'\<rparr>" "valid w'" "tasks w' = (tasks (kf_world kf))(n \<mapsto> t)"
      "ct_spec t = ct_spec (build_calibantask spec n)"
    and r: "r = Inr \<lparr>ah_id = n, ah_workspace = tk_workspace spec, ah_endpoint = None,
      ah_created = (tasks (kf_world kf) n = None)\<rparr>"
    using run by auto
  obtain ts where ts: "ta_list (ke_api ke) w' = (Inr ts, w')" "set ts = ran (tasks w')"
    using task_store.list_ok [OF store out(2)] by blast
  have names: "task_names ts = dom (tasks w')"
    using task_store.list_names [OF store out(2)] ts(1) by auto
  then have listed: "n \<in> task_names ts" by (simp add: out(3))
  have "ta_list (ke_api ke) (kf_world kf') = (Inr ts, w')" using ts(1) by (simp add: out(1))
  from poll_diff [OF this] obtain agents cs atts where
    ids: "map (\<lambda>a. (agent_id a, agent_workspace a)) agents =
        map (\<lambda>t. (or_default (ct_name t), cp_workspace_ref (ct_spec t))) ts"
    and diff: "fleet_diff (ke_auth ke) (ke_order ke) ts agents (kf_known kf) = (kf_known (k8s_poll ke kf'), cs, atts)"
    and changes: "kf_changes (k8s_poll ke kf') = kf_changes kf @ cs"
    by (auto simp: out(1))
  have agent_ids: "map agent_id agents = map (or_default \<circ> ct_name) ts"
    using arg_cong [OF ids, of "map fst"] by (simp add: comp_def)
  obtain a where a: "a \<in> set agents" "agent_id a = n" "FcDiscovered n (agent_workspace a) a \<in> set cs"
    and known: "kf_known (k8s_poll ke kf') n \<noteq> None"
    using fleet_diff_discovers [OF diff n(2) listed agent_ids] by blast
  have "(agent_id a, agent_workspace a) \<in> set (map (\<lambda>a. (agent_id a, agent_workspace a)) agents)" using a(1) by auto
  then obtain t' where t': "t' \<in> set ts" "or_default (ct_name t') = n" "cp_workspace_ref (ct_spec t') = agent_workspace a"
    unfolding ids using a(2) by auto
  then obtain m where "tasks w' m = Some t'" by (auto simp: ts(2) ran_def)
  moreover from this have "m = n"
    using task_store.named [OF store out(2)] t'(2) by (auto simp: or_default_def)
  ultimately have "agent_workspace a = tk_workspace spec"
    using t'(3) out(3,4) by (simp add: build_calibantask_def caliban_task_new_def Let_def)
  then show ?thesis using r changes a known by auto
qed

text \<open>
  C16. An agent that is stopped is gone: stopping it, with or without draining, succeeds, takes its
  task and no other away, and the next poll tells the subscribers of an agent they knew that it
  has gone, and knows it no longer.
\<close>

theorem stopped_agent_is_gone:
  assumes store: "task_store (ke_api ke) tasks valid" and w: "valid (kf_world kf)"
    and rel: "release_keeps ke tasks valid" and ord: "key_order (ke_order ke)" "finite (dom (kf_known kf))"
    and known: "kf_known kf i \<noteq> None"
    and run: "k8s_stop_agent ke waits kf i drain = (r, kf')"
  shows "r = Inr () \<and> tasks (kf_world kf') = (tasks (kf_world kf))(i := None) \<and>
    (\<exists>cs ws. kf_changes (k8s_poll ke kf') = kf_changes kf @ cs \<and> FcGone i ws \<in> set cs) \<and>
    kf_known (k8s_poll ke kf') i = None"
proof -
  obtain w' where out: "r = Inr ()" "kf' = (session_stop ke kf i)\<lparr>kf_world := w'\<rparr>" "valid w'"
      "tasks w' = (tasks (kf_world kf))(i := None)"
    using task_store.stop [OF store refl w rel, of waits i drain] run by auto
  obtain ts where ts: "ta_list (ke_api ke) w' = (Inr ts, w')" "task_names ts = dom (tasks w')"
    using task_store.list_names [OF store out(3)] by blast
  have unlisted: "i \<notin> task_names ts" by (simp add: ts(2) out(4))
  have "ta_list (ke_api ke) (kf_world kf') = (Inr ts, w')" by (simp add: out(2) ts(1))
  from poll_diff [OF this] obtain agents cs atts where
    diff: "fleet_diff (ke_auth ke) (ke_order ke) ts agents (kf_known kf) = (kf_known (k8s_poll ke kf'), cs, atts)"
    and changes: "kf_changes (k8s_poll ke kf') = kf_changes kf @ cs"
    by (auto simp: out(2) session_stop_frame)
  show ?thesis
    using fleet_diff_gone [OF diff ord known unlisted] changes out by auto
qed

text \<open>
  A restart keeps the agent: it takes the task away, waits for that and puts a new one in its place,
  under the same name and with the same specification; every other task stays as it was.
\<close>

theorem restarted_agent_keeps_task:
  assumes "task_store (ke_api ke) tasks valid" "valid (kf_world kf)" "release_keeps ke tasks valid"
    and "k8s_restart_agent ke waits kf i = (r, kf')"
  shows "case tasks (kf_world kf) i of
      None \<Rightarrow> r = Inl (AgentNotFound i) \<and> kf' = kf
    | Some old \<Rightarrow> r = Inr i \<and> (\<exists>t. tasks (kf_world kf') = (tasks (kf_world kf))(i \<mapsto> t) \<and>
        ct_meta t = new_meta i \<and> ct_spec t = ct_spec old)"
proof (cases "tasks (kf_world kf) i")
  case None
  then show ?thesis using task_store.restart_unknown [OF assms(1) refl assms(2) None] assms(4) by auto
next
  case (Some old)
  then show ?thesis using task_store.restart [OF assms(1) refl assms(2,3) Some, of waits] assms(4) by auto
qed

subsection \<open>The fake keeps the contract\<close>

definition fake_ok :: "fake_k8s \<Rightarrow> bool" where
  "fake_ok fk \<longleftrightarrow> finite (dom (fk_store fk)) \<and> (\<forall>n t. fk_store fk n = Some t \<longrightarrow> ct_name t = Some n)"

lemma fake_list_set:
  assumes "key_order ord" "finite (dom (fk_store fk))"
  shows "set (fake_list ord fk) = ran (fk_store fk)"
  using assms by (force simp: fake_list_def key_order_def ran_def)

lemma fake_keeps_contract:
  assumes "key_order ord"
  shows "task_store (fake_task_api ord) fk_store fake_ok"
  by unfold_locales
    (use assms in \<open>auto simp: fake_task_api_def fake_apply_def fake_reconciled_def simulate_reap_def fake_ok_def
      ct_name_def fake_list_set\<close>)

lemma sorted_key_order: "key_order sorted_list_of_set"
  by (simp add: key_order_def)

interpretation fake: task_store "fake_task_api sorted_list_of_set" fk_store fake_ok
  by (rule fake_keeps_contract [OF sorted_key_order])

text \<open>The condition a settled agent reports is read back, and is the one condition of its type in the task.\<close>

theorem fake_condition_read_back:
  assumes "snd (fake_apply_condition fk name c) = fk'"
  shows "status_condition fk' name (cn_type c) = Some c \<and>
    (case fk_store fk name of
       None \<Rightarrow> fk_store fk' = fk_store fk
     | Some t \<Rightarrow> \<exists>t' st. fk_store fk' = (fk_store fk)(name \<mapsto> t') \<and> ct_status t' = Some st \<and>
         filter (\<lambda>d. cn_type d = cn_type c) (ck_conditions st) = [c])"
  using assms by (auto simp: fake_apply_condition_def status_condition_def with_condition_def Let_def fun_eq_iff
      split: option.split)

subsection \<open>A concrete fleet over the fake\<close>

definition fake_env :: "(events_db, fake_k8s) k8s_env" where
  "fake_env =
     \<lparr>ke_auth = sample_auth, ke_api = fake_task_api sorted_list_of_set, ke_workspaces = None,
      ke_ops = sqlite_ops (\<lambda>_. 0) life_enc life_dec, ke_emit = sample_env,
      ke_attach = \<lparr>ap_port = \<lparr>cp_ctl = (\<lambda>w c q. (Refused ''down'', w)), cp_reply_debug = (\<lambda>_. []),
                              cp_send = (\<lambda>w c e f. (None, w))\<rparr>,
                   ap_open = (\<lambda>w c e. (Inl ''down'', w)), ap_stopped = (\<lambda>_. False),
                   ap_sleep = (\<lambda>w d. (False, w)), ap_parse = (\<lambda>_. Inl ''eof'')\<rparr>,
      ke_try_acquire = (\<lambda>w k. (self_try_acquire k, w)), ke_release = (\<lambda>w k. w), ke_tls = None, ke_token = None,
      ke_thinking = False, ke_timed_out = (\<lambda>w c. (False, w)), ke_order = sorted_list_of_set\<rparr>"

definition fake_spec :: task_spec where
  "fake_spec = \<lparr>tk_workspace = ''repo-a'', tk_request = spawn_request_new ''task''\<rparr>"

definition fake_fleet :: "fake_k8s \<Rightarrow> (events_db, fake_k8s) k8s_fleet" where
  "fake_fleet = k8s_new \<lparr>db_rows = [], db_next = 1, db_faults = []\<rparr>"

lemma fake_env_facts:
  "task_store (ke_api fake_env) fk_store fake_ok" "release_keeps fake_env fk_store fake_ok"
  "key_order (ke_order fake_env)" "fake_ok fake_k8s_new" "kf_world (fake_fleet fk) = fk"
  "kf_known (fake_fleet fk) = Map.empty" "kf_changes (fake_fleet fk) = []" "fk_store fake_k8s_new = Map.empty"
  by (simp_all add: fake_env_def fake.task_store_axioms release_keeps_def key_order_def fake_ok_def fake_k8s_new_def
      fake_fleet_def k8s_new_def)

theorem ensured_agent_is_discovered_witness:
  "\<exists>h kf a. k8s_ensure_agent fake_env (fake_fleet fake_k8s_new) fake_spec = (Inr h, kf) \<and> ah_created h \<and>
     FcDiscovered (ah_id h) ''repo-a'' a \<in> set (kf_changes (k8s_poll fake_env kf))"
proof -
  obtain r kf where run: "k8s_ensure_agent fake_env (fake_fleet fake_k8s_new) fake_spec = (r, kf)" by fastforce
  have "fake_ok (kf_world (fake_fleet fake_k8s_new))" by (simp add: fake_env_facts)
  from ensured_agent_is_discovered [OF fake_env_facts(1) this refl _ run] run show ?thesis
    by (auto simp: fake_env_facts fake_spec_def)
qed

theorem stopped_agent_is_gone_witness:
  "\<exists>kf. k8s_stop_agent fake_env (\<lambda>_. []) ((fake_fleet (snd (fake_apply fake_k8s_new (sample_ct ''Running''))))
       \<lparr>kf_known := [''ct-1'' \<mapsto> agent_from_task (sample_ct ''Running'')]\<rparr>) ''ct-1'' DrainKill = (Inr (), kf) \<and>
     kf_known (k8s_poll fake_env kf) ''ct-1'' = None \<and>
     (\<exists>ws. FcGone ''ct-1'' ws \<in> set (kf_changes (k8s_poll fake_env kf)))"
proof -
  let ?kf = "(fake_fleet (snd (fake_apply fake_k8s_new (sample_ct ''Running''))))
       \<lparr>kf_known := [''ct-1'' \<mapsto> agent_from_task (sample_ct ''Running'')]\<rparr>"
  obtain r kf where run: "k8s_stop_agent fake_env (\<lambda>_. []) ?kf ''ct-1'' DrainKill = (r, kf)" by fastforce
  have "ct_name (sample_ct ''Running'') = Some ''ct-1''"
    by (simp add: sample_ct_def build_calibantask_def caliban_task_new_def new_meta_def ct_name_def Let_def)
  then have "fake_ok (kf_world ?kf)"
    by (simp add: fake_env_facts(5) fake_apply_def fake_ok_def fake_k8s_new_def fake_reconciled_def ct_name_def)
  from stopped_agent_is_gone [OF fake_env_facts(1) this fake_env_facts(2,3) _ _ run] run show ?thesis
    by (auto simp: fake_env_facts)
qed

section \<open>Workspaces\<close>

text \<open>
  A registry whose writes take effect at once: applying replaces the specification and leaves the
  status the operator has written, deleting says whether there was something to delete, a listing
  has every workspace once.
\<close>

locale workspace_store =
  fixes api :: "'k workspace_api" and regs :: "'k \<Rightarrow> string \<rightharpoonup> workspace_cr" and valid :: "'k \<Rightarrow> bool"
  assumes apply_ok: "valid k \<Longrightarrow> om_name (wr_meta ws) = Some n \<Longrightarrow> wr_status ws = None \<Longrightarrow>
      \<exists>k'. wa_apply api k ws = (Inr (), k') \<and> valid k' \<and>
        regs k' = (regs k)(n \<mapsto> ws\<lparr>wr_status := Option.bind (regs k n) wr_status\<rparr>)"
    and delete_ok: "valid k \<Longrightarrow>
      \<exists>k'. wa_delete api k n = (Inr (regs k n \<noteq> None), k') \<and> valid k' \<and> regs k' = (regs k)(n := None)"
    and list_ok: "valid k \<Longrightarrow> \<exists>wss. wa_list api k = (Inr wss, k) \<and> set wss = ran (regs k) \<and>
        distinct (map workspace_name wss)"
    and named: "valid k \<Longrightarrow> regs k n = Some ws \<Longrightarrow> om_name (wr_meta ws) = Some n"

context workspace_store begin

lemma listed_row:
  assumes "valid k" "wa_list api k = (Inr wss, k')"
  shows "filter (\<lambda>ws. workspace_name ws = n) wss = (case regs k n of None \<Rightarrow> [] | Some ws \<Rightarrow> [ws])"
proof -
  have wss: "set wss = ran (regs k)" "distinct (map workspace_name wss)"
    using list_ok [OF assms(1)] assms(2) by auto
  have name: "workspace_name ws = m" if "regs k m = Some ws" for m ws
    using named [OF assms(1) that] by (simp add: workspace_name_def or_default_def)
  then have mem: "ws \<in> set wss \<and> workspace_name ws = n \<longleftrightarrow> regs k n = Some ws" for ws
    unfolding wss(1) ran_def by blast
  have d: "distinct (filter (\<lambda>ws. workspace_name ws = n) wss)"
    using wss(2) by (simp add: distinct_map)
  show ?thesis
  proof (cases "regs k n")
    case None
    then show ?thesis using mem by (auto simp: filter_empty_conv)
  next
    case (Some ws)
    then have "set (filter (\<lambda>ws. workspace_name ws = n) wss) = {ws}" using mem by auto
    with d have "filter (\<lambda>ws. workspace_name ws = n) wss = [ws]"
      by (metis distinct_card card.empty card.insert empty_iff empty_set finite.emptyI length_0_conv
          length_Suc_conv list.set_intros(1) singletonD)
    with Some show ?thesis by simp
  qed
qed

lemma shown_row:
  assumes "valid k"
  shows "\<exists>rows. fa_list_workspaces (k8s_workspace_admin p api) k = (Inr rows, k) \<and>
    (\<forall>n. filter (\<lambda>i. wi_name i = n) rows =
       (case regs k n of None \<Rightarrow> [] | Some ws \<Rightarrow> [workspace_info_of ws]))"
proof -
  obtain wss where wss: "wa_list api k = (Inr wss, k)" using list_ok [OF assms] by blast
  have "filter (\<lambda>i. wi_name i = n) (map workspace_info_of wss) =
      map workspace_info_of (filter (\<lambda>ws. workspace_name ws = n) wss)" for n
    by (simp add: filter_map comp_def workspace_info_of_def workspace_name_def)
  then show ?thesis
    using listed_row [OF assms wss] by (simp add: k8s_workspace_admin_def wss split: option.split)
qed

end

text \<open>The row a workspace has in the list: its configuration and the status of its resource.\<close>

definition configured_row :: "string \<Rightarrow> workspace_config \<Rightarrow> workspace_status option \<Rightarrow> workspace_info" where
  "configured_row n cfg st =
     \<lparr>wi_name = n,
      wi_display_name = (let d = case_option n id (wc_display_name cfg) in if d = [] then None else Some d),
      wi_sources = map (\<lambda>s. s\<lparr>wss_ref := Some (case_option ''main'' id (wss_ref s))\<rparr>) (wc_sources cfg),
      wi_providers = map (\<lambda>q. \<lparr>pi_name = ps_name q, pi_kind = ps_kind q, pi_base_url = ps_base_url q,
        pi_model = ps_model q, pi_has_credentials = (ps_credentials_ref q \<noteq> None)\<rparr>) (wc_providers cfg),
      wi_default_provider = wc_default_provider cfg,
      wi_status = map_option (\<lambda>s. \<lparr>wsi_phase = wt_phase s, wsi_message = wt_message s\<rparr>) st\<rparr>"

lemma configured_row_info:
  "workspace_info_of ((workspace_from_config n cfg)\<lparr>wr_status := st\<rparr>) = configured_row n cfg st"
  by (auto simp: workspace_info_of_def workspace_from_config_def workspace_new_def new_meta_def configured_row_def
      or_default_def Let_def split: option.splits)

text \<open>
  C17. A workspace is administered as it is shown. Setting a valid configuration succeeds, whether the
  workspace exists or not; the list then has one row for it, with that configuration and the status
  the operator had written before, and the same rows as before for every other workspace. Removing
  it says true, takes its row and no other away, and removing it again says false.
\<close>

theorem workspace_admin_shown:
  assumes store: "workspace_store api regs valid" and k: "valid k"
    and cfg: "validate_k8s_config p cfg = Inr ()"
  shows "\<exists>k1 k2 rows rows1 rows2.
    fa_list_workspaces (k8s_workspace_admin p api) k = (Inr rows, k) \<and>
    fa_set_config (k8s_workspace_admin p api) k n cfg = (Inr (), k1) \<and>
    fa_list_workspaces (k8s_workspace_admin p api) k1 = (Inr rows1, k1) \<and>
    filter (\<lambda>i. wi_name i = n) rows1 = [configured_row n cfg (Option.bind (regs k n) wr_status)] \<and>
    (\<forall>m. m \<noteq> n \<longrightarrow> filter (\<lambda>i. wi_name i = m) rows1 = filter (\<lambda>i. wi_name i = m) rows) \<and>
    fa_remove_workspace (k8s_workspace_admin p api) k1 n = (Inr True, k2) \<and>
    fa_list_workspaces (k8s_workspace_admin p api) k2 = (Inr rows2, k2) \<and>
    filter (\<lambda>i. wi_name i = n) rows2 = [] \<and>
    (\<forall>m. m \<noteq> n \<longrightarrow> filter (\<lambda>i. wi_name i = m) rows2 = filter (\<lambda>i. wi_name i = m) rows) \<and>
    fst (fa_remove_workspace (k8s_workspace_admin p api) k2 n) = Inr False"
proof -
  let ?ws = "workspace_from_config n cfg"
  have ws: "om_name (wr_meta ?ws) = Some n" "wr_status ?ws = None"
    by (simp_all add: workspace_from_config_def workspace_new_def new_meta_def)
  obtain k1 where k1: "wa_apply api k ?ws = (Inr (), k1)" "valid k1"
      "regs k1 = (regs k)(n \<mapsto> ?ws\<lparr>wr_status := Option.bind (regs k n) wr_status\<rparr>)"
    using workspace_store.apply_ok [OF store k ws] by blast
  obtain k2 where k2: "wa_delete api k1 n = (Inr (regs k1 n \<noteq> None), k2)" "valid k2" "regs k2 = (regs k1)(n := None)"
    using workspace_store.delete_ok [OF store k1(2)] by blast
  obtain k3 where k3: "wa_delete api k2 n = (Inr (regs k2 n \<noteq> None), k3)"
    using workspace_store.delete_ok [OF store k2(2)] by blast
  have put: "fa_set_config (k8s_workspace_admin p api) k n cfg = (Inr (), k1)"
    by (simp add: k8s_workspace_admin_def k8s_put_workspace_def cfg k1(1))
  have removes: "fa_remove_workspace (k8s_workspace_admin p api) k1 n = (Inr True, k2)"
      "fst (fa_remove_workspace (k8s_workspace_admin p api) k2 n) = Inr False"
    by (simp_all add: k8s_workspace_admin_def k2(1,3) k3 k1(3))
  show ?thesis
    using workspace_store.shown_row [OF store k, of p] workspace_store.shown_row [OF store k1(2), of p]
      workspace_store.shown_row [OF store k2(2), of p] put removes
    by (auto simp: k1(3) k2(3) configured_row_info)
qed

subsection \<open>The fake keeps the contract\<close>

definition fake_workspaces_ok :: "fake_workspaces \<Rightarrow> bool" where
  "fake_workspaces_ok m \<longleftrightarrow>
     sorted_wrt (<) (map fst m) \<and> (\<forall>(n, ws) \<in> set m. om_name (wr_meta ws) = Some n)"

lemma object_insert_set: "set (object_insert k v m) \<subseteq> insert (k, v) (set m)"
  by (induction k v m rule: object_insert.induct) auto

lemma map_of_filter_key: "map_of (filter (\<lambda>(k, _). k \<noteq> n) m) = (map_of m)(n := None)"
  by (induction m) (auto simp: fun_eq_iff)

lemma fake_workspaces_distinct: "fake_workspaces_ok m \<Longrightarrow> distinct (map fst m)"
  by (auto simp: fake_workspaces_ok_def intro: strict_sorted_imp_sorted strict_sorted_iff [THEN iffD1, THEN conjunct2])

interpretation fake_registry: workspace_store fake_workspace_api map_of fake_workspaces_ok
proof unfold_locales
  fix m :: fake_workspaces and ws :: workspace_cr and n
  assume ok: "fake_workspaces_ok m" and name: "om_name (wr_meta ws) = Some n" and st: "wr_status ws = None"
  let ?ws = "ws\<lparr>wr_status := Option.bind (map_of m n) wr_status\<rparr>"
  have "fake_workspaces_ok (object_insert n ?ws m)"
    using ok name object_insert_set [of n ?ws m] object_insert_sorted [of m n ?ws]
    by (auto simp: fake_workspaces_ok_def)
  moreover have same: "ws\<lparr>wr_status := None\<rparr> = ws" using st by (cases ws) simp
  have "wa_apply fake_workspace_api m ws = (Inr (), object_insert n ?ws m)"
    using st by (cases "map_of m n") (simp_all add: fake_workspace_api_def fake_apply_workspace_def name same)
  ultimately show "\<exists>k'. wa_apply fake_workspace_api m ws = (Inr (), k') \<and> fake_workspaces_ok k' \<and>
      map_of k' = (map_of m)(n \<mapsto> ?ws)"
    by (auto simp: map_of_object_insert)
next
  fix m :: fake_workspaces and n
  assume ok: "fake_workspaces_ok m"
  then have "fake_workspaces_ok (filter (\<lambda>(k, _). k \<noteq> n) m)"
    by (auto simp: fake_workspaces_ok_def sorted_wrt_map intro: sorted_wrt_filter)
  then show "\<exists>k'. wa_delete fake_workspace_api m n = (Inr (map_of m n \<noteq> None), k') \<and> fake_workspaces_ok k' \<and>
      map_of k' = (map_of m)(n := None)"
    by (auto simp: fake_workspace_api_def map_of_filter_key)
next
  fix m :: fake_workspaces
  assume ok: "fake_workspaces_ok m"
  have "map workspace_name (map snd m) = map fst m"
    using ok by (auto simp: fake_workspaces_ok_def workspace_name_def or_default_def)
  with fake_workspaces_distinct [OF ok] have "distinct (map workspace_name (map snd m))" by (simp only:)
  with fake_workspaces_distinct [OF ok] show "\<exists>wss. wa_list fake_workspace_api m = (Inr wss, m) \<and>
      set wss = ran (map_of m) \<and> distinct (map workspace_name wss)"
    by (auto simp: fake_workspace_api_def ran_distinct)
next
  fix m :: fake_workspaces and n ws
  assume "fake_workspaces_ok m" "map_of m n = Some ws"
  then show "om_name (wr_meta ws) = Some n" by (auto simp: fake_workspaces_ok_def dest: map_of_SomeD)
qed

definition reconciled_workspaces :: fake_workspaces where
  "reconciled_workspaces = fake_set_status ''web'' ''Failed'' None
     (snd (fake_apply_workspace [] (workspace_from_config ''web'' sample_workspace_config)))"

theorem workspace_admin_shown_witness:
  "\<exists>m1 rows. fa_set_config (k8s_workspace_admin sample_auth fake_workspace_api) reconciled_workspaces ''web''
       sample_workspace_config = (Inr (), m1) \<and>
     fa_list_workspaces (k8s_workspace_admin sample_auth fake_workspace_api) m1 = (Inr rows, m1) \<and>
     filter (\<lambda>i. wi_name i = ''web'') rows = [configured_row ''web'' sample_workspace_config
       (Some \<lparr>wt_phase = ''Failed'', wt_observed_generation = None, wt_message = None\<rparr>)]"
proof -
  have "\<not> blank ''src''" "\<not> blank ''git''" "\<not> blank ''app''" "\<not> blank ''main''" "\<not> blank ''openai''"
    by code_simp+
  then have cfg: "validate_k8s_config sample_auth sample_workspace_config = Inr ()"
    by (simp add: validated_k8s_config sample_workspace_config_def)
  obtain ws where m: "reconciled_workspaces = [(''web'', ws)]" "om_name (wr_meta ws) = Some ''web''"
      "wr_status ws = Some \<lparr>wt_phase = ''Failed'', wt_observed_generation = None, wt_message = None\<rparr>"
    by (simp add: reconciled_workspaces_def fake_set_status_def fake_apply_workspace_def workspace_from_config_def
        workspace_new_def new_meta_def)
  then have ok: "fake_workspaces_ok reconciled_workspaces" unfolding fake_workspaces_ok_def m(1) by simp
  have "Option.bind (map_of reconciled_workspaces ''web'') wr_status =
      Some \<lparr>wt_phase = ''Failed'', wt_observed_generation = None, wt_message = None\<rparr>"
    by (simp add: m)
  with workspace_admin_shown [OF fake_registry.workspace_store_axioms ok cfg, of "''web''"] show ?thesis
    by auto
qed

end
