(* ===== verification/Dash_Stream.thy ===== *)
theory Dash_Stream
  imports Live_Tail Emitter "HOL-Library.Sublist"
begin

text \<open>
  The dashboard's view of one agent's stream (\<open>dashboard/src/stream.rs\<close>, \<open>sse.rs\<close>, the loop of \<open>StreamPane\<close>
  in \<open>ui.rs\<close>): what it renders, where it resumes and how long it waits, whatever the connections deliver,
  and what it renders of a log that is served by \<open>agent_stream\<close>. Decoding a frame is a parameter.
\<close>

section \<open>The session (\<open>stream.rs\<close>)\<close>

datatype stream_state = Connecting | Live | Reconnecting nat | Closed

fun is_problem :: "stream_state \<Rightarrow> bool" where
  "is_problem (Reconnecting _) = True"
| "is_problem _ = False"

datatype entry = EntryEvent fleet_event | EntryGap nat | EntryUndecodable string

record stream_session =
  ss_agent_id :: string
  ss_entries :: "entry list"
  ss_last_seq :: "nat option"
  ss_state :: stream_state
  ss_attempt :: nat

definition stream_session_new :: "string \<Rightarrow> stream_session" where
  "stream_session_new i =
     \<lparr>ss_agent_id = i, ss_entries = [], ss_last_seq = None, ss_state = Connecting, ss_attempt = 0\<rparr>"

definition resume_from :: "stream_session \<Rightarrow> nat" where
  "resume_from s = (case ss_last_seq s of None \<Rightarrow> 0 | Some n \<Rightarrow> n + 1)"

definition push :: "fleet_event \<Rightarrow> stream_session \<Rightarrow> bool \<times> stream_session" where
  "push ev s =
     (if (case ss_last_seq s of Some n \<Rightarrow> seq ev \<le> n | None \<Rightarrow> False) then (False, s)
      else (True, s\<lparr>ss_last_seq := Some (seq ev), ss_entries := ss_entries s @ [EntryEvent ev],
                    ss_state := (if is_terminal_event ev then Closed else Live), ss_attempt := 0\<rparr>))"

definition push_gap :: "nat \<Rightarrow> stream_session \<Rightarrow> stream_session" where
  "push_gap skipped s =
     (if skipped = 0 then s else s\<lparr>ss_entries := ss_entries s @ [EntryGap skipped]\<rparr>)"

definition push_undecodable :: "string \<Rightarrow> stream_session \<Rightarrow> stream_session" where
  "push_undecodable why s = s\<lparr>ss_entries := ss_entries s @ [EntryUndecodable why]\<rparr>"

text \<open>The attempt is a \<open>u32\<close>, counted with \<open>saturating_add\<close>.\<close>

definition disconnected :: "stream_session \<Rightarrow> stream_session" where
  "disconnected s =
     (if ss_state s = Closed then s
      else (let n = min (ss_attempt s + 1) (2 ^ 32 - 1)
            in s\<lparr>ss_attempt := n, ss_state := Reconnecting n\<rparr>))"

definition should_retry :: "stream_session \<Rightarrow> bool" where
  "should_retry s \<longleftrightarrow> ss_state s \<noteq> Closed"

text \<open>Durations are milliseconds.\<close>

definition MAX_BACKOFF :: nat where
  "MAX_BACKOFF = 15000"

definition backoff_for :: "nat \<Rightarrow> nat" where
  "backoff_for attempt =
     (if attempt = 0 then 500 else min (500 * 2 ^ min attempt 6) MAX_BACKOFF)"

definition backoff :: "stream_session \<Rightarrow> nat" where
  "backoff s = backoff_for (ss_attempt s)"

section \<open>One connection (\<open>sse.rs\<close>)\<close>

text \<open>
  What the browser hands over: a message of the default or of the \<open>gap\<close> subscription, with its text if
  it has one, or the error that ends a subscription.
\<close>

datatype sse_item = SseMessage "string option" | SseGap "string option" | SseError

datatype incoming = InEvent fleet_event | InGap nat | InUnparseable string | InEnded

record sse_codec =
  sc_event :: "string \<Rightarrow> string + fleet_event"
  sc_gap :: "string \<Rightarrow> string + nat"

fun incoming_of :: "sse_codec \<Rightarrow> sse_item \<Rightarrow> incoming" where
  "incoming_of c (SseMessage (Some t)) =
     (case sc_event c t of Inr ev \<Rightarrow> InEvent ev | Inl e \<Rightarrow> InUnparseable (''event: '' @ e))"
| "incoming_of c (SseMessage None) = InUnparseable ''event had no text data''"
| "incoming_of c (SseGap (Some t)) =
     (case sc_gap c t of Inr n \<Rightarrow> InGap n | Inl e \<Rightarrow> InUnparseable (''gap: '' @ e))"
| "incoming_of c (SseGap None) = InUnparseable ''gap had no text data''"
| "incoming_of c SseError = InEnded"

text \<open>\<open>follow\<close>: \<open>None\<close> is a source that cannot be opened or subscribed to.\<close>

definition follow :: "sse_codec \<Rightarrow> sse_item list option \<Rightarrow> incoming list" where
  "follow c src =
     (case src of
        None \<Rightarrow> [InEnded]
      | Some items \<Rightarrow> map (incoming_of c) (takeWhile (\<lambda>i. i \<noteq> SseError) items) @ [InEnded])"

fun apply_incoming :: "stream_session \<Rightarrow> incoming \<Rightarrow> stream_session" where
  "apply_incoming s (InEvent ev) = snd (push ev s)"
| "apply_incoming s (InGap n) = push_gap n s"
| "apply_incoming s (InUnparseable why) = push_undecodable why s"
| "apply_incoming s InEnded = disconnected s"

text \<open>
  The loop of \<open>StreamPane\<close> over the connections it makes; a connection answers the \<open>from\<close> of its
  request. It stops when the session says so, or goes on with the next connection.
\<close>

fun stream_pane ::
  "sse_codec \<Rightarrow> (nat \<Rightarrow> sse_item list option) list \<Rightarrow> stream_session \<Rightarrow> stream_session" where
  "stream_pane c [] s = s"
| "stream_pane c (conn # conns) s =
     (let s = foldl apply_incoming s (follow c (conn (resume_from s)))
      in if should_retry s then stream_pane c conns s else s)"

text \<open>The effect starts with a fresh session when another agent has been selected.\<close>

definition start_pane :: "string \<Rightarrow> stream_session \<Rightarrow> stream_session" where
  "start_pane i s = (if ss_agent_id s \<noteq> i then stream_session_new i else s)"

section \<open>What a pane renders\<close>

fun events_of :: "entry list \<Rightarrow> fleet_event list" where
  "events_of [] = []"
| "events_of (EntryEvent ev # es) = ev # events_of es"
| "events_of (_ # es) = events_of es"

lemma events_of_append [simp]: "events_of (a @ b) = events_of a @ events_of b"
  by (induction a rule: events_of.induct) auto

definition rendered :: "stream_session \<Rightarrow> fleet_event list" where
  "rendered s = events_of (ss_entries s)"

definition session_ok :: "stream_session \<Rightarrow> bool" where
  "session_ok s \<longleftrightarrow>
     sorted_wrt (<) (map seq (rendered s)) \<and>
     ss_last_seq s = (if rendered s = [] then None else Some (seq (last (rendered s)))) \<and>
     (ss_state s = Closed \<longleftrightarrow> rendered s \<noteq> [] \<and> is_terminal_event (last (rendered s)))"

lemma session_new_ok [simp]: "session_ok (stream_session_new i)" "rendered (stream_session_new i) = []"
  by (simp_all add: session_ok_def rendered_def stream_session_new_def)

lemma sorted_last_less:
  assumes "sorted_wrt (<) (map f xs)" "x \<in> set xs" "f (last xs) < (y :: nat)"
  shows "f x < y"
  using assms
proof (induction xs rule: rev_induct)
  case (snoc z zs)
  then show ?case by (auto simp: sorted_wrt_append)
qed simp

lemma sorted_last_ge:
  "sorted_wrt (<) (map f xs) \<Longrightarrow> x \<in> set xs \<Longrightarrow> f x \<le> (f (last xs) :: nat)"
  by (induction xs rule: rev_induct) (auto simp: sorted_wrt_append)

lemma push_ok:
  assumes "session_ok s"
  shows "session_ok (snd (push ev s))"
    "rendered (snd (push ev s)) = rendered s @ (if seq ev < resume_from s then [] else [ev])"
proof -
  have last: "resume_from s = (if rendered s = [] then 0 else Suc (seq (last (rendered s))))"
    using assms by (auto simp: session_ok_def resume_from_def)
  show r: "rendered (snd (push ev s)) = rendered s @ (if seq ev < resume_from s then [] else [ev])"
    using assms by (auto simp: push_def rendered_def session_ok_def resume_from_def)
  show "session_ok (snd (push ev s))"
  proof (cases "seq ev < resume_from s")
    case True
    then have "snd (push ev s) = s" by (auto simp: push_def resume_from_def split: option.splits)
    then show ?thesis using assms by simp
  next
    case False
    have "seq x < seq ev" if "x \<in> set (rendered s)" for x
      using sorted_last_less [of seq "rendered s" x "seq ev"] that False assms last
      by (auto simp: session_ok_def split: if_splits)
    then have "sorted_wrt (<) (map seq (rendered s @ [ev]))"
      using assms by (auto simp: session_ok_def sorted_wrt_append)
    moreover have "snd (push ev s) = s\<lparr>ss_last_seq := Some (seq ev), ss_entries := ss_entries s @ [EntryEvent ev],
        ss_state := (if is_terminal_event ev then Closed else Live), ss_attempt := 0\<rparr>"
      using False by (auto simp: push_def resume_from_def split: option.splits)
    ultimately show ?thesis by (simp add: session_ok_def rendered_def)
  qed
qed

lemma apply_incoming_ok:
  assumes "session_ok s"
  shows "session_ok (apply_incoming s m)"
    "rendered (apply_incoming s m) = rendered s @
       (case m of InEvent ev \<Rightarrow> if seq ev < resume_from s then [] else [ev] | _ \<Rightarrow> [])"
    "\<exists>es. ss_entries (apply_incoming s m) = ss_entries s @ es"
proof -
  show "session_ok (apply_incoming s m)"
    using assms push_ok [OF assms]
    by (cases m) (auto simp: push_gap_def push_undecodable_def disconnected_def session_ok_def rendered_def Let_def)
  show "rendered (apply_incoming s m) = rendered s @
       (case m of InEvent ev \<Rightarrow> if seq ev < resume_from s then [] else [ev] | _ \<Rightarrow> [])"
    using push_ok [OF assms]
    by (cases m) (auto simp: push_gap_def push_undecodable_def disconnected_def rendered_def Let_def)
  show "\<exists>es. ss_entries (apply_incoming s m) = ss_entries s @ es"
    by (cases m) (auto simp: push_gap_def push_undecodable_def disconnected_def Let_def push_def)
qed

definition events_in :: "incoming list \<Rightarrow> fleet_event list" where
  "events_in ms = List.map_filter (\<lambda>m. case m of InEvent ev \<Rightarrow> Some ev | _ \<Rightarrow> None) ms"

lemma events_in_simps [simp]:
  "events_in [] = []" "events_in (m # ms) = (case m of InEvent ev \<Rightarrow> [ev] | _ \<Rightarrow> []) @ events_in ms"
  "events_in (ms @ ms') = events_in ms @ events_in ms'"
  by (auto simp: events_in_def List.map_filter_def split: incoming.splits)

lemma apply_all_ok:
  assumes "session_ok s"
  shows "session_ok (foldl apply_incoming s ms) \<and>
    set (rendered (foldl apply_incoming s ms)) \<subseteq> set (rendered s) \<union> set (events_in ms) \<and>
    prefix (ss_entries s) (ss_entries (foldl apply_incoming s ms))"
  using assms
proof (induction ms arbitrary: s)
  case (Cons m ms)
  note m = apply_incoming_ok [OF Cons.prems, of m]
  obtain es where es: "ss_entries (apply_incoming s m) = ss_entries s @ es" using m(3) by blast
  show ?case
    using Cons.IH [OF m(1)] m(2) es
    by (auto split: incoming.splits if_splits simp: prefix_def)
qed simp

definition delivered :: "sse_codec \<Rightarrow> (nat \<Rightarrow> sse_item list option) list \<Rightarrow> fleet_event set" where
  "delivered c conns = (\<Union>conn \<in> set conns. \<Union>from. set (events_in (follow c (conn from))))"

lemma pane_ok:
  assumes "session_ok s"
  shows "session_ok (stream_pane c conns s) \<and>
    set (rendered (stream_pane c conns s)) \<subseteq> set (rendered s) \<union> delivered c conns \<and>
    prefix (ss_entries s) (ss_entries (stream_pane c conns s))"
  using assms
proof (induction conns arbitrary: s)
  case (Cons conn conns)
  let ?s = "foldl apply_incoming s (follow c (conn (resume_from s)))"
  have s: "session_ok ?s" "set (rendered ?s) \<subseteq> set (rendered s) \<union> set (events_in (follow c (conn (resume_from s))))"
    "prefix (ss_entries s) (ss_entries ?s)"
    using apply_all_ok [OF Cons.prems] by blast+
  have "set (rendered ?s) \<subseteq> set (rendered s) \<union> delivered c (conn # conns)"
    using s(2) by (auto simp: delivered_def)
  moreover have "delivered c conns \<subseteq> delivered c (conn # conns)" by (auto simp: delivered_def)
  ultimately show ?case
    using s Cons.IH [OF s(1)] by (auto simp: Let_def dest: prefix_order.trans)
qed simp

lemma pane_append:
  "stream_pane c (conns @ later) s =
     (if conns = [] \<or> should_retry (stream_pane c conns s) then stream_pane c later (stream_pane c conns s)
      else stream_pane c conns s)"
  by (induction conns arbitrary: s) (auto simp: Let_def)

text \<open>
  Whatever the connections deliver - repeated, reordered or undecodable frames, broken
  connections, one after the other - a pane renders every event at most once and in the order of the
  sequence numbers, only events it was delivered, resumes behind the last one it rendered, and
  never takes back what it has rendered.
\<close>

theorem pane_renders_each_once:
  "let s = stream_pane c conns (stream_session_new i)
   in sorted_wrt (<) (map seq (rendered s)) \<and> set (rendered s) \<subseteq> delivered c conns \<and>
      resume_from s = (if rendered s = [] then 0 else seq (last (rendered s)) + 1) \<and>
      prefix (ss_entries s) (ss_entries (stream_pane c (conns @ later) (stream_session_new i)))"
proof -
  define s where "s = stream_pane c conns (stream_session_new i)"
  have s: "session_ok s" "set (rendered s) \<subseteq> delivered c conns"
    unfolding s_def using pane_ok [OF session_new_ok(1), of c conns i] by auto
  have "prefix (ss_entries s) (ss_entries (stream_pane c later s))"
    using pane_ok [OF s(1), of c later] by blast
  then have "prefix (ss_entries s) (ss_entries (stream_pane c (conns @ later) (stream_session_new i)))"
    by (auto simp: s_def pane_append split: if_splits)
  then show ?thesis using s by (auto simp: session_ok_def resume_from_def s_def [symmetric] Let_def)
qed


section \<open>A pane over the server's stream\<close>

text \<open>The events up to and including the first terminal one: where the server closes the stream.\<close>

fun until_terminal :: "fleet_event list \<Rightarrow> fleet_event list" where
  "until_terminal [] = []"
| "until_terminal (e # es) = e # (if is_terminal_event e then [] else until_terminal es)"

lemma until_terminal_Nil [simp]: "until_terminal es = [] \<longleftrightarrow> es = []"
  by (cases es) simp_all

lemma until_terminal_prefix: "prefix (until_terminal es) es"
  by (induction es) auto

lemma until_terminal_mono: "prefix a b \<Longrightarrow> prefix (until_terminal a) (until_terminal b)"
  by (induction a b rule: list_induct2') auto

lemma until_terminal_append:
  "until_terminal (a @ b) = (if list_ex is_terminal_event a then until_terminal a else a @ until_terminal b)"
  by (induction a) auto

lemma until_terminal_last:
  "prefix r (until_terminal es) \<Longrightarrow> \<not> (r \<noteq> [] \<and> is_terminal_event (last r)) \<Longrightarrow> \<not> list_ex is_terminal_event r"
proof (induction es arbitrary: r)
  case (Cons e es)
  show ?case
  proof (cases r)
    case r: (Cons x xs)
    then have x: "x = e" "prefix xs (if is_terminal_event e then [] else until_terminal es)"
      using Cons.prems(1) by auto
    show ?thesis
    proof (cases "xs = []")
      case True
      then show ?thesis using Cons.prems(2) r by simp
    next
      case False
      then have "\<not> is_terminal_event e" "prefix xs (until_terminal es)" using x(2) by (auto split: if_splits)
      then show ?thesis using Cons.IH [of xs] Cons.prems(2) False r x(1) by simp
    qed
  qed simp
qed simp

lemma until_terminal_closed:
  "prefix r (until_terminal es) \<Longrightarrow> r \<noteq> [] \<Longrightarrow> is_terminal_event (last r) \<Longrightarrow> r = until_terminal es"
proof (induction es arbitrary: r)
  case (Cons e es)
  obtain xs where r: "r = e # xs" using Cons.prems(1,2) by (cases r) auto
  show ?case
  proof (cases "is_terminal_event e")
    case False
    then have "xs \<noteq> []" using Cons.prems(3) r by auto
    then show ?thesis using Cons.IH [of xs] Cons.prems False r by auto
  qed (use Cons.prems(1) r in auto)
qed simp

lemma history_part_eq:
  "history_part ld hs =
     (until_terminal hs, (if hs = [] then ld else seq (last (until_terminal hs))), list_ex is_terminal_event hs)"
  by (induction ld hs rule: history_part.induct) auto

lemma until_terminal_id: "\<not> list_ex is_terminal_event hs \<Longrightarrow> until_terminal hs = hs"
  by (induction hs) auto

text \<open>A live tail whose bus drops and reorders nothing delivers the bus events above its floor.\<close>

lemma tail_in_order:
  "sorted_wrt (<) (map seq (filter (\<lambda>e. ev_agent e = i) (map snd ges))) \<Longrightarrow>
   tail_loop ops \<lparr>tl_agent = i, last_delivered = ld\<rparr> s (map (\<lambda>(g, e). (g, BusEvent e)) ges) =
     map EventFrame (until_terminal (filter (\<lambda>e. ld < seq e) (filter (\<lambda>e. ev_agent e = i) (map snd ges))))"
proof (induction ges arbitrary: ld s)
  case (Cons ge ges)
  obtain g e where ge: "ge = (g, e)" by fastforce
  have IH: "tail_loop ops \<lparr>tl_agent = i, last_delivered = ld\<rparr> s (map (\<lambda>(g, e). (g, BusEvent e)) ges) =
      map EventFrame (until_terminal (filter (\<lambda>e. ld < seq e) (filter (\<lambda>e. ev_agent e = i) (map snd ges))))" for ld s
    by (rule Cons.IH) (use Cons.prems ge in \<open>auto split: if_splits\<close>)
  show ?case
  proof (cases "ev_agent e = i \<and> ld < seq e")
    case True
    then have "\<forall>x \<in> set (filter (\<lambda>e. ev_agent e = i) (map snd ges)). seq e < seq x"
      using Cons.prems ge by simp
    then have "filter (\<lambda>x. seq e < seq x) (filter (\<lambda>e. ev_agent e = i) (map snd ges)) =
        filter (\<lambda>x. ld < seq x) (filter (\<lambda>e. ev_agent e = i) (map snd ges))"
      using True by (intro filter_cong) auto
    then show ?thesis using True ge by (simp add: IH)
  qed (use ge in \<open>auto simp: IH\<close>)
qed simp

lemma sorted_window:
  assumes "sorted_wrt (<) (map seq es)" "from \<le> Suc ld"
  shows "filter (\<lambda>e. from \<le> seq e) es = filter (\<lambda>e. from \<le> seq e \<and> seq e \<le> ld) es @ filter (\<lambda>e. ld < seq e) es"
  using assms
proof (induction es)
  case (Cons e es)
  then have rest: "\<forall>x \<in> set es. seq e < seq x" by auto
  show ?case
  proof (cases "seq e \<le> ld")
    case False
    then have "filter (\<lambda>e. from \<le> seq e \<and> seq e \<le> ld) es = []" "filter (\<lambda>e. ld < seq e) es = es"
        "filter (\<lambda>e. from \<le> seq e) es = es"
      using rest Cons.prems(2) by (auto simp: filter_empty_conv filter_id_conv)
    then show ?thesis using False Cons.prems(2) by simp
  qed (use Cons in auto)
qed simp


lemma stream_history_increasing:
  assumes "stream_increasing es"
  shows "stream_history es k n = filter (\<lambda>e. stream_key e = k \<and> n \<le> seq e) es"
proof -
  have "sorted_wrt (\<lambda>x y. seq x < seq y) (filter (\<lambda>e. stream_key e = k) es)"
    using assms by (simp add: stream_increasing_def sorted_wrt_map)
  from sorted_wrt_filter [OF this, of "\<lambda>e. n \<le> seq e"]
  have "sorted_wrt (<) (map seq (filter (\<lambda>e. stream_key e = k \<and> n \<le> seq e) es))"
    by (simp add: sorted_wrt_map conj_commute)
  then have "sorted (map seq (filter (\<lambda>e. stream_key e = k \<and> n \<le> seq e) es))"
    by (rule strict_sorted_imp_sorted)
  then show ?thesis by (simp add: stream_history_def sort_key_id_if_sorted)
qed

lemma stream_increasing_append: "stream_increasing (a @ b) \<Longrightarrow> stream_increasing a"
  by (simp add: stream_increasing_def sorted_wrt_append)

text \<open>
  What a connection is served from: the store when it is made, the events its bus delivers until it
  breaks (each with what happened to the store before), and how many frames get through.
\<close>

record 's served =
  sv_store :: 's
  sv_bus :: "(('s \<Rightarrow> 's) \<times> fleet_event) list"
  sv_frames :: nat

definition bus_items :: "'s served \<Rightarrow> (('s \<Rightarrow> 's) \<times> bus_event) list" where
  "bus_items sv = map (\<lambda>(g, e). (g, BusEvent e)) (sv_bus sv)"

definition bus_events :: "string \<Rightarrow> 's served \<Rightarrow> fleet_event list" where
  "bus_events i sv = filter (\<lambda>e. ev_agent e = i) (map snd (sv_bus sv))"

text \<open>
  The bus delivers a stretch of the stream, in order, that starts no later than the store ends: the
  subscription is made before the store is read.
\<close>

definition bus_in_order :: "fleet_event list \<Rightarrow> fleet_event list \<Rightarrow> fleet_event list \<Rightarrow> bool" where
  "bus_in_order all stored bus \<longleftrightarrow> (\<exists>p \<le> length stored. prefix bus (drop p all))"

lemma last_filter_floor:
  assumes "sorted_wrt (<) (map seq es)" "filter (\<lambda>e. n \<le> seq e) es \<noteq> []"
  shows "last (filter (\<lambda>e. n \<le> seq e) es) = last es"
  using assms
proof (induction es rule: rev_induct)
  case (snoc x xs)
  then obtain y where "y \<in> set (xs @ [x])" "n \<le> seq y" unfolding filter_empty_conv by blast
  then have "n \<le> seq x" using snoc.prems(1) by (auto simp: sorted_wrt_append)
  then show ?case by simp
qed simp

lemma window_of_prefix:
  assumes F: "sorted_wrt (<) (map seq F)" "\<forall>e \<in> set F. 0 < seq e" and D: "prefix D F"
    and bus: "bus_in_order F D bs"
    and ld: "ld = (if filter (\<lambda>e. from \<le> seq e) D = [] then from - 1 else seq (last D))"
  shows "prefix (filter (\<lambda>e. from \<le> seq e) D @ filter (\<lambda>e. ld < seq e) bs) (filter (\<lambda>e. from \<le> seq e) F)"
proof -
  obtain p where p: "p \<le> length D" "prefix bs (drop p F)" using bus by (auto simp: bus_in_order_def)
  obtain T where T: "F = D @ T" using D by (auto simp: prefix_def)
  have srt: "sorted_wrt (<) (map seq D)" "\<forall>d \<in> set D. \<forall>t \<in> set T. seq d < seq t"
    using F(1) by (auto simp: T sorted_wrt_append)
  have upto: "\<forall>d \<in> set D. seq d \<le> ld" and floor: "from \<le> Suc ld"
  proof -
    note le = sorted_last_ge [OF srt(1)]
    show "\<forall>d \<in> set D. seq d \<le> ld"
      using le by (auto simp: ld filter_empty_conv)
    show "from \<le> Suc ld"
    proof (cases "filter (\<lambda>e. from \<le> seq e) D = []")
      case False
      then obtain d where "d \<in> set D" "from \<le> seq d" by (auto simp: filter_empty_conv)
      then show ?thesis using le [of d] False by (auto simp: ld)
    qed (simp add: ld)
  qed
  have above: "ld < seq t \<or> seq t < from" if t: "t \<in> set T" for t
  proof (cases "filter (\<lambda>e. from \<le> seq e) D = []")
    case True
    have "0 < seq t" using t F(2) by (simp add: T)
    then show ?thesis using True by (auto simp: ld)
  next
    case False
    then have "last D \<in> set D" by (intro last_in_set) auto
    then show ?thesis using False srt(2) t by (simp add: ld)
  qed
  have window: "filter (\<lambda>e. from \<le> seq e \<and> seq e \<le> ld) F = filter (\<lambda>e. from \<le> seq e) D"
  proof -
    have "filter (\<lambda>e. from \<le> seq e \<and> seq e \<le> ld) T = []"
      using above by (fastforce simp: filter_empty_conv)
    moreover have "filter (\<lambda>e. from \<le> seq e \<and> seq e \<le> ld) D = filter (\<lambda>e. from \<le> seq e) D"
      using upto by (intro filter_cong) auto
    ultimately show ?thesis by (simp add: T)
  qed
  have "filter (\<lambda>e. ld < seq e) bs = filter (\<lambda>e. ld < seq e) (take p D @ bs)"
    using upto by (fastforce simp: filter_empty_conv dest: in_set_takeD)
  moreover have "prefix (take p D @ bs) F"
  proof -
    obtain z where z: "drop p F = bs @ z" using p(2) by (auto simp: prefix_def)
    have "take p D = take p F" using p(1) by (simp add: T)
    then have "F = (take p D @ bs) @ z" using append_take_drop_id [of p F] unfolding z by simp
    then show ?thesis by (rule prefixI)
  qed
  ultimately have "prefix (filter (\<lambda>e. ld < seq e) bs) (filter (\<lambda>e. ld < seq e) F)"
    by (auto simp: prefix_def)
  then show ?thesis
    unfolding sorted_window [OF F(1) floor] window by simp
qed

context event_store
begin

lemma agent_stream_in_order:
  assumes "inv s" "from < 2 ^ 63" "st_replay ops s i from = (Inr es, s1)" "i \<noteq> []"
    and H: "stream_increasing H" "prefix (hist s) H" "\<forall>e \<in> set H. 0 < seq e"
    and bus: "bus_in_order (stream_history H i 0) (stream_history (hist s) i 0) bs"
      "bs = filter (\<lambda>e. ev_agent e = i) (map snd ges)"
  shows "\<exists>y. agent_stream ops i from s (map (\<lambda>(g, e). (g, BusEvent e)) ges) = map EventFrame (until_terminal y) \<and>
    prefix y (filter (\<lambda>e. from \<le> seq e) (stream_history H i 0)) \<and>
    prefix (filter (\<lambda>e. from \<le> seq e) (stream_history (hist s) i 0)) y"
proof -
  let ?F = "stream_history H i 0" and ?D = "stream_history (hist s) i 0"
  have incr: "stream_increasing (hist s)" using H(1,2) by (auto simp: prefix_def dest: stream_increasing_append)
  have F: "?F = filter (\<lambda>e. stream_key e = i) H" and D: "?D = filter (\<lambda>e. stream_key e = i) (hist s)"
    using stream_history_increasing [OF H(1)] stream_history_increasing [OF incr] by simp_all
  have es: "es = filter (\<lambda>e. from \<le> seq e) ?D"
    using replay_ok [OF assms(1-3)] stream_history_increasing [OF incr, of i "from"] by (simp add: D conj_commute)
  have srt: "sorted_wrt (<) (map seq ?F)" using H(1) by (simp add: F stream_increasing_def)
  have pre: "prefix ?D ?F" using H(2) by (auto simp: F D prefix_def)
  define ld where "ld = (if es = [] then from - 1 else seq (last ?D))"
  have "sorted_wrt (<) (map seq ?D)" using incr by (simp add: D stream_increasing_def)
  then have last: "es \<noteq> [] \<Longrightarrow> last es = last ?D" unfolding es by (rule last_filter_floor)
  let ?y = "es @ filter (\<lambda>e. ld < seq e) bs"
  have y: "prefix ?y (filter (\<lambda>e. from \<le> seq e) ?F)"
    unfolding es by (rule window_of_prefix [OF srt _ pre bus(1)]) (use H(3) in \<open>auto simp: F ld_def es\<close>)
  have bs: "sorted_wrt (<) (map seq bs)"
  proof -
    obtain p z where "drop p ?F = bs @ z" using bus(1) by (auto simp: bus_in_order_def prefix_def)
    then have "?F = take p ?F @ bs @ z" by (metis append_take_drop_id)
    then show ?thesis using srt by (metis map_append sorted_wrt_append)
  qed
  have hist: "history ops s i from = (es, s1)" by (simp add: history_def assms(3))
  have "agent_stream ops i from s (map (\<lambda>(g, e). (g, BusEvent e)) ges) = map EventFrame (until_terminal ?y)"
  proof (cases "list_ex is_terminal_event es")
    case True
    then show ?thesis by (simp add: agent_stream_def hist history_part_eq until_terminal_append)
  next
    case False
    then have "history_part (from - 1) es = (es, ld, False)"
      using last by (simp add: history_part_eq ld_def until_terminal_id)
    then show ?thesis
      using False tail_in_order [of i ges ops ld s1] bs
      by (simp add: agent_stream_def hist until_terminal_append bus(2))
  qed
  moreover have "prefix (filter (\<lambda>e. from \<le> seq e) ?D) ?y" by (simp add: es [symmetric])
  ultimately show ?thesis using y by (intro exI [of _ ?y] conjI)
qed

end


text \<open>How the server frames an event and a gap (\<open>to_event\<close>, \<open>frame_to_event\<close>), and a connection cut short.\<close>

fun frame_to_event :: "(fleet_event \<Rightarrow> string) \<Rightarrow> (nat \<Rightarrow> nat \<Rightarrow> string) \<Rightarrow> frame \<Rightarrow> sse_item" where
  "frame_to_event encode encode_gap (EventFrame ev) = SseMessage (Some (encode ev))"
| "frame_to_event encode encode_gap (Gap skipped last_seq) = SseGap (Some (encode_gap skipped last_seq))"

definition serve ::
  "'s store_ops \<Rightarrow> (fleet_event \<Rightarrow> string) \<Rightarrow> (nat \<Rightarrow> nat \<Rightarrow> string) \<Rightarrow> string \<Rightarrow> 's served \<Rightarrow> nat \<Rightarrow>
     sse_item list option" where
  "serve ops encode encode_gap i sv from =
     Some (take (sv_frames sv) (map (frame_to_event encode encode_gap)
       (agent_stream ops i from (sv_store sv) (bus_items sv))))"

lemma follow_served:
  assumes "agent_stream ops i from (sv_store sv) (bus_items sv) = map EventFrame es"
    and "\<And>e. e \<in> set es \<Longrightarrow> sc_event c (encode e) = Inr e"
  shows "follow c (serve ops encode encode_gap i sv from) = map InEvent (take (sv_frames sv) es) @ [InEnded]"
proof -
  have all: "takeWhile (\<lambda>i. i \<noteq> SseError) (map (\<lambda>e. SseMessage (Some (encode e))) l) =
      map (\<lambda>e. SseMessage (Some (encode e))) l" for l
    by (simp add: takeWhile_eq_all_conv)
  show ?thesis
    using assms by (simp add: follow_def serve_def comp_def take_map all) (auto dest: in_set_takeD)
qed

lemma push_run:
  assumes "session_ok s" "sorted_wrt (<) (map seq (rendered s @ es))"
  shows "session_ok (foldl apply_incoming s (map InEvent es)) \<and>
    rendered (foldl apply_incoming s (map InEvent es)) = rendered s @ es"
  using assms
proof (induction es arbitrary: s)
  case (Cons e es)
  have above: "\<forall>x \<in> set (rendered s). seq x < seq e" using Cons.prems(2) by (auto simp: sorted_wrt_append)
  have "\<not> seq e < resume_from s"
  proof (cases "rendered s = []")
    case False
    then show ?thesis
      using Cons.prems(1) bspec [OF above last_in_set [OF False]] by (auto simp: session_ok_def resume_from_def)
  qed (use Cons.prems(1) in \<open>auto simp: session_ok_def resume_from_def\<close>)
  then have r: "rendered (snd (push e s)) = rendered s @ [e]"
    using push_ok(2) [OF Cons.prems(1), of e] by simp
  show ?case
    using Cons.IH [OF push_ok(1) [OF Cons.prems(1)], of e] Cons.prems(2) by (simp add: r)
qed simp

lemma disconnected_rendered [simp]: "rendered (disconnected s) = rendered s"
  by (simp add: disconnected_def rendered_def Let_def)

lemma rest_of_prefix:
  assumes "prefix R F" "sorted_wrt (<) (map seq F)"
  shows "F = R @ filter (\<lambda>e. (if R = [] then 0 else Suc (seq (last R))) \<le> seq e) F"
proof -
  obtain T where T: "F = R @ T" using assms(1) by (auto simp: prefix_def)
  show ?thesis
  proof (cases "R = []")
    case False
    have "sorted_wrt (<) (map seq R)" using assms(2) by (simp add: T sorted_wrt_append)
    note sorted_last_ge [OF this]
    then have "filter (\<lambda>e. Suc (seq (last R)) \<le> seq e) R = []" by (fastforce simp: filter_empty_conv)
    moreover have "seq (last R) < seq t" if "t \<in> set T" for t
      using assms(2) that last_in_set [OF False] by (auto simp: T sorted_wrt_append)
    then have "filter (\<lambda>e. Suc (seq (last R)) \<le> seq e) T = T" by (simp add: filter_id_conv Suc_le_eq)
    ultimately show ?thesis using False by (simp add: T)
  qed (simp add: T)
qed

context event_store
begin

definition served_ok :: "fleet_event list \<Rightarrow> string \<Rightarrow> 's served \<Rightarrow> bool" where
  "served_ok H i sv \<longleftrightarrow>
     inv (sv_store sv) \<and> prefix (hist (sv_store sv)) H \<and>
     (\<forall>n. is_ok (fst (st_replay ops (sv_store sv) i n))) \<and>
     bus_in_order (stream_history H i 0) (stream_history (hist (sv_store sv)) i 0) (bus_events i sv)"

lemma pane_step:
  assumes s: "session_ok s" "prefix (rendered s) (until_terminal (stream_history H i 0))" "should_retry s"
    and H: "stream_increasing H" "\<forall>e \<in> set H. 0 < seq e \<and> seq e + 1 < 2 ^ 63" "i \<noteq> []"
    and codec: "\<And>e. e \<in> set H \<Longrightarrow> sc_event c (encode e) = Inr e"
    and sv: "served_ok H i sv"
    and s'_def: "s' = foldl apply_incoming s (follow c (serve ops encode encode_gap i sv (resume_from s)))"
  shows "session_ok s'" "prefix (rendered s') (until_terminal (stream_history H i 0))"
    "length H \<le> sv_frames sv \<Longrightarrow> prefix (until_terminal (stream_history (hist (sv_store sv)) i 0)) (rendered s')"
proof -
  let ?F = "stream_history H i 0" and ?D = "stream_history (hist (sv_store sv)) i 0" and ?R = "rendered s"
  let ?r = "resume_from s"
  have r: "?r = (if ?R = [] then 0 else Suc (seq (last ?R)))"
    using s(1) by (auto simp: session_ok_def resume_from_def)
  have F: "?F = filter (\<lambda>e. stream_key e = i) H" using stream_history_increasing [OF H(1)] by simp
  have srt: "sorted_wrt (<) (map seq ?F)" using H(1) by (simp add: F stream_increasing_def)
  have pre: "prefix ?R ?F" using s(2) until_terminal_prefix prefix_order.trans by blast
  have open_R: "\<not> list_ex is_terminal_event ?R"
    using until_terminal_last [OF s(2)] s(1,3) by (auto simp: session_ok_def should_retry_def)
  have "?r < 2 ^ 63"
  proof (cases "?R = []")
    case False
    then have "last ?R \<in> set H" using subsetD [OF set_mono_prefix [OF pre] last_in_set [OF False]] by (simp add: F)
    then show ?thesis using H(2) False by (auto simp: r)
  qed (simp add: r)
  moreover obtain es s1 where "st_replay ops (sv_store sv) i ?r = (Inr es, s1)"
    using sv by (auto simp: served_ok_def is_ok_def split: sum.splits)
      (metis (no_types, lifting) prod.collapse sum.case(1) sum.exhaust)
  ultimately obtain y where
    y: "agent_stream ops i ?r (sv_store sv) (bus_items sv) = map EventFrame (until_terminal y)"
      "prefix y (filter (\<lambda>e. ?r \<le> seq e) ?F)" "prefix (filter (\<lambda>e. ?r \<le> seq e) ?D) y"
    using agent_stream_in_order [of "sv_store sv" ?r i es s1 H "bus_events i sv" "sv_bus sv"] sv H
    by (auto simp: served_ok_def bus_items_def bus_events_def)
  let ?E = "take (sv_frames sv) (until_terminal y)"
  have Ry: "prefix (?R @ y) ?F"
    using y(2) rest_of_prefix [OF pre srt] unfolding r by (metis same_prefix_prefix)
  then have RE: "prefix (?R @ until_terminal y) (until_terminal ?F)"
    using until_terminal_mono [OF Ry] open_R by (simp add: until_terminal_append)
  then have RE': "prefix (?R @ ?E) (until_terminal ?F)"
    by (metis append_take_drop_id append_assoc prefixI prefix_order.trans)
  have "set (until_terminal y) \<subseteq> set H"
    using set_mono_prefix [OF until_terminal_prefix] set_mono_prefix [OF y(2)] by (fastforce simp: F)
  then have fol: "follow c (serve ops encode encode_gap i sv ?r) = map InEvent ?E @ [InEnded]"
    using follow_served [OF y(1)] codec by blast
  have "prefix (?R @ ?E) ?F" using RE' until_terminal_prefix prefix_order.trans by blast
  then have "sorted_wrt (<) (map seq (?R @ ?E))" using srt by (auto simp: prefix_def sorted_wrt_append)
  then have run: "session_ok (foldl apply_incoming s (map InEvent ?E))"
      "rendered (foldl apply_incoming s (map InEvent ?E)) = ?R @ ?E"
    using push_run [OF s(1)] by blast+
  show "session_ok s'"
    using apply_incoming_ok(1) [OF run(1), of InEnded] unfolding s'_def fol by simp
  have s': "rendered s' = ?R @ ?E" using run(2) by (simp add: s'_def fol)
  show "prefix (rendered s') (until_terminal ?F)" using RE' s' by simp
  assume "length H \<le> sv_frames sv"
  moreover have "length (until_terminal y) \<le> length H"
    using prefix_length_le [OF until_terminal_prefix [of y]] prefix_length_le [OF y(2)]
    by (simp add: F) (meson le_trans length_filter_le)
  ultimately have E: "?E = until_terminal y" by simp
  have "prefix ?D (?R @ y)"
  proof -
    have D: "prefix ?D ?F"
    proof -
      have "stream_increasing (hist (sv_store sv))"
        using H(1) sv by (auto simp: served_ok_def prefix_def dest: stream_increasing_append)
      then show ?thesis
        using stream_history_increasing [of "hist (sv_store sv)" i 0] sv
        by (auto simp: F served_ok_def prefix_def)
    qed
    consider "prefix ?D ?R" | "prefix ?R ?D" using D pre prefix_same_cases by blast
    then show ?thesis
    proof cases
      case 2
      have "sorted_wrt (<) (map seq ?D)" using D srt by (auto simp: prefix_def sorted_wrt_append)
      then have "?D = ?R @ filter (\<lambda>e. ?r \<le> seq e) ?D" using rest_of_prefix [OF 2] unfolding r by blast
      then show ?thesis using y(3) by (metis same_prefix_prefix)
    qed (simp add: prefix_prefix)
  qed
  then show "prefix (until_terminal ?D) (rendered s')"
    using until_terminal_mono [of ?D "?R @ y"] open_R by (simp add: s' E until_terminal_append)
qed

end


context event_store
begin

lemma pane_served:
  assumes "session_ok s" "prefix (rendered s) (until_terminal (stream_history H i 0))"
    and H: "stream_increasing H" "\<forall>e \<in> set H. 0 < seq e \<and> seq e + 1 < 2 ^ 63" "i \<noteq> []"
    and codec: "\<And>e. e \<in> set H \<Longrightarrow> sc_event c (encode e) = Inr e"
    and "list_all (served_ok H i) svs" "should_retry s"
  shows "prefix (rendered (stream_pane c (map (serve ops encode encode_gap i) svs) s))
      (until_terminal (stream_history H i 0)) \<and>
    (\<forall>sv \<in> set svs. length H \<le> sv_frames sv \<longrightarrow>
      prefix (until_terminal (stream_history (hist (sv_store sv)) i 0))
        (rendered (stream_pane c (map (serve ops encode encode_gap i) svs) s)))"
  using assms(1,2,7,8)
proof (induction svs arbitrary: s)
  case (Cons sv svs)
  let ?s = "foldl apply_incoming s (follow c (serve ops encode encode_gap i sv (resume_from s)))"
  let ?fin = "stream_pane c (map (serve ops encode encode_gap i) svs) ?s"
  have sv: "served_ok H i sv" "list_all (served_ok H i) svs" using Cons.prems(3) by simp_all
  note step = pane_step [OF Cons.prems(1,2,4) H codec sv(1) refl, where encode_gap = encode_gap]
  show ?case
  proof (cases "should_retry ?s")
    case True
    have "prefix (rendered ?s) (rendered ?fin)"
      using pane_ok [OF step(1), of c "map (serve ops encode encode_gap i) svs"]
      by (auto simp: rendered_def prefix_def)
    then show ?thesis
      using Cons.IH [OF step(1,2) sv(2) True] True step(3) by (auto simp: Let_def intro: prefix_order.trans)
  next
    case False
    then have "rendered ?s \<noteq> []" "is_terminal_event (last (rendered ?s))"
      using step(1) by (auto simp: session_ok_def should_retry_def)
    then have closed: "rendered ?s = until_terminal (stream_history H i 0)"
      using until_terminal_closed [OF step(2)] by blast
    have "prefix (until_terminal (stream_history (hist (sv_store w)) i 0)) (rendered ?s)" if "w \<in> set (sv # svs)" for w
    proof -
      have w: "prefix (hist (sv_store w)) H" using that Cons.prems(3) by (auto simp: list_all_iff served_ok_def)
      then have "stream_increasing (hist (sv_store w))" using H(1) by (auto simp: prefix_def dest: stream_increasing_append)
      then have "prefix (stream_history (hist (sv_store w)) i 0) (stream_history H i 0)"
        using w H(1) by (auto simp: stream_history_increasing prefix_def)
      then show ?thesis unfolding closed by (rule until_terminal_mono)
    qed
    then show ?thesis using False step(2) by (auto simp: Let_def)
  qed
qed simp

end

lemma sql_replay_always:
  assumes "sql_inv dec db" "db_faults db = []"
  shows "is_ok (fst (sql_replay dec db k n))"
proof -
  let ?sel = "sort_key row_seq (filter (\<lambda>r. row_key r = k \<and> as_i64 n \<le> row_seq r) (db_rows db))"
  have "list_all (row_ok dec) ?sel" using assms(1) by (auto simp: sql_inv_def list_all_iff)
  then show ?thesis using assms(2) map_result_rows [of dec ?sel] by (simp add: sql_replay_def statement_def)
qed



text \<open>
  The pane never spins and never waits long: between two attempts it waits at least half a second
  and at most fifteen seconds, longer after every failure, and after a connection that delivered a
  new event the failures are counted anew.
\<close>

theorem backoff_bounded:
  "500 \<le> backoff s \<and> backoff s \<le> 15000 \<and> (m \<le> n \<longrightarrow> backoff_for m \<le> backoff_for n) \<and>
   (ss_state s \<noteq> Closed \<longrightarrow> ss_attempt (disconnected s) = min (ss_attempt s + 1) (2 ^ 32 - 1)) \<and>
   (fst (push ev s) \<longrightarrow> ss_attempt (snd (push ev s)) = 0)"
proof -
  have "500 \<le> backoff_for k \<and> backoff_for k \<le> 15000" for k
    by (simp add: backoff_for_def MAX_BACKOFF_def)
  moreover have "backoff_for m \<le> backoff_for n" if "m \<le> n"
  proof (cases "m = 0")
    case True
    then show ?thesis by (simp add: backoff_for_def MAX_BACKOFF_def)
  next
    case False
    have "(2 :: nat) ^ min m 6 \<le> 2 ^ min n 6" using that by (intro power_increasing) auto
    then have "min (500 * 2 ^ min m 6) MAX_BACKOFF \<le> min (500 * 2 ^ min n 6) MAX_BACKOFF"
      by (intro min.mono) auto
    then show ?thesis using False that by (simp add: backoff_for_def)
  qed
  ultimately show ?thesis
    by (auto simp: backoff_def disconnected_def push_def Let_def split: if_splits)
qed

section \<open>Witnesses\<close>

definition sample_codec :: sse_codec where
  "sample_codec =
     \<lparr>sc_event = (\<lambda>t. Inr (row_event gone_dec (sample_row (if t = ''a'' then 1 else 2)))), sc_gap = (\<lambda>_. Inr 0)\<rparr>"

definition sample_served :: "events_db served list" where
  "sample_served =
     [\<lparr>sv_store = \<lparr>db_rows = [sample_row 1], db_next = 2, db_faults = []\<rparr>,
       sv_bus = [(id, row_event gone_dec (sample_row 2))], sv_frames = 1\<rparr>,
      \<lparr>sv_store = sample_db, sv_bus = [], sv_frames = 2\<rparr>]"


theorem backoff_bounded_witness:
  "500 \<le> backoff (stream_session_new ''a'') \<and> backoff_for 2 \<le> backoff_for 3 \<and>
   ss_attempt (disconnected (stream_session_new ''a'')) = 1 \<and>
   ss_attempt (snd (push (row_event gone_dec (sample_row 1)) (stream_session_new ''a''))) = 0"
  using backoff_bounded [of "stream_session_new ''a''" 2 3 "row_event gone_dec (sample_row 1)"]
  by (simp add: stream_session_new_def push_def)

end
