(* ===== verification/Dash_View.thy ===== *)
theory Dash_View
  imports Api_Auth "HOL-Library.Signed_Division" "HOL-Library.Multiset"
begin

text \<open>
  What the dashboard derives from a snapshot (\<open>dashboard/src/view_model.rs\<close>, the status meter of \<open>ui.rs\<close>):
  the counts, the digest that asks for a new usage report, ages, labels and which controls a session is
  offered. Text is UTF-8; \<open>utf8_mdash\<close> and the like spell the characters beyond ASCII.
\<close>

definition utf8_mdash :: string where
  "utf8_mdash = [CHR 0xE2, CHR 0x80, CHR 0x94]"

definition utf8_middot :: string where
  "utf8_middot = [CHR 0xC2, CHR 0xB7]"

section \<open>Counts\<close>

record status_counts =
  sc_running :: nat
  sc_idle :: nat
  sc_spawning :: nat
  sc_done :: nat
  sc_bad :: nat

definition no_counts :: status_counts where
  "no_counts = \<lparr>sc_running = 0, sc_idle = 0, sc_spawning = 0, sc_done = 0, sc_bad = 0\<rparr>"

definition counts_total :: "status_counts \<Rightarrow> nat" where
  "counts_total c = sc_running c + sc_idle c + sc_spawning c + sc_done c + sc_bad c"

fun count_status :: "status_counts \<Rightarrow> agent_status \<Rightarrow> status_counts" where
  "count_status c Running = c\<lparr>sc_running := sc_running c + 1\<rparr>"
| "count_status c Idle = c\<lparr>sc_idle := sc_idle c + 1\<rparr>"
| "count_status c Spawning = c\<lparr>sc_spawning := sc_spawning c + 1\<rparr>"
| "count_status c Done = c\<lparr>sc_done := sc_done c + 1\<rparr>"
| "count_status c _ = c\<lparr>sc_bad := sc_bad c + 1\<rparr>"

definition count_statuses :: "agent list \<Rightarrow> status_counts" where
  "count_statuses agents = foldl (\<lambda>c a. count_status c (agent_status a)) no_counts agents"

record fleet_totals =
  ft_workspaces :: nat
  ft_agents :: nat
  ft_healthy :: nat
  ft_unreachable :: nat
  ft_statuses :: status_counts

definition is_healthy :: "workspace_health \<Rightarrow> bool" where
  "is_healthy h \<longleftrightarrow> h = Healthy"

definition add_counts :: "status_counts \<Rightarrow> status_counts \<Rightarrow> status_counts" where
  "add_counts a b =
     \<lparr>sc_running = sc_running a + sc_running b, sc_idle = sc_idle a + sc_idle b,
      sc_spawning = sc_spawning a + sc_spawning b, sc_done = sc_done a + sc_done b, sc_bad = sc_bad a + sc_bad b\<rparr>"

definition add_workspace_totals :: "fleet_totals \<Rightarrow> workspace \<Rightarrow> fleet_totals" where
  "add_workspace_totals t ws =
     (let t = (if is_healthy (ws_health ws) then t\<lparr>ft_healthy := ft_healthy t + 1\<rparr>
               else t\<lparr>ft_unreachable := ft_unreachable t + 1\<rparr>)
      in t\<lparr>ft_agents := ft_agents t + length (ws_agents ws),
           ft_statuses := add_counts (ft_statuses t) (count_statuses (ws_agents ws))\<rparr>)"

definition totals :: "fleet_snapshot \<Rightarrow> fleet_totals" where
  "totals snap =
     foldl add_workspace_totals
       \<lparr>ft_workspaces = length (workspaces snap), ft_agents = 0, ft_healthy = 0, ft_unreachable = 0,
        ft_statuses = no_counts\<rparr> (workspaces snap)"

text \<open>\<open>activity_key\<close>: \<open>hasher\<close> is \<open>DefaultHasher\<close> over the three values fed to it.\<close>

definition activity_key :: "(string \<Rightarrow> string \<Rightarrow> agent_status \<Rightarrow> nat) \<Rightarrow> fleet_snapshot \<Rightarrow> nat" where
  "activity_key hasher snap =
     foldl (\<lambda>key ws. foldl (\<lambda>key a. (key + hasher (agent_id a) (agent_workspace a) (agent_status a)) mod 2 ^ 64)
              key (ws_agents ws)) 0 (workspaces snap)"

section \<open>The status meter (\<open>ui.rs\<close>)\<close>

definition METER_SEGMENTS :: nat where
  "METER_SEGMENTS = 10"

definition present_tones :: "status_counts \<Rightarrow> (string \<times> nat) list" where
  "present_tones c =
     filter (\<lambda>(_, n). 0 < n)
       [(''live'', sc_running c + sc_spawning c), (''wait'', sc_idle c), (''done'', sc_done c), (''bad'', sc_bad c)]"

text \<open>
  \<open>by_remainder\<close> is the sort of the positions by their remainders, which are floating-point numbers; the
  floors are exact as long as the products stay below 2^53.
\<close>

definition allocate_segments :: "(nat list \<Rightarrow> nat list) \<Rightarrow> status_counts \<Rightarrow> string list" where
  "allocate_segments by_remainder c =
     (let total = counts_total c; present = present_tones c;
          spare = METER_SEGMENTS - length present;
          whole = map (\<lambda>(_, n). n * spare div total) present;
          extra = (if 0 < spare then take (spare - sum_list whole) (by_remainder [0..<length present]) else []);
          alloc = map (\<lambda>i. 1 + (if 0 < spare then whole ! i else 0) + count_list extra i) [0..<length present]
      in if total = 0 then []
         else take METER_SEGMENTS (concat (map2 (\<lambda>(tone, _) k. replicate k tone) present alloc)))"

definition meter_summary :: "status_counts \<Rightarrow> string" where
  "meter_summary c =
     show_nat (sc_running c) @ '' running, '' @ show_nat (sc_spawning c) @ '' spawning, '' @
     show_nat (sc_idle c) @ '' idle, '' @ show_nat (sc_done c) @ '' finished, '' @ show_nat (sc_bad c) @ '' failed''"

section \<open>Labels and controls\<close>

fun status_label :: "agent_status \<Rightarrow> string" where
  "status_label Spawning = ''spawning''"
| "status_label Running = ''running''"
| "status_label Idle = ''idle''"
| "status_label Killed = ''killed''"
| "status_label Done = ''done''"
| "status_label Failed = ''failed''"
| "status_label Crashed = ''crashed''"

fun status_tone :: "agent_status \<Rightarrow> string" where
  "status_tone Running = ''live''"
| "status_tone Spawning = ''live''"
| "status_tone Idle = ''wait''"
| "status_tone Done = ''done''"
| "status_tone _ = ''bad''"

fun health_reason :: "workspace_health \<Rightarrow> string option" where
  "health_reason Healthy = None"
| "health_reason (Unreachable reason) = Some reason"

definition short_id :: "string \<Rightarrow> string" where
  "short_id i = concat (take 8 (utf8_chars i))"

definition launch_note :: "bool \<Rightarrow> string \<Rightarrow> string \<Rightarrow> string" where
  "launch_note created i ws =
     (if created then ''Launched '' @ short_id i @ '' in '' @ ws @ ''.''
      else ''Attached to the existing run '' @ short_id i @ '' in '' @ ws @ '' '' @ utf8_mdash @
           '' an identical prompt was already in flight.'')"

datatype agent_controls = Killable | Finished

fun controls_for :: "agent_status \<Rightarrow> agent_controls" where
  "controls_for Spawning = Killable"
| "controls_for Running = Killable"
| "controls_for Idle = Killable"
| "controls_for _ = Finished"

definition awaits_input :: "agent \<Rightarrow> bool" where
  "awaits_input a \<longleftrightarrow> agent_interactive a \<and> agent_status a = Idle"

definition is_launchable :: "workspace \<Rightarrow> bool" where
  "is_launchable ws \<longleftrightarrow> is_healthy (ws_health ws)"

definition basename :: "string \<Rightarrow> string" where
  "basename path =
     (let name = last (split_on (CHR ''/'') (drop_while_end (\<lambda>c. c = CHR ''/'') path))
      in if name = [] then path else name)"

definition failure_note :: "agent \<Rightarrow> string option" where
  "failure_note a =
     map_option (\<lambda>reason. case agent_detail a of
       Some detail \<Rightarrow> if detail \<noteq> [] then reason @ '' '' @ utf8_mdash @ '' '' @ detail else reason
     | None \<Rightarrow> reason) (agent_reason a)"

fun posture_tag :: "permission_posture \<Rightarrow> (string \<times> string) option" where
  "posture_tag Supervised = None"
| "posture_tag Unattended = Some (''bypass'', ''Unattended: runs every tool without asking for permission'')"

datatype session_state = SsChecking | SsSignedOut "string option" | SsSignedIn session_info

fun permits :: "session_state \<Rightarrow> scope \<Rightarrow> bool" where
  "permits (SsSignedIn SiDisabled) need = True"
| "permits (SsSignedIn (SiToken _ scope _)) need = (need \<le> scope)"
| "permits _ need = False"

fun session_label :: "session_state \<Rightarrow> string option" where
  "session_label (SsSignedIn (SiToken name scope _)) =
     Some (name @ '' '' @ utf8_middot @ '' '' @ scope_as_str scope)"
| "session_label _ = None"

section \<open>Time\<close>

text \<open>\<open>str::get(a..b)\<close>.\<close>

definition str_get :: "string \<Rightarrow> nat \<Rightarrow> nat \<Rightarrow> string option" where
  "str_get s a b =
     (if a \<le> b \<and> is_char_boundary s a \<and> is_char_boundary s b then Some (take (b - a) (drop a s)) else None)"

definition num_at :: "string \<Rightarrow> nat \<Rightarrow> nat \<Rightarrow> int option" where
  "num_at s a b = Option.bind (str_get s a b) parse_i64"

text \<open>\<open>days_from_civil\<close>, inlined in the source; the division of the era truncates towards zero.\<close>

definition days_from_civil :: "int \<Rightarrow> int \<Rightarrow> int \<Rightarrow> int" where
  "days_from_civil y mo d =
     (let y_adj = (if mo \<le> 2 then y - 1 else y);
          era = (if 0 \<le> y_adj then y_adj else y_adj - 399) sdiv 400;
          yoe = y_adj - era * 400;
          mp = (mo + 9) smod 12;
          doy = (153 * mp + 2) sdiv 5 + d - 1;
          doe = yoe * 365 + yoe sdiv 4 - yoe sdiv 100 + doy
      in era * 146097 + doe - 719468)"

text \<open>
  The result is an \<open>f64\<close> that holds a whole number of milliseconds below 2^53, which is exact; here it
  is that number.
\<close>

definition rfc3339_to_millis :: "string \<Rightarrow> int option" where
  "rfc3339_to_millis t =
     (if length t < 19 then None
      else Option.bind (num_at t 0 4) (\<lambda>y. Option.bind (num_at t 5 7) (\<lambda>mo. Option.bind (num_at t 8 10) (\<lambda>d.
           Option.bind (num_at t 11 13) (\<lambda>h. Option.bind (num_at t 14 16) (\<lambda>mi. Option.bind (num_at t 17 19) (\<lambda>s.
             if \<not> (1 \<le> mo \<and> mo \<le> 12) \<or> \<not> (1 \<le> d \<and> d \<le> 31) then None
             else Some ((days_from_civil y mo d * 86400 + h * 3600 + mi * 60 + s) * 1000))))))))"

text \<open>The browser's clock is a whole number of milliseconds (\<open>Date.now\<close>).\<close>

definition elapsed :: "string \<Rightarrow> int \<Rightarrow> string option" where
  "elapsed started now_ms =
     Option.bind (rfc3339_to_millis started) (\<lambda>started_ms.
       let secs = (now_ms - started_ms) div 1000
       in if secs < 0 then None
          else Some (if secs < 60 then show_int secs @ ''s''
                     else if secs < 3600 then show_int (secs div 60) @ ''m''
                     else show_int (secs div 3600) @ ''h''))"

text \<open>\<open>duration_ms\<close> of \<open>timeline.rs\<close>.\<close>

definition duration_ms :: "string \<Rightarrow> string \<Rightarrow> int option" where
  "duration_ms start finish =
     Option.bind (rfc3339_to_millis start) (\<lambda>a. Option.bind (rfc3339_to_millis finish) (\<lambda>b.
       if b - a < 0 then None else Some (b - a)))"

section \<open>Counting\<close>

lemma count_statuses_eq:
  "count_statuses agents =
     \<lparr>sc_running = length (filter (\<lambda>a. agent_status a = Running) agents),
      sc_idle = length (filter (\<lambda>a. agent_status a = Idle) agents),
      sc_spawning = length (filter (\<lambda>a. agent_status a = Spawning) agents),
      sc_done = length (filter (\<lambda>a. agent_status a = Done) agents),
      sc_bad = length (filter (\<lambda>a. agent_status a \<in> {Killed, Failed, Crashed}) agents)\<rparr>"
proof (induction agents rule: rev_induct)
  case (snoc a agents)
  then show ?case by (cases "agent_status a") (simp_all add: count_statuses_def)
qed (simp add: count_statuses_def no_counts_def)

lemma count_statuses_total: "counts_total (count_statuses agents) = length agents"
proof (induction agents)
  case (Cons a agents)
  then show ?case by (cases "agent_status a") (simp_all add: count_statuses_eq counts_total_def)
qed (simp add: count_statuses_eq counts_total_def)

definition all_agents :: "fleet_snapshot \<Rightarrow> agent list" where
  "all_agents snap = concat (map ws_agents (workspaces snap))"

lemma totals_fold:
  "foldl add_workspace_totals t wss =
     \<lparr>ft_workspaces = ft_workspaces t, ft_agents = ft_agents t + length (concat (map ws_agents wss)),
      ft_healthy = ft_healthy t + length (filter (\<lambda>w. ws_health w = Healthy) wss),
      ft_unreachable = ft_unreachable t + length (filter (\<lambda>w. ws_health w \<noteq> Healthy) wss),
      ft_statuses = add_counts (ft_statuses t) (count_statuses (concat (map ws_agents wss)))\<rparr>"
  by (induction wss arbitrary: t)
    (simp_all add: add_workspace_totals_def is_healthy_def Let_def add_counts_def count_statuses_eq)

text \<open>
  The overview adds up: its numbers are those of the agents of the snapshot, each in exactly one
  bucket, finished ones told apart from failed ones, and every workspace is healthy or unreachable.
\<close>

theorem totals_add_up:
  "ft_statuses (totals snap) = count_statuses (all_agents snap) \<and>
   ft_agents (totals snap) = length (all_agents snap) \<and>
   counts_total (ft_statuses (totals snap)) = ft_agents (totals snap) \<and>
   sc_done (ft_statuses (totals snap)) + sc_bad (ft_statuses (totals snap)) =
     length (filter (\<lambda>a. is_terminal (agent_status a)) (all_agents snap)) \<and>
   ft_healthy (totals snap) + ft_unreachable (totals snap) = ft_workspaces (totals snap)"
proof -
  have t: "totals snap = \<lparr>ft_workspaces = length (workspaces snap), ft_agents = length (all_agents snap),
      ft_healthy = length (filter (\<lambda>w. ws_health w = Healthy) (workspaces snap)),
      ft_unreachable = length (filter (\<lambda>w. ws_health w \<noteq> Healthy) (workspaces snap)),
      ft_statuses = count_statuses (all_agents snap)\<rparr>"
    by (simp add: totals_def totals_fold all_agents_def add_counts_def no_counts_def)
  have "length (filter (\<lambda>a. agent_status a = Done) as) +
      length (filter (\<lambda>a. agent_status a \<in> {Killed, Failed, Crashed}) as) =
      length (filter (\<lambda>a. is_terminal (agent_status a)) as)" for as
  proof (induction as)
    case (Cons a as)
    then show ?case by (cases "agent_status a") simp_all
  qed simp
  then show ?thesis
    using sum_length_filter_compl [of "\<lambda>w. ws_health w = Healthy" "workspaces snap"]
    by (simp add: t count_statuses_total) (simp add: count_statuses_eq)
qed

lemma key_fold:
  "foldl (\<lambda>key a. (key + f a) mod n) k as = (if as = [] then k else (k + sum_list (map f as)) mod (n :: nat))"
  by (induction as arbitrary: k) (auto simp: mod_add_left_eq add.assoc)

lemma activity_key_eq:
  "activity_key hasher snap =
     sum_list (map (\<lambda>a. hasher (agent_id a) (agent_workspace a) (agent_status a)) (all_agents snap)) mod 2 ^ 64"
proof -
  have "foldl (\<lambda>key ws. foldl (\<lambda>key a. (key + f a) mod 2 ^ 64) key (ws_agents ws)) (k mod 2 ^ 64) wss =
      (k + sum_list (map f (concat (map ws_agents wss)))) mod 2 ^ 64" for f :: "agent \<Rightarrow> nat" and k wss
  proof (induction wss arbitrary: k)
    case (Cons ws wss)
    have "foldl (\<lambda>key a. (key + f a) mod 2 ^ 64) (k mod 2 ^ 64) (ws_agents ws) =
        (k + sum_list (map f (ws_agents ws))) mod 2 ^ 64"
      by (simp add: key_fold mod_add_left_eq)
    then show ?case using Cons [of "k + sum_list (map f (ws_agents ws))"] by (simp add: add.assoc)
  qed simp
  from this [of _ 0] show ?thesis by (simp add: activity_key_def all_agents_def)
qed

text \<open>
  The digest that decides whether usage is fetched again depends on the agents only: the order of
  the workspaces and of the agents in the snapshot does not matter, nor does anything else in it.
\<close>

theorem activity_key_order:
  assumes "mset (map (\<lambda>a. (agent_id a, agent_workspace a, agent_status a)) (all_agents snap)) =
    mset (map (\<lambda>a. (agent_id a, agent_workspace a, agent_status a)) (all_agents snap'))"
  shows "activity_key hasher snap = activity_key hasher snap'"
proof -
  let ?key = "\<lambda>a. (agent_id a, agent_workspace a, agent_status a)"
  have eq: "sum_list (map (\<lambda>a. hasher (agent_id a) (agent_workspace a) (agent_status a)) as) =
      sum_mset (image_mset (\<lambda>(i, w, s). hasher i w s) (mset (map ?key as)))" for as
    by (simp add: sum_mset_sum_list [symmetric] image_mset.compositionality comp_def)
  show ?thesis unfolding activity_key_eq eq assms ..
qed


section \<open>The meter\<close>

lemma present_total: "sum_list (map snd (present_tones c)) = counts_total c"
  by (simp add: present_tones_def counts_total_def)

lemma floors_fit:
  fixes ns :: "nat list"
  assumes "sum_list ns = m" "0 < m"
  shows "sum_list (map (\<lambda>n. n * k div m) ns) \<le> k"
    "k - sum_list (map (\<lambda>n. n * k div m) ns) \<le> length ns"
proof -
  have split: "sum_list ns * k = m * sum_list (map (\<lambda>n. n * k div m) ns) + sum_list (map (\<lambda>n. n * k mod m) ns)" for ns
    by (induction ns) (simp_all add: algebra_simps)
  then have eq: "m * k = m * sum_list (map (\<lambda>n. n * k div m) ns) + sum_list (map (\<lambda>n. n * k mod m) ns)"
    using assms(1) by metis
  then have "m * sum_list (map (\<lambda>n. n * k div m) ns) \<le> m * k" by linarith
  then show "sum_list (map (\<lambda>n. n * k div m) ns) \<le> k" using assms(2) by simp
  have "sum_list (map (\<lambda>n. n * k mod m) ns) \<le> m * length ns" for ns
  proof (induction ns)
    case (Cons n ns)
    have "n * k mod m \<le> m" using assms(2) by (simp add: less_imp_le)
    then show ?case using Cons by simp
  qed simp
  then have "m * k \<le> m * (sum_list (map (\<lambda>n. n * k div m) ns) + length ns)"
    using eq by (simp add: algebra_simps)
  then show "k - sum_list (map (\<lambda>n. n * k div m) ns) \<le> length ns" using assms(2) by simp
qed

lemma sum_of_bool: "distinct ys \<Longrightarrow> x \<in> set ys \<Longrightarrow> sum_list (map (\<lambda>y. of_bool (x = y)) ys) = (1 :: nat)"
proof (induction ys)
  case (Cons y ys)
  have "x \<notin> set ys \<Longrightarrow> sum_list (map (\<lambda>y. of_bool (x = y)) ys) = (0 :: nat)"
    by (induction ys) auto
  then show ?case using Cons by auto
qed simp

lemma sum_with_one: "sum_list (map (\<lambda>i. 1 + f i + g i) xs) = length xs + sum_list (map f xs) + sum_list (map g xs)"
  by (induction xs) simp_all

lemma sum_count_list:
  "set xs \<subseteq> set ys \<Longrightarrow> distinct ys \<Longrightarrow> sum_list (map (count_list xs) ys) = length xs"
proof (induction xs)
  case (Cons x xs)
  have "sum_list (map (count_list (x # xs)) ys) = sum_list (map (\<lambda>y. count_list xs y + of_bool (x = y)) ys)"
    by (rule arg_cong [where f = sum_list]) (auto simp: fun_eq_iff)
  also have "\<dots> = sum_list (map (count_list xs) ys) + sum_list (map (\<lambda>y. of_bool (x = y)) ys)"
    by (simp add: sum_list_addf)
  also have "sum_list (map (\<lambda>y. of_bool (x = y)) ys) = (1 :: nat)"
    using Cons.prems by (intro sum_of_bool) simp_all
  finally show ?case using Cons by simp
qed simp

lemma length_meter:
  "length ks = length bs \<Longrightarrow> length (concat (map2 (\<lambda>(tone, _) k. replicate k tone) bs ks)) = sum_list ks"
  by (induction ks bs rule: list_induct2) (auto split: prod.splits)

lemma set_meter:
  "length ks = length bs \<Longrightarrow> list_all (\<lambda>k. 0 < k) ks \<Longrightarrow>
   set (concat (map2 (\<lambda>(tone, _) k. replicate k tone) bs ks)) = fst ` set bs"
  by (induction ks bs rule: list_induct2) (auto split: prod.splits)

text \<open>
  The status meter shows every state that occurs: as soon as a workspace has agents it has exactly
  ten segments, one at least for each tone present and none for another, and what is shared out
  never exceeds what is left, so the subtraction cannot underflow, however the remainders are sorted.
\<close>

theorem meter_shows_every_state:
  assumes "counts_total c \<noteq> 0" "\<And>xs. mset (by_remainder xs) = mset xs"
  shows "length (allocate_segments by_remainder c) = METER_SEGMENTS \<and>
    set (allocate_segments by_remainder c) = fst ` set (present_tones c) \<and>
    sum_list (map (\<lambda>(_, n). n * (METER_SEGMENTS - length (present_tones c)) div counts_total c) (present_tones c))
      \<le> METER_SEGMENTS - length (present_tones c)"
proof -
  let ?p = "present_tones c" and ?total = "counts_total c"
  let ?spare = "METER_SEGMENTS - length ?p"
  let ?whole = "map (\<lambda>(_, n). n * ?spare div ?total) ?p"
  let ?extra = "take (?spare - sum_list ?whole) (by_remainder [0..<length ?p])"
  let ?alloc = "map (\<lambda>i. 1 + ?whole ! i + count_list ?extra i) [0..<length ?p]"
  have spare: "0 < ?spare" "length ?p + ?spare = METER_SEGMENTS"
    by (simp_all add: METER_SEGMENTS_def present_tones_def)
  have whole: "?whole = map (\<lambda>n. n * ?spare div ?total) (map snd ?p)" by (simp add: case_prod_unfold comp_def)
  have fits: "sum_list ?whole \<le> ?spare" "?spare - sum_list ?whole \<le> length ?p"
    using floors_fit [OF present_total, of c ?spare] assms(1) unfolding whole by simp_all
  have set_order: "set (by_remainder [0..<length ?p]) = set [0..<length ?p]"
      "length (by_remainder [0..<length ?p]) = length ?p"
    using mset_eq_setD [OF assms(2)] mset_eq_length [OF assms(2), of "[0..<length ?p]"] by simp_all
  have extra: "sum_list (map (count_list ?extra) [0..<length ?p]) = ?spare - sum_list ?whole"
    using sum_count_list [of ?extra "[0..<length ?p]"] set_order fits(2) by (auto dest: in_set_takeD)
  have "sum_list ?alloc = length ?p + sum_list (map ((!) ?whole) [0..<length ?p]) +
      sum_list (map (count_list ?extra) [0..<length ?p])"
    unfolding sum_with_one by simp
  also have "map ((!) ?whole) [0..<length ?p] = ?whole"
    using map_nth [of ?whole] by (simp only: length_map)
  finally have sum: "sum_list ?alloc = METER_SEGMENTS"
    unfolding extra using fits(1) spare(2) by linarith
  have alloc: "length ?alloc = length ?p" "list_all (\<lambda>k. 0 < k) ?alloc" by (simp_all add: list_all_iff)
  have "allocate_segments by_remainder c = concat (map2 (\<lambda>(tone, _) k. replicate k tone) ?p ?alloc)"
    using spare(1) assms(1) length_meter [OF alloc(1)] sum
    by (simp add: allocate_segments_def Let_def)
  then show ?thesis
    using length_meter [OF alloc(1)] set_meter [OF alloc] sum fits(1) by simp
qed

theorem activity_key_order_witness:
  "activity_key (\<lambda>i w s. length i + length w)
     \<lparr>host = ''h'', workspaces = [\<lparr>ws_name = ''a'', ws_root = [], ws_sources = [], ws_health = Healthy,
        ws_config = default_provider_config, ws_agents = []\<rparr>]\<rparr> =
   activity_key (\<lambda>i w s. length i + length w) \<lparr>host = [], workspaces = []\<rparr>"
  by (rule activity_key_order) (simp add: all_agents_def)

theorem meter_shows_every_state_witness:
  "length (allocate_segments rev \<lparr>sc_running = 49, sc_idle = 2, sc_spawning = 0, sc_done = 0, sc_bad = 0\<rparr>) = 10 \<and>
   set (allocate_segments rev \<lparr>sc_running = 49, sc_idle = 2, sc_spawning = 0, sc_done = 0, sc_bad = 0\<rparr>) =
     {''live'', ''wait''}"
  using meter_shows_every_state [of "\<lparr>sc_running = 49, sc_idle = 2, sc_spawning = 0, sc_done = 0, sc_bad = 0\<rparr>" rev]
  by (simp add: counts_total_def present_tones_def METER_SEGMENTS_def)

section \<open>The calendar\<close>

text \<open>The reference: the Gregorian calendar, one day after the other.\<close>

definition leap_year :: "nat \<Rightarrow> bool" where
  "leap_year y \<longleftrightarrow> 4 dvd y \<and> (\<not> 100 dvd y \<or> 400 dvd y)"

definition month_length :: "nat \<Rightarrow> nat \<Rightarrow> nat" where
  "month_length y mo = (if mo = 2 then (if leap_year y then 29 else 28) else if mo \<in> {4, 6, 9, 11} then 30 else 31)"

fun next_date :: "nat \<times> nat \<times> nat \<Rightarrow> nat \<times> nat \<times> nat" where
  "next_date (y, mo, d) =
     (if d < month_length y mo then (y, mo, d + 1) else if mo < 12 then (y, mo + 1, 1) else (y + 1, 1, 1))"

definition date_after :: "nat \<Rightarrow> nat \<times> nat \<times> nat" where
  "date_after n = (next_date ^^ n) (1970, 1, 1)"

fun valid_date :: "nat \<times> nat \<times> nat \<Rightarrow> bool" where
  "valid_date (y, mo, d) \<longleftrightarrow> 1970 \<le> y \<and> 1 \<le> mo \<and> mo \<le> 12 \<and> 1 \<le> d \<and> d \<le> month_length y mo"

lemma month_length_bounds: "28 \<le> month_length y mo" "month_length y mo \<le> 31"
  by (simp_all add: month_length_def)

lemma next_date_valid: "valid_date p \<Longrightarrow> valid_date (next_date p)"
proof (induction p rule: next_date.induct)
  case (1 y mo d)
  show ?case using 1 month_length_bounds(1) [of y "mo + 1"] month_length_bounds(1) [of "y + 1" 1] by auto
qed

lemma date_after_valid: "valid_date (date_after n)"
proof (induction n)
  case (Suc n)
  then show ?case using next_date_valid by (simp add: date_after_def)
qed (simp add: date_after_def month_length_def)

text \<open>The days before a year that begins in March, in closed form.\<close>

definition march_days :: "int \<Rightarrow> int" where
  "march_days y = 365 * y + y div 4 - y div 100 + y div 400"

lemma sdiv_pos: "0 \<le> k \<Longrightarrow> 0 < l \<Longrightarrow> k sdiv l = k div (l :: int)"
  by (cases "k = 0") (simp_all add: signed_divide_int_def)

lemma smod_pos: "0 \<le> k \<Longrightarrow> 0 < l \<Longrightarrow> k smod l = k mod (l :: int)"
  by (cases "k = 0") (simp_all add: signed_modulo_int_def)

lemma march_days_split:
  fixes y :: int
  shows "y div 400 * 146097 + (y mod 400 * 365 + y mod 400 div 4 - y mod 400 div 100) = march_days y"
proof -
  have y: "y = y mod 400 + y div 400 * 400" by simp
  have "y div 4 = (y mod 400 + (100 * (y div 400)) * 4) div 4" using y by simp
  also have "\<dots> = y mod 400 div 4 + 100 * (y div 400)" by (subst div_mult_self1) simp_all
  finally have 4: "y div 4 = y mod 400 div 4 + 100 * (y div 400)" .
  have "y div 100 = (y mod 400 + (4 * (y div 400)) * 100) div 100" using y by simp
  also have "\<dots> = y mod 400 div 100 + 4 * (y div 400)" by (subst div_mult_self1) simp_all
  finally have 100: "y div 100 = y mod 400 div 100 + 4 * (y div 400)" .
  show ?thesis unfolding march_days_def 4 100 using y by linarith
qed

lemma div_step:
  fixes x k :: int
  assumes "0 < k"
  shows "(x - 1) div k = x div k - of_bool (k dvd x)"
proof (cases "k dvd x")
  case True
  then obtain q where q: "x = k * q" by blast
  have "(x - 1) div k = q - 1"
    by (rule int_div_pos_eq [of _ _ _ "k - 1"]) (use assms in \<open>simp_all add: q algebra_simps\<close>)
  then show ?thesis using True assms q by simp
next
  case False
  then have r: "0 < x mod k" using assms by (simp add: dvd_eq_mod_eq_0 order_less_le)
  have "(x - 1) div k = x div k"
    by (rule int_div_pos_eq [of _ _ _ "x mod k - 1"]) (use assms r pos_mod_bound [OF assms, of x] in \<open>simp_all add: algebra_simps\<close>)
  then show ?thesis using False by simp
qed

lemma march_days_step:
  "march_days (int y) = march_days (int y - 1) + (if leap_year y then 366 else 365)"
proof -
  have dvds: "(4 dvd int y) = (4 dvd y)" "(100 dvd int y) = (100 dvd y)" "(400 dvd int y) = (400 dvd y)"
    using int_dvd_int_iff [of 4 y] int_dvd_int_iff [of 100 y] int_dvd_int_iff [of 400 y] by simp_all
  have steps: "(int y - 1) div 4 = int y div 4 - of_bool (4 dvd y)"
      "(int y - 1) div 100 = int y div 100 - of_bool (100 dvd y)"
      "(int y - 1) div 400 = int y div 400 - of_bool (400 dvd y)"
    using div_step [of 4 "int y"] div_step [of 100 "int y"] div_step [of 400 "int y"] dvds by simp_all
  have "400 dvd y \<Longrightarrow> 100 dvd y" "100 dvd y \<Longrightarrow> 4 dvd y"
    using dvd_trans [of 100 400 y] dvd_trans [of 4 100 y] by simp_all
  then show ?thesis
    unfolding march_days_def steps leap_year_def
    by (cases "4 dvd y"; cases "100 dvd y"; cases "400 dvd y") simp_all
qed

lemma days_closed:
  assumes "1 \<le> y" "1 \<le> mo" "mo \<le> 12" "1 \<le> d"
  shows "days_from_civil y mo d =
    march_days (if mo \<le> 2 then y - 1 else y) + (153 * ((mo + 9) mod 12) + 2) div 5 + d - 719469"
proof -
  let ?y = "if mo \<le> 2 then y - 1 else y"
  have y: "0 \<le> ?y" using assms(1) by simp
  have yoe: "?y - ?y div 400 * 400 = ?y mod 400" by (simp add: minus_div_mult_eq_mod)
  have "days_from_civil y mo d = ?y div 400 * 146097 + (?y mod 400 * 365 + ?y mod 400 div 4 - ?y mod 400 div 100) +
      ((153 * ((mo + 9) mod 12) + 2) div 5 + d - 1) - 719468"
    using y assms(2) unfolding days_from_civil_def Let_def
    by (simp only: if_P sdiv_pos smod_pos yoe zero_less_numeral)
  then show ?thesis unfolding march_days_split by linarith
qed

lemma days_step:
  assumes "1 \<le> y" "1 \<le> mo" "mo \<le> 12" "1 \<le> d" "d \<le> month_length y mo" "next_date (y, mo, d) = (y', mo', d')"
  shows "days_from_civil (int y') (int mo') (int d') = days_from_civil (int y) (int mo) (int d) + 1"
proof (cases "d < month_length y mo")
  case True
  then show ?thesis using assms by (auto simp: days_closed)
next
  case False
  then have d: "d = month_length y mo" using assms(5) by simp
  have "mo \<in> {1, 2, 3, 4, 5, 6, 7, 8, 9, 10, 11, 12}"
    using assms(2,3) unfolding insert_iff empty_iff by presburger
  then show ?thesis
    using assms(1,6) d march_days_step [of y]
    by (elim insertE emptyE) (auto simp: days_closed month_length_def)
qed

lemma days_after: "case date_after n of (y, mo, d) \<Rightarrow> days_from_civil (int y) (int mo) (int d) = int n"
proof (induction n)
  case 0
  show ?case by (simp add: date_after_def days_closed march_days_def)
next
  case (Suc n)
  obtain y mo d where p: "date_after n = (y, mo, d)" by (metis prod_cases3)
  obtain y' mo' d' where q: "next_date (y, mo, d) = (y', mo', d')" by (metis prod_cases3)
  have "date_after (Suc n) = (y', mo', d')" using p q by (simp add: date_after_def)
  then show ?case using Suc p days_step [OF _ _ _ _ _ q] date_after_valid [of n] by simp
qed

definition pad2 :: "nat \<Rightarrow> string" where
  "pad2 n = [byte (48 + n div 10 mod 10), byte (48 + n mod 10)]"

definition stamp :: "nat \<times> nat \<times> nat \<Rightarrow> nat \<Rightarrow> nat \<Rightarrow> nat \<Rightarrow> string" where
  "stamp p h mi s =
     (case p of (y, mo, d) \<Rightarrow>
        pad2 (y div 100) @ pad2 (y mod 100) @ ''-'' @ pad2 mo @ ''-'' @ pad2 d @ ''T'' @
        pad2 h @ '':'' @ pad2 mi @ '':'' @ pad2 s)"

lemma parse_digit_bytes:
  assumes "list_all is_ascii_digit ds" "ds \<noteq> []" "digits_value ds < 2 ^ 63"
  shows "parse_i64 ds = Some (int (digits_value ds))"
proof -
  have "hd ds \<noteq> CHR ''-''" "hd ds \<noteq> CHR ''+''"
    using assms(1,2) by (cases ds; auto)+
  then have "strip_prefix ''-'' ds = None" "strip_prefix ''+'' ds = None"
    using assms(2) by (cases ds; simp add: strip_prefix_def)+
  then show ?thesis using assms by (simp add: parse_i64_def parse_digits_def)
qed

lemma pad2_digits: "list_all is_ascii_digit (pad2 n)" "length (pad2 n) = 2"
  by (simp_all add: pad2_def digit_byte)

lemma pad2_value: "n < 100 \<Longrightarrow> digits_value (pad2 n) = n"
  by (simp add: pad2_def digits_value_def)

lemma pad4_value: "y < 10000 \<Longrightarrow> digits_value (pad2 (y div 100) @ pad2 (y mod 100)) = y"
  by (simp add: pad2_def digits_value_def)

lemma digit_boundary: "is_ascii_digit c \<Longrightarrow> \<not> is_cont_byte c"
  by (auto simp: is_ascii_digit_def is_cont_byte_def of_char_def)


lemma num_at_digits:
  assumes t: "t = a @ ds @ b" and "length a = i" "i + length ds = j"
    and ds: "ds \<noteq> []" "list_all is_ascii_digit ds" "digits_value ds < 2 ^ 63"
    and b: "b = [] \<or> \<not> is_cont_byte (hd b)"
  shows "num_at t i j = Some (int (digits_value ds))"
proof -
  have "\<not> is_cont_byte (hd ds)" using ds(1,2) digit_boundary by (cases ds) auto
  then have "is_char_boundary t i" using assms(2) ds(1) by (auto simp: is_char_boundary_def t nth_append hd_conv_nth)
  moreover have "is_char_boundary t j"
    using b assms(2,3) by (cases b) (auto simp: is_char_boundary_def t nth_append)
  moreover have "take (j - i) (drop i t) = ds" using assms(2,3) by (auto simp: t)
  ultimately show ?thesis
    using assms(3) parse_digit_bytes [OF ds(2,1,3)] by (simp add: num_at_def str_get_def)
qed

lemma num_at_pad2:
  assumes "t = a @ pad2 k @ b" "length a = i" "j = i + 2" "k < 100" "b = [] \<or> \<not> is_cont_byte (hd b)"
  shows "num_at t i j = Some (int k)"
proof -
  have "num_at t i j = Some (int (digits_value (pad2 k)))"
    by (rule num_at_digits [OF assms(1,2) _ _ pad2_digits(1) _ assms(5)])
      (use assms in \<open>simp_all add: pad2_digits pad2_value, simp add: pad2_def\<close>)
  then show ?thesis using assms(4) by (simp add: pad2_value)
qed



end
