(* ===== verification/Dash_Timeline.thy ===== *)
theory Dash_Timeline
  imports Dash_Stream Dash_View
begin

text \<open>
  How a delivered stream reads (\<open>dashboard/src/timeline.rs\<close>): runs of output and of thinking become one
  block each, and the start of a tool call is shown with its finish. Indices into the segments are kept
  as the code keeps them.
\<close>

section \<open>Segments\<close>

datatype tool_outcome = ToolRunning | ToolOk | ToolFailed

fun outcome_label :: "tool_outcome \<Rightarrow> string" where
  "outcome_label ToolRunning = ''running''"
| "outcome_label ToolOk = ''ok''"
| "outcome_label ToolFailed = ''failed''"

fun outcome_tone :: "tool_outcome \<Rightarrow> string" where
  "outcome_tone ToolRunning = ''tone-running''"
| "outcome_tone ToolOk = ''tone-done''"
| "outcome_tone ToolFailed = ''tone-bad''"

record tool_call =
  tc_seq :: nat
  tc_id :: string
  tc_name :: string
  tc_input :: json
  tc_outcome :: tool_outcome
  tc_duration_ms :: "int option"
  tc_result :: "string option"
  tc_result_truncated :: bool

datatype result_view = ResultPending | ResultUnrecorded | ResultText string bool

definition result_view :: "tool_call \<Rightarrow> result_view" where
  "result_view t =
     (case tc_result t of
        Some text \<Rightarrow> ResultText text (tc_result_truncated t)
      | None \<Rightarrow> if tc_outcome t = ToolRunning then ResultPending else ResultUnrecorded)"

datatype segment =
    SegInit string "string list" string
  | SegOutput string
  | SegThinking string
  | SegTool tool_call
  | SegStatus agent_status agent_status
  | SegFinished string f64 nat
  | SegGap nat
  | SegUndecodable string
  | SegOther string

definition utf8_arrow :: string where
  "utf8_arrow = [CHR 0xE2, CHR 0x86, CHR 0x92]"

fun kind_label :: "event_kind \<Rightarrow> string" where
  "kind_label (AgentInit model _ _) = ''init '' @ utf8_middot @ '' '' @ model"
| "kind_label (StatusChanged from' to) = status_label from' @ '' '' @ utf8_arrow @ '' '' @ status_label to"
| "kind_label (StorePersistFailed lost_seq _) = ''store append failed at seq '' @ show_nat lost_seq"
| "kind_label (RepoHealth _) = ''workspace health''"
| "kind_label _ = ''event''"

section \<open>\<open>group\<close>\<close>

record grouping =
  gr_segs :: "segment list"
  gr_output :: "nat option"
  gr_thinking :: "nat option"
  gr_tools :: "nat list"
  gr_started :: "nat \<rightharpoonup> string"

definition grouping_new :: grouping where
  "grouping_new = \<lparr>gr_segs = [], gr_output = None, gr_thinking = None, gr_tools = [], gr_started = Map.empty\<rparr>"

fun push_text :: "string \<Rightarrow> segment \<Rightarrow> segment" where
  "push_text chunk (SegOutput text) = SegOutput (text @ chunk)"
| "push_text chunk (SegThinking text) = SegThinking (text @ chunk)"
| "push_text chunk s = s"

text \<open>A segment that is neither output nor thinking: it closes the open block.\<close>

definition push_seg :: "segment \<Rightarrow> grouping \<Rightarrow> grouping" where
  "push_seg s g = g\<lparr>gr_segs := gr_segs g @ [s], gr_output := None, gr_thinking := None\<rparr>"

definition group_stdout :: "string \<Rightarrow> grouping \<Rightarrow> grouping" where
  "group_stdout chunk g =
     (case gr_output g of
        Some i \<Rightarrow> g\<lparr>gr_thinking := None, gr_segs := (gr_segs g)[i := push_text chunk (gr_segs g ! i)]\<rparr>
      | None \<Rightarrow> g\<lparr>gr_thinking := None, gr_segs := gr_segs g @ [SegOutput chunk],
                  gr_output := Some (length (gr_segs g))\<rparr>)"

definition group_thinking :: "string \<Rightarrow> grouping \<Rightarrow> grouping" where
  "group_thinking chunk g =
     (case gr_thinking g of
        Some i \<Rightarrow> g\<lparr>gr_output := None, gr_segs := (gr_segs g)[i := push_text chunk (gr_segs g ! i)]\<rparr>
      | None \<Rightarrow> g\<lparr>gr_output := None, gr_segs := gr_segs g @ [SegThinking chunk],
                  gr_thinking := Some (length (gr_segs g))\<rparr>)"

definition new_call :: "nat \<Rightarrow> string \<Rightarrow> string \<Rightarrow> json \<Rightarrow> tool_call" where
  "new_call n i name input =
     \<lparr>tc_seq = n, tc_id = i, tc_name = name, tc_input = input, tc_outcome = ToolRunning,
      tc_duration_ms = None, tc_result = None, tc_result_truncated = False\<rparr>"

definition finish_call :: "bool \<Rightarrow> int option \<Rightarrow> string option \<Rightarrow> bool \<Rightarrow> tool_call \<Rightarrow> tool_call" where
  "finish_call ok dur r truncated t =
     t\<lparr>tc_outcome := (if ok then ToolOk else ToolFailed), tc_duration_ms := dur, tc_result := r,
       tc_result_truncated := truncated\<rparr>"

fun seg_call_id :: "segment \<Rightarrow> string option" where
  "seg_call_id (SegTool t) = Some (tc_id t)"
| "seg_call_id _ = None"

fun on_call :: "(tool_call \<Rightarrow> tool_call) \<Rightarrow> segment \<Rightarrow> segment" where
  "on_call f (SegTool t) = SegTool (f t)"
| "on_call f s = s"

definition find_call :: "string \<Rightarrow> grouping \<Rightarrow> nat option" where
  "find_call i g =
     (let oldest = (case gr_tools g of [] \<Rightarrow> None | k # _ \<Rightarrow> Some k)
      in if i = [] then oldest
         else case find (\<lambda>k. seg_call_id (gr_segs g ! k) = Some i) (gr_tools g) of
                Some k \<Rightarrow> Some k
              | None \<Rightarrow> oldest)"

definition group_finish :: "string \<Rightarrow> string \<Rightarrow> bool \<Rightarrow> string option \<Rightarrow> bool \<Rightarrow> grouping \<Rightarrow> grouping" where
  "group_finish at i ok r truncated g =
     (case find_call i g of
        None \<Rightarrow> g
      | Some k \<Rightarrow>
          let dur = Option.bind (gr_started g k) (\<lambda>s. duration_ms s at)
          in g\<lparr>gr_segs := (gr_segs g)[k := on_call (finish_call ok dur r truncated) (gr_segs g ! k)],
               gr_tools := filter (\<lambda>x. x \<noteq> k) (gr_tools g), gr_started := (gr_started g)(k := None)\<rparr>)"

definition group_start :: "fleet_event \<Rightarrow> string \<Rightarrow> string \<Rightarrow> json \<Rightarrow> grouping \<Rightarrow> grouping" where
  "group_start e i name input g =
     (let at = length (gr_segs g)
      in (push_seg (SegTool (new_call (seq e) i name input)) g)
           \<lparr>gr_tools := gr_tools g @ [at], gr_started := (gr_started g)(at \<mapsto> ts e)\<rparr>)"

definition group_event :: "fleet_event \<Rightarrow> grouping \<Rightarrow> grouping" where
  "group_event e g =
     (case kind e of
        Output Stdout chunk \<Rightarrow> group_stdout chunk g
      | Output Thinking chunk \<Rightarrow> group_thinking chunk g
      | AgentInit model tools session_id \<Rightarrow> push_seg (SegInit model tools session_id) g
      | ToolStarted i name input \<Rightarrow> group_start e i name input g
      | ToolFinished i _ ok r truncated \<Rightarrow> group_finish (ts e) i ok r truncated g
      | StatusChanged from' to \<Rightarrow> push_seg (SegStatus from' to) g
      | AgentFinished outcome cost turns \<Rightarrow> push_seg (SegFinished outcome cost turns) g
      | other \<Rightarrow> push_seg (SegOther (kind_label other)) g)"

fun group_entry :: "grouping \<Rightarrow> entry \<Rightarrow> grouping" where
  "group_entry g (EntryGap skipped) = push_seg (SegGap skipped) g"
| "group_entry g (EntryUndecodable why) = push_seg (SegUndecodable why) g"
| "group_entry g (EntryEvent e) = group_event e g"

definition group :: "entry list \<Rightarrow> segment list" where
  "group entries = gr_segs (foldl group_entry grouping_new entries)"

section \<open>What a timeline says\<close>

text \<open>
  The text of a timeline and of a stream, character by character, with everything else at its place.
\<close>

datatype mark = MarkText output_stream char | MarkCall nat string string json | MarkSeg segment

fun seg_marks :: "segment \<Rightarrow> mark list" where
  "seg_marks (SegOutput text) = map (MarkText Stdout) text"
| "seg_marks (SegThinking text) = map (MarkText Thinking) text"
| "seg_marks (SegTool t) = [MarkCall (tc_seq t) (tc_id t) (tc_name t) (tc_input t)]"
| "seg_marks s = [MarkSeg s]"

fun entry_marks :: "entry \<Rightarrow> mark list" where
  "entry_marks (EntryGap n) = [MarkSeg (SegGap n)]"
| "entry_marks (EntryUndecodable why) = [MarkSeg (SegUndecodable why)]"
| "entry_marks (EntryEvent e) =
     (case kind e of
        Output s chunk \<Rightarrow> map (MarkText s) chunk
      | ToolStarted i name input \<Rightarrow> [MarkCall (seq e) i name input]
      | ToolFinished _ _ _ _ _ \<Rightarrow> []
      | AgentInit model tools session_id \<Rightarrow> [MarkSeg (SegInit model tools session_id)]
      | StatusChanged from' to \<Rightarrow> [MarkSeg (SegStatus from' to)]
      | AgentFinished outcome cost turns \<Rightarrow> [MarkSeg (SegFinished outcome cost turns)]
      | other \<Rightarrow> [MarkSeg (SegOther (kind_label other))])"

definition marks :: "segment list \<Rightarrow> mark list" where
  "marks segs = concat (map seg_marks segs)"

fun block :: "segment \<Rightarrow> output_stream option" where
  "block (SegOutput _) = Some Stdout"
| "block (SegThinking _) = Some Thinking"
| "block _ = None"

definition coalesced :: "segment list \<Rightarrow> bool" where
  "coalesced segs \<longleftrightarrow> successively (\<lambda>a b. a = None \<or> a \<noteq> b) (map block segs)"

definition open_block :: "output_stream \<Rightarrow> segment list \<Rightarrow> nat option" where
  "open_block s segs =
     (if segs \<noteq> [] \<and> block (last segs) = Some s then Some (length segs - 1) else None)"

definition blocks_open :: "grouping \<Rightarrow> bool" where
  "blocks_open g \<longleftrightarrow>
     gr_output g = open_block Stdout (gr_segs g) \<and> gr_thinking g = open_block Thinking (gr_segs g) \<and>
     coalesced (gr_segs g)"

lemma marks_append [simp]: "marks (xs @ ys) = marks xs @ marks ys"
  by (simp add: marks_def)

lemma marks_single [simp]: "marks [s] = seg_marks s"
  by (simp add: marks_def)

lemma coalesced_snoc:
  "coalesced (segs @ [s]) \<longleftrightarrow>
     coalesced segs \<and> (segs = [] \<or> block (last segs) = None \<or> block (last segs) \<noteq> block s)"
  by (auto simp: coalesced_def successively_append_iff last_map)

lemma coalesced_cong: "map block segs = map block segs' \<Longrightarrow> coalesced segs = coalesced segs'"
  by (simp add: coalesced_def)

lemma block_on_call [simp]: "block (on_call f s) = block s"
  by (cases s) auto

lemma block_push_text [simp]: "block (push_text c s) = block s"
  by (cases s) auto

lemma map_update_same: "f s = f (segs ! k) \<Longrightarrow> map f (segs[k := s]) = map f segs"
  by (cases "k < length segs") (simp_all add: map_update list_update_same_conv list_update_beyond)

lemma open_block_cong:
  assumes "map block segs = map block segs'"
  shows "open_block s segs = open_block s segs'"
proof -
  have "length segs = length segs'" using assms by (metis length_map)
  moreover have "segs \<noteq> [] \<Longrightarrow> block (last segs) = block (last segs')"
    using assms by (metis last_map list.map_disc_iff)
  ultimately show ?thesis by (cases "segs = []") (auto simp: open_block_def)
qed

lemma open_block_snoc [simp]:
  "open_block s (segs @ [x]) = (if block x = Some s then Some (length segs) else None)"
  by (simp add: open_block_def)

lemma open_blockD:
  assumes "open_block s segs = Some i"
  obtains ini x where "segs = ini @ [x]" "i = length ini" "block x = Some s"
  using assms that by (cases segs rule: rev_cases) (auto simp: open_block_def split: if_splits)

lemma grouping_new_open: "blocks_open grouping_new"
  by (simp add: blocks_open_def grouping_new_def open_block_def coalesced_def)

lemma push_seg_open:
  assumes "blocks_open g" "block s = None"
  shows "blocks_open (push_seg s g) \<and> marks (gr_segs (push_seg s g)) = marks (gr_segs g) @ seg_marks s"
  using assms by (auto simp: blocks_open_def push_seg_def coalesced_snoc)

lemma group_stdout_open:
  assumes "blocks_open g"
  shows "blocks_open (group_stdout c g) \<and>
         marks (gr_segs (group_stdout c g)) = marks (gr_segs g) @ map (MarkText Stdout) c"
proof (cases "gr_output g")
  case None
  then have "gr_segs g = [] \<or> block (last (gr_segs g)) \<noteq> Some Stdout"
    using assms by (auto simp: blocks_open_def open_block_def split: if_splits)
  then show ?thesis using assms None by (auto simp: blocks_open_def group_stdout_def coalesced_snoc)
next
  case (Some i)
  then obtain ini x where x: "gr_segs g = ini @ [x]" "i = length ini" "block x = Some Stdout"
    using assms by (metis blocks_open_def open_blockD)
  then obtain tx where "x = SegOutput tx" by (cases x) auto
  then show ?thesis using assms x Some by (auto simp: blocks_open_def group_stdout_def coalesced_snoc)
qed

lemma group_thinking_open:
  assumes "blocks_open g"
  shows "blocks_open (group_thinking c g) \<and>
         marks (gr_segs (group_thinking c g)) = marks (gr_segs g) @ map (MarkText Thinking) c"
proof (cases "gr_thinking g")
  case None
  then have "gr_segs g = [] \<or> block (last (gr_segs g)) \<noteq> Some Thinking"
    using assms by (auto simp: blocks_open_def open_block_def split: if_splits)
  then show ?thesis using assms None by (auto simp: blocks_open_def group_thinking_def coalesced_snoc)
next
  case (Some i)
  then obtain ini x where x: "gr_segs g = ini @ [x]" "i = length ini" "block x = Some Thinking"
    using assms by (metis blocks_open_def open_blockD)
  then obtain tx where "x = SegThinking tx" by (cases x) auto
  then show ?thesis using assms x Some by (auto simp: blocks_open_def group_thinking_def coalesced_snoc)
qed

lemma seg_marks_on_finish [simp]: "seg_marks (on_call (finish_call ok dur r tr) s) = seg_marks s"
  by (cases s) (auto simp: finish_call_def)

lemma marks_update: "seg_marks s = seg_marks (segs ! k) \<Longrightarrow> marks (segs[k := s]) = marks segs"
  by (simp add: marks_def map_update_same)

lemma group_finish_open:
  assumes "blocks_open g"
  shows "blocks_open (group_finish at i ok r tr g) \<and> marks (gr_segs (group_finish at i ok r tr g)) = marks (gr_segs g)"
proof (cases "find_call i g")
  case None
  then show ?thesis using assms by (simp add: group_finish_def)
next
  case (Some k)
  let ?segs = "(gr_segs g)[k := on_call (finish_call ok (Option.bind (gr_started g k) (\<lambda>s. duration_ms s at)) r tr) (gr_segs g ! k)]"
  have b: "map block ?segs = map block (gr_segs g)" by (simp add: map_update_same)
  show ?thesis
    using assms Some open_block_cong [OF b] coalesced_cong [OF b]
    by (simp add: group_finish_def blocks_open_def Let_def marks_update)
qed

lemma group_entry_open:
  assumes "blocks_open g"
  shows "blocks_open (group_entry g e) \<and> marks (gr_segs (group_entry g e)) = marks (gr_segs g) @ entry_marks e"
proof (cases e)
  case (EntryEvent ev)
  have start: "blocks_open (group_start ev i n inp g) \<longleftrightarrow> blocks_open (push_seg (SegTool (new_call (seq ev) i n inp)) g)"
    "gr_segs (group_start ev i n inp g) = gr_segs (push_seg (SegTool (new_call (seq ev) i n inp)) g)" for i n inp
    by (simp_all add: group_start_def blocks_open_def Let_def)
  show ?thesis
    using EntryEvent assms start
    by (auto simp: group_event_def push_seg_open group_stdout_open group_thinking_open group_finish_open new_call_def
        split: event_kind.splits output_stream.splits)
qed (use assms in \<open>simp_all add: push_seg_open\<close>)

lemma group_fold_open:
  "blocks_open (foldl group_entry grouping_new es) \<and>
   marks (gr_segs (foldl group_entry grouping_new es)) = concat (map entry_marks es)"
  by (induction es rule: rev_induct)
    (simp_all add: grouping_new_open group_entry_open, simp add: grouping_new_def marks_def)

text \<open>
  A timeline reads as the stream it was made of: the output and the thinking, character by character,
  every start of a tool call, every gap, every frame that did not decode and every other event are
  there once and in the order of their arrival, whatever is interleaved, and no two adjacent segments
  are output of the same stream.
\<close>

theorem group_reads_in_order:
  "marks (group es) = concat (map entry_marks es) \<and> coalesced (group es)"
  using group_fold_open [of es] by (simp add: group_def blocks_open_def)

section \<open>Tool calls and their results\<close>

text \<open>
  The reference: the starts and the finishes of a stream, and the call that a start and the finish of its
  id make. \<open>well_paired\<close>: ids are not empty, no id starts or finishes twice, and a finish comes after its
  start.
\<close>

fun starting :: "entry \<Rightarrow> (string \<times> nat \<times> string \<times> string \<times> json) option" where
  "starting (EntryEvent e) = (case kind e of ToolStarted i name input \<Rightarrow> Some (i, seq e, ts e, name, input) | _ \<Rightarrow> None)"
| "starting _ = None"

fun finishing :: "entry \<Rightarrow> (string \<times> string \<times> bool \<times> string option \<times> bool) option" where
  "finishing (EntryEvent e) = (case kind e of ToolFinished i _ ok r tr \<Rightarrow> Some (i, ts e, ok, r, tr) | _ \<Rightarrow> None)"
| "finishing _ = None"

definition starts :: "entry list \<Rightarrow> (string \<times> nat \<times> string \<times> string \<times> json) list" where
  "starts es = List.map_filter starting es"

definition finishes :: "entry list \<Rightarrow> (string \<times> string \<times> bool \<times> string option \<times> bool) list" where
  "finishes es = List.map_filter finishing es"

definition ids :: "(string \<times> 'a) list \<Rightarrow> string set" where
  "ids xs = set (map fst xs)"

definition well_paired :: "entry list \<Rightarrow> bool" where
  "well_paired es \<longleftrightarrow>
     distinct (map fst (starts es)) \<and> [] \<notin> ids (starts es) \<and> distinct (map fst (finishes es)) \<and>
     (\<forall>n\<in>{..length es}. ids (finishes (take n es)) \<subseteq> ids (starts (take n es)))"

fun call_of :: "entry list \<Rightarrow> string \<times> nat \<times> string \<times> string \<times> json \<Rightarrow> tool_call" where
  "call_of es (i, n, at, name, input) =
     (case map_of (finishes es) i of
        None \<Rightarrow> new_call n i name input
      | Some (at', ok, r, tr) \<Rightarrow> finish_call ok (duration_ms at at') r tr (new_call n i name input))"

fun seg_call :: "segment \<Rightarrow> tool_call option" where
  "seg_call (SegTool t) = Some t"
| "seg_call _ = None"

definition calls :: "segment list \<Rightarrow> tool_call list" where
  "calls segs = List.map_filter seg_call segs"

lemma map_filter_append: "List.map_filter f (xs @ ys) = List.map_filter f xs @ List.map_filter f ys"
  by (simp add: List.map_filter_def)

lemma map_filter_single: "List.map_filter f [x] = (case f x of None \<Rightarrow> [] | Some y \<Rightarrow> [y])"
  by (simp add: List.map_filter_def split: option.split)

lemma map_filter_none: "List.map_filter f [] = []"
  by (simp add: List.map_filter_def)

lemma starts_snoc: "starts (es @ [e]) = starts es @ (case starting e of None \<Rightarrow> [] | Some x \<Rightarrow> [x])"
  by (simp add: starts_def map_filter_append map_filter_single map_filter_none split: option.split)

lemma finishes_snoc: "finishes (es @ [e]) = finishes es @ (case finishing e of None \<Rightarrow> [] | Some x \<Rightarrow> [x])"
  by (simp add: finishes_def map_filter_append map_filter_single map_filter_none split: option.split)

lemma calls_snoc: "calls (segs @ [s]) = calls segs @ (case seg_call s of None \<Rightarrow> [] | Some t \<Rightarrow> [t])"
  by (simp add: calls_def map_filter_append map_filter_single map_filter_none split: option.split)

lemma calls_append: "calls (xs @ ys) = calls xs @ calls ys"
  by (simp add: calls_def map_filter_append)

lemma calls_Cons: "calls (SegTool t # ys) = t # calls ys"
  by (simp add: calls_def List.map_filter_def)

lemma calls_split:
  assumes "k < length segs" "segs ! k = SegTool t"
  shows "calls segs = calls (take k segs) @ t # calls (drop (Suc k) segs)"
  using id_take_nth_drop [OF assms(1)] by (metis assms(2) calls_Cons calls_append)

lemma calls_update:
  assumes k: "k < length segs" "segs ! k = SegTool t" and d: "distinct (map tc_id (calls segs))"
  shows "calls (segs[k := SegTool t']) = map (\<lambda>c. if tc_id c = tc_id t then t' else c) (calls segs)"
proof -
  have "calls (segs[k := SegTool t']) = calls (take k segs) @ t' # calls (drop (Suc k) segs)"
    using k(1) by (simp add: upd_conv_take_nth_drop calls_append calls_Cons)
  moreover have "map (\<lambda>c. if tc_id c = tc_id t then t' else c) xs = xs" if "tc_id t \<notin> tc_id ` set xs" for xs
    using that by (intro map_idI) (metis image_eqI)
  ultimately show ?thesis using d unfolding calls_split [OF k] by auto
qed

lemma calls_distinct_at:
  assumes d: "distinct (map tc_id (calls segs))" and k: "k < length segs" "segs ! k = SegTool t"
    and k': "k' < length segs" "segs ! k' = SegTool t'" and i: "tc_id t = tc_id t'"
  shows "k = k'"
proof -
  have False if "k < k'" "k' < length segs" "segs ! k = SegTool t" "segs ! k' = SegTool t'" "tc_id t = tc_id t'"
    for k k' t t'
  proof -
    have "t' \<in> set (calls (drop (Suc k) segs))"
      using that calls_split [of "k' - Suc k" "drop (Suc k) segs" t'] by simp
    then show False using d that calls_split [of k segs t] by auto
  qed
  then show ?thesis using assms by (metis nat_neq_iff)
qed

lemma call_of_id [simp]: "tc_id (call_of es s) = fst s"
  by (cases s) (auto simp: new_call_def finish_call_def split: option.split)

lemma well_paired_snoc:
  assumes "well_paired (es @ [e])"
  shows "well_paired es"
    and "starting e = Some x \<Longrightarrow> fst x \<notin> ids (starts es) \<and> fst x \<noteq> []"
    and "finishing e = Some y \<Longrightarrow> fst y \<in> ids (starts es) \<and> fst y \<notin> ids (finishes es)"
proof -
  have pre: "ids (finishes (take n (es @ [e]))) \<subseteq> ids (starts (take n (es @ [e])))" if "n \<le> Suc (length es)" for n
    using assms that by (simp add: well_paired_def)
  have "ids (finishes (take n es)) \<subseteq> ids (starts (take n es))" if "n \<le> length es" for n
    using pre [of n] that by simp
  then show "well_paired es"
    using assms by (auto simp: well_paired_def starts_snoc finishes_snoc ids_def)
  show "fst x \<notin> ids (starts es) \<and> fst x \<noteq> []" if "starting e = Some x"
    using assms that by (auto simp: well_paired_def starts_snoc ids_def)
  show "fst y \<in> ids (starts es) \<and> fst y \<notin> ids (finishes es)" if y: "finishing e = Some y"
  proof -
    have "starting e = None" using y by (cases e) (auto split: event_kind.splits)
    then have "fst y \<in> ids (starts es)"
      using pre [of "Suc (length es)"] y by (auto simp: starts_snoc finishes_snoc ids_def)
    moreover have "fst y \<notin> ids (finishes es)"
      using assms y by (auto simp: well_paired_def finishes_snoc ids_def)
    ultimately show ?thesis by simp
  qed
qed

definition call_at :: "segment list \<Rightarrow> nat \<Rightarrow> tool_call \<Rightarrow> bool" where
  "call_at segs k t \<longleftrightarrow> k < length segs \<and> segs ! k = SegTool t"

definition paired_up :: "entry list \<Rightarrow> grouping \<Rightarrow> bool" where
  "paired_up es g \<longleftrightarrow>
     calls (gr_segs g) = map (call_of es) (starts es) \<and>
     (\<forall>k. k \<in> set (gr_tools g) \<longleftrightarrow> (\<exists>t. call_at (gr_segs g) k t \<and> tc_id t \<notin> ids (finishes es))) \<and>
     (\<forall>k t. call_at (gr_segs g) k t \<and> tc_id t \<notin> ids (finishes es) \<longrightarrow>
        (\<exists>n at name input. (tc_id t, n, at, name, input) \<in> set (starts es) \<and> gr_started g k = Some at))"

lemma call_of_cong: "finishes es = finishes es' \<Longrightarrow> call_of es = call_of es'"
  by (rule ext, rename_tac x, case_tac x) simp

lemma paired_up_frame:
  assumes "paired_up es g" "starts es' = starts es" "finishes es' = finishes es"
    "call_at (gr_segs g') = call_at (gr_segs g)" "calls (gr_segs g') = calls (gr_segs g)"
    "gr_tools g' = gr_tools g" "gr_started g' = gr_started g"
  shows "paired_up es' g'"
  using assms call_of_cong [of es' es] unfolding paired_up_def by simp

lemma call_at_snoc:
  "call_at (segs @ [s]) k t \<longleftrightarrow> call_at segs k t \<or> k = length segs \<and> s = SegTool t"
  by (auto simp: call_at_def nth_append)

lemma call_at_frame:
  assumes "\<And>t. s \<noteq> SegTool t"
  shows "call_at (segs @ [s]) = call_at segs" "calls (segs @ [s]) = calls segs"
proof -
  show "call_at (segs @ [s]) = call_at segs" using assms by (auto simp: fun_eq_iff call_at_snoc)
  have "seg_call s = None" using assms [of "the (seg_call s)"] by (cases s) auto
  then show "calls (segs @ [s]) = calls segs" by (simp add: calls_snoc)
qed

lemma call_at_text:
  assumes "block (segs ! i) \<noteq> None"
  shows "call_at (segs[i := push_text c (segs ! i)]) = call_at segs"
    and "calls (segs[i := push_text c (segs ! i)]) = calls segs"
proof -
  have no: "push_text c (segs ! i) \<noteq> SegTool t" "segs ! i \<noteq> SegTool t" for t
    using assms by (cases "segs ! i"; auto)+
  have "call_at (segs[i := push_text c (segs ! i)]) k t = call_at segs k t" for k t
    by (cases "k = i") (auto simp: call_at_def no)
  then show "call_at (segs[i := push_text c (segs ! i)]) = call_at segs" by (simp add: fun_eq_iff)
  have "seg_call (push_text c (segs ! i)) = seg_call (segs ! i)"
    using assms by (cases "segs ! i") auto
  then have "map seg_call (segs[i := push_text c (segs ! i)]) = map seg_call segs" by (rule map_update_same)
  moreover have "calls xs = List.map_filter id (map seg_call xs)" for xs
    by (induction xs) (auto simp: calls_def List.map_filter_def)
  ultimately show "calls (segs[i := push_text c (segs ! i)]) = calls segs" by metis
qed

lemma group_stdout_paired:
  assumes "paired_up es g" "blocks_open g" "starts es' = starts es" "finishes es' = finishes es"
  shows "paired_up es' (group_stdout c g)"
proof (rule paired_up_frame [OF assms(1,3,4)])
  have b: "block (gr_segs g ! i) \<noteq> None" if "gr_output g = Some i" for i
    using that assms(2) by (auto simp: blocks_open_def open_block_def last_conv_nth split: if_splits)
  show "call_at (gr_segs (group_stdout c g)) = call_at (gr_segs g)"
    "calls (gr_segs (group_stdout c g)) = calls (gr_segs g)"
    using b by (auto simp: group_stdout_def call_at_frame call_at_text split: option.split)
qed (auto simp: group_stdout_def split: option.split)

lemma group_thinking_paired:
  assumes "paired_up es g" "blocks_open g" "starts es' = starts es" "finishes es' = finishes es"
  shows "paired_up es' (group_thinking c g)"
proof (rule paired_up_frame [OF assms(1,3,4)])
  have b: "block (gr_segs g ! i) \<noteq> None" if "gr_thinking g = Some i" for i
    using that assms(2) by (auto simp: blocks_open_def open_block_def last_conv_nth split: if_splits)
  show "call_at (gr_segs (group_thinking c g)) = call_at (gr_segs g)"
    "calls (gr_segs (group_thinking c g)) = calls (gr_segs g)"
    using b by (auto simp: group_thinking_def call_at_frame call_at_text split: option.split)
qed (auto simp: group_thinking_def split: option.split)

lemma push_seg_paired:
  assumes "paired_up es g" "\<And>t. s \<noteq> SegTool t" "starts es' = starts es" "finishes es' = finishes es"
  shows "paired_up es' (push_seg s g)"
  by (rule paired_up_frame [OF assms(1,3,4)]) (simp_all add: push_seg_def call_at_frame assms(2))

lemma group_start_paired:
  assumes p: "paired_up es g" and fresh: "i \<notin> ids (finishes es)"
    and s: "starts es' = starts es @ [(i, seq e, ts e, name, input)]" and f: "finishes es' = finishes es"
  shows "paired_up es' (group_start e i name input g)"
proof -
  let ?g' = "group_start e i name input g" and ?t = "new_call (seq e) i name input"
  have segs: "gr_segs ?g' = gr_segs g @ [SegTool ?t]" by (simp add: group_start_def push_seg_def Let_def)
  have ti: "tc_id ?t = i" by (simp add: new_call_def)
  have at: "call_at (gr_segs ?g') k t \<longleftrightarrow> call_at (gr_segs g) k t \<or> k = length (gr_segs g) \<and> t = ?t" for k t
    by (auto simp: segs call_at_snoc)
  have old: "k < length (gr_segs g)" if "call_at (gr_segs g) k t" for k t using that by (simp add: call_at_def)
  have "map_of (finishes es) i = None" using fresh by (simp add: ids_def map_of_eq_None_iff)
  then have "calls (gr_segs ?g') = map (call_of es') (starts es')"
    using p call_of_cong [OF f] by (simp add: segs calls_snoc s paired_up_def)
  moreover have "k \<in> set (gr_tools ?g') \<longleftrightarrow> (\<exists>t. call_at (gr_segs ?g') k t \<and> tc_id t \<notin> ids (finishes es'))" for k
    using p fresh by (auto simp: paired_up_def group_start_def Let_def push_seg_def call_at_snoc f ti)
  moreover have "\<exists>n at name input. (tc_id t, n, at, name, input) \<in> set (starts es') \<and> gr_started ?g' k = Some at"
    if "call_at (gr_segs ?g') k t" "tc_id t \<notin> ids (finishes es')" for k t
  proof (cases "call_at (gr_segs g) k t")
    case True
    then have "gr_started ?g' k = gr_started g k" using old by (fastforce simp: group_start_def Let_def)
    then show ?thesis using p True that(2) by (fastforce simp: paired_up_def f s)
  next
    case False
    then have "k = length (gr_segs g)" "t = ?t" using that(1) by (simp_all add: at)
    then show ?thesis by (auto simp: s ti group_start_def Let_def)
  qed
  ultimately show ?thesis unfolding paired_up_def by blast
qed

lemma find_call_open:
  assumes p: "paired_up es g" and i: "i \<in> ids (starts es)" "i \<notin> ids (finishes es)" "i \<noteq> []"
  obtains k t where "find_call i g = Some k" "call_at (gr_segs g) k t" "tc_id t = i"
proof -
  have c: "calls (gr_segs g) = map (call_of es) (starts es)" using p by (simp add: paired_up_def)
  obtain t where t: "t \<in> set (calls (gr_segs g))" "tc_id t = i"
    using i(1) by (auto simp: c ids_def) (metis call_of_id fst_conv image_eqI)
  then obtain k where k: "call_at (gr_segs g) k t"
    by (auto simp: calls_def List.map_filter_def call_at_def in_set_conv_nth elim!: seg_call.elims)
  then have "k \<in> set (gr_tools g)" using p i(2) t(2) by (auto simp: paired_up_def)
  moreover have "seg_call_id (gr_segs g ! k) = Some i" using k t(2) by (simp add: call_at_def)
  ultimately obtain k' where k': "find (\<lambda>k. seg_call_id (gr_segs g ! k) = Some i) (gr_tools g) = Some k'"
    by (cases "find (\<lambda>k. seg_call_id (gr_segs g ! k) = Some i) (gr_tools g)") (auto simp: find_None_iff)
  then have "k' \<in> set (gr_tools g)" "seg_call_id (gr_segs g ! k') = Some i" by (auto simp: find_Some_iff)
  moreover from this obtain t' where "call_at (gr_segs g) k' t'" using p by (auto simp: paired_up_def)
  ultimately show ?thesis using that k' i(3) by (auto simp: find_call_def Let_def call_at_def)
qed

lemma distinct_fst_eq:
  "distinct (map fst xs) \<Longrightarrow> a \<in> set xs \<Longrightarrow> b \<in> set xs \<Longrightarrow> fst a = fst b \<Longrightarrow> a = b"
  by (simp add: distinct_map inj_on_def)

lemma group_finish_paired:
  assumes p: "paired_up es g" and d: "distinct (map fst (starts es))"
    and i: "i \<in> ids (starts es)" "i \<notin> ids (finishes es)" "i \<noteq> []"
    and s: "starts es' = starts es" and f: "finishes es' = finishes es @ [(i, at', ok, r, tr)]"
  shows "paired_up es' (group_finish at' i ok r tr g)"
proof -
  obtain k t where k: "find_call i g = Some k" "call_at (gr_segs g) k t" "tc_id t = i"
    using find_call_open [OF p i] by metis
  have c: "calls (gr_segs g) = map (call_of es) (starts es)" using p by (simp add: paired_up_def)
  have dc: "distinct (map tc_id (calls (gr_segs g)))" using d by (simp add: c comp_def)
  obtain n at name inp where st: "(i, n, at, name, inp) \<in> set (starts es)" "gr_started g k = Some at"
    using p k i(2) unfolding paired_up_def by metis
  have none: "map_of (finishes es) i = None" using i(2) by (simp add: ids_def map_of_eq_None_iff)
  let ?t' = "finish_call ok (duration_ms at at') r tr t"
  let ?g' = "group_finish at' i ok r tr g"
  have segs: "gr_segs ?g' = (gr_segs g)[k := SegTool ?t']"
    and tools: "gr_tools ?g' = filter (\<lambda>x. x \<noteq> k) (gr_tools g)"
    and started: "gr_started ?g' = (gr_started g)(k := None)"
    using k st(2) by (simp_all add: group_finish_def Let_def call_at_def)
  have ti: "tc_id ?t' = i" using k(3) by (simp add: finish_call_def)
  have "t \<in> set (calls (gr_segs g))"
    using k(2) calls_split [of k "gr_segs g" t] by (simp add: call_at_def)
  then obtain x where x: "x \<in> set (starts es)" "t = call_of es x" by (auto simp: c)
  then have "fst x = i" using k(3) by simp
  then have "x = (i, n, at, name, inp)" by (intro distinct_fst_eq [OF d x(1) st(1)]) simp
  then have t': "call_of es' x = ?t'" using x(2) none by (simp add: f map_add_def)
  have other: "call_of es' y = call_of es y" if "fst y \<noteq> i" for y
    using that by (cases y) (simp add: f map_add_def split: option.split)
  have "call_of es' y = (if tc_id (call_of es y) = tc_id t then ?t' else call_of es y)" if "y \<in> set (starts es)" for y
  proof (cases "fst y = i")
    case True
    then have "y = x" using \<open>fst x = i\<close> by (intro distinct_fst_eq [OF d that x(1)]) simp
    then show ?thesis using t' x(2) by simp
  qed (simp add: other k(3))
  then have "calls (gr_segs ?g') = map (call_of es') (starts es')"
    using calls_update [OF _ _ dc, of k t ?t'] k(2) by (simp add: segs s call_at_def c)
  moreover have at: "call_at (gr_segs ?g') j u \<and> tc_id u \<notin> ids (finishes es') \<longleftrightarrow>
      j \<noteq> k \<and> call_at (gr_segs g) j u \<and> tc_id u \<notin> ids (finishes es)" for j u
  proof (cases "j = k")
    case True
    then show ?thesis using ti by (auto simp: segs call_at_def f ids_def)
  next
    case False
    then have "tc_id u \<noteq> i" if "call_at (gr_segs g) j u"
      using calls_distinct_at [OF dc] that k(2,3) unfolding call_at_def by metis
    then show ?thesis using False by (auto simp: segs call_at_def f ids_def)
  qed
  moreover have "j \<in> set (gr_tools ?g') \<longleftrightarrow> (\<exists>u. call_at (gr_segs ?g') j u \<and> tc_id u \<notin> ids (finishes es'))" for j
    unfolding at using p by (auto simp: tools paired_up_def)
  moreover have "\<exists>n at name input. (tc_id u, n, at, name, input) \<in> set (starts es') \<and> gr_started ?g' j = Some at"
    if "call_at (gr_segs ?g') j u \<and> tc_id u \<notin> ids (finishes es')" for j u
    using that p unfolding at by (auto simp: started s paired_up_def)
  ultimately show ?thesis unfolding paired_up_def by blast
qed

lemma group_entry_paired:
  assumes p: "paired_up es g" and b: "blocks_open g" and w: "well_paired (es @ [e])"
  shows "paired_up (es @ [e]) (group_entry g e)"
proof (cases "starting e = None \<and> finishing e = None")
  case True
  then have sf: "starts (es @ [e]) = starts es" "finishes (es @ [e]) = finishes es"
    by (simp_all add: starts_snoc finishes_snoc)
  note keep = push_seg_paired [OF p _ sf] group_stdout_paired [OF p b sf] group_thinking_paired [OF p b sf]
  show ?thesis
    using True keep by (cases e) (auto simp: group_event_def split: event_kind.splits output_stream.splits)
next
  case False
  then obtain ev where ev: "e = EntryEvent ev" by (cases e) auto
  note w' = well_paired_snoc [OF w]
  consider (start) i name input where "kind ev = ToolStarted i name input"
    | (finish) i name ok r tr where "kind ev = ToolFinished i name ok r tr"
    using False by (auto simp: ev split: event_kind.splits)
  then show ?thesis
  proof cases
    case start
    have "i \<notin> ids (finishes es)"
      using w'(1,2) start by (fastforce simp: ev well_paired_def dest: bspec [of _ _ "length es"])
    then show ?thesis
      using group_start_paired [OF p] start by (simp add: ev group_event_def starts_snoc finishes_snoc)
  next
    case finish
    have "i \<in> ids (starts es)" "i \<notin> ids (finishes es)" using w'(3) finish by (simp_all add: ev)
    moreover have "distinct (map fst (starts es))" "[] \<notin> ids (starts es)" using w'(1) by (simp_all add: well_paired_def)
    moreover have "i \<noteq> []" using calculation by auto
    ultimately show ?thesis
      using group_finish_paired [OF p] finish by (simp add: ev group_event_def starts_snoc finishes_snoc)
  qed
qed

lemma group_fold_paired:
  "well_paired es \<Longrightarrow> paired_up es (foldl group_entry grouping_new es)"
proof (induction es rule: rev_induct)
  case Nil
  then show ?case
    by (simp add: paired_up_def grouping_new_def call_at_def starts_def calls_def map_filter_none)
next
  case (snoc e es)
  then show ?case using group_entry_paired [of es _ e] group_fold_open [of es] well_paired_snoc(1) by simp
qed


definition sample_event :: "nat \<Rightarrow> event_kind \<Rightarrow> entry" where
  "sample_event n k =
     EntryEvent \<lparr>seq = n, ts = '''', ev_repo = ''r'', ev_agent = ''a'', kind = k, actor = None, on_behalf_of = None\<rparr>"

definition interleaved :: "entry list" where
  "interleaved =
     [sample_event 0 (ToolStarted ''x'' ''Bash'' JNull),
      sample_event 1 (ToolStarted ''y'' ''Read'' JNull),
      sample_event 2 (ToolFinished ''y'' '''' False None False),
      sample_event 3 (ToolFinished ''x'' '''' True (Some ''out'') False)]"


text \<open>
  A finish whose start was lost in a gap is given to the oldest call that is still open, which then reads
  as finished with that result.
\<close>

lemma unknown_finish_taken_by_oldest:
  "map (\<lambda>t. (tc_id t, tc_outcome t, tc_result t))
     (calls (group [sample_event 0 (ToolStarted ''x'' ''Bash'' JNull), EntryGap 1,
                    sample_event 2 (ToolFinished ''y'' '''' True (Some ''of y'') False)])) =
   [(''x'', ToolOk, Some ''of y'')]"
  by code_simp


end
