(* ===== verification/Dash_Charts.thy ===== *)
theory Dash_Charts
  imports Fleet_Types Rust_Str Complex_Main
begin

text \<open>
  The charts of the fleet overview (\<open>dashboard/src/charts.rs\<close>): the series of a measure, its scale, the
  bars and paths that draw it and the labels. Doubles are real numbers here, so rounding is not
  modelled; \<open>val\<close> is the number a bit pattern stands for, and the decimal rendering of a number is a
  parameter.
\<close>

section \<open>Windows and measures\<close>

datatype window = Day | Week | Month

definition window_all :: "window list" where
  "window_all = [Day, Week, Month]"

fun window_days :: "window \<Rightarrow> int" where
  "window_days Day = 1"
| "window_days Week = 7"
| "window_days Month = 30"

fun window_label :: "window \<Rightarrow> string" where
  "window_label Day = ''24h''"
| "window_label Week = ''7d''"
| "window_label Month = ''30d''"

record point =
  pt_day :: string
  pt_value :: real

datatype measure = MCost | MTurns | MDone | MKilled | MFailed | MCrashed | MTimedOut

fun measure_of :: "(f64 \<Rightarrow> real) \<Rightarrow> measure \<Rightarrow> usage_bucket \<Rightarrow> real" where
  "measure_of val MCost b = val (ub_cost_usd b)"
| "measure_of val MTurns b = real (ub_turns b)"
| "measure_of val MDone b = real (oc_done (ub_outcomes b))"
| "measure_of val MKilled b = real (oc_killed (ub_outcomes b))"
| "measure_of val MFailed b = real (oc_failed (ub_outcomes b))"
| "measure_of val MCrashed b = real (oc_crashed (ub_outcomes b))"
| "measure_of val MTimedOut b = real (oc_timed_out (ub_outcomes b))"

fun measure_label :: "measure \<Rightarrow> string" where
  "measure_label MCost = ''Spend''"
| "measure_label MTurns = ''Turns''"
| "measure_label MDone = ''Done''"
| "measure_label MKilled = ''Killed''"
| "measure_label MFailed = ''Failed''"
| "measure_label MCrashed = ''Crashed''"
| "measure_label MTimedOut = ''Timed out''"

fun measure_tone :: "measure \<Rightarrow> string" where
  "measure_tone MCost = ''accent''"
| "measure_tone MTurns = ''accent''"
| "measure_tone MDone = ''live''"
| "measure_tone MKilled = ''done''"
| "measure_tone MFailed = ''bad''"
| "measure_tone MCrashed = ''wait''"
| "measure_tone MTimedOut = ''done''"

section \<open>The series\<close>

text \<open>\<open>*by_day.entry(day).or_insert(0.0) += v\<close> on an ordered map.\<close>

fun add_at :: "string \<Rightarrow> real \<Rightarrow> (string \<times> real) list \<Rightarrow> (string \<times> real) list" where
  "add_at d v [] = [(d, 0 + v)]"
| "add_at d v ((d', x) # rest) =
     (if d = d' then (d', x + v) # rest
      else if d < d' then (d, 0 + v) # (d', x) # rest
      else (d', x) # add_at d v rest)"

definition fleet_series :: "(f64 \<Rightarrow> real) \<Rightarrow> usage_report \<Rightarrow> measure \<Rightarrow> point list" where
  "fleet_series val report m =
     map (\<lambda>(d, v). \<lparr>pt_day = d, pt_value = v\<rparr>)
       (foldl (\<lambda>acc g. foldl (\<lambda>acc b. add_at (ub_day b) (measure_of val m b) acc) acc (ug_series g)) []
          (ur_groups report))"

definition peak :: "point list \<Rightarrow> real" where
  "peak ps = foldl (\<lambda>a p. max a (pt_value p)) 0 ps"

definition total :: "point list \<Rightarrow> real" where
  "total ps = foldl (\<lambda>a p. a + pt_value p) 0 ps"

definition nice_max :: "real \<Rightarrow> real" where
  "nice_max raw =
     (if raw \<le> 0 then 1
      else let pow = 10 powr real_of_int \<lfloor>log 10 raw\<rfloor>;
               norm = raw / pow;
               step = (if norm \<le> 1 then 1 else if norm \<le> 2 then 2 else if norm \<le> 5 then 5 else 10)
           in step * pow)"

section \<open>Bars and paths\<close>

definition clamp01 :: "real \<Rightarrow> real" where
  "clamp01 x = (if x < 0 then 0 else if 1 < x then 1 else x)"

record bar =
  bar_x :: real
  bar_y :: real
  bar_w :: real
  bar_h :: real
  bar_day :: string
  bar_value :: real

definition bar_slot :: "point list \<Rightarrow> real \<Rightarrow> real" where
  "bar_slot ps width = width / real (length ps)"

definition bar_gap :: "real \<Rightarrow> real" where
  "bar_gap slot = (if 6 < slot then 2 else 0)"

definition bar_at :: "point list \<Rightarrow> real \<Rightarrow> real \<Rightarrow> real \<Rightarrow> nat \<Rightarrow> bar" where
  "bar_at ps width height mx i =
     (let p = ps ! i; slot = bar_slot ps width; gap = bar_gap slot;
          h = max (clamp01 (pt_value p / mx) * height) 1
      in \<lparr>bar_x = real i * slot + gap / 2, bar_y = height - h, bar_w = max (slot - gap) 1, bar_h = h,
          bar_day = pt_day p, bar_value = pt_value p\<rparr>)"

definition bars :: "point list \<Rightarrow> real \<Rightarrow> real \<Rightarrow> real \<Rightarrow> bar list" where
  "bars ps width height mx =
     (if ps = [] \<or> mx \<le> 0 then [] else map (bar_at ps width height mx) [0..<length ps])"

definition x_of :: "point list \<Rightarrow> real \<Rightarrow> nat \<Rightarrow> real" where
  "x_of ps width i = (if length ps = 1 then width / 2 else real i * width / real (length ps - 1))"

definition y_of :: "real \<Rightarrow> real \<Rightarrow> real \<Rightarrow> real" where
  "y_of height mx v = height - clamp01 (v / mx) * height"

text \<open>A command of a path: \<open>fmt\<close> prints a number with two decimals.\<close>

definition path_cmd :: "(real \<Rightarrow> string) \<Rightarrow> char \<Rightarrow> real \<Rightarrow> real \<Rightarrow> string" where
  "path_cmd fmt c x y = [c] @ fmt x @ '' '' @ fmt y"

definition top_cmds :: "(real \<Rightarrow> string) \<Rightarrow> point list \<Rightarrow> real \<Rightarrow> real \<Rightarrow> real \<Rightarrow> string list" where
  "top_cmds fmt ps width height mx =
     map (\<lambda>i. path_cmd fmt (if i = 0 then CHR ''M'' else CHR ''L'') (x_of ps width i) (y_of height mx (pt_value (ps ! i))))
       [0..<length ps]"

definition area_path :: "(real \<Rightarrow> string) \<Rightarrow> point list \<Rightarrow> real \<Rightarrow> real \<Rightarrow> real \<Rightarrow> string option" where
  "area_path fmt ps width height mx =
     (if ps = [] \<or> mx \<le> 0 then None
      else Some (concat (map (\<lambda>c. c @ '' '') (top_cmds fmt ps width height mx)) @
        path_cmd fmt (CHR ''L'') (x_of ps width (length ps - 1)) height @ '' '' @
        path_cmd fmt (CHR ''L'') (x_of ps width 0) height @ '' Z''))"

definition line_path :: "(real \<Rightarrow> string) \<Rightarrow> point list \<Rightarrow> real \<Rightarrow> real \<Rightarrow> real \<Rightarrow> string option" where
  "line_path fmt ps width height mx =
     (if ps = [] \<or> mx \<le> 0 then None
      else Some (trim_end (concat (map (\<lambda>c. c @ '' '') (top_cmds fmt ps width height mx)))))"

section \<open>Labels\<close>

text \<open>\<open>f64::round\<close>: half away from zero.\<close>

definition round_away :: "real \<Rightarrow> int" where
  "round_away v = (if 0 \<le> v then \<lfloor>v + 1 / 2\<rfloor> else - \<lfloor>- v + 1 / 2\<rfloor>)"

definition format_usd :: "(nat \<Rightarrow> real \<Rightarrow> string) \<Rightarrow> real \<Rightarrow> string" where
  "format_usd fixed v =
     (if v \<le> 0 then ''$0''
      else if v < 1 / 100 then ''$'' @ fixed 4 v
      else if v < 100 then ''$'' @ fixed 2 v
      else ''$'' @ show_int (round_away v))"

text \<open>A separator before every digit that has a multiple of three digits behind it, itself included.\<close>

definition group_digits :: "string \<Rightarrow> string" where
  "group_digits s =
     concat (map (\<lambda>i. (if 0 < i \<and> (length s - i) mod 3 = 0 then '','' else []) @ [s ! i]) [0..<length s])"

definition format_count :: "real \<Rightarrow> string" where
  "format_count v =
     (let n = round_away v; out = group_digits (show_nat (nat \<bar>n\<bar>)) in if n < 0 then ''-'' @ out else out)"

definition tick_label :: "string \<Rightarrow> string" where
  "tick_label day = (if 10 \<le> length day \<and> day ! 4 = CHR ''-'' then drop 5 day else day)"

section \<open>A series adds up\<close>

definition bucket_values :: "(f64 \<Rightarrow> real) \<Rightarrow> usage_report \<Rightarrow> measure \<Rightarrow> (string \<times> real) list" where
  "bucket_values val report m =
     concat (map (\<lambda>g. map (\<lambda>b. (ub_day b, measure_of val m b)) (ug_series g)) (ur_groups report))"

definition day_sum :: "string \<Rightarrow> (string \<times> real) list \<Rightarrow> real" where
  "day_sum d xs = sum_list (map snd (filter (\<lambda>x. fst x = d) xs))"

definition by_day :: "(string \<times> real) list \<Rightarrow> (string \<times> real) list" where
  "by_day xs = foldl (\<lambda>acc (d, v). add_at d v acc) [] xs"

lemma by_day_snoc: "by_day (xs @ [(d, v)]) = add_at d v (by_day xs)"
  by (simp add: by_day_def)

lemma fleet_series_by_day:
  "fleet_series val report m = map (\<lambda>(d, v). \<lparr>pt_day = d, pt_value = v\<rparr>) (by_day (bucket_values val report m))"
proof -
  have one: "foldl (\<lambda>acc b. add_at (ub_day b) (measure_of val m b) acc) acc bs =
      foldl (\<lambda>acc (d, v). add_at d v acc) acc (map (\<lambda>b. (ub_day b, measure_of val m b)) bs)" for acc bs
    by (induction bs arbitrary: acc) auto
  have all: "foldl (\<lambda>acc g. foldl (\<lambda>acc b. add_at (ub_day b) (measure_of val m b) acc) acc (ug_series g)) acc gs =
      foldl (\<lambda>acc (d, v). add_at d v acc) acc
        (concat (map (\<lambda>g. map (\<lambda>b. (ub_day b, measure_of val m b)) (ug_series g)) gs))" for acc gs
    by (induction gs arbitrary: acc) (auto simp: one)
  show ?thesis by (simp only: fleet_series_def by_day_def bucket_values_def all)
qed

lemma add_at_keys: "set (map fst (add_at d v xs)) = insert d (set (map fst xs))"
  by (induction d v xs rule: add_at.induct) auto

lemma add_at_sorted:
  "sorted_wrt (<) (map fst xs) \<Longrightarrow> sorted_wrt (<) (map fst (add_at d v xs))"
proof (induction d v xs rule: add_at.induct)
  case (2 d v d' x rest)
  consider "d = d'" | "d < d'" | "d' < d" by (rule linorder_cases)
  then show ?case
  proof cases
    case 2
    then have "\<forall>y \<in> set (map fst rest). d < y" using "2.prems" by (auto intro: less_trans)
    then show ?thesis using 2 "2.prems" by simp
  next
    case 3
    then have "\<forall>y \<in> set (map fst (add_at d v rest)). d' < y" using "2.prems" by (simp only: add_at_keys) simp
    then show ?thesis using 3 "2.IH" "2.prems" by (auto dest: less_asym)
  qed (use "2.prems" in simp)
qed simp

lemma add_at_sum: "sorted_wrt (<) (map fst xs) \<Longrightarrow> day_sum e (add_at d v xs) = day_sum e xs + (if e = d then v else 0)"
  by (induction d v xs rule: add_at.induct) (auto simp: day_sum_def)

lemma add_at_total: "sum_list (map snd (add_at d v xs)) = sum_list (map snd xs) + v"
  by (induction d v xs rule: add_at.induct) auto

lemma by_day_facts:
  "sorted_wrt (<) (map fst (by_day xs)) \<and> set (map fst (by_day xs)) = set (map fst xs) \<and>
   (\<forall>e. day_sum e (by_day xs) = day_sum e xs) \<and> sum_list (map snd (by_day xs)) = sum_list (map snd xs)"
proof (induction xs rule: rev_induct)
  case (snoc x xs)
  obtain d v where x: "x = (d, v)" by (cases x)
  show ?case
    using snoc add_at_sorted add_at_keys [of d v "by_day xs"] add_at_sum add_at_total [of d v "by_day xs"]
    by (auto simp: x by_day_snoc day_sum_def)
qed (simp add: by_day_def day_sum_def)

lemma day_sum_sorted:
  "sorted_wrt (<) (map fst xs) \<Longrightarrow> (d, v) \<in> set xs \<Longrightarrow> day_sum d xs = v"
proof (induction xs)
  case (Cons x xs)
  show ?case
  proof (cases "x = (d, v)")
    case True
    then have "filter (\<lambda>y. fst y = d) xs = []" using Cons.prems(1) by (auto simp: filter_empty_conv)
    then show ?thesis using True by (simp add: day_sum_def)
  next
    case False
    then have "(d, v) \<in> set xs" "fst x \<noteq> d" using Cons.prems by force+
    then show ?thesis using Cons by (simp add: day_sum_def)
  qed
qed simp

lemma total_sum: "total ps = sum_list (map pt_value ps)"
proof -
  have "foldl (\<lambda>a p. a + pt_value p) a ps = a + sum_list (map pt_value ps)" for a
    by (induction ps arbitrary: a) auto
  then show ?thesis by (simp add: total_def)
qed

text \<open>
  The fleet's series is the report summed over its workspaces: one point for each day that occurs, in
  the order of the days, with the sum over all workspaces of that day's value; so the chart's total is
  the report's.
\<close>

theorem fleet_series_sums:
  "let ps = fleet_series val report m; bs = bucket_values val report m
   in sorted_wrt (<) (map pt_day ps) \<and> set (map pt_day ps) = set (map fst bs) \<and>
      list_all (\<lambda>p. pt_value p = day_sum (pt_day p) bs) ps \<and> total ps = sum_list (map snd bs)"
proof -
  let ?xs = "by_day (bucket_values val report m)"
  note f = by_day_facts [of "bucket_values val report m"]
  have days: "map pt_day (fleet_series val report m) = map fst ?xs"
    by (simp add: fleet_series_by_day comp_def split_def)
  have "list_all (\<lambda>p. pt_value p = day_sum (pt_day p) (bucket_values val report m)) (fleet_series val report m)"
    using f day_sum_sorted [of ?xs] by (auto simp: fleet_series_by_day list_all_iff)
  moreover have "total (fleet_series val report m) = sum_list (map snd ?xs)"
    by (simp add: total_sum fleet_series_by_day comp_def split_def)
  ultimately show ?thesis using f unfolding Let_def days by simp
qed

section \<open>The bars fit\<close>

lemma clamp01_bounds: "0 \<le> clamp01 x \<and> clamp01 x \<le> 1"
  by (simp add: clamp01_def)

text \<open>
  The bars of a chart stay in their box and beside each other: with at least a pixel per day and of
  height, every bar lies within the width and the height, is at least a pixel high, ends before the
  next begins, and reaches the top exactly when its value reaches the scale.
\<close>

theorem bars_fit:
  assumes "real (length ps) \<le> width" "1 \<le> height" "i < length (bars ps width height mx)"
  shows "let bs = bars ps width height mx; b = bs ! i
    in length bs = length ps \<and> 0 \<le> bar_x b \<and> bar_x b + bar_w b \<le> width \<and> 0 \<le> bar_y b \<and>
       bar_y b + bar_h b = height \<and> 1 \<le> bar_h b \<and> bar_h b \<le> height \<and>
       (i + 1 < length bs \<longrightarrow> bar_x b + bar_w b \<le> bar_x (bs ! (i + 1))) \<and>
       (1 < height \<longrightarrow> (bar_h b = height \<longleftrightarrow> mx \<le> pt_value (ps ! i)))"
proof -
  let ?slot = "bar_slot ps width" and ?gap = "bar_gap (bar_slot ps width)"
  have ne: "ps \<noteq> []" "0 < mx" and i: "i < length ps"
    using assms(3) by (auto simp: bars_def split: if_splits)
  have len: "0 < real (length ps)" using ne by simp
  have slot: "1 \<le> ?slot" using assms(1) len by (simp add: bar_slot_def le_divide_eq)
  have w: "max (?slot - ?gap) 1 = ?slot - ?gap" using slot by (simp add: bar_gap_def)
  have gap: "0 \<le> ?gap" by (simp add: bar_gap_def)
  have at: "bars ps width height mx ! j = bar_at ps width height mx j" if "j < length ps" for j
    using that ne by (simp add: bars_def)
  have width: "real (length ps) * ?slot = width" using len by (simp add: bar_slot_def)
  have right: "real j * ?slot + ?gap / 2 + (?slot - ?gap) = real (j + 1) * ?slot - ?gap / 2" for j
    by (simp add: algebra_simps)
  have "real (i + 1) * ?slot \<le> real (length ps) * ?slot"
    using i slot by (intro mult_right_mono) auto
  then have "real i * ?slot + ?gap / 2 + (?slot - ?gap) \<le> width" using right [of i] gap width by simp
  moreover have "real i * ?slot + ?gap / 2 + (?slot - ?gap) \<le> real (i + 1) * ?slot + ?gap / 2"
    using right [of i] gap by simp
  moreover have "0 \<le> real i * ?slot + ?gap / 2" using slot gap by simp
  moreover define h where "h = max (clamp01 (pt_value (ps ! i) / mx) * height) 1"
  have "clamp01 (pt_value (ps ! i) / mx) * height \<le> 1 * height"
    using clamp01_bounds assms(2) by (intro mult_right_mono) auto
  then have "h \<le> height" "1 \<le> h" using assms(2) by (auto simp: h_def)
  moreover have "h = height \<longleftrightarrow> mx \<le> pt_value (ps ! i)" if "1 < height"
  proof -
    have "h = height \<longleftrightarrow> clamp01 (pt_value (ps ! i) / mx) * height = 1 * height"
      using that by (auto simp: h_def max_def)
    also have "\<dots> \<longleftrightarrow> clamp01 (pt_value (ps ! i) / mx) = 1" using that by simp
    also have "\<dots> \<longleftrightarrow> mx \<le> pt_value (ps ! i)" using ne(2) by (auto simp: clamp01_def le_divide_eq divide_less_0_iff)
    finally show ?thesis .
  qed
  ultimately show ?thesis
    using i at [of i] at [of "i + 1"] ne w
    by (auto simp: Let_def bar_at_def h_def bars_def)
qed

section \<open>The scale\<close>

text \<open>
  The top of the axis is a round number just above the data: never below the value, at most ten times
  it, and one, two or five times a power of ten.
\<close>

theorem nice_max_rounds_up:
  assumes "0 < raw"
  shows "raw \<le> nice_max raw \<and> nice_max raw < 10 * raw \<and>
    (\<exists>step \<in> {1, 2, 5}. \<exists>n :: int. nice_max raw = step * 10 powr real_of_int n)"
proof -
  define n where "n = \<lfloor>log 10 raw\<rfloor>"
  define pow where "pow = 10 powr real_of_int n"
  have pos: "0 < pow" by (simp add: pow_def)
  have "10 powr real_of_int n \<le> 10 powr log 10 raw" by (simp add: n_def)
  then have low: "pow \<le> raw" using assms by (simp add: pow_def)
  have "10 powr log 10 raw < 10 powr (real_of_int n + 1)" by (simp add: n_def)
  then have high: "raw < 10 * pow" using assms by (simp add: pow_def powr_add)
  define norm where "norm = raw / pow"
  have norm: "1 \<le> norm" "norm < 10" "raw = norm * pow" using low high pos by (auto simp: norm_def field_simps)
  define step :: real where "step = (if norm \<le> 1 then 1 else if norm \<le> 2 then 2 else if norm \<le> 5 then 5 else 10)"
  have nm: "nice_max raw = step * pow"
    using assms by (simp add: nice_max_def Let_def step_def norm_def pow_def n_def)
  have "norm \<le> step" "step < 10 * norm" using norm by (auto simp: step_def)
  then have "raw \<le> nice_max raw" "nice_max raw < 10 * raw" using pos norm(3) nm by auto
  moreover have "\<exists>st \<in> {1, 2, 5}. \<exists>k :: int. nice_max raw = st * 10 powr real_of_int k"
  proof (cases "step = 10")
    case True
    then have "nice_max raw = 1 * 10 powr real_of_int (n + 1)" using nm by (simp add: pow_def powr_add)
    then show ?thesis by blast
  next
    case False
    then have "step \<in> {1, 2, 5}" by (auto simp: step_def split: if_splits)
    then show ?thesis using nm pow_def by blast
  qed
  ultimately show ?thesis by blast
qed

section \<open>Counts\<close>

text \<open>The separators do not change the digits.\<close>

lemma group_digits_keeps: "CHR '','' \<notin> set s \<Longrightarrow> filter (\<lambda>c. c \<noteq> CHR '','') (group_digits s) = s"
proof -
  assume s: "CHR '','' \<notin> set s"
  have "filter (\<lambda>c. c \<noteq> CHR '','') (concat (map (\<lambda>i. (if 0 < i \<and> (length s - i) mod 3 = 0 then '','' else []) @ [s ! i]) is)) =
      map ((!) s) is" if "set is \<subseteq> {..<length s}" for "is"
    using that s by (induction "is") (auto simp: in_set_conv_nth)
  then have "filter (\<lambda>c. c \<noteq> CHR '','') (group_digits s) = map ((!) s) [0..<length s]"
    unfolding group_digits_def by (simp add: atLeast0LessThan)
  then show ?thesis by (simp add: map_nth)
qed

lemma format_count_digits:
  "0 \<le> v \<Longrightarrow> filter (\<lambda>c. c \<noteq> CHR '','') (format_count v) = show_nat (nat (round_away v))"
proof -
  assume "0 \<le> v"
  then have "0 \<le> round_away v" by (simp add: round_away_def)
  moreover have "CHR '','' \<notin> set (show_nat n)" for n
    using show_nat_digits [of n] by (auto simp: list_all_iff is_ascii_digit_def)
  ultimately show ?thesis by (simp add: format_count_def Let_def group_digits_keeps)
qed

section \<open>Witnesses\<close>

definition sample_points :: "point list" where
  "sample_points = [\<lparr>pt_day = ''2026-01-01'', pt_value = 2\<rparr>, \<lparr>pt_day = ''2026-01-02'', pt_value = 5\<rparr>]"

theorem bars_fit_witness:
  "bar_h (bars sample_points 20 10 5 ! 1) = 10 \<and> bar_x (bars sample_points 20 10 5 ! 0) + bar_w (bars sample_points 20 10 5 ! 0) \<le> 20"
proof -
  have n: "length sample_points = 2" "pt_value (sample_points ! 1) = 5" by (simp_all add: sample_points_def)
  then have len: "length (bars sample_points 20 10 5) = 2" by (auto simp: bars_def)
  have "bar_h (bars sample_points 20 10 5 ! 1) = 10"
    using bars_fit [of sample_points 20 10 1 5] len n by (simp add: Let_def)
  moreover have "bar_x (bars sample_points 20 10 5 ! 0) + bar_w (bars sample_points 20 10 5 ! 0) \<le> 20"
    using bars_fit [of sample_points 20 10 0 5] len n by (simp add: Let_def)
  ultimately show ?thesis by blast
qed

theorem nice_max_rounds_up_witness: "(7 :: real) \<le> nice_max 7 \<and> nice_max 7 < 70"
  using nice_max_rounds_up [of 7] by simp

end
