(* ===== verification/Dash_Assets.thy ===== *)
theory Dash_Assets
  imports Rust_Str
begin

text \<open>
  The embedded dashboard (\<open>api/build.rs\<close>, \<open>api/src/dashboard.rs\<close>): the table of files the build makes
  of the bundle directory, and the handlers that look a path up in it. A directory is read in any
  order; names are UTF-8.
\<close>

section \<open>The table\<close>

datatype bundle_entry = BundleFile string "8 word list" | BundleDir string "bundle_entry list"

fun join_path :: "string list \<Rightarrow> string" where
  "join_path [] = []"
| "join_path [c] = c"
| "join_path (c # cs) = c @ ''/'' @ join_path cs"

fun collect_entry :: "string list \<Rightarrow> bundle_entry \<Rightarrow> (string list \<times> 8 word list) list" where
  "collect_entry dir (BundleFile n bytes) = [(dir @ [n], bytes)]"
| "collect_entry dir (BundleDir n es) = concat (map (collect_entry (dir @ [n])) es)"

definition collect :: "bundle_entry list \<Rightarrow> (string \<times> 8 word list) list" where
  "collect es = map (\<lambda>(cs, bytes). (join_path cs, bytes)) (concat (map (collect_entry []) es))"

definition content_type :: "string \<Rightarrow> string" where
  "content_type path =
     (case map_option snd (rsplit_once (CHR ''.'') path) of
        None \<Rightarrow> ''application/octet-stream''
      | Some ext \<Rightarrow>
          if ext = ''html'' then ''text/html; charset=utf-8''
          else if ext = ''css'' then ''text/css; charset=utf-8''
          else if ext = ''js'' \<or> ext = ''mjs'' then ''application/javascript; charset=utf-8''
          else if ext = ''wasm'' then ''application/wasm''
          else if ext = ''json'' then ''application/json''
          else if ext = ''svg'' then ''image/svg+xml''
          else if ext = ''png'' then ''image/png''
          else if ext = ''woff2'' then ''font/woff2''
          else ''application/octet-stream'')"

definition assets :: "bundle_entry list \<Rightarrow> (string \<times> string \<times> 8 word list) list" where
  "assets es = map (\<lambda>(rel, bytes). (rel, content_type rel, bytes)) (sort_key fst (collect es))"

section \<open>The handlers\<close>

record asset_response =
  asr_status :: nat
  asr_headers :: "(string \<times> string) list"
  asr_body :: "8 word list"

definition CSP :: string where
  "CSP = ''default-src '' @ [CHR 0x27] @ ''none'' @ [CHR 0x27] @ ''; script-src '' @ [CHR 0x27] @ ''self'' @ [CHR 0x27] @
     '' '' @ [CHR 0x27] @ ''wasm-unsafe-eval'' @ [CHR 0x27] @ ''; style-src '' @ [CHR 0x27] @ ''self'' @ [CHR 0x27] @
     ''; connect-src '' @ [CHR 0x27] @ ''self'' @ [CHR 0x27] @ ''; img-src '' @ [CHR 0x27] @ ''self'' @ [CHR 0x27] @
     '' data:; base-uri '' @ [CHR 0x27] @ ''none'' @ [CHR 0x27] @ ''; form-action '' @ [CHR 0x27] @ ''none'' @ [CHR 0x27]"

definition not_found :: asset_response where
  "not_found = \<lparr>asr_status = 404, asr_headers = [], asr_body = []\<rparr>"

definition lookup_asset ::
  "(string \<times> string \<times> 8 word list) list \<Rightarrow> string \<Rightarrow> (string \<times> 8 word list) option" where
  "lookup_asset table path = map_option snd (find (\<lambda>e. fst e = path) table)"

definition serve_asset :: "(string \<times> string \<times> 8 word list) list \<Rightarrow> string \<Rightarrow> asset_response" where
  "serve_asset table path =
     (case lookup_asset table path of
        Some (ct, bytes) \<Rightarrow> \<lparr>asr_status = 200, asr_headers = [(''content-type'', ct)], asr_body = bytes\<rparr>
      | None \<Rightarrow> not_found)"

definition index_page :: "(string \<times> string \<times> 8 word list) list \<Rightarrow> asset_response" where
  "index_page table =
     (case lookup_asset table ''index.html'' of
        Some (ct, bytes) \<Rightarrow>
          \<lparr>asr_status = 200, asr_headers = [(''content-type'', ct), (''content-security-policy'', CSP)],
           asr_body = bytes\<rparr>
      | None \<Rightarrow> not_found)"

section \<open>The table serves the bundle and nothing else\<close>

fun entry_name :: "bundle_entry \<Rightarrow> string" where
  "entry_name (BundleFile n _) = n"
| "entry_name (BundleDir n _) = n"

text \<open>What a file system guarantees: names are not empty, hold no slash, and differ within a directory.\<close>

fun entry_ok :: "bundle_entry \<Rightarrow> bool" where
  "entry_ok (BundleFile n _) \<longleftrightarrow> n \<noteq> [] \<and> CHR ''/'' \<notin> set n"
| "entry_ok (BundleDir n es) \<longleftrightarrow>
     n \<noteq> [] \<and> CHR ''/'' \<notin> set n \<and> list_all entry_ok es \<and> distinct (map entry_name es)"

definition bundle_ok :: "bundle_entry list \<Rightarrow> bool" where
  "bundle_ok es \<longleftrightarrow> list_all entry_ok es \<and> distinct (map entry_name es)"

definition bundle_files :: "bundle_entry list \<Rightarrow> (string list \<times> 8 word list) list" where
  "bundle_files es = concat (map (collect_entry []) es)"

lemma split_join_path:
  "cs \<noteq> [] \<Longrightarrow> \<forall>c \<in> set cs. CHR ''/'' \<notin> set c \<Longrightarrow> split_on (CHR ''/'') (join_path cs) = cs"
proof (induction cs rule: join_path.induct)
  case (3 c c' cs)
  then show ?case using split_on_append [of "CHR ''/''" c "join_path (c' # cs)"] by simp
qed auto

lemma collect_entry_paths:
  "entry_ok e \<Longrightarrow> (cs, bytes) \<in> set (collect_entry dir e) \<Longrightarrow>
    \<exists>more. cs = dir @ entry_name e # more \<and> (\<forall>c \<in> set (entry_name e # more). CHR ''/'' \<notin> set c)"
proof (induction dir e rule: collect_entry.induct)
  case (2 dir n es)
  then obtain e where e: "e \<in> set es" "(cs, bytes) \<in> set (collect_entry (dir @ [n]) e)" by auto
  moreover have "entry_ok e" using 2(2) e(1) by (simp add: list_all_iff)
  ultimately obtain rest where "cs = (dir @ [n]) @ entry_name e # rest"
      "\<forall>c \<in> set (entry_name e # rest). CHR ''/'' \<notin> set c"
    using 2(1) by blast
  then show ?case using 2(2) by auto
qed simp

lemma distinct_concat_named:
  assumes "distinct (map entry_name es)" "list_all entry_ok es"
    and "\<And>e. e \<in> set es \<Longrightarrow> distinct (map fst (collect_entry dir e))"
  shows "distinct (map fst (concat (map (collect_entry dir) es)))"
  using assms
proof (induction es)
  case (Cons e es)
  have "cs \<notin> set (map fst (concat (map (collect_entry dir) es)))" if in_e: "cs \<in> set (map fst (collect_entry dir e))" for cs
  proof
    assume "cs \<in> set (map fst (concat (map (collect_entry dir) es)))"
    then obtain e' b' where e': "e' \<in> set es" "(cs, b') \<in> set (collect_entry dir e')" by auto
    moreover obtain b where "(cs, b) \<in> set (collect_entry dir e)" using in_e by auto
    moreover have "entry_ok e" "entry_ok e'" using Cons.prems(2) e'(1) by (auto simp: list_all_iff)
    ultimately have "entry_name e = entry_name e'"
      using collect_entry_paths [of e cs b dir] collect_entry_paths [of e' cs b' dir] by auto
    then show False using Cons.prems(1) e'(1) by auto
  qed
  moreover have "distinct (map fst (concat (map (collect_entry dir) es)))"
    using Cons.IH Cons.prems by simp
  moreover have "distinct (map fst (collect_entry dir e))" using Cons.prems(3) by simp
  ultimately show ?case by (fastforce simp: disjoint_iff)
qed simp

lemma collect_entry_distinct: "entry_ok e \<Longrightarrow> distinct (map fst (collect_entry dir e))"
proof (induction dir e rule: collect_entry.induct)
  case (2 dir n es)
  then show ?case using distinct_concat_named [of es "dir @ [n]"] by (simp add: list_all_iff)
qed simp

lemma bundle_files_ok:
  assumes "bundle_ok es"
  shows "distinct (map fst (bundle_files es))"
    and "(cs, bytes) \<in> set (bundle_files es) \<Longrightarrow> cs \<noteq> [] \<and> (\<forall>c \<in> set cs. CHR ''/'' \<notin> set c)"
proof -
  show "distinct (map fst (bundle_files es))"
    using assms distinct_concat_named [of es "[]"] collect_entry_distinct
    by (auto simp: bundle_ok_def bundle_files_def list_all_iff)
  assume "(cs, bytes) \<in> set (bundle_files es)"
  then obtain e where e: "e \<in> set es" "(cs, bytes) \<in> set (collect_entry [] e)" by (auto simp: bundle_files_def)
  moreover have "entry_ok e" using e(1) assms by (simp add: bundle_ok_def list_all_iff)
  ultimately show "cs \<noteq> [] \<and> (\<forall>c \<in> set cs. CHR ''/'' \<notin> set c)"
    using collect_entry_paths [of e cs bytes "[]"] by auto
qed

lemma find_distinct_key:
  "distinct (map fst xs) \<Longrightarrow> (k, v) \<in> set xs \<Longrightarrow> find (\<lambda>e. fst e = k) xs = Some (k, v)"
  by (induction xs) force+

lemma set_assets: "set (assets es) = {(join_path cs, content_type (join_path cs), bytes) | cs bytes. (cs, bytes) \<in> set (bundle_files es)}"
  by (force simp: assets_def collect_def bundle_files_def)

lemma assets_distinct:
  assumes "bundle_ok es"
  shows "distinct (map fst (assets es))"
proof -
  have inj: "inj_on join_path (fst ` set (bundle_files es))"
  proof (rule inj_onI)
    fix x y assume "x \<in> fst ` set (bundle_files es)" "y \<in> fst ` set (bundle_files es)" and eq: "join_path x = join_path y"
    then obtain b c where bc: "(x, b) \<in> set (bundle_files es)" "(y, c) \<in> set (bundle_files es)" by auto
    note px = bundle_files_ok(2) [OF assms bc(1)] and py = bundle_files_ok(2) [OF assms bc(2)]
    have "x = split_on (CHR ''/'') (join_path x)" by (rule split_join_path [OF px [THEN conjunct1] px [THEN conjunct2], symmetric])
    also have "\<dots> = split_on (CHR ''/'') (join_path y)" by (simp only: eq)
    also have "\<dots> = y" by (rule split_join_path [OF py [THEN conjunct1] py [THEN conjunct2]])
    finally show "x = y" .
  qed
  have "map fst (collect es) = map join_path (map fst (bundle_files es))"
    by (simp add: collect_def bundle_files_def comp_def split_def)
  then have "distinct (map fst (collect es))"
    using bundle_files_ok(1) [OF assms] inj by (simp only: distinct_map [of join_path]) simp
  then have "distinct (map fst (sort_key fst (collect es)))" by (simp add: distinct_map)
  then show ?thesis by (simp add: assets_def comp_def split_def)
qed

text \<open>
  The server hands out the bundle and nothing else: every file of the bundle directory, at any depth, is
  served under its own path with its bytes and the type of its extension, and any other path - a
  directory, a traversal, a file that is not of the bundle - is not found.
\<close>

theorem bundle_served:
  assumes "bundle_ok es"
  shows "((cs, bytes) \<in> set (bundle_files es) \<longrightarrow>
      serve_asset (assets es) (join_path cs) =
        \<lparr>asr_status = 200, asr_headers = [(''content-type'', content_type (join_path cs))], asr_body = bytes\<rparr>) \<and>
    ((\<forall>f \<in> set (bundle_files es). path \<noteq> join_path (fst f)) \<longrightarrow> serve_asset (assets es) path = not_found) \<and>
    (split_on (CHR ''/'') path = comps \<and> ''..'' \<in> set comps \<and> (\<forall>f \<in> set (bundle_files es). ''..'' \<notin> set (fst f)) \<longrightarrow>
      serve_asset (assets es) path = not_found)"
proof (intro conjI impI)
  assume "(cs, bytes) \<in> set (bundle_files es)"
  then have "(join_path cs, content_type (join_path cs), bytes) \<in> set (assets es)" by (auto simp: set_assets)
  from find_distinct_key [OF assets_distinct [OF assms] this]
  show "serve_asset (assets es) (join_path cs) =
        \<lparr>asr_status = 200, asr_headers = [(''content-type'', content_type (join_path cs))], asr_body = bytes\<rparr>"
    by (simp add: serve_asset_def lookup_asset_def)
next
  have miss: "serve_asset (assets es) path = not_found" if "\<forall>f \<in> set (bundle_files es). path \<noteq> join_path (fst f)"
  proof -
    have "find (\<lambda>e. fst e = path) (assets es) = None"
      using that by (auto simp: find_None_iff set_assets)
    then show ?thesis by (simp add: serve_asset_def lookup_asset_def)
  qed
  {
    assume "\<forall>f \<in> set (bundle_files es). path \<noteq> join_path (fst f)"
    then show "serve_asset (assets es) path = not_found" by (rule miss)
  next
    assume t: "split_on (CHR ''/'') path = comps \<and> ''..'' \<in> set comps \<and> (\<forall>f \<in> set (bundle_files es). ''..'' \<notin> set (fst f))"
    show "serve_asset (assets es) path = not_found"
    proof (rule miss, intro ballI notI)
      fix f assume f: "f \<in> set (bundle_files es)" "path = join_path (fst f)"
      then have "split_on (CHR ''/'') path = fst f"
        using bundle_files_ok(2) [OF assms, of "fst f" "snd f"] split_join_path by auto
      then show False using t f(1) by auto
    qed
  }
qed

section \<open>Witnesses\<close>

definition sample_bundle :: "bundle_entry list" where
  "sample_bundle = [BundleFile ''index.html'' [1], BundleDir ''snippets'' [BundleFile ''a.js'' [2]]]"

theorem bundle_served_witness:
  "asr_body (serve_asset (assets sample_bundle) ''snippets/a.js'') = [2] \<and>
   serve_asset (assets sample_bundle) ''../Cargo.toml'' = not_found"
proof -
  have ok: "bundle_ok sample_bundle" by (simp add: bundle_ok_def sample_bundle_def)
  have files: "bundle_files sample_bundle = [([''index.html''], [1]), ([''snippets'', ''a.js''], [2])]"
    by (simp add: bundle_files_def sample_bundle_def)
  have "asr_body (serve_asset (assets sample_bundle) ''snippets/a.js'') = [2]"
    using bundle_served [OF ok, of "[''snippets'', ''a.js'']" "[2]"] by (simp add: files)
  moreover have "serve_asset (assets sample_bundle) ''../Cargo.toml'' = not_found"
    using bundle_served [OF ok, where path = "''../Cargo.toml''"] by (simp add: files)
  ultimately show ?thesis by blast
qed

end
