(* ===== verification/Daemon.thy ===== *)
theory Daemon
  imports Api_Auth Fleet_Manager Jsonl_Store Complex_Main
begin

text \<open>
  The start-up of the daemon (\<open>daemon/src/main.rs\<close>): how the arguments decide the authentication, the
  stores, the ownership and the backend, and in which order things are touched. What the outside
  answers (files, databases, the API server, TLS, the random source) is the environment; a backend's
  own state is built by the constructors of its theory. An error is its outermost message. The lease
  time-to-live is a finite \<open>f64\<close>, here a real number of seconds.
\<close>

section \<open>Arguments and environment\<close>

datatype ip_addr = Ipv4 nat nat nat nat | Ipv6 "nat list"

text \<open>\<open>IpAddr::is_loopback\<close>: 127.0.0.0/8 and \<open>::1\<close>.\<close>

fun is_loopback :: "ip_addr \<Rightarrow> bool" where
  "is_loopback (Ipv4 a b c d) = (a = 127)"
| "is_loopback (Ipv6 segs) = (segs = [0, 0, 0, 0, 0, 0, 0, 1])"

record daemon_args =
  da_ip :: ip_addr
  da_addr_text :: string
  da_k8s :: bool
  da_ca_file :: "string option"
  da_token_file :: "string option"
  da_server_name :: string
  da_kubeconfig :: "string option"
  da_data_dir :: "string option"
  da_host :: string
  da_poll_interval_ms :: nat
  da_automation_interval_ms :: nat
  da_no_autostart :: bool
  da_caliband_bin :: string
  da_default_env :: "(string \<times> string) list"
  da_retention_days :: nat
  da_database_url :: "string option"
  da_replica_id :: "string option"
  da_lease_ttl_secs :: real
  da_heartbeat_ms :: "nat option"
  da_tokens_file :: "string option"
  da_session_key_file :: "string option"
  da_insecure_no_auth :: bool
  da_cookie_secure :: bool

text \<open>What starting touches outside the process, in the order it does.\<close>

datatype start_effect =
    CreateDataDir string
  | OpenStore bool
  | OpenBus bool
  | OpenConfigStore bool
  | OpenOwnership string
  | BuildManager
  | ReadKubeconfig string
  | LoadKubeconfig string
  | BuildKubeClient
  | ConnectKube
  | BindListener

record daemon_env =
  de_built_with_k8s :: bool
  de_var :: "string \<Rightarrow> string option"
  de_text :: "string \<Rightarrow> string + string"
  de_bytes :: "string \<Rightarrow> string + u8 list"
  de_tls_client :: "u8 list \<Rightarrow> string \<Rightarrow> string + unit"
  de_random_key :: "u8 list"
  de_fails :: "start_effect \<Rightarrow> string option"

section \<open>Helpers\<close>

definition parse_key_val :: "string \<Rightarrow> string + string \<times> string" where
  "parse_key_val s =
     (case split_once ''='' s of
        Some (k, v) \<Rightarrow> if k \<noteq> [] then Inr (k, v) else Inl (''expected KEY=VALUE, got '' @ [CHR 0x27] @ s @ [CHR 0x27])
      | None \<Rightarrow> Inl (''expected KEY=VALUE, got '' @ [CHR 0x27] @ s @ [CHR 0x27]))"

definition require_token_tls :: "bool \<Rightarrow> bool \<Rightarrow> string + unit" where
  "require_token_tls token_present tls_present =
     (if token_present \<and> \<not> tls_present
      then Inl (''a session-plane token is configured (--k8s-caliband-token-file / PROSPERO_K8S_CALIBAND_TOKEN_FILE) '' @
                ''but TLS is not (--k8s-caliband-ca-file / PROSPERO_K8S_CALIBAND_CA_FILE); the token would be sent in '' @
                ''cleartext. Configure the CA file to enable TLS, or unset the token.'')
      else Inr ())"

definition with_context :: "string \<Rightarrow> string + 'a \<Rightarrow> string + 'a" where
  "with_context what r = (case r of Inl _ \<Rightarrow> Inl what | Inr a \<Rightarrow> Inr a)"

definition read_token_file :: "daemon_env \<Rightarrow> string \<Rightarrow> string + string" where
  "read_token_file en path =
     rbind (with_context (''reading session-plane token file '' @ path) (de_text en path)) (\<lambda>raw. Inr (trim_end raw))"

text \<open>\<open>trim_ascii_end\<close> on bytes: space, tab, line feed, form feed, carriage return.\<close>

definition trim_ascii_end :: "u8 list \<Rightarrow> u8 list" where
  "trim_ascii_end = drop_while_end (\<lambda>b. b \<in> {32, 9, 10, 12, 13})"

definition session_key_of_file :: "daemon_env \<Rightarrow> string \<Rightarrow> string + session_key" where
  "session_key_of_file en path =
     rbind (with_context (''reading session key file '' @ path) (de_bytes en path)) (\<lambda>raw.
       case session_key_from_bytes (trim_ascii_end raw) of
         Inl e \<Rightarrow> Inl (''session key file '' @ path @ '': '' @ e)
       | Inr key \<Rightarrow> Inr key)"

definition resolve_auth ::
  "auth_port \<Rightarrow> daemon_env \<Rightarrow> ip_addr \<Rightarrow> string \<Rightarrow> bool \<Rightarrow> string option \<Rightarrow> string option \<Rightarrow> bool \<Rightarrow> bool \<Rightarrow>
   string + auth_state" where
  "resolve_auth p en ip addr clustered tokens_file session_key_file insecure_no_auth cookie_secure =
     (case tokens_file of
        None \<Rightarrow>
          if \<not> is_loopback ip \<and> \<not> insecure_no_auth
          then Inl (''refusing to bind '' @ addr @ '' without authentication: set --api-tokens-file / '' @
                    ''PROSPERO_API_TOKENS_FILE, or pass --insecure-no-auth to run unauthenticated'')
          else Inr (auth_disabled (de_random_key en))
      | Some tokens_path \<Rightarrow>
          if insecure_no_auth then Inl ''--insecure-no-auth cannot be combined with --api-tokens-file''
          else rbind (token_set_load p tokens_path (de_text en tokens_path)) (\<lambda>tokens.
            rbind (case session_key_file of
                Some path \<Rightarrow> session_key_of_file en path
              | None \<Rightarrow>
                  if clustered
                  then Inl (''clustered prosperod (PROSPERO_DATABASE_URL) with API tokens needs --session-key-file / '' @
                            ''PROSPERO_SESSION_KEY_FILE so every replica signs sessions with the same key'')
                  else Inr (de_random_key en)) (\<lambda>key.
              Inr (auth_enabled tokens key cookie_secure))))"

definition load_session_plane_tls :: "daemon_env \<Rightarrow> string option \<Rightarrow> string \<Rightarrow> string + bool" where
  "load_session_plane_tls en ca_file server_name =
     (case ca_file of
        None \<Rightarrow> Inr False
      | Some path \<Rightarrow>
          rbind (with_context (''reading session-plane CA file '' @ path) (de_bytes en path)) (\<lambda>pem.
            rbind (with_context (''building session-plane TLS from '' @ path) (de_tls_client en pem server_name))
              (\<lambda>_. Inr True)))"

definition resolve_replica_id :: "daemon_env \<Rightarrow> string option \<Rightarrow> string" where
  "resolve_replica_id en explicit =
     (case explicit of
        Some r \<Rightarrow> r
      | None \<Rightarrow> (case de_var en ''HOSTNAME'' of
                  Some h \<Rightarrow> if h \<noteq> [] then h else ''prosperod-local''
                | None \<Rightarrow> ''prosperod-local''))"

text \<open>In seconds.\<close>

definition heartbeat_interval :: "nat option \<Rightarrow> real \<Rightarrow> real" where
  "heartbeat_interval explicit_ms lease_ttl_secs =
     (case explicit_ms of
        Some ms \<Rightarrow> real (max ms 1) / 1000
      | None \<Rightarrow> max (lease_ttl_secs / 3) 1)"

definition default_data_dir :: "daemon_env \<Rightarrow> string" where
  "default_data_dir en =
     (case de_var en ''XDG_DATA_HOME'' of
        Some xdg \<Rightarrow> path_join xdg ''prospero''
      | None \<Rightarrow> (case de_var en ''HOME'' of
                  Some h \<Rightarrow> path_join h ''.local/share/prospero''
                | None \<Rightarrow> ''.prospero''))"

text \<open>The age beyond which events are deleted: \<open>days * 24 * 3600\<close> on \<open>u64\<close>, which wraps in a release build.\<close>

definition retention_age :: "nat \<Rightarrow> nat option" where
  "retention_age days = (if days > 0 then Some (days * 24 mod 2 ^ 64 * 3600 mod 2 ^ 64) else None)"

section \<open>The manager's configuration\<close>

definition discovery_from_process :: "daemon_env \<Rightarrow> discovery_env" where
  "discovery_from_process en =
     \<lparr>caliban_daemon_runtime_dir = de_var en ''CALIBAN_DAEMON_RUNTIME_DIR'',
      xdg_runtime_dir = de_var en ''XDG_RUNTIME_DIR'', tmpdir = de_var en ''TMPDIR''\<rparr>"

definition ensure_config_default :: ensure_config where
  "ensure_config_default =
     \<lparr>ens_autostart = True, ens_bin = ''caliband'', ens_timeout_text = ''10s'', ens_env = Map.empty\<rparr>"

definition fleet_config_new :: "daemon_env \<Rightarrow> string \<Rightarrow> fleet_config" where
  "fleet_config_new en fleet_host =
     \<lparr>fc_host = fleet_host, fc_discovery = discovery_from_process en, fc_ensure = ensure_config_default,
      fc_thinking = False, fc_default_env = Map.empty, fc_backoff = default_backoff, fc_network = None\<rparr>"

text \<open>A repeated key of \<open>--default-env\<close> keeps the last value.\<close>

definition daemon_fleet_config :: "daemon_env \<Rightarrow> daemon_args \<Rightarrow> fleet_config" where
  "daemon_fleet_config en a =
     (fleet_config_new en (da_host a))
       \<lparr>fc_discovery := discovery_from_process en,
        fc_ensure := ensure_config_default\<lparr>ens_autostart := \<not> da_no_autostart a, ens_bin := da_caliband_bin a\<rparr>,
        fc_default_env := foldl (\<lambda>m (k, v). m(k \<mapsto> v)) Map.empty (da_default_env a)\<rparr>"

section \<open>Starting\<close>

datatype ownership_plan = OwnsAll | LeasedBy string real real

text \<open>
  What a backend serves with: its ownership, whether automations have a store to run on, and what is
  its own (the manager's configuration and poll interval; the namespace, session-plane security and
  whether reasoning is shown).
\<close>

record backend =
  be_ownership :: ownership_plan
  be_automations :: bool
  be_manager :: "(fleet_config \<times> nat) option"
  be_namespace :: "string option"
  be_tls :: bool
  be_token :: "string option"
  be_thinking :: bool

record start_plan =
  pl_auth :: auth_state
  pl_data_dir :: string
  pl_clustered :: bool
  pl_backend :: backend
  pl_automation_ms :: nat
  pl_retention :: "nat option"

text \<open>A start so far: what has been touched, and the error that ended it or the value.\<close>

type_synonym ('e, 'a) steps = "'e list \<times> (string + 'a)"

type_synonym 'a start = "(start_effect, 'a) steps"

definition start_bind :: "('e, 'a) steps \<Rightarrow> ('a \<Rightarrow> ('e, 'b) steps) \<Rightarrow> ('e, 'b) steps" where
  "start_bind m f =
     (case m of (effs, Inl e) \<Rightarrow> (effs, Inl e) | (effs, Inr a) \<Rightarrow> (case f a of (effs', r) \<Rightarrow> (effs @ effs', r)))"

definition pure :: "string + 'a \<Rightarrow> ('e, 'a) steps" where
  "pure r = ([], r)"

definition perform :: "daemon_env \<Rightarrow> string \<Rightarrow> start_effect \<Rightarrow> unit start" where
  "perform en what eff = ([eff], case de_fails en eff of None \<Rightarrow> Inr () | Some _ \<Rightarrow> Inl what)"

text \<open>Phase 1: the event store and the bus.\<close>

definition open_observability :: "daemon_env \<Rightarrow> bool \<Rightarrow> unit start" where
  "open_observability en clustered =
     (if clustered
      then start_bind (perform en ''connecting clustered event store'' (OpenStore True)) (\<lambda>_.
             perform en ''connecting clustered event bus'' (OpenBus True))
      else start_bind (perform en ''opening event store'' (OpenStore False)) (\<lambda>_. ([OpenBus False], Inr ())))"

text \<open>Phase 2: the backend.\<close>

definition build_kube_client :: "daemon_env \<Rightarrow> string option \<Rightarrow> unit start" where
  "build_kube_client en kubeconfig =
     (case kubeconfig of
        Some path \<Rightarrow>
          start_bind (perform en (''reading kubeconfig '' @ path) (ReadKubeconfig path)) (\<lambda>_.
            start_bind (perform en (''loading kubeconfig '' @ path) (LoadKubeconfig path)) (\<lambda>_.
              perform en ''building kube client from kubeconfig'' BuildKubeClient))
      | None \<Rightarrow> perform en ''connecting to the Kubernetes API server'' ConnectKube)"

definition open_ownership :: "daemon_env \<Rightarrow> daemon_args \<Rightarrow> string \<Rightarrow> ownership_plan start" where
  "open_ownership en a what =
     (case da_database_url a of
        None \<Rightarrow> pure (Inr OwnsAll)
      | Some _ \<Rightarrow>
          (let rep = resolve_replica_id en (da_replica_id a)
           in start_bind (perform en what (OpenOwnership rep)) (\<lambda>_.
                pure (Inr (LeasedBy rep (da_lease_ttl_secs a)
                             (heartbeat_interval (da_heartbeat_ms a) (da_lease_ttl_secs a)))))))"

definition start_local :: "daemon_env \<Rightarrow> daemon_args \<Rightarrow> backend start" where
  "start_local en a =
     start_bind (perform en (if da_database_url a \<noteq> None then ''connecting clustered config store''
                             else ''opening config store'') (OpenConfigStore (da_database_url a \<noteq> None))) (\<lambda>_.
       start_bind (open_ownership en a ''connecting clustered ownership'') (\<lambda>own.
         start_bind (perform en ''building fleet manager'' BuildManager) (\<lambda>_.
           pure (Inr \<lparr>be_ownership = own, be_automations = True,
                      be_manager = Some (daemon_fleet_config en a, da_poll_interval_ms a),
                      be_namespace = None, be_tls = False, be_token = None, be_thinking = False\<rparr>))))"

definition include_thinking :: "daemon_env \<Rightarrow> bool" where
  "include_thinking en =
     (case de_var en ''PROSPERO_INCLUDE_THINKING'' of
        Some v \<Rightarrow> trim v \<in> {''1'', ''true'', ''yes'', ''on''}
      | None \<Rightarrow> False)"

definition start_k8s :: "daemon_env \<Rightarrow> daemon_args \<Rightarrow> backend start" where
  "start_k8s en a =
     start_bind (build_kube_client en (da_kubeconfig a)) (\<lambda>_.
       let ns = (case de_var en ''PROSPERO_K8S_NAMESPACE'' of Some n \<Rightarrow> n | None \<Rightarrow> ''default'')
       in start_bind (if da_database_url a \<noteq> None
                   then start_bind (perform en ''connecting config store for automations (k8s)'' (OpenConfigStore True))
                          (\<lambda>_. pure (Inr True))
                   else pure (Inr False)) (\<lambda>automations.
         start_bind (pure (load_session_plane_tls en (da_ca_file a) (da_server_name a))) (\<lambda>tls.
           start_bind (pure (case da_token_file a of
                               None \<Rightarrow> Inr None
                             | Some path \<Rightarrow> rbind (read_token_file en path) (\<lambda>t. Inr (Some t)))) (\<lambda>token.
             start_bind (pure (require_token_tls (token \<noteq> None) tls)) (\<lambda>_.
               start_bind (open_ownership en a ''connecting clustered ownership (k8s)'') (\<lambda>own.
                 pure (Inr \<lparr>be_ownership = own, be_automations = automations, be_manager = None,
                            be_namespace = Some ns, be_tls = tls, be_token = token,
                            be_thinking = include_thinking en\<rparr>)))))))"

definition daemon_start :: "auth_port \<Rightarrow> daemon_env \<Rightarrow> daemon_args \<Rightarrow> start_plan start" where
  "daemon_start p en a =
     (let clustered = da_database_url a \<noteq> None
      in if da_k8s a \<and> \<not> de_built_with_k8s en
         then pure (Inl ''PROSPERO_FLEET=k8s requires a prosperod built with the k8s feature (`cargo build -p prospero-daemon --features k8s`).'')
         else
           start_bind (pure (resolve_auth p en (da_ip a) (da_addr_text a) clustered (da_tokens_file a)
                               (da_session_key_file a) (da_insecure_no_auth a) (da_cookie_secure a))) (\<lambda>auth.
           let dir = (case da_data_dir a of Some d \<Rightarrow> d | None \<Rightarrow> default_data_dir en)
           in start_bind (perform en (''creating data dir '' @ dir) (CreateDataDir dir)) (\<lambda>_.
              start_bind (open_observability en clustered) (\<lambda>_.
              start_bind (if da_k8s a then start_k8s en a else start_local en a) (\<lambda>be.
              start_bind (perform en (''binding '' @ da_addr_text a) BindListener) (\<lambda>_.
                pure (Inr
                  \<lparr>pl_auth = auth, pl_data_dir = dir, pl_clustered = clustered, pl_backend = be,
                   pl_automation_ms = da_automation_interval_ms a,
                   pl_retention = retention_age (da_retention_days a)\<rparr>)))))))"

section \<open>Background work and the shutdown\<close>

text \<open>The tasks a started daemon has spawned beside the HTTP server.\<close>

datatype background =
    InsecureWarning
  | HeartbeatLoop real
  | PollLoop nat
  | RetentionLoop nat
  | AutomationLoop nat

definition background_tasks :: "daemon_args \<Rightarrow> start_plan \<Rightarrow> background list" where
  "background_tasks a pl =
     (if da_insecure_no_auth a then [InsecureWarning] else []) @
     (case be_ownership (pl_backend pl) of OwnsAll \<Rightarrow> [] | LeasedBy _ _ every \<Rightarrow> [HeartbeatLoop every]) @
     (case be_manager (pl_backend pl) of None \<Rightarrow> [] | Some (_, ms) \<Rightarrow> [PollLoop ms]) @
     (case pl_retention pl of None \<Rightarrow> [] | Some age \<Rightarrow> [RetentionLoop age]) @
     (if be_automations (pl_backend pl) then [AutomationLoop (pl_automation_ms pl)] else [])"

datatype shutdown_step = StopAutomations | JoinAutomations | StopManager | JoinPoll | AbortHeartbeat

definition shutdown_steps :: "start_plan \<Rightarrow> shutdown_step list" where
  "shutdown_steps pl =
     [StopAutomations] @
     (if be_automations (pl_backend pl) then [JoinAutomations] else []) @
     (if be_manager (pl_backend pl) \<noteq> None then [StopManager, JoinPoll] else []) @
     (if be_ownership (pl_backend pl) \<noteq> OwnsAll then [AbortHeartbeat] else [])"

section \<open>What a started daemon guarantees\<close>

lemma start_bind_Inr:
  "start_bind m f = (effs, Inr b) \<longleftrightarrow>
     (\<exists>e1 a e2. m = (e1, Inr a) \<and> f a = (e2, Inr b) \<and> effs = e1 @ e2)"
  by (auto simp: start_bind_def split: prod.splits sum.splits)

lemma pure_Inr [simp]: "pure r = (effs, Inr b) \<longleftrightarrow> effs = [] \<and> r = Inr b"
  by (auto simp: pure_def)

lemma with_context_Inr [simp]: "with_context w r = Inr a \<longleftrightarrow> r = Inr a"
  by (auto simp: with_context_def split: sum.splits)

definition configured_auth :: "auth_port \<Rightarrow> daemon_env \<Rightarrow> daemon_args \<Rightarrow> string + auth_state" where
  "configured_auth p en a =
     resolve_auth p en (da_ip a) (da_addr_text a) (da_database_url a \<noteq> None) (da_tokens_file a)
       (da_session_key_file a) (da_insecure_no_auth a) (da_cookie_secure a)"

lemma daemon_start_Inr:
  assumes "daemon_start p en a = (effs, Inr pl)"
  shows "configured_auth p en a = Inr (pl_auth pl)"
    and "\<exists>e. (if da_k8s a then start_k8s en a else start_local en a) =
      (e, Inr (pl_backend pl))"
    and "pl_clustered pl = (da_database_url a \<noteq> None)"
    and "pl_retention pl = retention_age (da_retention_days a)"
  using assms by (auto simp: daemon_start_def configured_auth_def Let_def start_bind_Inr split: if_splits)

lemma daemon_start_refused:
  assumes "configured_auth p en a = Inl e"
  shows "fst (daemon_start p en a) = []"
  using assms by (simp add: daemon_start_def configured_auth_def Let_def start_bind_def pure_def)

lemma token_set_load_Inr:
  assumes "token_set_load p path contents = Inr toks"
  shows "\<exists>src. contents = Inr src \<and> token_set_parse p src = Inr toks \<and> toks \<noteq> []"
  using assms by (auto simp: token_set_load_def token_set_parse_def rbind_Inr_iff split: sum.splits if_splits)

lemma session_key_of_file_Inr:
  assumes "session_key_of_file en path = Inr key"
  shows "\<exists>raw. de_bytes en path = Inr raw \<and> key = trim_ascii_end raw \<and> session_key_min_len \<le> length key"
  using assms by (auto simp: session_key_of_file_def session_key_from_bytes_def rbind_Inr_iff split: sum.splits if_splits)

text \<open>
  C29. The daemon never serves the fleet unauthenticated by accident: once it has started, authentication
  is off only on a loopback address or by explicit request, and then no tokens file was given;
  when it is on, the tokens are those of the file, at least one, and the session key has at
  least 32 bytes and, in a cluster, comes from the key file, so every replica has the same. A refusal
  touches nothing outside the process.
\<close>

theorem daemon_auth_guarded:
  assumes "daemon_start p en a = (effs, r)" "length (de_random_key en) = session_key_min_len"
  shows "case r of
      Inl _ \<Rightarrow> is_ok (configured_auth p en a) \<or> effs = []
    | Inr pl \<Rightarrow>
        if is_enabled (pl_auth pl)
        then (\<exists>path src toks. da_tokens_file a = Some path \<and> de_text en path = Inr src \<and>
                token_set_parse p src = Inr toks \<and> toks \<noteq> [] \<and> as_tokens (pl_auth pl) = Some toks) \<and>
             session_key_min_len \<le> length (as_session_key (pl_auth pl)) \<and>
             (\<not> pl_clustered pl \<or> (\<exists>kf raw. da_session_key_file a = Some kf \<and> de_bytes en kf = Inr raw \<and>
                as_session_key (pl_auth pl) = trim_ascii_end raw))
        else da_tokens_file a = None \<and> (is_loopback (da_ip a) \<or> da_insecure_no_auth a)"
proof (cases r)
  case (Inl e)
  show ?thesis
  proof (cases "configured_auth p en a")
    case (Inl e')
    then have "effs = []" using daemon_start_refused [OF Inl] assms(1) by simp
    then show ?thesis using \<open>r = Inl e\<close> by simp
  qed (simp add: \<open>r = Inl e\<close>)
next
  case (Inr pl)
  note run = assms(1) [unfolded Inr]
  note auth = daemon_start_Inr(1) [OF run, unfolded configured_auth_def]
  show ?thesis
  proof (cases "da_tokens_file a")
    case None
    then have "pl_auth pl = auth_disabled (de_random_key en)" "is_loopback (da_ip a) \<or> da_insecure_no_auth a"
      using auth by (auto simp: resolve_auth_def split: if_splits)
    then show ?thesis using Inr None by (simp add: auth_disabled_def is_enabled_def)
  next
    case (Some path)
    obtain toks key where k: "token_set_load p path (de_text en path) = Inr toks"
      "(case da_session_key_file a of Some path \<Rightarrow> session_key_of_file en path
        | None \<Rightarrow> if da_database_url a \<noteq> None
                  then Inl (''clustered prosperod (PROSPERO_DATABASE_URL) with API tokens needs --session-key-file / '' @
                            ''PROSPERO_SESSION_KEY_FILE so every replica signs sessions with the same key'')
                  else Inr (de_random_key en)) = Inr key"
      "pl_auth pl = auth_enabled toks key (da_cookie_secure a)"
      using auth unfolding resolve_auth_def Some option.case
      by (auto simp: rbind_Inr_iff simp del: append_Cons split: if_splits)
    obtain src where src: "de_text en path = Inr src" "token_set_parse p src = Inr toks" "toks \<noteq> []"
      using token_set_load_Inr [OF k(1)] by blast
    have key: "session_key_min_len \<le> length key"
      using k(2) assms(2) session_key_of_file_Inr by (fastforce split: option.splits if_splits)
    have from_file: "\<exists>kf raw. da_session_key_file a = Some kf \<and> de_bytes en kf = Inr raw \<and> key = trim_ascii_end raw"
      if "da_database_url a \<noteq> None"
      using k(2) that session_key_of_file_Inr by (fastforce split: option.splits if_splits)
    show ?thesis
      using Inr Some src key from_file daemon_start_Inr(3) [OF run] k(3)
      by (auto simp: auth_enabled_def is_enabled_def)
  qed
qed

lemma open_ownership_Inr:
  "open_ownership en a w = (e, Inr own) \<Longrightarrow> own = OwnsAll \<longleftrightarrow> da_database_url a = None"
  by (auto simp: open_ownership_def Let_def start_bind_Inr split: option.splits)

lemma start_local_Inr:
  assumes "start_local en a = (e, Inr be)"
  shows "(be_ownership be = OwnsAll \<longleftrightarrow> da_database_url a = None) \<and> be_automations be \<and> be_token be = None \<and>
    be_manager be = Some (daemon_fleet_config en a, da_poll_interval_ms a)"
  using assms by (auto simp: start_local_def start_bind_Inr dest: open_ownership_Inr)

lemma start_k8s_Inr:
  assumes "start_k8s en a = (e, Inr be)"
  shows "(be_ownership be = OwnsAll \<longleftrightarrow> da_database_url a = None) \<and>
    (be_automations be \<longleftrightarrow> da_database_url a \<noteq> None) \<and> (be_token be = None \<or> be_tls be) \<and>
    be_manager be = None"
proof -
  obtain token tls own automations ns e1 e2 u where
    "require_token_tls (token \<noteq> None) tls = Inr u"
    "open_ownership en a ''connecting clustered ownership (k8s)'' = (e1, Inr own)"
    "(if da_database_url a \<noteq> None
      then start_bind (perform en ''connecting config store for automations (k8s)'' (OpenConfigStore True))
             (\<lambda>_. pure (Inr True))
      else pure (Inr False)) = (e2, Inr automations)"
    "be = \<lparr>be_ownership = own, be_automations = automations, be_manager = None,
           be_namespace = ns, be_tls = tls, be_token = token, be_thinking = include_thinking en\<rparr>"
    using assms unfolding start_k8s_def start_bind_Inr Let_def pure_Inr by blast
  then show ?thesis
    using open_ownership_Inr by (auto simp: require_token_tls_def start_bind_Inr split: if_splits)
qed

lemma daemon_wiring_consistent_facts:
  assumes "daemon_start p en a = (effs, Inr pl)"
  shows "(be_ownership (pl_backend pl) = OwnsAll \<longleftrightarrow> \<not> pl_clustered pl) \<and>
    (be_automations (pl_backend pl) \<longleftrightarrow> pl_clustered pl \<or> \<not> da_k8s a) \<and>
    (be_token (pl_backend pl) = None \<or> be_tls (pl_backend pl)) \<and>
    (be_manager (pl_backend pl) = (if da_k8s a then None else Some (daemon_fleet_config en a, da_poll_interval_ms a)))"
proof (cases "da_k8s a")
  case True
  then obtain e where "start_k8s en a = (e, Inr (pl_backend pl))" using daemon_start_Inr(2) [OF assms] by auto
  from start_k8s_Inr [OF this] show ?thesis using daemon_start_Inr(3) [OF assms] True by auto
next
  case False
  then obtain e where "start_local en a = (e, Inr (pl_backend pl))" using daemon_start_Inr(2) [OF assms] by auto
  from start_local_Inr [OF this] show ?thesis using daemon_start_Inr(3) [OF assms] False by auto
qed

text \<open>
  The wiring is consistent: streams are leased exactly in a cluster, the plan to run automations is made
  only where one store arbitrates between all replicas that serve the fleet (a cluster, or the single
  process of the local backend), a session-plane token is only kept where TLS is on, so it is never
  sent in the clear, and the local backend runs its manager with the configuration of the arguments.
\<close>

theorem daemon_wiring_consistent:
  assumes "daemon_start p en a = (effs, Inr pl)"
  shows "let be = pl_backend pl in
    (be_ownership be = OwnsAll \<longleftrightarrow> \<not> pl_clustered pl) \<and>
    (be_automations be \<longleftrightarrow> pl_clustered pl \<or> \<not> da_k8s a) \<and>
    (be_token be = None \<or> be_tls be) \<and>
    (be_manager be = (if da_k8s a then None else Some (daemon_fleet_config en a, da_poll_interval_ms a)))"
  using daemon_wiring_consistent_facts [OF assms] by (simp add: Let_def)


text \<open>
  A replica renews its leases three times within their time-to-live, when that is at least three
  seconds and no interval is given.
\<close>

lemma default_heartbeat_in_time: "3 \<le> ttl \<Longrightarrow> 3 * heartbeat_interval None ttl \<le> ttl"
  by (simp add: heartbeat_interval_def)

text \<open>Below a second the default renews later than the leases last.\<close>

lemma short_ttl_lapses: "ttl < 1 \<Longrightarrow> ttl < heartbeat_interval None ttl"
  by (simp add: heartbeat_interval_def)

text \<open>
  A token file that holds blanks only gives a token, the empty one.
\<close>

lemma blank_token_file_accepted:
  "de_text en path = Inr [CHR 0x0A] \<Longrightarrow> read_token_file en path = Inr []"
  by (simp add: read_token_file_def with_context_def trim_end_def drop_while_end_def is_whitespace_def)

text \<open>
  A retention that is too long for the clock's arithmetic deletes every event: the age counts as zero.
\<close>

lemma long_retention_deletes_all:
  assumes "retention_age 106751991168 = Some age"
  shows "prune_store_older_than now_minus ops s (age * 1000000000) = map_option (st_prune ops s) (now_minus 0)"
  using assms by (simp add: retention_age_def prune_store_older_than_def duration_from_std_def)

section \<open>Witnesses\<close>

definition sample_daemon_env :: daemon_env where
  "sample_daemon_env =
     \<lparr>de_built_with_k8s = True, de_var = [''HOSTNAME'' \<mapsto> ''pod-0'', ''HOME'' \<mapsto> ''/h''],
      de_text = (\<lambda>_. Inr ''tok ''), de_bytes = (\<lambda>_. Inr []), de_tls_client = (\<lambda>_ _. Inr ()),
      de_random_key = replicate 32 0, de_fails = (\<lambda>_. None)\<rparr>"

definition sample_daemon_args :: daemon_args where
  "sample_daemon_args =
     \<lparr>da_ip = Ipv4 127 0 0 1, da_addr_text = ''127.0.0.1:7878'', da_k8s = True, da_ca_file = Some ''ca'',
      da_token_file = Some ''t'', da_server_name = ''caliband'', da_kubeconfig = None,
      da_data_dir = None, da_host = ''local'', da_poll_interval_ms = 2000, da_automation_interval_ms = 30000,
      da_no_autostart = False, da_caliband_bin = ''caliband'', da_default_env = [], da_retention_days = 0,
      da_database_url = Some ''postgres'', da_replica_id = None, da_lease_ttl_secs = 30,
      da_heartbeat_ms = None, da_tokens_file = None, da_session_key_file = None,
      da_insecure_no_auth = False, da_cookie_secure = False\<rparr>"

definition sample_plan :: start_plan where
  "sample_plan =
     \<lparr>pl_auth = auth_disabled (replicate 32 0), pl_data_dir = ''/h/.local/share/prospero'', pl_clustered = True,
      pl_backend =
        \<lparr>be_ownership = LeasedBy ''pod-0'' 30 10, be_automations = True, be_manager = None,
         be_namespace = Some ''default'', be_tls = True, be_token = Some ''tok'', be_thinking = False\<rparr>,
      pl_automation_ms = 30000, pl_retention = None\<rparr>"

lemma sample_start:
  "daemon_start sample_auth sample_daemon_env sample_daemon_args =
     ([CreateDataDir ''/h/.local/share/prospero'', OpenStore True, OpenBus True, ConnectKube,
       OpenConfigStore True, OpenOwnership ''pod-0'', BindListener], Inr sample_plan)"
  by (simp add: daemon_start_def sample_daemon_env_def sample_daemon_args_def resolve_auth_def Let_def
      start_bind_def pure_def perform_def default_data_dir_def path_join_def open_observability_def
      start_k8s_def build_kube_client_def include_thinking_def load_session_plane_tls_def with_context_def read_token_file_def require_token_tls_def
      open_ownership_def resolve_replica_id_def heartbeat_interval_def retention_age_def sample_plan_def
      trim_end_def drop_while_end_def is_whitespace_def is_cont_byte_def)

theorem daemon_auth_guarded_witness:
  "\<not> is_enabled (pl_auth sample_plan) \<and> da_tokens_file sample_daemon_args = None \<and> is_loopback (da_ip sample_daemon_args)"
proof -
  have e: "\<not> is_enabled (pl_auth sample_plan)"
    by (simp add: sample_plan_def auth_disabled_def is_enabled_def)
  have "length (de_random_key sample_daemon_env) = session_key_min_len"
    by (simp add: sample_daemon_env_def session_key_min_len_def)
  from daemon_auth_guarded [OF sample_start this] show ?thesis
    using e by (simp add: sample_daemon_args_def)
qed

theorem daemon_wiring_consistent_witness:
  "be_ownership (pl_backend sample_plan) \<noteq> OwnsAll \<and> be_automations (pl_backend sample_plan) \<and>
   be_tls (pl_backend sample_plan)"
  using daemon_wiring_consistent [OF sample_start] by (simp add: sample_plan_def sample_daemon_args_def Let_def)



end
