(* ===== verification/Transport.thy ===== *)
theory Transport
  imports Daemon K8s_Fleet
begin

text \<open>
  The transport below the caliband protocol (\<open>caliband/transport.rs\<close>): the dial with its TLS handshake and
  the token preamble, as the steps it takes on the wire, and the check of the preamble at the other
  end. Sockets, TLS, PEM parsing and the JSON of the preamble are parameters. The last section joins
  it to the daemon's start-up and to the clients the two backends build.
\<close>

section \<open>Trust\<close>

text \<open>\<open>tls_client_from_pem\<close>: \<open>certs\<close> are the certificate blocks of a file, \<open>add\<close> puts one into the store.\<close>

fun add_roots :: "('c \<Rightarrow> string + unit) \<Rightarrow> (string + 'c) list \<Rightarrow> 'c list \<Rightarrow> string + 'c list" where
  "add_roots add [] roots = Inr roots"
| "add_roots add (x # xs) roots = rbind x (\<lambda>c. rbind (add c) (\<lambda>_. add_roots add xs (roots @ [c])))"

definition tls_client_from_pem ::
  "(u8 list \<Rightarrow> (string + 'c) list) \<Rightarrow> ('c \<Rightarrow> string + unit) \<Rightarrow> u8 list \<Rightarrow> string \<Rightarrow> string + 'c list \<times> string" where
  "tls_client_from_pem certs add pem server_name =
     rbind (add_roots add (certs pem) []) (\<lambda>roots.
       if roots = [] then Inl ''no certificates found in CA PEM'' else Inr (roots, server_name))"

section \<open>Dialling\<close>

text \<open>What a dial does on the wire, in order.\<close>

datatype wire_step =
    Dial endpoint
  | Handshake string
  | SendPlain string
  | SendTls string

datatype conn = UnixConn | PlainConn | TlsConn string

record net_env =
  ne_step :: "wire_step \<Rightarrow> string option"
  ne_server_name :: "string \<Rightarrow> string + unit"
  ne_preamble :: "string \<Rightarrow> string + string"

definition wire :: "net_env \<Rightarrow> wire_step \<Rightarrow> (wire_step, unit) steps" where
  "wire ne st = ([st], case ne_step ne st of None \<Rightarrow> Inr () | Some e \<Rightarrow> Inl e)"

fun send_on :: "conn \<Rightarrow> string \<Rightarrow> wire_step" where
  "send_on (TlsConn _) line = SendTls line"
| "send_on _ line = SendPlain line"

definition client_send_token :: "net_env \<Rightarrow> conn \<Rightarrow> string \<Rightarrow> (wire_step, unit) steps" where
  "client_send_token ne c token =
     start_bind (pure (ne_preamble ne token)) (\<lambda>line. wire ne (send_on c (line @ [CHR 0x0A])))"

definition transport_connect :: "net_env \<Rightarrow> caliband_client \<Rightarrow> (wire_step, conn) steps" where
  "transport_connect ne c =
     (case cc_endpoint c of
        Unix path \<Rightarrow> start_bind (wire ne (Dial (Unix path))) (\<lambda>_. pure (Inr UnixConn))
      | Tcp addr \<Rightarrow>
          start_bind (wire ne (Dial (Tcp addr))) (\<lambda>_.
            start_bind (case cc_tls c of
                None \<Rightarrow> pure (Inr PlainConn)
              | Some name \<Rightarrow>
                  start_bind (pure (ne_server_name ne name)) (\<lambda>_.
                    start_bind (wire ne (Handshake name)) (\<lambda>_. pure (Inr (TlsConn name))))) (\<lambda>conn.
              start_bind (case cc_token c of
                  None \<Rightarrow> pure (Inr ())
                | Some token \<Rightarrow> client_send_token ne conn token) (\<lambda>_. pure (Inr conn)))))"

section \<open>The other end\<close>

text \<open>
  \<open>read_preamble_line\<close>, byte by byte from what arrives until the connection ends; the bytes behind the
  line stay in the connection.
\<close>

definition PREAMBLE_MAX :: nat where
  "PREAMBLE_MAX = 4096"

fun read_preamble_line :: "string \<Rightarrow> string \<Rightarrow> string + string \<times> string" where
  "read_preamble_line buf [] = Inl ''no token preamble''"
| "read_preamble_line buf (b # rest) =
     (if b = CHR 0x0A
      then (if utf8_valid buf then Inr (buf, rest) else Inl ''invalid utf-8 sequence'')
      else if length (buf @ [b]) > PREAMBLE_MAX then Inl ''token preamble too long''
      else read_preamble_line (buf @ [b]) rest)"

definition server_check_token ::
  "(string \<Rightarrow> string + string) \<Rightarrow> string \<Rightarrow> string \<Rightarrow> string + string" where
  "server_check_token dec expected arriving =
     rbind (read_preamble_line [] arriving) (\<lambda>(line, rest).
       rbind (dec line) (\<lambda>bearer.
         if constant_time_eq (as_bytes bearer) (as_bytes expected) then Inr rest
         else Inl ''bad bearer token''))"

text \<open>\<open>Listener::accept\<close> on a dialled connection: the handshake, then the token when one is expected.\<close>

definition listener_accept ::
  "(string \<Rightarrow> string + string) \<Rightarrow> (string + unit) option \<Rightarrow> string option \<Rightarrow> string \<Rightarrow> string + string" where
  "listener_accept dec handshake token arriving =
     rbind (case handshake of None \<Rightarrow> Inr () | Some r \<Rightarrow> r) (\<lambda>_.
       case token of None \<Rightarrow> Inr arriving | Some expected \<Rightarrow> server_check_token dec expected arriving)"

section \<open>The preamble arrives exactly\<close>

lemma add_roots_Inr:
  "add_roots add xs roots = Inr rs \<Longrightarrow> \<exists>cs. xs = map Inr cs \<and> rs = roots @ cs"
proof (induction xs arbitrary: roots)
  case (Cons x xs)
  then show ?case by (cases x) (fastforce simp: rbind_Inr_iff)+
qed simp

text \<open>A client that is built trusts all certificates of its file and at least one.\<close>

lemma tls_client_trusts:
  assumes "tls_client_from_pem certs add pem n = Inr (roots, name)"
  shows "certs pem = map Inr roots \<and> roots \<noteq> [] \<and> name = n"
  using assms add_roots_Inr [of add "certs pem" "[]"]
  by (auto simp: tls_client_from_pem_def rbind_Inr_iff split: if_splits)

lemma read_preamble_line_fits:
  assumes "CHR 0x0A \<notin> set line" "length (buf @ line) \<le> PREAMBLE_MAX" "utf8_valid (buf @ line)"
  shows "read_preamble_line buf (line @ CHR 0x0A # rest) = Inr (buf @ line, rest)"
  using assms by (induction line arbitrary: buf) auto

lemma read_preamble_line_long:
  assumes "CHR 0x0A \<notin> set line" "length buf \<le> PREAMBLE_MAX" "PREAMBLE_MAX < length (buf @ line)"
  shows "read_preamble_line buf (line @ rest) = Inl ''token preamble too long''"
  using assms by (induction line arbitrary: buf) auto

text \<open>
  The token preamble is a line of its own: the daemon accepts a connection exactly when the token it was
  sent is the one it expects, hands every byte behind the preamble on to the protocol, and gives up on
  a preamble of more than 4096 bytes.
\<close>

theorem token_preamble_exact:
  assumes enc: "ne_preamble ne token = Inr line" and dec: "dec line = Inr token"
    and json: "CHR 0x0A \<notin> set line" "utf8_valid line"
    and sent: "client_send_token ne (TlsConn name) token = (steps, r)"
  shows "steps = [SendTls (line @ [CHR 0x0A])] \<and>
    server_check_token dec expected ((line @ [CHR 0x0A]) @ payload) =
      (if PREAMBLE_MAX < length line then Inl ''token preamble too long''
       else if token = expected then Inr payload else Inl ''bad bearer token'')"
proof -
  have "steps = [SendTls (line @ [CHR 0x0A])]"
    using sent enc by (auto simp: client_send_token_def start_bind_def pure_def wire_def split: option.splits)
  moreover have "server_check_token dec expected ((line @ [CHR 0x0A]) @ payload) =
      (if PREAMBLE_MAX < length line then Inl ''token preamble too long''
       else if token = expected then Inr payload else Inl ''bad bearer token'')"
  proof (cases "PREAMBLE_MAX < length line")
    case True
    then show ?thesis
      using read_preamble_line_long [of line "[]" "CHR 0x0A # payload"] json by (simp add: server_check_token_def)
  next
    case False
    then show ?thesis
      using read_preamble_line_fits [of line "[]" payload] json dec
      by (simp add: server_check_token_def constant_time_eq_iff as_bytes_inject)
  qed
  ultimately show ?thesis by blast
qed

section \<open>The token is never sent in the clear\<close>

text \<open>The client the Kubernetes backend dials a pod with, under a started daemon.\<close>

definition session_client :: "daemon_args \<Rightarrow> start_plan \<Rightarrow> string \<Rightarrow> caliband_client" where
  "session_client a pl addr =
     connect_tcp addr (if be_tls (pl_backend pl) then Some (da_server_name a) else None) (be_token (pl_backend pl))"

lemma connect_no_plain:
  assumes "cc_token c = None \<or> cc_tls c \<noteq> None"
  shows "SendPlain line \<notin> set (fst (transport_connect ne c))"
  using assms
  by (auto simp: transport_connect_def start_bind_def pure_def wire_def client_send_token_def
      split: endpoint.splits option.splits sum.splits)

lemma connect_presents_token:
  assumes "transport_connect ne c = (steps, Inr conn)" "cc_token c = Some token" "cc_tls c \<noteq> None"
    "cc_endpoint c = Tcp addr"
  shows "\<exists>name line. steps = [Dial (Tcp addr), Handshake name, SendTls (line @ [CHR 0x0A])] \<and>
    ne_preamble ne token = Inr line"
  using assms
  by (auto simp: transport_connect_def start_bind_def pure_def wire_def client_send_token_def
      split: option.splits sum.splits)

text \<open>
  C39. No bearer token of the session plane travels in the clear: whatever client a started daemon dials with
  - the Kubernetes backend a pod, the manager its network daemon or a local socket - a dial never writes
  to an unencrypted connection, also when it fails half way; and a dial that succeeds with a token has
  presented it as its first bytes behind the handshake.
\<close>

theorem token_never_in_clear:
  assumes "daemon_start p en a = (effs, Inr pl)"
    and "c = session_client a pl addr \<or> network_client fe = Inr (Some c) \<or> c = client_new path"
    and "transport_connect ne c = (steps, r)"
  shows "(\<forall>line. SendPlain line \<notin> set steps) \<and>
    (case (r, cc_token c) of
       (Inr _, Some token) \<Rightarrow>
         \<exists>addr' name line. steps = [Dial (Tcp addr'), Handshake name, SendTls (line @ [CHR 0x0A])] \<and>
           ne_preamble ne token = Inr line
     | _ \<Rightarrow> True)"
proof -
  have tls: "cc_token c = None \<or> cc_tls c \<noteq> None \<and> (\<exists>addr'. cc_endpoint c = Tcp addr')"
    using assms(2) daemon_wiring_consistent_facts [OF assms(1)]
    by (auto simp: session_client_def connect_tcp_def client_new_def network_client_def rbind_Inr_iff
        split: option.splits)
  then have "SendPlain line \<notin> set steps" for line
    using connect_no_plain [of c line ne] assms(3) by auto
  moreover have "\<exists>addr' name line. steps = [Dial (Tcp addr'), Handshake name, SendTls (line @ [CHR 0x0A])] \<and>
           ne_preamble ne token = Inr line" if "r = Inr conn" "cc_token c = Some token" for conn token
    using tls connect_presents_token [of ne c steps conn token] assms(3) that by auto
  ultimately show ?thesis by (auto split: sum.split option.split)
qed

section \<open>Witnesses\<close>

definition sample_net :: net_env where
  "sample_net =
     \<lparr>ne_step = (\<lambda>_. None), ne_server_name = (\<lambda>_. Inr ()), ne_preamble = (\<lambda>t. Inr (CHR 0x22 # t @ [CHR 0x22]))\<rparr>"

definition sample_unquote :: "string \<Rightarrow> string + string" where
  "sample_unquote l = Inr (butlast (tl l))"

theorem token_preamble_exact_witness:
  "server_check_token sample_unquote ''tok'' (([CHR 0x22] @ ''tok'' @ [CHR 0x22, CHR 0x0A]) @ ''PING'') = Inr ''PING''"
proof -
  let ?line = "[CHR 0x22] @ ''tok'' @ [CHR 0x22]"
  have enc: "ne_preamble sample_net ''tok'' = Inr ?line" by (simp add: sample_net_def)
  have dec: "sample_unquote ?line = Inr ''tok''" by (simp add: sample_unquote_def)
  have valid: "utf8_valid ?line" by (simp add: utf8_valid.simps in_range_def)
  have "client_send_token sample_net (TlsConn ''caliband'') ''tok'' = ([SendTls (?line @ [CHR 0x0A])], Inr ())"
    by (simp add: client_send_token_def start_bind_def pure_def wire_def sample_net_def)
  from token_preamble_exact [where dec = sample_unquote, OF enc dec _ valid this, of "''tok''" "''PING''"] show ?thesis
    by (simp add: PREAMBLE_MAX_def)
qed

theorem token_never_in_clear_witness:
  "\<exists>line. fst (transport_connect sample_net (session_client sample_daemon_args sample_plan ''pod:7000'')) =
     [Dial (Tcp ''pod:7000''), Handshake ''caliband'', SendTls (line @ [CHR 0x0A])]"
proof -
  let ?c = "session_client sample_daemon_args sample_plan ''pod:7000''"
  have c: "cc_token ?c = Some ''tok''" "cc_endpoint ?c = Tcp ''pod:7000''" "cc_tls ?c = Some ''caliband''"
    by (simp_all add: session_client_def connect_tcp_def sample_plan_def sample_daemon_args_def)
  have run: "transport_connect sample_net ?c = (fst (transport_connect sample_net ?c), Inr (TlsConn ''caliband''))"
    using c by (simp add: transport_connect_def start_bind_def pure_def wire_def client_send_token_def sample_net_def)
  have step: "fst (transport_connect sample_net ?c) = Dial (Tcp ''pod:7000'') # Handshake ''caliband'' # tl (tl (fst (transport_connect sample_net ?c)))"
    using c by (simp add: transport_connect_def start_bind_def pure_def wire_def client_send_token_def sample_net_def)
  from token_never_in_clear [OF sample_start disjI1 [OF refl] run] c step show ?thesis by auto
qed

end
