(* ===== verification/Dash_Forms.thy ===== *)
theory Dash_Forms
  imports Dash_View K8s_Views Api_Handlers
begin

text \<open>
  The forms of the dashboard (\<open>dashboard/src/config_form.rs\<close>, the submit handlers of \<open>LaunchModal\<close> and
  \<open>WorkspaceModal\<close> in \<open>ui.rs\<close>): what a form is filled with, what it rejects and what it sends, next to what
  the server accepts and keeps.
\<close>

section \<open>Form fields\<close>

definition PROVIDER_KINDS :: "string list" where
  "PROVIDER_KINDS = [''anthropic'', ''openai'', ''google'', ''bedrock'', ''vertex'']"

definition some_trimmed :: "string \<Rightarrow> string option" where
  "some_trimmed s = (let t = trim s in if t = [] then None else Some t)"

definition non_empty :: "string \<Rightarrow> string option" where
  "non_empty s = (let t = trim s in if t = [] then None else Some t)"

text \<open>The pairs are collected into a \<open>BTreeMap\<close>: the last row of a key wins.\<close>

definition env_map :: "(string \<times> string) list \<Rightarrow> string \<rightharpoonup> string" where
  "env_map rows =
     foldl (\<lambda>m (k, v). m(k \<mapsto> v)) Map.empty
       (List.map_filter (\<lambda>(k, v). let k = trim k in if k = [] then None else Some (k, trim v)) rows)"

text \<open>The rows of a \<open>BTreeMap\<close>, in the order of its keys.\<close>

definition env_rows :: "(string \<rightharpoonup> string) \<Rightarrow> (string \<times> string) list" where
  "env_rows m = map (\<lambda>k. (k, the (m k))) (sorted_list_of_set (dom m))"

section \<open>The local form\<close>

record local_form =
  lf_provider :: string
  lf_base_url :: string
  lf_api_key_from_env :: string
  lf_env :: "(string \<times> string) list"

definition local_form_default :: local_form where
  "local_form_default = \<lparr>lf_provider = [], lf_base_url = [], lf_api_key_from_env = [], lf_env = []\<rparr>"

definition or_blank :: "string option \<Rightarrow> string" where
  "or_blank o' = (case o' of None \<Rightarrow> [] | Some s \<Rightarrow> s)"

definition local_from_config :: "repo_provider_config \<Rightarrow> local_form" where
  "local_from_config cfg =
     \<lparr>lf_provider = or_blank (provider cfg), lf_base_url = or_blank (base_url cfg),
      lf_api_key_from_env = or_blank (api_key_from_env cfg), lf_env = env_rows (env cfg)\<rparr>"

definition default_workspace_config :: workspace_config where
  "default_workspace_config =
     \<lparr>wc_display_name = None, wc_sources = [], wc_providers = [], wc_default_provider = None,
      wc_isolation = None, wc_local = default_provider_config\<rparr>"

definition local_to_config :: "local_form \<Rightarrow> workspace_config" where
  "local_to_config f =
     default_workspace_config
       \<lparr>wc_local := \<lparr>provider = some_trimmed (lf_provider f), base_url = some_trimmed (lf_base_url f),
                     api_key_from_env = some_trimmed (lf_api_key_from_env f), env = env_map (lf_env f)\<rparr>\<rparr>"

definition local_validate :: "local_form \<Rightarrow> string + unit" where
  "local_validate f =
     (let p = trim (lf_provider f)
      in if trim (lf_api_key_from_env f) \<noteq> [] \<and> p \<in> {''bedrock'', ''vertex''}
         then Inl (p @ '' takes no API key '' @ utf8_mdash @
                   '' clear the env-var field, or pick another provider.'')
         else Inr ())"

section \<open>The Kubernetes form\<close>

record source_row =
  sr_name :: string
  sr_repo :: string
  sr_ref :: string
  sr_path :: string

definition source_row_default :: source_row where
  "source_row_default = \<lparr>sr_name = [], sr_repo = [], sr_ref = [], sr_path = []\<rparr>"

definition source_is_blank :: "source_row \<Rightarrow> bool" where
  "source_is_blank s \<longleftrightarrow> trim (sr_name s) = [] \<and> trim (sr_repo s) = [] \<and> trim (sr_path s) = []"

record provider_row =
  pr_name :: string
  pr_kind :: string
  pr_base_url :: string
  pr_model :: string
  pr_secret_name :: string
  pr_secret_key :: string

definition blank_provider_row :: provider_row where
  "blank_provider_row =
     \<lparr>pr_name = [], pr_kind = PROVIDER_KINDS ! 0, pr_base_url = [], pr_model = [],
      pr_secret_name = [], pr_secret_key = []\<rparr>"

record k8s_form =
  kf_display_name :: string
  kf_sources :: "source_row list"
  kf_providers :: "provider_row list"
  kf_default_provider :: "string option"
  kf_env :: "(string \<times> string) list"

definition k8s_form_blank :: k8s_form where
  "k8s_form_blank =
     \<lparr>kf_display_name = [], kf_sources = [source_row_default], kf_providers = [blank_provider_row],
      kf_default_provider = None, kf_env = []\<rparr>"

definition k8s_from_summary ::
  "string option \<Rightarrow> workspace_source_spec list \<Rightarrow> provider_info list \<Rightarrow> string option \<Rightarrow> k8s_form" where
  "k8s_from_summary display_name sources providers default_provider =
     (let srcs = map (\<lambda>s. \<lparr>sr_name = wss_name s, sr_repo = wss_repo s, sr_ref = or_blank (wss_ref s),
                           sr_path = wss_path s\<rparr>) sources;
          provs = map (\<lambda>p. \<lparr>pr_name = pi_name p, pr_kind = pi_kind p, pr_base_url = or_blank (pi_base_url p),
                            pr_model = or_blank (pi_model p), pr_secret_name = [], pr_secret_key = []\<rparr>) providers
      in \<lparr>kf_display_name = or_blank display_name,
          kf_sources = (if srcs = [] then [source_row_default] else srcs),
          kf_providers = (if provs = [] then [blank_provider_row] else provs),
          kf_default_provider = default_provider, kf_env = []\<rparr>)"

fun str_join :: "string \<Rightarrow> string list \<Rightarrow> string" where
  "str_join sep [] = []"
| "str_join sep [x] = x"
| "str_join sep (x # y # ys) = x @ sep @ str_join sep (y # ys)"

definition credentials_warning :: "string list \<Rightarrow> k8s_form \<Rightarrow> string option" where
  "credentials_warning had f =
     (let at_risk = map pr_name (filter (\<lambda>p. pr_name p \<in> set had \<and> trim (pr_secret_name p) = []) (kf_providers f))
      in if at_risk = [] then None
         else Some (''Credentials are never read back. Re-enter the Secret for '' @ str_join '', '' at_risk @
                    '' or saving will leave '' @ (if length at_risk = 1 then ''it'' else ''them'') @ '' keyless.''))"

definition source_spec_of :: "source_row \<Rightarrow> workspace_source_spec" where
  "source_spec_of s =
     \<lparr>wss_name = trim (sr_name s), wss_repo = trim (sr_repo s), wss_ref = some_trimmed (sr_ref s),
      wss_path = trim (sr_path s)\<rparr>"

definition provider_spec_of :: "provider_row \<Rightarrow> provider_spec" where
  "provider_spec_of p =
     \<lparr>ps_name = trim (pr_name p), ps_kind = trim (pr_kind p), ps_base_url = some_trimmed (pr_base_url p),
      ps_model = some_trimmed (pr_model p),
      ps_credentials_ref = map_option (\<lambda>n. \<lparr>secret_name = n, secret_key = trim (pr_secret_key p)\<rparr>)
                             (some_trimmed (pr_secret_name p))\<rparr>"

definition k8s_to_config :: "k8s_form \<Rightarrow> workspace_config" where
  "k8s_to_config f =
     (let sources = map source_spec_of (filter (\<lambda>s. \<not> source_is_blank s) (kf_sources f));
          providers = map provider_spec_of (filter (\<lambda>p. trim (pr_name p) \<noteq> []) (kf_providers f));
          default_provider =
            Option.bind (Option.bind (kf_default_provider f) some_trimmed)
              (\<lambda>d. if list_ex (\<lambda>p. ps_name p = d) providers then Some d else None)
      in \<lparr>wc_display_name = some_trimmed (kf_display_name f), wc_sources = sources, wc_providers = providers,
          wc_default_provider = default_provider, wc_isolation = None,
          wc_local = default_provider_config\<lparr>env := env_map (kf_env f)\<rparr>\<rparr>)"

fun check_each :: "('a \<Rightarrow> string + unit) \<Rightarrow> 'a list \<Rightarrow> string + unit" where
  "check_each p [] = Inr ()"
| "check_each p (x # xs) = rbind (p x) (\<lambda>_. check_each p xs)"

definition check_source :: "workspace_source_spec \<Rightarrow> string + unit" where
  "check_source s =
     (if wss_name s = [] \<or> wss_repo s = [] \<or> wss_path s = []
      then Inl (''Source \"'' @ (if wss_name s = [] then ''(unnamed)'' else wss_name s) @
                ''\" needs a name, a git remote, and a mount path.'')
      else if hd (wss_path s) \<noteq> CHR ''/''
      then Inl (''Source \"'' @ wss_name s @ ''\" needs an absolute mount path (starting with /).'')
      else Inr ())"

definition check_provider :: "provider_spec \<Rightarrow> string + unit" where
  "check_provider p =
     (if ps_kind p = [] then Inl (''Provider \"'' @ ps_name p @ ''\" needs a kind.'')
      else case ps_credentials_ref p of
        Some c \<Rightarrow> if secret_key c = []
                  then Inl (''Provider \"'' @ ps_name p @ ''\" names Secret \"'' @ secret_name c @
                            ''\" but no key within it.'')
                  else Inr ()
      | None \<Rightarrow> Inr ())"

fun check_names :: "string \<Rightarrow> string list \<Rightarrow> string list \<Rightarrow> string + unit" where
  "check_names what seen [] = Inr ()"
| "check_names what seen (n # ns) =
     (if n \<in> set seen then Inl (''Two '' @ what @ '' are both named \"'' @ n @ ''\".'')
      else check_names what (seen @ [n]) ns)"

definition k8s_validate :: "k8s_form \<Rightarrow> string + unit" where
  "k8s_validate f =
     (let cfg = k8s_to_config f
      in if wc_sources cfg = []
         then Inl (''Add at least one source '' @ utf8_mdash @ '' a name, git remote, and mount path.'')
         else rbind (check_each check_source (wc_sources cfg)) (\<lambda>_.
           if wc_providers cfg = []
           then Inl (''Add at least one provider '' @ utf8_mdash @ '' a name and a kind.'')
           else rbind (check_each check_provider (wc_providers cfg)) (\<lambda>_.
             rbind (check_names ''providers'' [] (map ps_name (wc_providers cfg))) (\<lambda>_.
               check_names ''sources'' [] (map wss_name (wc_sources cfg))))))"

section \<open>Submitting (\<open>ui.rs\<close>)\<close>

record launch_form =
  lm_target :: string
  lm_provider_ref :: string
  lm_prompt :: string
  lm_label :: string
  lm_model :: string
  lm_tools :: string
  lm_worktree :: bool
  lm_interactive :: bool
  lm_unattended :: bool

definition launch_submit :: "launch_form \<Rightarrow> string + string \<times> spawn_body" where
  "launch_submit f =
     (let ws = trim (lm_target f);
          task = trim (lm_prompt f);
          allowlist = filter (\<lambda>t. t \<noteq> []) (map trim (split_on (CHR '','') (lm_tools f)))
      in if ws = [] \<or> task = [] then Inl ''A workspace and a task are both required.''
         else Inr (ws,
           \<lparr>sb_prompt = task, sb_label = non_empty (lm_label f), sb_model = non_empty (lm_model f),
            sb_isolation = (if lm_worktree f then None else Some ''shared''),
            sb_tool_allowlist = (if allowlist = [] then None else Some allowlist),
            sb_interactive = lm_interactive f, sb_frontmatter_path = None,
            sb_provider_ref = non_empty (lm_provider_ref f), sb_timeout_secs = None,
            sb_posture = (if lm_unattended f then Unattended else Supervised)\<rparr>))"

definition modal_local_form :: "workspace_summary option \<Rightarrow> local_form" where
  "modal_local_form summary =
     (case summary of Some s \<Rightarrow> local_from_config (sm_config s) | None \<Rightarrow> local_form_default)"

definition modal_k8s_form :: "workspace_summary option \<Rightarrow> k8s_form" where
  "modal_k8s_form summary =
     (case summary of
        Some s \<Rightarrow> k8s_from_summary (sm_display_name s) (sm_source_specs s) (sm_providers s) (sm_default_provider s)
      | None \<Rightarrow> k8s_form_blank)"

definition modal_had_credentials :: "workspace_summary option \<Rightarrow> string list" where
  "modal_had_credentials summary =
     (case summary of Some s \<Rightarrow> map pi_name (filter pi_has_credentials (sm_providers s)) | None \<Rightarrow> [])"

definition modal_env :: "workspace_summary option \<Rightarrow> (string \<times> string) list" where
  "modal_env summary = (case summary of Some s \<Rightarrow> env_rows (env (sm_config s)) | None \<Rightarrow> [])"

datatype workspace_request =
    AddWorkspace string string workspace_config
  | SetWorkspaceConfig string workspace_config

definition workspace_submit ::
  "bool \<Rightarrow> string option \<Rightarrow> string \<Rightarrow> string \<Rightarrow> local_form \<Rightarrow> k8s_form \<Rightarrow> (string \<times> string) list \<Rightarrow>
   string + workspace_request" where
  "workspace_submit is_k8s editing name root local k8s rows =
     (let ws_name = trim name; checkout = trim root
      in if ws_name = [] then Inl ''A name is required.''
         else if editing = None \<and> \<not> is_k8s \<and> checkout = [] then Inl ''A checkout path is required.''
         else rbind (if is_k8s
                     then (let f = k8s\<lparr>kf_env := rows\<rparr> in rbind (k8s_validate f) (\<lambda>_. Inr (k8s_to_config f)))
                     else (let f = local\<lparr>lf_env := rows\<rparr> in rbind (local_validate f) (\<lambda>_. Inr (local_to_config f))))
                (\<lambda>config. Inr (case editing of
                    Some existing \<Rightarrow> SetWorkspaceConfig existing config
                  | None \<Rightarrow> AddWorkspace ws_name checkout config)))"

section \<open>Trimming\<close>

definition char_chunks :: "string list \<Rightarrow> bool" where
  "char_chunks cs \<longleftrightarrow>
     (\<forall>c \<in> set cs. c \<noteq> [] \<and> list_all is_cont_byte (tl c)) \<and> (\<forall>c \<in> set (tl cs). \<not> is_cont_byte (hd c))"

lemma utf8_chars_heads:
  "s = [] \<or> \<not> is_cont_byte (hd s) \<Longrightarrow> c \<in> set (utf8_chars s) \<Longrightarrow> \<not> is_cont_byte (hd c)"
proof (induction s rule: utf8_chars.induct)
  case (2 b bs)
  have "dropWhile is_cont_byte bs = [] \<or> \<not> is_cont_byte (hd (dropWhile is_cont_byte bs))"
    using hd_dropWhile by blast
  then show ?case using 2 by auto
qed simp

lemma utf8_chars_chunks: "char_chunks (utf8_chars s)"
proof (cases s)
  case (Cons b bs)
  have "list_all is_cont_byte (tl c)" if "c \<in> set (utf8_chars t)" for c t
    using that by (induction t rule: utf8_chars.induct) (auto simp: list_all_iff dest: set_takeWhileD)
  moreover have "dropWhile is_cont_byte bs = [] \<or> \<not> is_cont_byte (hd (dropWhile is_cont_byte bs))"
    using hd_dropWhile by blast
  moreover have "utf8_chars s = (b # takeWhile is_cont_byte bs) # utf8_chars (dropWhile is_cont_byte bs)"
    by (simp add: Cons)
  ultimately show ?thesis
    using utf8_chars_heads [of "dropWhile is_cont_byte bs"] utf8_chars_nonempty [of _ s]
    unfolding char_chunks_def by (metis list.sel(3))
qed (simp add: char_chunks_def)

lemma char_chunks_tail: "char_chunks (c # cs) \<Longrightarrow> char_chunks cs"
  by (cases cs) (auto simp: char_chunks_def)

lemma span_append:
  "list_all p xs \<Longrightarrow> ys = [] \<or> \<not> p (hd ys) \<Longrightarrow>
   takeWhile p (xs @ ys) = xs \<and> dropWhile p (xs @ ys) = ys"
  by (induction xs) (cases ys; auto)+

lemma utf8_chars_concat: "char_chunks cs \<Longrightarrow> utf8_chars (concat cs) = cs"
proof (induction cs)
  case (Cons c cs)
  obtain b conts where c: "c = b # conts" "list_all is_cont_byte conts"
    using Cons.prems by (cases c) (auto simp: char_chunks_def)
  have "char_chunks cs" using Cons.prems by (rule char_chunks_tail)
  moreover have "concat cs = [] \<or> \<not> is_cont_byte (hd (concat cs))"
    using Cons.prems by (cases cs) (auto simp: char_chunks_def hd_append)
  moreover have "takeWhile is_cont_byte (conts @ concat cs) = conts"
    "dropWhile is_cont_byte (conts @ concat cs) = concat cs"
    using span_append [OF c(2) calculation(2)] by simp_all
  ultimately show ?case using Cons.IH by (simp add: c)
qed simp

lemma char_chunks_drop: "char_chunks cs \<Longrightarrow> char_chunks (dropWhile p cs)"
  by (induction cs) (auto dest: char_chunks_tail)

lemma char_chunks_prefix: "char_chunks (xs @ ys) \<Longrightarrow> char_chunks xs"
  by (cases xs) (auto simp: char_chunks_def)

lemma drop_while_end_prefix: "\<exists>ys. cs = drop_while_end p cs @ ys"
  unfolding drop_while_end_def by (metis rev_append rev_rev_ident takeWhile_dropWhile_id)

lemma drop_while_end_last: "drop_while_end p cs \<noteq> [] \<Longrightarrow> \<not> p (last (drop_while_end p cs))"
  by (simp add: drop_while_end_def last_rev hd_dropWhile)

lemma drop_while_end_same: "cs = [] \<or> \<not> p (last cs) \<Longrightarrow> drop_while_end p cs = cs"
  by (cases cs rule: rev_cases) (auto simp: drop_while_end_def)

lemma trim_trim [simp]: "trim (trim s) = trim s"
proof -
  let ?d = "dropWhile is_whitespace (utf8_chars s)"
  let ?t = "drop_while_end is_whitespace ?d"
  obtain ys where ys: "?d = ?t @ ys" using drop_while_end_prefix by metis
  have "char_chunks ?t" using char_chunks_prefix [of ?t ys] char_chunks_drop [OF utf8_chars_chunks] ys by metis
  then have "utf8_chars (trim s) = ?t" by (simp add: trim_def utf8_chars_concat)
  moreover have "?t = [] \<or> \<not> is_whitespace (hd ?t)"
    using hd_dropWhile [of is_whitespace "utf8_chars s"] ys by (metis append_is_Nil_conv hd_append2)
  then have "dropWhile is_whitespace ?t = ?t" by (cases ?t) auto
  moreover have "drop_while_end is_whitespace ?t = ?t"
    using drop_while_end_last by (intro drop_while_end_same) blast
  ultimately show ?thesis by (simp add: trim_def)
qed

lemma trim_Nil [simp]: "trim [] = []"
  by (simp add: trim_def drop_while_end_def)

lemma some_trimmed_simps [simp]:
  "some_trimmed s = None \<longleftrightarrow> trim s = []"
  "some_trimmed s = Some t \<longleftrightarrow> t = trim s \<and> t \<noteq> []"
  by (auto simp: some_trimmed_def Let_def)

definition tidy :: "string \<Rightarrow> bool" where
  "tidy s \<longleftrightarrow> s \<noteq> [] \<and> trim s = s"

definition tidy_option :: "string option \<Rightarrow> bool" where
  "tidy_option o' = (case o' of None \<Rightarrow> True | Some s \<Rightarrow> tidy s)"

lemma some_trimmed_or_blank: "tidy_option o' \<Longrightarrow> some_trimmed (or_blank o') = o'"
  by (cases o') (auto simp: tidy_option_def tidy_def or_blank_def)

section \<open>Rows and maps\<close>

lemma foldl_upd_map_of:
  "distinct (map fst kvs) \<Longrightarrow> foldl (\<lambda>m (k, v). m(k \<mapsto> v)) m kvs = m ++ map_of kvs"
proof (induction kvs arbitrary: m)
  case (Cons kv kvs)
  obtain k v where kv: "kv = (k, v)" by (cases kv)
  have "m(k \<mapsto> v) ++ map_of kvs = m ++ map_of ((k, v) # kvs)"
    using Cons.prems by (simp add: kv map_add_upd_left dom_map_of_conv_image_fst)
  moreover have "foldl (\<lambda>m (k, v). m(k \<mapsto> v)) m (kv # kvs) = foldl (\<lambda>m (k, v). m(k \<mapsto> v)) (m(k \<mapsto> v)) kvs"
    by (simp add: kv)
  ultimately show ?case using Cons.IH [of "m(k \<mapsto> v)"] Cons.prems by (metis kv distinct.simps(2) list.simps(9))
qed simp

lemma env_rows_of: "finite (dom m) \<Longrightarrow> map_of (env_rows m) = m"
  by (rule ext, rename_tac k, case_tac "m k")
    (auto simp: env_rows_def map_of_map_restrict restrict_map_def)

lemma env_rows_distinct: "finite (dom m) \<Longrightarrow> distinct (map fst (env_rows m))"
  by (simp add: env_rows_def comp_def)

lemma env_map_tidy_rows:
  assumes "\<forall>(k, v) \<in> set rows. tidy k \<and> trim v = v" "distinct (map fst rows)"
  shows "env_map rows = map_of rows"
proof -
  have "List.map_filter (\<lambda>(k, v). let k = trim k in if k = [] then None else Some (k, trim v)) rows = rows"
    using assms(1) by (induction rows) (auto simp: List.map_filter_def tidy_def Let_def)
  then show ?thesis using foldl_upd_map_of [OF assms(2)] by (simp add: env_map_def)
qed

lemma env_map_rows:
  assumes "finite (dom m)" "\<forall>k v. m k = Some v \<longrightarrow> tidy k \<and> trim v = v"
  shows "env_map (env_rows m) = m"
proof -
  have "\<forall>(k, v) \<in> set (env_rows m). tidy k \<and> trim v = v"
    using assms by (auto simp: env_rows_def)
  then show ?thesis
    using env_map_tidy_rows [OF _ env_rows_distinct [OF assms(1)]] env_rows_of [OF assms(1)] by simp
qed

section \<open>What a form accepts\<close>

lemma check_each_ok: "check_each p xs = Inr () \<longleftrightarrow> (\<forall>x \<in> set xs. p x = Inr ())"
  by (induction xs) (auto simp: rbind_Inr_iff)

lemma check_names_ok: "check_names w seen ns = Inr () \<longleftrightarrow> distinct ns \<and> set seen \<inter> set ns = {}"
  by (induction ns arbitrary: seen) auto

lemma check_source_ok:
  "check_source s = Inr () \<longleftrightarrow>
     wss_name s \<noteq> [] \<and> wss_repo s \<noteq> [] \<and> wss_path s \<noteq> [] \<and> hd (wss_path s) = CHR ''/''"
  by (simp add: check_source_def)

lemma check_provider_ok:
  "check_provider p = Inr () \<longleftrightarrow>
     ps_kind p \<noteq> [] \<and> (\<forall>c. ps_credentials_ref p = Some c \<longrightarrow> secret_key c \<noteq> [])"
  by (simp add: check_provider_def split: option.split)

lemma k8s_validate_ok:
  "k8s_validate f = Inr () \<longleftrightarrow>
     (let cfg = k8s_to_config f
      in wc_sources cfg \<noteq> [] \<and> (\<forall>s \<in> set (wc_sources cfg). check_source s = Inr ()) \<and>
         wc_providers cfg \<noteq> [] \<and> (\<forall>p \<in> set (wc_providers cfg). check_provider p = Inr ()) \<and>
         distinct (map ps_name (wc_providers cfg)) \<and> distinct (map wss_name (wc_sources cfg)))"
  by (auto simp: k8s_validate_def Let_def rbind_Inr_iff check_each_ok check_names_ok split: if_splits)

lemma source_spec_trimmed:
  "s \<in> set (wc_sources (k8s_to_config f)) \<Longrightarrow>
   trim (wss_name s) = wss_name s \<and> trim (wss_repo s) = wss_repo s \<and> trim (wss_path s) = wss_path s"
  by (auto simp: k8s_to_config_def Let_def source_spec_of_def)

lemma provider_spec_trimmed:
  "p \<in> set (wc_providers (k8s_to_config f)) \<Longrightarrow>
   ps_name p \<noteq> [] \<and> trim (ps_name p) = ps_name p \<and> trim (ps_kind p) = ps_kind p"
  by (auto simp: k8s_to_config_def Let_def provider_spec_of_def)

text \<open>
  C33. What the form of a Kubernetes workspace lets through is what the server and the resource accept: the
  configuration passes the server's check, every mount path is absolute, no source or provider
  shares its name with another, every reference to a Secret names a key in it, and the default
  provider is one of the providers.
\<close>

theorem accepted_form_is_valid:
  assumes ok: "k8s_validate f = Inr ()" and cfg: "cfg = k8s_to_config f"
  shows "validate_k8s_config p cfg = Inr () \<and>
    (\<forall>s \<in> set (wc_sources cfg). hd (wss_path s) = CHR ''/'') \<and>
    distinct (map wss_name (wc_sources cfg)) \<and> distinct (map ps_name (wc_providers cfg)) \<and>
    (\<forall>q \<in> set (wc_providers cfg). \<forall>c. ps_credentials_ref q = Some c \<longrightarrow> secret_name c \<noteq> [] \<and> secret_key c \<noteq> []) \<and>
    (\<forall>d. wc_default_provider cfg = Some d \<longrightarrow> d \<in> ps_name ` set (wc_providers cfg))"
proof -
  note v = ok [unfolded k8s_validate_ok Let_def check_source_ok check_provider_ok]
  have "\<not> blank (wss_name s) \<and> \<not> blank (wss_repo s) \<and> \<not> blank (wss_path s)" if "s \<in> set (wc_sources cfg)" for s
    using v that source_spec_trimmed [of s f] by (auto simp: blank_def cfg)
  moreover have "\<not> blank (ps_name q) \<and> \<not> blank (ps_kind q)" if "q \<in> set (wc_providers cfg)" for q
    using v that provider_spec_trimmed [of q f] by (auto simp: blank_def cfg)
  ultimately have "validate_k8s_config p cfg = Inr ()"
    using v by (simp add: validated_k8s_config cfg)
  moreover have "secret_name c \<noteq> []" if "q \<in> set (wc_providers cfg)" "ps_credentials_ref q = Some c" for q c
    using that by (auto simp: cfg k8s_to_config_def Let_def provider_spec_of_def)
  moreover have "d \<in> ps_name ` set (wc_providers cfg)" if "wc_default_provider cfg = Some d" for d
    using that by (auto simp: cfg k8s_to_config_def Let_def list_ex_iff bind_eq_Some_conv split: if_splits)
      (metis (mono_tags, lifting) image_eqI mem_Collect_eq)
  ultimately show ?thesis using v by (auto simp: cfg)
qed

text \<open>
  The local form agrees with the daemon: for every provider the form offers, and for none, it lets a
  key reference through exactly when the daemon does.
\<close>

theorem local_form_agrees:
  assumes "trim (lf_provider f) = [] \<or> trim (lf_provider f) \<in> set PROVIDER_KINDS"
  shows "local_validate f = Inr () \<longleftrightarrow> validate_provider_config (wc_local (local_to_config f)) = Inr ()"
  using assms
  by (auto simp: PROVIDER_KINDS_def local_validate_def validate_provider_config_def local_to_config_def
      default_workspace_config_def some_trimmed_def provider_vars_def Let_def)

section \<open>Opening an editor and saving\<close>

definition tidy_config :: "repo_provider_config \<Rightarrow> bool" where
  "tidy_config cfg \<longleftrightarrow>
     tidy_option (provider cfg) \<and> tidy_option (base_url cfg) \<and> tidy_option (api_key_from_env cfg) \<and>
     finite (dom (env cfg)) \<and> (\<forall>k v. env cfg k = Some v \<longrightarrow> tidy k \<and> trim v = v)"

text \<open>
  Under the local backend, opening the editor of a workspace and saving it unchanged sends the
  configuration it had: nothing a blank or a missing field stands for is lost or made up.
\<close>

theorem local_edit_keeps_config:
  assumes t: "tidy_config (sm_config s)" and ok: "validate_provider_config (sm_config s) = Inr ()"
    and n: "trim n \<noteq> []"
  shows "workspace_submit False (Some n) n root (modal_local_form (Some s)) k8s (modal_env (Some s)) =
    Inr (SetWorkspaceConfig n (default_workspace_config\<lparr>wc_local := sm_config s\<rparr>))"
proof -
  let ?f = "(modal_local_form (Some s))\<lparr>lf_env := modal_env (Some s)\<rparr>"
  have "wc_local (local_to_config ?f) = sm_config s"
    using t by (simp add: local_to_config_def modal_local_form_def local_from_config_def modal_env_def
        tidy_config_def some_trimmed_or_blank env_map_rows default_workspace_config_def)
  then have cfg: "local_to_config ?f = default_workspace_config\<lparr>wc_local := sm_config s\<rparr>"
    by (simp add: local_to_config_def)
  have "local_validate ?f = Inr ()"
    using t ok by (cases "provider (sm_config s)"; cases "api_key_from_env (sm_config s)")
      (auto simp: local_validate_def modal_local_form_def local_from_config_def or_blank_def tidy_config_def
        tidy_option_def tidy_def validate_provider_config_def provider_vars_def Let_def)
  then show ?thesis using cfg n by (simp add: workspace_submit_def Let_def)
qed

definition tidy_resource :: "workspace_cr \<Rightarrow> bool" where
  "tidy_resource w =
     (let sp = wr_spec w
      in tidy (wp_display_name sp) \<and>
         wp_sources sp \<noteq> [] \<and> wp_providers sp \<noteq> [] \<and>
         (\<forall>s \<in> set (wp_sources sp). tidy (cs_name s) \<and> tidy (cs_repo s) \<and> tidy (cs_ref s) \<and>
            tidy (cs_path s) \<and> hd (cs_path s) = CHR ''/'') \<and>
         (\<forall>q \<in> set (wp_providers sp). tidy (ps_name q) \<and> tidy (ps_kind q) \<and> tidy_option (ps_base_url q) \<and>
            tidy_option (ps_model q)) \<and>
         distinct (map cs_name (wp_sources sp)) \<and> distinct (map ps_name (wp_providers sp)) \<and>
         (case wp_default_provider sp of None \<Rightarrow> True | Some d \<Rightarrow> d \<in> ps_name ` set (wp_providers sp)))"

lemma or_blank_Some [simp]: "or_blank (Some x) = x" and or_blank_None [simp]: "or_blank None = []"
  by (simp_all add: or_blank_def)

text \<open>The configuration that the unchanged editor of a resource makes.\<close>

lemma edited_config:
  assumes t: "tidy_resource w" and s: "s = summary_of_info snap (workspace_info_of w)"
  shows "k8s_to_config ((modal_k8s_form (Some s))\<lparr>kf_env := modal_env (Some s)\<rparr>) =
    \<lparr>wc_display_name = Some (wp_display_name (wr_spec w)),
     wc_sources = map (\<lambda>c. \<lparr>wss_name = cs_name c, wss_repo = cs_repo c, wss_ref = Some (cs_ref c),
                            wss_path = cs_path c\<rparr>) (wp_sources (wr_spec w)),
     wc_providers = map (\<lambda>q. q\<lparr>ps_credentials_ref := None\<rparr>) (wp_providers (wr_spec w)),
     wc_default_provider = wp_default_provider (wr_spec w), wc_isolation = None,
     wc_local = default_provider_config\<rparr>"
proof -
  let ?sp = "wr_spec w"
  define srcs where "srcs = map (\<lambda>c. \<lparr>sr_name = cs_name c, sr_repo = cs_repo c, sr_ref = cs_ref c, sr_path = cs_path c\<rparr>) (wp_sources ?sp)"
  define provs where "provs = map (\<lambda>q. \<lparr>pr_name = ps_name q, pr_kind = ps_kind q, pr_base_url = or_blank (ps_base_url q),
      pr_model = or_blank (ps_model q), pr_secret_name = [], pr_secret_key = []\<rparr>) (wp_providers ?sp)"
  note t' = t [unfolded tidy_resource_def Let_def]
  have rows: "env_rows Map.empty = []" by (simp add: env_rows_def)
  have form: "(modal_k8s_form (Some s))\<lparr>kf_env := modal_env (Some s)\<rparr> =
      \<lparr>kf_display_name = wp_display_name ?sp, kf_sources = srcs, kf_providers = provs,
       kf_default_provider = wp_default_provider ?sp, kf_env = []\<rparr>"
    using t' by (auto simp: modal_k8s_form_def modal_env_def s summary_of_info_def workspace_info_of_def
        k8s_from_summary_def Let_def comp_def tidy_def srcs_def provs_def default_provider_config_def rows)
  have "filter (\<lambda>s. \<not> source_is_blank s) srcs = srcs"
    using t' by (auto simp: srcs_def source_is_blank_def tidy_def filter_id_conv)
  moreover have "map source_spec_of srcs =
      map (\<lambda>c. \<lparr>wss_name = cs_name c, wss_repo = cs_repo c, wss_ref = Some (cs_ref c), wss_path = cs_path c\<rparr>) (wp_sources ?sp)"
    using t' by (auto simp: srcs_def source_spec_of_def tidy_def)
  moreover have "filter (\<lambda>p. trim (pr_name p) \<noteq> []) provs = provs"
    using t' by (auto simp: provs_def tidy_def filter_id_conv)
  moreover have specs: "map provider_spec_of provs = map (\<lambda>q. q\<lparr>ps_credentials_ref := None\<rparr>) (wp_providers ?sp)"
    using t' by (auto simp: provs_def provider_spec_of_def tidy_def some_trimmed_or_blank)
  moreover have "Option.bind (Option.bind (wp_default_provider ?sp) some_trimmed)
      (\<lambda>d. if list_ex (\<lambda>p. ps_name p = d) (map (\<lambda>q. q\<lparr>ps_credentials_ref := None\<rparr>) (wp_providers ?sp)) then Some d else None)
      = wp_default_provider ?sp"
    using t' by (cases "wp_default_provider ?sp") (auto simp: list_ex_iff some_trimmed_def tidy_def Let_def)
  ultimately show ?thesis
    using t' by (simp add: form k8s_to_config_def Let_def tidy_def env_map_def List.map_filter_def
        default_provider_config_def)
qed


text \<open>
  Saving never strips a credential unannounced: when the editor gives no warning and the names on the
  form have no blanks around them, every provider it sends under the name of one that had
  credentials refers to a Secret and, when the form is accepted, to a key in it.
\<close>

theorem no_warning_keeps_credentials:
  assumes w: "credentials_warning had f = None" and ok: "k8s_validate f = Inr ()"
    and names: "\<forall>p \<in> set (kf_providers f). trim (pr_name p) = pr_name p"
    and q: "q \<in> set (wc_providers (k8s_to_config f))" "ps_name q \<in> set had"
  shows "\<exists>c. ps_credentials_ref q = Some c \<and> secret_name c \<noteq> [] \<and> secret_key c \<noteq> []"
proof -
  obtain p where p: "p \<in> set (kf_providers f)" "q = provider_spec_of p"
    using q(1) by (auto simp: k8s_to_config_def Let_def)
  have "pr_name p \<in> set had" using names p q(2) by (auto simp: provider_spec_of_def)
  then have "trim (pr_secret_name p) \<noteq> []"
    using w p(1) by (auto simp: credentials_warning_def Let_def filter_empty_conv split: if_splits)
  then obtain c where c: "ps_credentials_ref q = Some c" "secret_name c \<noteq> []"
    using p(2) by (auto simp: provider_spec_of_def some_trimmed_def Let_def)
  then show ?thesis
    using ok q(1) by (auto simp: k8s_validate_ok Let_def check_provider_ok)
qed

text \<open>A blank after the name of a provider silences the warning, and its credential is gone.\<close>

lemma blank_name_silences_warning:
  "let f = k8s_form_blank\<lparr>kf_providers := [blank_provider_row\<lparr>pr_name := ''planner ''\<rparr>]\<rparr>
   in credentials_warning [''planner''] f = None \<and>
      map (\<lambda>q. (ps_name q, ps_credentials_ref q)) (wc_providers (k8s_to_config f)) = [(''planner'', None)]"
  by code_simp

section \<open>Witnesses\<close>

definition sample_k8s_form :: k8s_form where
  "sample_k8s_form =
     \<lparr>kf_display_name = ''Team A'',
      kf_sources = [\<lparr>sr_name = ''web'', sr_repo = ''git'', sr_ref = [], sr_path = ''/w''\<rparr>, source_row_default],
      kf_providers = [\<lparr>pr_name = ''main'', pr_kind = ''openai'', pr_base_url = [], pr_model = '' m '',
                       pr_secret_name = ''keys'', pr_secret_key = ''k''\<rparr>],
      kf_default_provider = Some ''main'', kf_env = []\<rparr>"

lemma sample_k8s_form_valid: "k8s_validate sample_k8s_form = Inr ()"
  by code_simp

theorem accepted_form_is_valid_witness:
  "validate_k8s_config sample_auth (k8s_to_config sample_k8s_form) = Inr ()"
  using accepted_form_is_valid [OF sample_k8s_form_valid refl] by simp

theorem local_form_agrees_witness:
  "local_validate (local_form_default\<lparr>lf_provider := ''bedrock'', lf_api_key_from_env := ''K''\<rparr>) \<noteq> Inr () \<and>
   validate_provider_config
     (wc_local (local_to_config (local_form_default\<lparr>lf_provider := ''bedrock'', lf_api_key_from_env := ''K''\<rparr>))) \<noteq> Inr ()"
proof -
  let ?f = "local_form_default\<lparr>lf_provider := ''bedrock'', lf_api_key_from_env := ''K''\<rparr>"
  have "trim (lf_provider ?f) \<in> set PROVIDER_KINDS" "local_validate ?f \<noteq> Inr ()" by code_simp+
  then show ?thesis using local_form_agrees [of ?f] by simp
qed

lemma tidy_samples: "tidy ''openai''" "tidy ''K''" "tidy ''A''" "tidy ''w''" "tidy ''web''" "tidy ''git''" "tidy ''main''" "tidy ''/w''"
  by code_simp+

definition sample_summary :: workspace_summary where
  "sample_summary =
     \<lparr>sm_name = ''w'', sm_root = ''/w'', sm_sources = [], sm_health = Healthy, sm_agent_count = 0,
      sm_config = \<lparr>provider = Some ''openai'', base_url = None, api_key_from_env = Some ''K'',
                   env = [''A'' \<mapsto> '''']\<rparr>,
      sm_source_specs = [], sm_display_name = None, sm_providers = [], sm_default_provider = None,
      sm_status = None\<rparr>"

theorem local_edit_keeps_config_witness:
  "workspace_submit False (Some ''w'') ''w'' '''' (modal_local_form (Some sample_summary)) k8s_form_blank
     (modal_env (Some sample_summary)) =
   Inr (SetWorkspaceConfig ''w'' (default_workspace_config\<lparr>wc_local := sm_config sample_summary\<rparr>))"
proof (rule local_edit_keeps_config)
  show "tidy_config (sm_config sample_summary)"
    by (simp add: tidy_config_def sample_summary_def tidy_option_def tidy_samples)
  show "validate_provider_config (sm_config sample_summary) = Inr ()"
    by (simp add: validate_provider_config_def sample_summary_def provider_vars_def)
  show "trim ''w'' \<noteq> []" using tidy_samples(4) by (simp add: tidy_def)
qed

definition sample_resource :: workspace_cr where
  "sample_resource =
     workspace_new ''web''
       \<lparr>wp_display_name = ''web'',
        wp_sources = [\<lparr>cs_name = ''web'', cs_repo = ''git'', cs_ref = ''main'', cs_path = ''/w''\<rparr>],
        wp_providers = [\<lparr>ps_name = ''main'', ps_kind = ''openai'', ps_base_url = None, ps_model = None,
                         ps_credentials_ref = Some \<lparr>secret_name = ''keys'', secret_key = ''k''\<rparr>\<rparr>],
        wp_default_provider = Some ''main'', wp_env = [(''A'', ''1'')],
        wp_isolation = Some \<lparr>runtime_class = Some ''gvisor'', worktrees = None\<rparr>\<rparr>"


theorem no_warning_keeps_credentials_witness:
  "\<exists>q \<in> set (wc_providers (k8s_to_config sample_k8s_form)).
     \<exists>c. ps_credentials_ref q = Some c \<and> secret_name c \<noteq> [] \<and> secret_key c \<noteq> []"
proof -
  have "credentials_warning [''main''] sample_k8s_form = None"
    "\<forall>p \<in> set (kf_providers sample_k8s_form). trim (pr_name p) = pr_name p"
    "map ps_name (wc_providers (k8s_to_config sample_k8s_form)) = [''main'']" by code_simp+
  moreover from this obtain q where "q \<in> set (wc_providers (k8s_to_config sample_k8s_form))" "ps_name q \<in> set [''main'']"
    by (cases "wc_providers (k8s_to_config sample_k8s_form)") auto
  ultimately show ?thesis using no_warning_keeps_credentials [OF _ sample_k8s_form_valid] by blast
qed


end
