(* ===== verification/Dash_App.thy ===== *)
theory Dash_App
  imports Dash_Forms
begin

text \<open>
  The dashboard as a client of the API: the requests it makes (\<open>dashboard/src/api.rs\<close>), the actions of its
  controls (\<open>actions.rs\<close>, \<open>ui.rs\<close>), the sign-in form, the theme (\<open>theme.rs\<close>) and the poll that keeps its
  screen fresh (\<open>main.rs\<close>). The network, the JSON parser and the browser's clock are parameters.
\<close>

section \<open>Requests (\<open>api.rs\<close>)\<close>

definition upper_hex :: "nat \<Rightarrow> char" where
  "upper_hex n = byte (if n < 10 then 48 + n else 55 + n)"

definition is_unreserved :: "char \<Rightarrow> bool" where
  "is_unreserved c \<longleftrightarrow>
     (let n = of_char c :: nat
      in 65 \<le> n \<and> n \<le> 90 \<or> 97 \<le> n \<and> n \<le> 122 \<or> 48 \<le> n \<and> n \<le> 57 \<or> c \<in> {CHR ''-'', CHR ''_'', CHR ''.'', CHR ''~''})"

fun encode_segment :: "string \<Rightarrow> string" where
  "encode_segment [] = []"
| "encode_segment (c # cs) =
     (if is_unreserved c then [c]
      else [CHR ''%'', upper_hex (of_char c div 16), upper_hex (of_char c mod 16)]) @ encode_segment cs"

datatype api_body =
    NoBody
  | SignInBody string
  | InputBody string
  | SpawnBodyB spawn_body
  | WorkspaceBody workspace_request

record api_request =
  aq_method :: string
  aq_path :: string
  aq_body :: api_body

record http_response =
  hr_status :: nat
  hr_status_text :: string
  hr_text :: "string option"

text \<open>Sending a request: an error when no response arrives.\<close>

type_synonym 'x net = "api_request \<Rightarrow> 'x \<Rightarrow> (string + http_response) \<times> 'x"

definition response_ok :: "http_response \<Rightarrow> bool" where
  "response_ok r \<longleftrightarrow> 200 \<le> hr_status r \<and> hr_status r \<le> 299"

definition SIGNED_OUT :: string where
  "SIGNED_OUT = ''signed out''"

definition failure :: "(string \<Rightarrow> json option) \<Rightarrow> string \<Rightarrow> http_response \<Rightarrow> string" where
  "failure parse what r =
     (let line = what @ '': '' @ show_nat (hr_status r) @ '' '' @ hr_status_text r
      in if hr_status r = 401 then SIGNED_OUT
         else case hr_text r of
           None \<Rightarrow> line
         | Some body \<Rightarrow>
             if body = [] then line
             else case parse body of
               None \<Rightarrow> line
             | Some v \<Rightarrow> (case Option.bind (json_get v ''error'') as_str of
                           Some msg \<Rightarrow> what @ '': '' @ msg
                         | None \<Rightarrow> line))"

text \<open>
  \<open>sent\<close>: what \<open>get_json\<close>, \<open>mutate\<close>, \<open>post_json\<close> and \<open>post_json_no_reply\<close> do with the answer; \<open>dec\<close> decodes its
  body and is the constant unit where the body is not read.
\<close>

definition sent ::
  "(string \<Rightarrow> json option) \<Rightarrow> (http_response \<Rightarrow> string + 'v) \<Rightarrow> string \<Rightarrow> string + http_response \<Rightarrow> string + 'v" where
  "sent parse dec what answer =
     (case answer of
        Inl e \<Rightarrow> Inl (''could not reach prosperod: '' @ e)
      | Inr r \<Rightarrow>
          if \<not> response_ok r then Inl (failure parse what r)
          else case dec r of
            Inl e \<Rightarrow> Inl (''could not parse the '' @ what @ '' response: '' @ e)
          | Inr v \<Rightarrow> Inr v)"

definition send ::
  "(string \<Rightarrow> json option) \<Rightarrow> 'x net \<Rightarrow> (http_response \<Rightarrow> string + 'v) \<Rightarrow> string \<Rightarrow> api_request \<Rightarrow> 'x \<Rightarrow>
   (string + 'v) \<times> 'x" where
  "send parse net dec what req x = apfst (sent parse dec what) (net req x)"

definition get_req :: "string \<Rightarrow> api_request" where
  "get_req path = \<lparr>aq_method = ''GET'', aq_path = path, aq_body = NoBody\<rparr>"

definition ignore_body :: "http_response \<Rightarrow> string + unit" where
  "ignore_body r = Inr ()"

definition agent_request :: "string \<Rightarrow> string \<Rightarrow> string \<Rightarrow> api_body \<Rightarrow> api_request" where
  "agent_request m i rest b = \<lparr>aq_method = m, aq_path = ''/api/agents/'' @ encode_segment i @ rest, aq_body = b\<rparr>"

definition kill_agent_req :: "string \<Rightarrow> api_request" where
  "kill_agent_req i = agent_request ''POST'' i ''/kill'' NoBody"

definition remove_agent_req :: "string \<Rightarrow> api_request" where
  "remove_agent_req i = agent_request ''DELETE'' i '''' NoBody"

definition respawn_agent_req :: "string \<Rightarrow> api_request" where
  "respawn_agent_req i = agent_request ''POST'' i ''/respawn'' NoBody"

definition send_input_req :: "string \<Rightarrow> string \<Rightarrow> api_request" where
  "send_input_req i t = agent_request ''POST'' i ''/input'' (InputBody t)"

definition end_input_req :: "string \<Rightarrow> api_request" where
  "end_input_req i = agent_request ''POST'' i ''/end-input'' NoBody"

definition spawn_agent_req :: "string \<Rightarrow> spawn_body \<Rightarrow> api_request" where
  "spawn_agent_req ws b =
     \<lparr>aq_method = ''POST'', aq_path = ''/api/workspaces/'' @ encode_segment ws @ ''/agents'', aq_body = SpawnBodyB b\<rparr>"

definition remove_workspace_req :: "string \<Rightarrow> api_request" where
  "remove_workspace_req n =
     \<lparr>aq_method = ''DELETE'', aq_path = ''/api/workspaces/'' @ encode_segment n, aq_body = NoBody\<rparr>"

fun workspace_req :: "workspace_request \<Rightarrow> api_request" where
  "workspace_req (AddWorkspace n root cfg) =
     \<lparr>aq_method = ''POST'', aq_path = ''/api/workspaces'', aq_body = WorkspaceBody (AddWorkspace n root cfg)\<rparr>"
| "workspace_req (SetWorkspaceConfig n cfg) =
     \<lparr>aq_method = ''PUT'', aq_path = ''/api/workspaces/'' @ encode_segment n @ ''/config'',
      aq_body = WorkspaceBody (SetWorkspaceConfig n cfg)\<rparr>"

definition sign_in_req :: "string \<Rightarrow> api_request" where
  "sign_in_req token = \<lparr>aq_method = ''POST'', aq_path = ''/api/session'', aq_body = SignInBody token\<rparr>"

definition sign_out_req :: api_request where
  "sign_out_req = \<lparr>aq_method = ''DELETE'', aq_path = ''/api/session'', aq_body = NoBody\<rparr>"

definition fetch_usage_req :: "int \<Rightarrow> api_request" where
  "fetch_usage_req days = get_req (''/api/usage?days='' @ show_int days)"

section \<open>Actions (\<open>actions.rs\<close>)\<close>

datatype ui_action =
    KillAgent string string
  | RemoveAgent string string
  | RespawnAgent string string
  | RemoveWorkspace string
  | EndInput string string

fun needs_confirmation :: "ui_action \<Rightarrow> bool" where
  "needs_confirmation (RespawnAgent _ _) = False"
| "needs_confirmation _ = True"

fun is_destructive :: "ui_action \<Rightarrow> bool" where
  "is_destructive (KillAgent _ _) = True"
| "is_destructive (RemoveAgent _ _) = True"
| "is_destructive (RemoveWorkspace _) = True"
| "is_destructive _ = False"

fun action_title :: "ui_action \<Rightarrow> string" where
  "action_title (KillAgent _ _) = ''Kill this agent?''"
| "action_title (RemoveAgent _ _) = ''Remove this agent?''"
| "action_title (RespawnAgent _ _) = ''Respawn this agent?''"
| "action_title (RemoveWorkspace _) = ''Remove this workspace?''"
| "action_title (EndInput _ _) = ''End this agent'' @ [CHR 0x27] @ ''s input?''"

fun action_detail :: "ui_action \<Rightarrow> string" where
  "action_detail (KillAgent _ n) = n @ '' will stop immediately. Work in progress is lost.''"
| "action_detail (RemoveAgent _ n) = n @ '' will be dropped from the fleet. Its event history is kept.''"
| "action_detail (RespawnAgent _ n) = n @ '' will be re-run with its original task, as a new agent.''"
| "action_detail (RemoveWorkspace n) =
     n @ '' will be deregistered. Its checkout on disk is untouched, but its agents will no longer be managed.''"
| "action_detail (EndInput _ n) = n @ '' will receive no further input and will finish its run.''"

fun confirm_label :: "ui_action \<Rightarrow> string" where
  "confirm_label (KillAgent _ _) = ''Kill''"
| "confirm_label (RemoveAgent _ _) = ''Remove''"
| "confirm_label (RespawnAgent _ _) = ''Respawn''"
| "confirm_label (RemoveWorkspace _) = ''Remove''"
| "confirm_label (EndInput _ _) = ''End input''"

fun success_note :: "ui_action \<Rightarrow> string option" where
  "success_note (RespawnAgent _ n) = Some (n @ '' respawned.'')"
| "success_note _ = None"

fun action_request :: "ui_action \<Rightarrow> api_request" where
  "action_request (KillAgent i _) = kill_agent_req i"
| "action_request (RemoveAgent i _) = remove_agent_req i"
| "action_request (RespawnAgent i _) = respawn_agent_req i"
| "action_request (RemoveWorkspace n) = remove_workspace_req n"
| "action_request (EndInput i _) = end_input_req i"

fun action_what :: "ui_action \<Rightarrow> string" where
  "action_what (KillAgent _ _) = ''kill''"
| "action_what (RemoveAgent _ _) = ''remove''"
| "action_what (RespawnAgent _ _) = ''respawn''"
| "action_what (RemoveWorkspace _) = ''remove workspace''"
| "action_what (EndInput _ _) = ''end input''"

text \<open>\<open>Action::run\<close>; \<open>dec_respawned\<close> decodes the answer of a respawn, the only body that is read.\<close>

definition action_run ::
  "(string \<Rightarrow> json option) \<Rightarrow> (http_response \<Rightarrow> string + unit) \<Rightarrow> 'x net \<Rightarrow> ui_action \<Rightarrow> 'x \<Rightarrow> (string + unit) \<times> 'x" where
  "action_run parse dec_respawned net a x =
     send parse net (case a of RespawnAgent _ _ \<Rightarrow> dec_respawned | _ \<Rightarrow> ignore_body) (action_what a)
       (action_request a) x"

section \<open>The shared state (\<open>ui.rs\<close>)\<close>

datatype ui_modal =
    ModalClosed
  | ModalConfirm ui_action
  | ModalLaunch string
  | ModalAddWorkspace
  | ModalEditWorkspace string

text \<open>The counters are \<open>u32\<close>, bumped with \<open>+=\<close>, which wraps in the release build that is shipped.\<close>

record ui_state =
  ui_modal :: ui_modal
  ui_banner :: "string option"
  ui_note :: "string option"
  ui_caps :: "bool \<times> bool"
  ui_refresh :: nat
  ui_selected :: "agent option"
  ui_workspaces :: "workspace_summary list"
  ui_now_ms :: int
  ui_activity :: nat
  ui_session :: session_state

definition bump :: "nat \<Rightarrow> nat" where
  "bump n = (n + 1) mod 2 ^ 32"

definition request_refresh :: "ui_state \<Rightarrow> ui_state" where
  "request_refresh u = u\<lparr>ui_refresh := bump (ui_refresh u)\<rparr>"

definition session_ended :: string where
  "session_ended = ''Your session ended '' @ utf8_mdash @ '' sign in again.''"

definition take_error :: "string \<Rightarrow> ui_state \<Rightarrow> string option \<times> ui_state" where
  "take_error e u =
     (if e = SIGNED_OUT then (None, u\<lparr>ui_session := SsSignedOut (Some session_ended)\<rparr>) else (Some e, u))"

definition run_action :: "ui_action \<Rightarrow> string + unit \<Rightarrow> ui_state \<Rightarrow> ui_state" where
  "run_action a answer u =
     (case answer of
        Inr _ \<Rightarrow> request_refresh (u\<lparr>ui_note := success_note a, ui_banner := None\<rparr>)
      | Inl e \<Rightarrow> (case take_error e u of (Some msg, u) \<Rightarrow> u\<lparr>ui_banner := Some msg\<rparr> | (None, u) \<Rightarrow> u))"

text \<open>A press of a control: a dialog for what needs confirmation, the request otherwise.\<close>

definition press_control :: "ui_action \<Rightarrow> ui_state \<Rightarrow> ui_action option \<times> ui_state" where
  "press_control a u =
     (if needs_confirmation a then (None, u\<lparr>ui_modal := ModalConfirm a\<rparr>) else (Some a, u))"

text \<open>The controls of an agent's row and of a workspace's card.\<close>

definition row_actions :: "session_state \<Rightarrow> agent \<Rightarrow> ui_action list" where
  "row_actions s a =
     (let i = agent_id a; n = agent_name a; can_operate = permits s Operate
      in (if can_operate
          then (case controls_for (agent_status a) of
                  Killable \<Rightarrow> [KillAgent i n]
                | agent_controls.Finished \<Rightarrow> [RespawnAgent i n, RemoveAgent i n])
          else []) @
         (if awaits_input a \<and> can_operate then [EndInput i n] else []))"

definition card_actions :: "bool \<Rightarrow> session_state \<Rightarrow> workspace \<Rightarrow> ui_action list" where
  "card_actions caps_admin s w =
     (if caps_admin \<and> permits s Admin then [RemoveWorkspace (ws_name w)] else [])"

text \<open>The sign-in form: a blank token is not sent, nor a second one while a first is under way, and a refused
  one stays on the form.\<close>

definition sign_in_submit :: "bool \<Rightarrow> string \<Rightarrow> api_request option" where
  "sign_in_submit busy token =
     (let value = trim token in if value = [] \<or> busy then None else Some (sign_in_req value))"

definition sign_in_answered :: "string + session_info \<Rightarrow> ui_state \<Rightarrow> string option \<times> ui_state" where
  "sign_in_answered answer u =
     (case answer of
        Inr info \<Rightarrow> (None, request_refresh (u\<lparr>ui_session := SsSignedIn info\<rparr>))
      | Inl e \<Rightarrow> (Some (if e = SIGNED_OUT then ''That token was not accepted.'' else e), u))"

text \<open>The message box of an agent that waits for input.\<close>

definition input_submit :: "string \<Rightarrow> string \<Rightarrow> api_request option" where
  "input_submit i t = (let body = trim t in if body = [] then None else Some (send_input_req i body))"

definition input_answered :: "string \<Rightarrow> string + unit \<Rightarrow> ui_state \<Rightarrow> string \<times> ui_state" where
  "input_answered t answer u =
     (case answer of
        Inr _ \<Rightarrow> ([], request_refresh (u\<lparr>ui_banner := None\<rparr>))
      | Inl e \<Rightarrow> (t, case take_error e u of (Some msg, u) \<Rightarrow> u\<lparr>ui_banner := Some msg\<rparr> | (None, u) \<Rightarrow> u))"

section \<open>The theme (\<open>theme.rs\<close>)\<close>

datatype theme = ThemeSystem | ThemeLight | ThemeDark

fun theme_attribute :: "theme \<Rightarrow> string option" where
  "theme_attribute ThemeSystem = None"
| "theme_attribute ThemeLight = Some ''light''"
| "theme_attribute ThemeDark = Some ''dark''"

fun theme_as_str :: "theme \<Rightarrow> string" where
  "theme_as_str ThemeSystem = ''system''"
| "theme_as_str ThemeLight = ''light''"
| "theme_as_str ThemeDark = ''dark''"

definition theme_parse :: "string option \<Rightarrow> theme" where
  "theme_parse stored =
     (let t = map_option trim stored
      in if t = Some ''light'' then ThemeLight else if t = Some ''dark'' then ThemeDark else ThemeSystem)"

fun theme_label :: "theme \<Rightarrow> string" where
  "theme_label ThemeSystem = ''System''"
| "theme_label ThemeLight = ''Light''"
| "theme_label ThemeDark = ''Dark''"

fun theme_next :: "theme \<Rightarrow> theme" where
  "theme_next ThemeSystem = ThemeLight"
| "theme_next ThemeLight = ThemeDark"
| "theme_next ThemeDark = ThemeSystem"

section \<open>The poll (\<open>main.rs\<close>)\<close>

definition POLL_INTERVAL :: nat where
  "POLL_INTERVAL = 30000"

definition USAGE_HEARTBEAT :: int where
  "USAGE_HEARTBEAT = 60000"

datatype load =
    Loading
  | Ready fleet_snapshot "string option"
  | LoadFailed string

record app_state =
  ap_load :: load
  ap_ui :: ui_state
  ap_last_key :: "nat option"
  ap_last_usage_ms :: int
  ap_caps_loaded :: bool

text \<open>What the answer to the first question, who is signed in, makes of the session.\<close>

definition session_probed :: "string + session_info \<Rightarrow> ui_state \<Rightarrow> ui_state" where
  "session_probed answer u =
     u\<lparr>ui_session := (case answer of
         Inr info \<Rightarrow> SsSignedIn info
       | Inl e \<Rightarrow> if e = SIGNED_OUT then SsSignedOut None else SsSignedIn SiDisabled)\<rparr>"

text \<open>
  What one pass is answered: the capabilities (asked for until they came once), the fleet, the
  workspaces, and the clock's two readings after them.
\<close>

record pass_answers =
  pa_caps :: "string + bool \<times> bool"
  pa_fleet :: "string + fleet_snapshot"
  pa_workspaces :: "string + workspace_summary list"
  pa_now :: int
  pa_now' :: int

definition ask_caps :: "pass_answers \<Rightarrow> app_state \<Rightarrow> app_state" where
  "ask_caps an s =
     (case pa_caps an of
        Inr caps \<Rightarrow> if ap_caps_loaded s then s
                    else s\<lparr>ap_ui := (ap_ui s)\<lparr>ui_caps := caps\<rparr>, ap_caps_loaded := True\<rparr>
      | Inl _ \<Rightarrow> s)"

definition bump_activity :: "app_state \<Rightarrow> app_state" where
  "bump_activity s = s\<lparr>ap_ui := (ap_ui s)\<lparr>ui_activity := bump (ui_activity (ap_ui s))\<rparr>\<rparr>"

definition fleet_arrived ::
  "(string \<Rightarrow> string \<Rightarrow> agent_status \<Rightarrow> nat) \<Rightarrow> fleet_snapshot \<Rightarrow> app_state \<Rightarrow> app_state" where
  "fleet_arrived hasher snap s =
     (let key = activity_key hasher snap;
          s = (if ap_last_key s \<noteq> Some key then bump_activity (s\<lparr>ap_last_key := Some key\<rparr>) else s)
      in s\<lparr>ap_load := Ready snap None\<rparr>)"

definition fleet_failed :: "string \<Rightarrow> app_state \<Rightarrow> app_state" where
  "fleet_failed e s =
     s\<lparr>ap_load := (case ap_load s of Ready snap _ \<Rightarrow> Ready snap (Some e) | _ \<Rightarrow> LoadFailed e)\<rparr>"

definition finish_pass :: "pass_answers \<Rightarrow> app_state \<Rightarrow> app_state" where
  "finish_pass an s =
     (let s = (case pa_workspaces an of Inr ws \<Rightarrow> s\<lparr>ap_ui := (ap_ui s)\<lparr>ui_workspaces := ws\<rparr>\<rparr> | Inl _ \<Rightarrow> s);
          s = s\<lparr>ap_ui := (ap_ui s)\<lparr>ui_now_ms := pa_now an\<rparr>\<rparr>
      in if USAGE_HEARTBEAT \<le> pa_now' an - ap_last_usage_ms s
         then bump_activity (s\<lparr>ap_last_usage_ms := pa_now' an\<rparr>) else s)"

definition is_signed_in :: "session_state \<Rightarrow> bool" where
  "is_signed_in s = (case s of SsSignedIn _ \<Rightarrow> True | _ \<Rightarrow> False)"

text \<open>
  One turn of the loop, and whether it goes on to wait for the next tick (it does not when nobody is
  signed in, or the answer was that the session ended).
\<close>

definition poll_pass ::
  "(string \<Rightarrow> string \<Rightarrow> agent_status \<Rightarrow> nat) \<Rightarrow> pass_answers \<Rightarrow> app_state \<Rightarrow> bool \<times> app_state" where
  "poll_pass hasher an s =
     (if \<not> is_signed_in (ui_session (ap_ui s)) then (False, s)
      else let s = ask_caps an s
           in case pa_fleet an of
                Inr snap \<Rightarrow> (True, finish_pass an (fleet_arrived hasher snap s))
              | Inl e \<Rightarrow>
                  if e = SIGNED_OUT
                  then (False, s\<lparr>ap_ui := snd (take_error e (ap_ui s)), ap_load := Loading\<rparr>)
                  else (True, finish_pass an (fleet_failed e s)))"

text \<open>
  \<open>wait_for_tick\<close>: the refresh counter is read when the wait starts and after every step of 150 ms;
  \<open>seen k\<close> is what is read after the \<open>k\<close>-th step. The result is the number of steps slept.
\<close>

definition TICK_STEP :: nat where
  "TICK_STEP = 150"

fun tick_steps :: "nat \<Rightarrow> nat \<Rightarrow> (nat \<Rightarrow> nat) \<Rightarrow> nat \<Rightarrow> nat" where
  "tick_steps start k seen 0 = k"
| "tick_steps start k seen (Suc n) =
     (if seen (Suc k) \<noteq> start then Suc k else tick_steps start (Suc k) seen n)"

definition wait_for_tick :: "nat \<Rightarrow> (nat \<Rightarrow> nat) \<Rightarrow> nat" where
  "wait_for_tick start seen = tick_steps start 0 seen (POLL_INTERVAL div TICK_STEP)"

section \<open>The server's routes (\<open>api/src/lib.rs\<close>)\<close>

definition api_routes :: "(string \<times> string list) list" where
  "api_routes =
     [(''/'', [''GET'']), (''/assets/{*path}'', [''GET'']), (''/healthz'', [''GET'']), (''/readyz'', [''GET'']),
      (''/api/session'', [''GET'', ''POST'', ''DELETE'']), (''/api/openapi.json'', [''GET'']),
      (''/api/metrics'', [''GET'']), (''/api/capabilities'', [''GET'']), (''/api/fleet'', [''GET'']),
      (''/api/fleet/stream'', [''GET'']), (''/api/usage'', [''GET'']), (''/api/workspaces'', [''GET'', ''POST'']),
      (''/api/workspaces/{name}'', [''DELETE'']), (''/api/workspaces/{name}/config'', [''PUT'']),
      (''/api/workspaces/{workspace}/agents'', [''GET'', ''POST'']),
      (''/api/agents/{id}'', [''GET'', ''DELETE'']), (''/api/agents/{id}/events'', [''GET'']),
      (''/api/agents/{id}/stream'', [''GET'']), (''/api/agents/{id}/kill'', [''POST'']),
      (''/api/agents/{id}/respawn'', [''POST'']), (''/api/agents/{id}/input'', [''POST'']),
      (''/api/agents/{id}/end-input'', [''POST'']), (''/api/automations'', [''GET'', ''POST'']),
      (''/api/automations/{id}'', [''DELETE'']), (''/api/automations/{id}/enabled'', [''PUT'']),
      (''/api/automations/{id}/runs'', [''GET'']), (''/api/automations/{id}/run'', [''POST'']),
      (''/api/automations/{id}/trigger'', [''POST''])]"

text \<open>
  How the router reads a path, as documented: segment by segment, a segment in braces taking any that is
  not empty, which the handler gets percent-decoded.
\<close>

fun hex_value :: "char \<Rightarrow> nat" where
  "hex_value c = (let n = of_char c in if n < 58 then n - 48 else if n < 71 then n - 55 else n - 87)"

fun percent_decode :: "string \<Rightarrow> string" where
  "percent_decode (c # a # b # cs) =
     (if c = CHR ''%'' then byte (16 * hex_value a + hex_value b) # percent_decode cs
      else c # percent_decode (a # b # cs))"
| "percent_decode cs = cs"

fun match_segments :: "string list \<Rightarrow> string list \<Rightarrow> string list option" where
  "match_segments [] [] = Some []"
| "match_segments (t # tt) (p # pp) =
     (if t \<noteq> [] \<and> hd t = CHR ''{''
      then if p = [] then None else map_option ((#) (percent_decode p)) (match_segments tt pp)
      else if t = p then match_segments tt pp else None)"
| "match_segments _ _ = None"

definition match_route :: "string \<Rightarrow> string \<Rightarrow> string list option" where
  "match_route tmpl path = match_segments (split_on (CHR ''/'') tmpl) (split_on (CHR ''/'') path)"

text \<open>The route that serves a request, with the values the handler gets.\<close>

definition served_by :: "api_request \<Rightarrow> string \<Rightarrow> string list \<Rightarrow> bool" where
  "served_by rq route args \<longleftrightarrow>
     route \<in> fst ` set api_routes \<and> aq_method rq \<in> set (the (map_of api_routes route)) \<and>
     match_route route (aq_path rq) = Some args"

section \<open>Path segments\<close>

lemma of_char_less: "(of_char c :: nat) < 256"
  using nat_of_char_less_256 [of c] by simp

lemma byte_char: "byte (of_char c) = c"
  by (simp add: byte_def)

lemma of_char_byte: "n < 256 \<Longrightarrow> of_char (byte n) = n"
  by (simp add: byte_def)

lemma hex_value_upper: "n < 16 \<Longrightarrow> hex_value (upper_hex n) = n"
  by (simp add: upper_hex_def of_char_byte Let_def)

lemma upper_hex_unreserved: "n < 16 \<Longrightarrow> is_unreserved (upper_hex n)"
  by (auto simp: upper_hex_def is_unreserved_def of_char_byte Let_def)

lemma percent_reserved: "\<not> is_unreserved (CHR ''%'')"
  by (simp add: is_unreserved_def)

lemma unreserved_not_percent: "is_unreserved c \<Longrightarrow> c \<noteq> CHR ''%''"
  using percent_reserved by blast

lemma percent_decode_plain: "c \<noteq> CHR ''%'' \<Longrightarrow> percent_decode (c # cs) = c # percent_decode cs"
  by (cases cs rule: percent_decode.cases) auto

lemma percent_decode_encode: "percent_decode (encode_segment s) = s"
proof (induction s)
  case (Cons c cs)
  have "of_char c div 16 < (16 :: nat)" using of_char_less [of c] by (simp add: less_mult_imp_div_less)
  then have "byte (16 * hex_value (upper_hex (of_char c div 16)) + hex_value (upper_hex (of_char c mod 16))) = c"
    by (simp only: hex_value_upper mod_less_divisor zero_less_numeral mult_div_mod_eq byte_char)
  then show ?case
    using Cons by (auto simp: percent_decode_plain unreserved_not_percent simp del: hex_value.simps)
qed simp

lemma encode_segment_chars: "c \<in> set (encode_segment s) \<Longrightarrow> is_unreserved c \<or> c = CHR ''%''"
proof (induction s)
  case (Cons d ds)
  have "of_char d div 16 < (16 :: nat)" using of_char_less [of d] by (simp add: less_mult_imp_div_less)
  then show ?case using Cons by (auto simp: upper_hex_unreserved split: if_splits)
qed simp

lemma encode_segment_no_delimiter:
  "CHR ''/'' \<notin> set (encode_segment s)" "CHR ''?'' \<notin> set (encode_segment s)" "CHR ''#'' \<notin> set (encode_segment s)"
  using encode_segment_chars [of _ s] by (force simp: is_unreserved_def)+

lemma encode_segment_nonempty: "s \<noteq> [] \<Longrightarrow> encode_segment s \<noteq> []"
  by (cases s) auto

text \<open>
  A name reaches the server as it is: the segment that stands for it holds no delimiter of a path, a
  query or a fragment, whatever bytes the name has, and decodes to the name.
\<close>

theorem segment_roundtrip:
  "percent_decode (encode_segment s) = s \<and>
   set (encode_segment s) \<inter> {CHR ''/'', CHR ''?'', CHR ''#'', CHR '' ''} = {}"
proof -
  have "CHR '' '' \<notin> set (encode_segment s)" using encode_segment_chars [of "CHR '' ''" s] by (auto simp: is_unreserved_def)
  then show ?thesis using percent_decode_encode encode_segment_no_delimiter by auto
qed

text \<open>The segments that stand for a directory and its parent are not encoded; a browser resolves them.\<close>

lemma dot_segments_unencoded: "encode_segment ''..'' = ''..'' \<and> encode_segment ''.'' = ''.''"
  by (simp add: is_unreserved_def)

section \<open>Controls and the server\<close>

lemma split_on_delimited: "d \<notin> set xs \<Longrightarrow> split_on d (xs @ d # ys) = xs # split_on d ys"
  by (simp add: split_on_append)

lemma agent_route:
  assumes "i \<noteq> []" "rest \<in> {'''', ''/kill'', ''/respawn'', ''/input'', ''/end-input''}"
  shows "match_route (''/api/agents/{id}'' @ rest) (''/api/agents/'' @ encode_segment i @ rest) = Some [i]"
  using assms encode_segment_no_delimiter(1) [of i]
  by (auto simp: match_route_def split_on_delimited percent_decode_encode encode_segment_nonempty)

lemma workspace_route:
  assumes "n \<noteq> []" "rest \<in> {'''', ''/config'', ''/agents''}"
  shows "match_route (''/api/workspaces/{name}'' @ rest) (''/api/workspaces/'' @ encode_segment n @ rest) = Some [n]"
    and "match_route (''/api/workspaces/{workspace}'' @ rest) (''/api/workspaces/'' @ encode_segment n @ rest) = Some [n]"
  using assms encode_segment_no_delimiter(1) [of n]
  by (auto simp: match_route_def split_on_delimited percent_decode_encode encode_segment_nonempty)

fun action_subject :: "ui_action \<Rightarrow> string" where
  "action_subject (KillAgent i _) = i"
| "action_subject (RemoveAgent i _) = i"
| "action_subject (RespawnAgent i _) = i"
| "action_subject (RemoveWorkspace n) = n"
| "action_subject (EndInput i _) = i"

fun action_route :: "ui_action \<Rightarrow> string" where
  "action_route (KillAgent _ _) = ''/api/agents/{id}/kill''"
| "action_route (RemoveAgent _ _) = ''/api/agents/{id}''"
| "action_route (RespawnAgent _ _) = ''/api/agents/{id}/respawn''"
| "action_route (RemoveWorkspace _) = ''/api/workspaces/{name}''"
| "action_route (EndInput _ _) = ''/api/agents/{id}/end-input''"

lemma action_served:
  assumes "action_subject a \<noteq> []"
  shows "served_by (action_request a) (action_route a) [action_subject a]"
  using assms agent_route [of "action_subject a" "''''"] agent_route [of "action_subject a" "''/kill''"]
    agent_route [of "action_subject a" "''/respawn''"] agent_route [of "action_subject a" "''/end-input''"]
    workspace_route(1) [of "action_subject a" "''''"]
  by (cases a) (simp_all add: served_by_def api_routes_def kill_agent_req_def remove_agent_req_def
      respawn_agent_req_def remove_workspace_req_def end_input_req_def agent_request_def)

lemma action_access:
  "required_access (aq_method (action_request a)) (action_route a) =
     Requires (case a of RemoveWorkspace _ \<Rightarrow> Admin | _ \<Rightarrow> Operate)"
  by (cases a) (simp_all add: required_access_def open_routes_def read_routes_def operate_routes_def
      kill_agent_req_def remove_agent_req_def respawn_agent_req_def remove_workspace_req_def
      end_input_req_def agent_request_def)


section \<open>What stays on the screen\<close>

fun shown :: "load \<Rightarrow> fleet_snapshot option" where
  "shown (Ready snap _) = Some snap"
| "shown _ = None"

fun stale :: "load \<Rightarrow> string option" where
  "stale (Ready _ e) = e"
| "stale (LoadFailed e) = Some e"
| "stale Loading = None"

definition poll_passes ::
  "(string \<Rightarrow> string \<Rightarrow> agent_status \<Rightarrow> nat) \<Rightarrow> pass_answers list \<Rightarrow> app_state \<Rightarrow> app_state" where
  "poll_passes hasher ans s = foldl (\<lambda>s an. snd (poll_pass hasher an s)) s ans"

definition good_snapshots :: "pass_answers list \<Rightarrow> fleet_snapshot list" where
  "good_snapshots ans = List.map_filter (\<lambda>an. case pa_fleet an of Inr snap \<Rightarrow> Some snap | Inl _ \<Rightarrow> None) ans"

lemma good_snapshots_snoc:
  "good_snapshots (ans @ [an]) = good_snapshots ans @ (case pa_fleet an of Inr snap \<Rightarrow> [snap] | Inl _ \<Rightarrow> [])"
  by (auto simp: good_snapshots_def List.map_filter_def split: sum.split)

lemma ask_caps_same [simp]: "ap_load (ask_caps an s) = ap_load s" "ui_session (ap_ui (ask_caps an s)) = ui_session (ap_ui s)"
  by (auto simp: ask_caps_def split: sum.split)

lemma finish_pass_same [simp]:
  "ap_load (finish_pass an s) = ap_load s" "ui_session (ap_ui (finish_pass an s)) = ui_session (ap_ui s)"
  by (auto simp: finish_pass_def bump_activity_def Let_def split: sum.split)

lemma fleet_arrived_same [simp]:
  "ap_load (fleet_arrived hasher snap s) = Ready snap None"
  "ui_session (ap_ui (fleet_arrived hasher snap s)) = ui_session (ap_ui s)"
  by (auto simp: fleet_arrived_def bump_activity_def Let_def)

lemma fleet_failed_same [simp]: "ap_ui (fleet_failed e s) = ap_ui s"
  by (simp add: fleet_failed_def)

lemma poll_pass_step:
  assumes "is_signed_in (ui_session (ap_ui s))" "pa_fleet an \<noteq> Inl SIGNED_OUT"
  shows "is_signed_in (ui_session (ap_ui (snd (poll_pass hasher an s)))) \<and>
    shown (ap_load (snd (poll_pass hasher an s))) =
      (case pa_fleet an of Inr snap \<Rightarrow> Some snap | Inl _ \<Rightarrow> shown (ap_load s)) \<and>
    stale (ap_load (snd (poll_pass hasher an s))) = (case pa_fleet an of Inr _ \<Rightarrow> None | Inl e \<Rightarrow> Some e)"
  using assms by (auto simp: poll_pass_def fleet_failed_def split: sum.split load.split)

text \<open>
  A failed refresh never blanks a working screen: while the session lasts, whatever the polls are
  answered, the screen shows the last snapshot that arrived, and it says that it is stale, and why,
  exactly when the last poll failed.
\<close>

theorem screen_survives_failures:
  assumes "is_signed_in (ui_session (ap_ui s))" "\<forall>an \<in> set ans. pa_fleet an \<noteq> Inl SIGNED_OUT"
  shows "shown (ap_load (poll_passes hasher ans s)) =
      (if good_snapshots ans = [] then shown (ap_load s) else Some (last (good_snapshots ans))) \<and>
    (ans \<noteq> [] \<longrightarrow> stale (ap_load (poll_passes hasher ans s)) =
      (case pa_fleet (last ans) of Inr _ \<Rightarrow> None | Inl e \<Rightarrow> Some e))"
proof -
  have "is_signed_in (ui_session (ap_ui (poll_passes hasher ans s))) \<and>
    shown (ap_load (poll_passes hasher ans s)) =
      (if good_snapshots ans = [] then shown (ap_load s) else Some (last (good_snapshots ans))) \<and>
    (ans \<noteq> [] \<longrightarrow> stale (ap_load (poll_passes hasher ans s)) =
      (case pa_fleet (last ans) of Inr _ \<Rightarrow> None | Inl e \<Rightarrow> Some e))"
    using assms
  proof (induction ans rule: rev_induct)
    case Nil
    then show ?case by (simp add: poll_passes_def good_snapshots_def List.map_filter_def)
  next
    case (snoc an ans)
    have step: "poll_passes hasher (ans @ [an]) s = snd (poll_pass hasher an (poll_passes hasher ans s))"
      by (simp add: poll_passes_def)
    show ?case
      using snoc poll_pass_step [of "poll_passes hasher ans s" an hasher]
      unfolding step good_snapshots_snoc by (cases "pa_fleet an") auto
  qed
  then show ?thesis by simp
qed

section \<open>Waiting for the next poll\<close>

lemma tick_steps_spec:
  "tick_steps start k seen n \<le> k + n \<and> k \<le> tick_steps start k seen n \<and>
   (\<forall>j. k < j \<and> j < tick_steps start k seen n \<longrightarrow> seen j = start) \<and>
   (tick_steps start k seen n < k + n \<longrightarrow> seen (tick_steps start k seen n) \<noteq> start)"
proof (induction n arbitrary: k)
  case (Suc n)
  show ?case
  proof (cases "seen (Suc k) = start")
    case True
    then have "seen j = start" if "k < j" "j < tick_steps start (Suc k) seen n" for j
      using Suc [of "Suc k"] that by (cases "j = Suc k") auto
    then show ?thesis using True Suc [of "Suc k"] by auto
  qed auto
qed auto

text \<open>
  A poll waits for at most its interval, and not past the first step after which the refresh counter
  differs from what it was when the wait began: a mutation or an event that comes during the wait is
  followed by a fetch within 150 ms of it being noticed, and without one the fetch comes after 30 s.
\<close>

theorem wait_ends_on_refresh:
  "let n = wait_for_tick start seen
   in n * TICK_STEP \<le> POLL_INTERVAL \<and>
      (\<forall>j \<in> {1..<n}. seen j = start) \<and>
      (n * TICK_STEP < POLL_INTERVAL \<longrightarrow> seen n \<noteq> start)"
  using tick_steps_spec [of start 0 seen 200]
  by (auto simp: wait_for_tick_def POLL_INTERVAL_def TICK_STEP_def Let_def)

text \<open>
  A refresh that is asked for while a pass is under way is not one of them: the counter is read when the
  wait begins, so the wait runs to its end.
\<close>

lemma refresh_during_pass_is_missed:
  "wait_for_tick (ui_refresh (request_refresh u)) (\<lambda>_. ui_refresh (request_refresh u)) * TICK_STEP = POLL_INTERVAL"
  using tick_steps_spec [of "ui_refresh (request_refresh u)" 0 "\<lambda>_. ui_refresh (request_refresh u)" 200]
  by (auto simp: wait_for_tick_def POLL_INTERVAL_def TICK_STEP_def)

text \<open>A first question that fails for another reason than a missing session opens every control.\<close>

lemma failed_probe_offers_all:
  "e \<noteq> SIGNED_OUT \<Longrightarrow> permits (ui_session (session_probed (Inl e) u)) need"
  by (simp add: session_probed_def)

section \<open>Errors on the screen\<close>

text \<open>
  An error is never swallowed and never shown in place of the sign-in form: whatever answers a
  control's request, a 401 ends the session with a notice and leaves the banner, any other refusal puts
  its message on the banner and leaves the session, and only a success asks for a fresh snapshot.
\<close>

theorem control_outcomes:
  assumes "action_run parse dec net a x = (answer, x')" "net (action_request a) x = (reply, x')"
    and "u' = run_action a answer u"
  shows "(case reply of
      Inl e \<Rightarrow> u' = u\<lparr>ui_banner := Some (''could not reach prosperod: '' @ e)\<rparr>
    | Inr r \<Rightarrow>
        if hr_status r = 401 then u' = u\<lparr>ui_session := SsSignedOut (Some session_ended)\<rparr>
        else if \<not> response_ok r
             then \<exists>msg. u' = u\<lparr>ui_banner := Some (action_what a @ '': '' @ msg)\<rparr>
        else (u' = request_refresh (u\<lparr>ui_note := success_note a, ui_banner := None\<rparr>) \<or>
              (\<exists>e. dec r = Inl e \<and>
                 u' = u\<lparr>ui_banner := Some (''could not parse the '' @ action_what a @ '' response: '' @ e)\<rparr>)))"
proof -
  have ans: "answer = sent parse (case a of RespawnAgent _ _ \<Rightarrow> dec | _ \<Rightarrow> ignore_body) (action_what a) reply"
    using assms(1,2) by (auto simp: action_run_def send_def)
  have so: "''could not reach prosperod: '' @ e \<noteq> SIGNED_OUT" "''could not parse the '' @ e \<noteq> SIGNED_OUT" for e
    by (simp_all add: SIGNED_OUT_def)
  have what: "action_what a @ '': '' @ e \<noteq> SIGNED_OUT" for e
    by (cases a) (simp_all add: SIGNED_OUT_def)
  have fail: "(hr_status r = 401 \<longrightarrow> failure parse (action_what a) r = SIGNED_OUT) \<and>
      (hr_status r \<noteq> 401 \<longrightarrow> (\<exists>msg. failure parse (action_what a) r = action_what a @ '': '' @ msg))" for r
    by (auto simp: failure_def Let_def split: option.split)
  show ?thesis
  proof (cases reply)
    case (Inl e)
    then show ?thesis using so by (simp add: assms(3) ans sent_def run_action_def take_error_def)
  next
    case (Inr r)
    show ?thesis
    proof (cases "response_ok r")
      case True
      then have "hr_status r \<noteq> 401" by (simp add: response_ok_def)
      then show ?thesis
        using True Inr so by (cases a)
          (auto simp: assms(3) ans sent_def run_action_def take_error_def ignore_body_def split: sum.split)
    next
      case False
      show ?thesis
      proof (cases "hr_status r = 401")
        case True
        then show ?thesis
          using False Inr fail [of r] by (simp add: assms(3) ans sent_def run_action_def take_error_def)
      next
        case nf: False
        then obtain msg where "failure parse (action_what a) r = action_what a @ '': '' @ msg" using fail by blast
        then show ?thesis
          using False Inr nf what by (auto simp: assms(3) ans sent_def run_action_def take_error_def)
      qed
    qed
  qed
qed

section \<open>Witnesses\<close>

definition sample_agent_row :: agent where
  "sample_agent_row =
     \<lparr>agent_id = ''a/1'', agent_name = ''n'', agent_workspace = ''w'', agent_status = Running,
      started_at = '''', isolated = False, agent_interactive = False, session_dir = '''',
      agent_posture = Supervised, agent_reason = None, agent_detail = None\<rparr>"

definition sample_workspace_card :: workspace where
  "sample_workspace_card =
     \<lparr>ws_name = ''w'', ws_root = ''/w'', ws_sources = [], ws_health = Healthy,
      ws_config = default_provider_config, ws_agents = [sample_agent_row]\<rparr>"


definition sample_ui :: ui_state where
  "sample_ui =
     \<lparr>ui_modal = ModalClosed, ui_banner = None, ui_note = None, ui_caps = (False, False), ui_refresh = 0,
      ui_selected = None, ui_workspaces = [], ui_now_ms = 0, ui_activity = 0,
      ui_session = SsSignedIn SiDisabled\<rparr>"

definition sample_app :: app_state where
  "sample_app =
     \<lparr>ap_load = Loading, ap_ui = sample_ui, ap_last_key = None, ap_last_usage_ms = 0, ap_caps_loaded = False\<rparr>"

definition sample_answers :: "string + fleet_snapshot \<Rightarrow> pass_answers" where
  "sample_answers r =
     \<lparr>pa_caps = Inr (True, False), pa_fleet = r, pa_workspaces = Inl ''down'', pa_now = 5, pa_now' = 6\<rparr>"

theorem screen_survives_failures_witness:
  "ap_load (poll_passes (\<lambda>_ _ _. 1) (map sample_answers [Inr \<lparr>host = ''h'', workspaces = []\<rparr>, Inl ''x'', Inl ''y'']) sample_app) =
     Ready \<lparr>host = ''h'', workspaces = []\<rparr> (Some ''y'')"
proof -
  let ?ans = "map sample_answers [Inr \<lparr>host = ''h'', workspaces = []\<rparr>, Inl ''x'', Inl ''y'']"
  have "is_signed_in (ui_session (ap_ui sample_app))"
    by (simp add: is_signed_in_def sample_app_def sample_ui_def)
  moreover have "\<forall>an \<in> set ?ans. pa_fleet an \<noteq> Inl SIGNED_OUT" by (simp add: sample_answers_def SIGNED_OUT_def)
  ultimately have "shown (ap_load (poll_passes (\<lambda>_ _ _. 1) ?ans sample_app)) =
      (if good_snapshots ?ans = [] then shown (ap_load sample_app) else Some (last (good_snapshots ?ans)))"
    "?ans \<noteq> [] \<longrightarrow> stale (ap_load (poll_passes (\<lambda>_ _ _. 1) ?ans sample_app)) =
      (case pa_fleet (last ?ans) of Inr _ \<Rightarrow> None | Inl e \<Rightarrow> Some e)"
    using screen_survives_failures by blast+
  then show ?thesis
    by (cases "ap_load (poll_passes (\<lambda>_ _ _. 1) ?ans sample_app)")
      (simp_all add: good_snapshots_def sample_answers_def List.map_filter_def)
qed

theorem wait_ends_on_refresh_witness:
  "wait_for_tick 0 (\<lambda>k. if k < 3 then 0 else 1) = 3 \<and> (\<forall>j \<in> {1..<3::nat}. (if j < 3 then 0 else 1) = (0::nat))"
proof -
  have w: "wait_for_tick 0 (\<lambda>k. if k < 3 then 0 else 1) = 3"
  proof -
    have n: "POLL_INTERVAL div TICK_STEP = Suc (Suc (Suc 197))" by (simp add: POLL_INTERVAL_def TICK_STEP_def)
    show ?thesis unfolding wait_for_tick_def n tick_steps.simps by simp
  qed
  show ?thesis
    using wait_ends_on_refresh [of 0 "\<lambda>k. if k < 3 then 0 else 1"] unfolding w Let_def by simp
qed

theorem control_outcomes_witness:
  "run_action (KillAgent ''a'' ''n'')
     (sent (\<lambda>_. None) ignore_body ''kill'' (Inr \<lparr>hr_status = 401, hr_status_text = '''', hr_text = None\<rparr>)) sample_ui =
   sample_ui\<lparr>ui_session := SsSignedOut (Some session_ended)\<rparr>"
proof -
  let ?r = "Inr \<lparr>hr_status = 401, hr_status_text = '''', hr_text = None\<rparr> :: string + http_response"
  have "action_run (\<lambda>_. None) ignore_body (\<lambda>_ x. (?r, x)) (KillAgent ''a'' ''n'') () =
      (sent (\<lambda>_. None) ignore_body ''kill'' ?r, ())"
    by (simp add: action_run_def send_def)
  from control_outcomes [OF this refl refl, of sample_ui] show ?thesis by simp
qed


end
