(* ===== verification/Cli.thy ===== *)
theory Cli
  imports Dash_App Daemon Usage_Report Wire_Json
begin

text \<open>
  The command line client (\<open>cli/src/main.rs\<close>, \<open>client.rs\<close>, \<open>usage.rs\<close>): the credential it sends, the requests
  its commands make, the window of a usage report and the reader of an event stream, each next to the
  part of the server it talks to. Parsing the command line, HTTP, the text of JSON and the calendar are
  parameters; what is printed is in \<open>Cli_Output\<close>.
\<close>

section \<open>The credential (\<open>main.rs\<close>, \<open>client.rs\<close>)\<close>

definition resolve_token ::
  "(string \<Rightarrow> string + string) \<Rightarrow> string option \<Rightarrow> string option \<Rightarrow> string + string option" where
  "resolve_token read token token_file =
     (case token_file of
        Some path \<Rightarrow>
          rbind (with_context (''reading token file '' @ path) (read path)) (\<lambda>raw.
            let t = trim raw
            in if t = [] then Inl (''token file '' @ path @ '' is empty'') else Inr (Some t))
      | None \<Rightarrow> Inr (case token of
            Some t \<Rightarrow> let t = trim t in if t = [] then None else Some t
          | None \<Rightarrow> None))"

record daemon_client =
  dc_base :: string
  dc_token :: "string option"
  dc_on_behalf_of :: "string option"

definition daemon_client_new :: "string \<Rightarrow> string option \<Rightarrow> daemon_client" where
  "daemon_client_new base token =
     \<lparr>dc_base = drop_while_end (\<lambda>c. c = CHR ''/'') base, dc_token = token, dc_on_behalf_of = None\<rparr>"

definition on_behalf :: "string option \<Rightarrow> daemon_client \<Rightarrow> daemon_client" where
  "on_behalf who c = c\<lparr>dc_on_behalf_of := who\<rparr>"

definition client_url :: "daemon_client \<Rightarrow> string \<Rightarrow> string" where
  "client_url c path = dc_base c @ path"

text \<open>
  \<open>authed\<close>: the headers as the server's header map has them, names in lower case; a value that is not
  visible ASCII has no text.
\<close>

definition header_value :: "string \<Rightarrow> string option" where
  "header_value v = (if list_all (\<lambda>c. plain_char c \<or> c = CHR '' '') v then Some v else None)"

definition client_headers :: "daemon_client \<Rightarrow> headers" where
  "client_headers c =
     (case dc_token c of Some t \<Rightarrow> [(''authorization'', header_value (''Bearer '' @ t))] | None \<Rightarrow> []) @
     (case dc_on_behalf_of c of Some who \<Rightarrow> [(''x-prospero-on-behalf-of'', header_value who)] | None \<Rightarrow> [])"

text \<open>\<open>map_err\<close>: \<open>parse\<close> is the JSON parser; a transport error carries its text.\<close>

datatype http_error = StatusError nat string | TransportError string

fun map_err :: "(string \<Rightarrow> json option) \<Rightarrow> http_error \<Rightarrow> string" where
  "map_err parse (StatusError code body) =
     (if code = 401
      then ''prosperod requires a token; set PROSPERO_TOKEN or pass --token (server returned 401 unauthorized)''
      else case Option.bind (Option.bind (parse body) (\<lambda>v. json_get v ''error'')) as_str of
        Some msg \<Rightarrow> ''server returned '' @ show_nat code @ '': '' @ msg
      | None \<Rightarrow> ''server returned '' @ show_nat code @ '': '' @ body)"
| "map_err parse (TransportError t) = ''cannot reach prosperod: '' @ t @ '' (is the daemon running?)''"

section \<open>Reading a stream (\<open>client.rs\<close>)\<close>

definition sse_line ::
  "(string \<Rightarrow> json option) \<Rightarrow> string \<times> (string \<times> json) list \<Rightarrow> string \<Rightarrow> string \<times> (string \<times> json) list" where
  "sse_line parse st line =
     (case st of (name, out) \<Rightarrow>
        case strip_prefix ''event:'' line of
          Some n \<Rightarrow> (trim n, out)
        | None \<Rightarrow>
            (case strip_prefix ''data:'' line of
               Some payload \<Rightarrow>
                 (let payload = trim payload
                  in if payload = [] then (name, out)
                     else case parse payload of Some v \<Rightarrow> (name, out @ [(name, v)]) | None \<Rightarrow> (name, out))
             | None \<Rightarrow> if line = [] then ([], out) else (name, out)))"

definition stream_events :: "(string \<Rightarrow> json option) \<Rightarrow> string list \<Rightarrow> (string \<times> json) list" where
  "stream_events parse lines = snd (foldl (sse_line parse) ([], []) lines)"

section \<open>The usage window (\<open>usage.rs\<close>)\<close>

definition SINCE_FORMS :: string where
  "SINCE_FORMS = ''expected a day count like 7d or 2w, a date like 2026-09-01, or an RFC-3339 timestamp''"

definition MAX_DAYS :: nat where
  "MAX_DAYS = nat MAX_USAGE_WINDOW_DAYS"

text \<open>\<open>day_count\<close>: \<open>Inr None\<close> when the text is no duration at all. A unit is the last character.\<close>

definition day_count :: "string \<Rightarrow> string + nat option" where
  "day_count s =
     (case rev (utf8_chars s) of
        [] \<Rightarrow> Inr None
      | u # _ \<Rightarrow>
          (case parse_u64 (take (length s - length u) s) of
             None \<Rightarrow> Inr None
           | Some n \<Rightarrow>
               if u \<in> {''h'', ''m'', ''s''}
               then Inl (''--since '' @ s @ '': usage is recorded per UTC day, so it can only look back whole days (try 1d)'')
               else if u \<notin> {''d'', ''w''} then Inr None
               else let days = (if u = ''d'' then Some n else if n * 7 < 2 ^ 64 then Some (n * 7) else None)
                    in case days of
                         None \<Rightarrow> Inl (''--since '' @ s @ '': at most '' @ show_nat MAX_DAYS @ '' days'')
                       | Some d \<Rightarrow>
                           if d = 0 then Inl (''--since '' @ s @ '': the window must be at least one day'')
                           else if d \<le> MAX_DAYS then Inr (Some d)
                           else Inl (''--since '' @ s @ '': at most '' @ show_nat MAX_DAYS @ '' days'')))"

definition encode_plus :: "string \<Rightarrow> string" where
  "encode_plus s = concat (map (\<lambda>c. if c = CHR ''+'' then ''%2B'' else [c]) s)"

text \<open>
  The calendar as this module uses it: a date's UTC midnight, an RFC-3339 instant, and the rendering in
  whole seconds with an offset (\<open>stamp\<close> without the escaping).
\<close>

record cli_calendar =
  cc_date :: "string \<Rightarrow> int option"
  cc_instant :: "string \<Rightarrow> int option"
  cc_stamp :: "int \<Rightarrow> string"
  cc_debug :: "string \<Rightarrow> string"

definition usage_path :: "cli_calendar \<Rightarrow> string option \<Rightarrow> string + string" where
  "usage_path cal since =
     (case since of
        None \<Rightarrow> Inr ''/api/usage''
      | Some raw \<Rightarrow>
          (let s = trim raw
           in rbind (day_count s) (\<lambda>dc.
                case dc of
                  Some days \<Rightarrow> Inr (''/api/usage?days='' @ show_nat days)
                | None \<Rightarrow>
                    (case cc_date cal s of
                       Some midnight \<Rightarrow> Inr (''/api/usage?since='' @ encode_plus (cc_stamp cal midnight))
                     | None \<Rightarrow>
                         (case cc_instant cal s of
                            Some t \<Rightarrow> Inr (''/api/usage?since='' @ encode_plus (cc_stamp cal t))
                          | None \<Rightarrow> Inl (''--since '' @ cc_debug cal raw @ '': '' @ SINCE_FORMS))))))"

definition only_workspace :: "json \<Rightarrow> string \<Rightarrow> json" where
  "only_workspace report name =
     (case report of
        JObject fs \<Rightarrow>
          JObject (map (\<lambda>(k, v). (k, case v of
              JArray groups \<Rightarrow>
                if k = ''groups''
                then JArray (filter (\<lambda>g. Option.bind (json_get g ''workspace'') as_str = Some name) groups) else v
            | _ \<Rightarrow> v)) fs)
      | _ \<Rightarrow> report)"

record usage_row_shown =
  us_name :: string
  us_cost_usd :: f64
  us_turns :: nat
  us_outcomes :: outcome_counts

definition row_of_group :: "usage_group \<Rightarrow> usage_row_shown" where
  "row_of_group g =
     \<lparr>us_name = ug_workspace g, us_cost_usd = ug_cost_usd g, us_turns = ug_turns g, us_outcomes = ug_outcomes g\<rparr>"

definition add_group :: "(f64 \<Rightarrow> f64 \<Rightarrow> f64) \<Rightarrow> usage_row_shown \<Rightarrow> usage_group \<Rightarrow> usage_row_shown" where
  "add_group fadd t g =
     t\<lparr>us_cost_usd := fadd (us_cost_usd t) (ug_cost_usd g), us_turns := us_turns t + ug_turns g,
       us_outcomes :=
         \<lparr>oc_done = oc_done (us_outcomes t) + oc_done (ug_outcomes g),
          oc_failed = oc_failed (us_outcomes t) + oc_failed (ug_outcomes g),
          oc_killed = oc_killed (us_outcomes t) + oc_killed (ug_outcomes g),
          oc_crashed = oc_crashed (us_outcomes t) + oc_crashed (ug_outcomes g),
          oc_timed_out = oc_timed_out (us_outcomes t) + oc_timed_out (ug_outcomes g)\<rparr>\<rparr>"

definition total_row :: "(f64 \<Rightarrow> f64 \<Rightarrow> f64) \<Rightarrow> usage_group list \<Rightarrow> usage_row_shown" where
  "total_row fadd groups =
     foldl (add_group fadd)
       \<lparr>us_name = ''TOTAL'', us_cost_usd = 0, us_turns = 0, us_outcomes = empty_outcomes\<rparr> groups"

text \<open>The rows of the table: one per workspace, and the total when there is more than one.\<close>

definition table_rows :: "(f64 \<Rightarrow> f64 \<Rightarrow> f64) \<Rightarrow> usage_group list \<Rightarrow> usage_row_shown list" where
  "table_rows fadd groups =
     map row_of_group groups @ (if 1 < length groups then [total_row fadd groups] else [])"

section \<open>Commands (\<open>main.rs\<close>)\<close>

record config_args =
  ca_name :: string
  ca_provider :: "string option"
  ca_base_url :: "string option"
  ca_api_key_env :: "string option"
  ca_env :: "(string \<times> string) list"

record spawn_args =
  sa_workspace :: string
  sa_prompt :: string
  sa_label :: "string option"
  sa_model :: "string option"
  sa_shared_tree :: bool
  sa_interactive :: bool
  sa_tool_allowlist :: "string list"
  sa_frontmatter :: "string option"
  sa_timeout_secs :: "nat option"
  sa_posture :: permission_posture

record automation_args =
  aa_id :: string
  aa_workspace :: string
  aa_task :: string
  aa_schedule :: "string option"
  aa_webhook :: bool
  aa_label :: "string option"
  aa_model :: "string option"
  aa_timeout_secs :: "nat option"
  aa_shared_tree :: bool
  aa_disabled :: bool

datatype cli_command =
    CmdWorkspaceAdd string string
  | CmdWorkspaceList
  | CmdWorkspaceConfig config_args
  | CmdWorkspaceRm string
  | CmdAutomationAdd automation_args
  | CmdAutomationLs
  | CmdAutomationRun string
  | CmdAutomationRuns string nat
  | CmdAutomationEnabled string bool
  | CmdAutomationRm string
  | CmdSpawn spawn_args
  | CmdUsage "string option" "string option" bool
  | CmdLs
  | CmdFollow string nat
  | CmdKill string
  | CmdRespawn string
  | CmdRm string
  | CmdSend string string
  | CmdEndInput string
  | CmdWhoami

definition config_body :: "config_args \<Rightarrow> json" where
  "config_body a =
     json_object (opt_member ''provider'' JString (ca_provider a) @ opt_member ''base_url'' JString (ca_base_url a) @
              opt_member ''api_key_from_env'' JString (ca_api_key_env a) @
              (if ca_env a = [] then []
               else [(''env'', json_object (map (\<lambda>(k, v). (k, JString v)) (ca_env a)))]))"

definition spawn_body_json :: "spawn_args \<Rightarrow> json" where
  "spawn_body_json a =
     json_object ([(''prompt'', JString (sa_prompt a))] @ opt_member ''label'' JString (sa_label a) @
              opt_member ''model'' JString (sa_model a) @
              [(''isolation'', JString (if sa_shared_tree a then ''shared'' else ''worktree''))] @
              (if sa_interactive a then [(''interactive'', JBool True)] else []) @
              (if sa_tool_allowlist a = [] then []
               else [(''tool_allowlist'', JArray (map JString (sa_tool_allowlist a)))]) @
              opt_member ''frontmatter_path'' JString (sa_frontmatter a) @
              opt_member ''timeout_secs'' json_nat (sa_timeout_secs a) @
              (if sa_posture a = Supervised then [] else [(''permission_posture'', JString ''unattended'')]))"

definition template_json :: "automation_args \<Rightarrow> json" where
  "template_json a =
     json_object ([(''task'', JString (aa_task a)), (''isolation_worktree'', JBool (\<not> aa_shared_tree a))] @
       opt_member ''label'' JString (aa_label a) @ opt_member ''model'' JString (aa_model a) @
       opt_member ''timeout_secs'' json_nat (aa_timeout_secs a))"

definition automation_body :: "automation_args \<Rightarrow> string + json" where
  "automation_body a =
     rbind (case (aa_schedule a, aa_webhook a) of
              (Some s, False) \<Rightarrow> Inr (json_object [(''kind'', JString ''cron''), (''schedule'', JString s)])
            | (None, True) \<Rightarrow> Inr (json_object [(''kind'', JString ''webhook'')])
            | _ \<Rightarrow> Inl ''pass exactly one of --schedule <CRON> or --webhook'') (\<lambda>trigger.
       Inr (json_object [(''id'', JString (aa_id a)), (''workspace'', JString (aa_workspace a)), (''trigger'', trigger),
                         (''template'', template_json a), (''enabled'', JBool (\<not> aa_disabled a))]))"

text \<open>
  The request of a command: method, path and body (\<open>None\<close> where none is sent). Identifiers and names are
  put into the path as they are.
\<close>

definition cli_request :: "cli_calendar \<Rightarrow> cli_command \<Rightarrow> string + string \<times> string \<times> json option" where
  "cli_request cal cmd =
     (case cmd of
        CmdWorkspaceAdd n dir \<Rightarrow>
          Inr (''POST'', ''/api/workspaces'', Some (json_object [(''name'', JString n), (''root'', JString dir)]))
      | CmdWorkspaceList \<Rightarrow> Inr (''GET'', ''/api/workspaces'', None)
      | CmdWorkspaceConfig a \<Rightarrow> Inr (''PUT'', ''/api/workspaces/'' @ ca_name a @ ''/config'', Some (config_body a))
      | CmdWorkspaceRm n \<Rightarrow> Inr (''DELETE'', ''/api/workspaces/'' @ n, None)
      | CmdAutomationAdd a \<Rightarrow> rbind (automation_body a) (\<lambda>b. Inr (''POST'', ''/api/automations'', Some b))
      | CmdAutomationLs \<Rightarrow> Inr (''GET'', ''/api/automations'', None)
      | CmdAutomationRun i \<Rightarrow> Inr (''POST'', ''/api/automations/'' @ i @ ''/run'', Some (json_object []))
      | CmdAutomationRuns i limit \<Rightarrow>
          Inr (''GET'', ''/api/automations/'' @ i @ ''/runs?limit='' @ show_nat limit, None)
      | CmdAutomationEnabled i on \<Rightarrow>
          Inr (''PUT'', ''/api/automations/'' @ i @ ''/enabled'', Some (json_object [(''enabled'', JBool on)]))
      | CmdAutomationRm i \<Rightarrow> Inr (''DELETE'', ''/api/automations/'' @ i, None)
      | CmdSpawn a \<Rightarrow> Inr (''POST'', ''/api/workspaces/'' @ sa_workspace a @ ''/agents'', Some (spawn_body_json a))
      | CmdUsage since _ _ \<Rightarrow> rbind (usage_path cal since) (\<lambda>path. Inr (''GET'', path, None))
      | CmdLs \<Rightarrow> Inr (''GET'', ''/api/fleet'', None)
      | CmdFollow i start \<Rightarrow> Inr (''GET'', ''/api/agents/'' @ i @ ''/stream?from='' @ show_nat start, None)
      | CmdKill i \<Rightarrow> Inr (''POST'', ''/api/agents/'' @ i @ ''/kill'', Some JNull)
      | CmdRespawn i \<Rightarrow> Inr (''POST'', ''/api/agents/'' @ i @ ''/respawn'', Some JNull)
      | CmdRm i \<Rightarrow> Inr (''DELETE'', ''/api/agents/'' @ i, None)
      | CmdSend i t \<Rightarrow> Inr (''POST'', ''/api/agents/'' @ i @ ''/input'', Some (json_object [(''text'', JString t)]))
      | CmdEndInput i \<Rightarrow> Inr (''POST'', ''/api/agents/'' @ i @ ''/end-input'', Some JNull)
      | CmdWhoami \<Rightarrow> Inr (''GET'', ''/api/session'', None))"

section \<open>Trimming plain words\<close>

lemma utf8_chars_plain: "list_all plain_char w \<Longrightarrow> utf8_chars (w @ s) = map (\<lambda>c. [c]) w @ utf8_chars s"
  if "s = [] \<or> \<not> is_cont_byte (hd s)"
proof (induction w)
  case (Cons c w)
  have "takeWhile is_cont_byte (w @ s) = []" "dropWhile is_cont_byte (w @ s) = w @ s"
    using Cons.prems that by (cases w; cases s; auto simp: plain_char_not_cont)+
  then show ?case using Cons by simp
qed simp

lemma drop_while_end_plain:
  "list_all plain_char w \<Longrightarrow> drop_while_end is_whitespace (map (\<lambda>c. [c]) w) = map (\<lambda>c. [c]) w"
  by (cases w rule: rev_cases) (auto simp: drop_while_end_def plain_char_not_ws)

lemma trim_plain:
  assumes "list_all plain_char w"
  shows "trim w = w" "trim (w @ [CHR 0x0A]) = w"
proof -
  have d: "dropWhile is_whitespace (map (\<lambda>c. [c]) w) = map (\<lambda>c. [c]) w"
    using assms by (cases w) (auto simp: plain_char_not_ws)
  have c: "concat (map (\<lambda>c. [c]) w) = w" by (induction w) auto
  show "trim w = w"
    using utf8_chars_plain [OF _ assms, of "[]"] assms by (simp add: trim_def d drop_while_end_plain c)
  have nl: "is_whitespace [CHR 0x0A]" "\<not> is_cont_byte (CHR 0x0A)" by (simp_all add: is_whitespace_def is_cont_byte_def)
  have "utf8_chars (w @ [CHR 0x0A]) = map (\<lambda>c. [c]) w @ [[CHR 0x0A]]"
    using utf8_chars_plain [OF _ assms, of "[CHR 0x0A]"] nl by simp
  moreover have "drop_while_end is_whitespace (dropWhile is_whitespace (map (\<lambda>c. [c]) w @ [[CHR 0x0A]])) = map (\<lambda>c. [c]) w"
    using assms nl drop_while_end_plain [OF assms] by (cases w) (auto simp: drop_while_end_def plain_char_not_ws)
  ultimately show "trim (w @ [CHR 0x0A]) = w" by (simp add: trim_def c)
qed

lemma trim_space_plain:
  assumes "list_all plain_char w"
  shows "trim (CHR '' '' # w) = w"
proof -
  have "is_whitespace [CHR '' '']" "\<not> is_cont_byte (CHR '' '')" by (simp_all add: is_whitespace_def is_cont_byte_def)
  moreover have "utf8_chars (CHR '' '' # w) = [CHR '' ''] # utf8_chars w"
    using assms calculation(2) plain_char_not_cont by (cases w) auto
  ultimately have "trim (CHR '' '' # w) = trim w" by (simp add: trim_def)
  then show ?thesis using trim_plain(1) [OF assms] by simp
qed

section \<open>A token, from making it to using it\<close>

lemma resolve_token_plain:
  assumes "list_all plain_char t" "t \<noteq> []" "read path = Inr (t @ [CHR 0x0A])"
  shows "resolve_token read flag (Some path) = Inr (Some t)" "resolve_token read (Some t) None = Inr (Some t)"
  using assms trim_plain [OF assms(1)]
  by (simp_all add: resolve_token_def with_context_def)

lemma client_bearer:
  assumes "list_all plain_char t"
  shows "bearer_token (client_headers (on_behalf who (daemon_client_new base (Some t)))) = Some t"
proof -
  have "list_all (\<lambda>c. plain_char c \<or> c = CHR '' '') (''Bearer '' @ t)"
    using assms by (auto simp: list_all_iff plain_char_def)
  then have "header_value (''Bearer '' @ t) = Some (''Bearer '' @ t)" by (simp only: header_value_def if_True)
  then show ?thesis
    using trim_plain(1) [OF assms]
    by (simp add: bearer_token_def header_text_def client_headers_def daemon_client_new_def on_behalf_def
        strip_prefix_def)
qed

lemma authenticate_entry:
  assumes "(n, sc, t) \<in> set toks" "distinct (map (\<lambda>(n, sc, t). hash_token p t) toks)"
  shows "authenticate p (token_entries p toks) t = Some \<lparr>te_name = n, te_scope = sc, te_hash = hash_token p t\<rparr>"
proof -
  have "find (\<lambda>e. te_hash e = hash_token p t) (token_entries p toks) =
      Some \<lparr>te_name = n, te_scope = sc, te_hash = hash_token p t\<rparr>"
    using assms
  proof (induction toks)
    case (Cons x xs)
    obtain n' sc' t' where x: "x = (n', sc', t')" by (cases x)
    show ?case
    proof (cases "hash_token p t' = hash_token p t")
      case True
      then have "(n, sc, t) \<notin> set xs" using Cons.prems(2) by (auto simp: x rev_image_eqI)
      then show ?thesis using Cons.prems(1) True by (auto simp: x token_entries_def)
    next
      case False
      then show ?thesis using Cons by (auto simp: x token_entries_def)
    qed
  qed simp
  then show ?thesis by (simp add: authenticate_find)
qed

text \<open>
  C28. A token works from where it is made to where it is used: the lines that \<open>prospero token new\<close> printed are
  accepted by the daemon as its tokens file, and a command that is given one of the tokens, in a
  file that ends in a line feed or by the flag, is authenticated as the token of its name and scope.
\<close>

theorem new_token_signs_in:
  assumes laws: "hex_laws p" and valid: "\<forall>(n, sc, t) \<in> set toks. validate_token_name p n = Inr ()"
    and dist: "distinct (map fst toks)" "distinct (map (\<lambda>(n, sc, t). hash_token p t) toks)"
    and t: "(n, sc, t) \<in> set toks" "t = generate_token p bytes" "list_all plain_char (b64url p bytes)"
    and read: "read path = Inr (t @ [CHR 0x0A])"
  shows "\<exists>es. token_set_load p tokens_path (Inr (printed_tokens p toks)) = Inr es \<and>
    (\<forall>tok \<in> {resolve_token read flag (Some path), resolve_token read (Some t) None}.
       \<exists>credential. tok = Inr credential \<and>
         resolve_principal p (auth_enabled es key secure) now
           (client_headers (on_behalf who (daemon_client_new base credential))) =
         Some \<lparr>token_name = n, pr_scope = sc, pr_via = Bearer, expires_unix = None\<rparr>)"
proof -
  have plain: "list_all plain_char t" "t \<noteq> []"
    using t(2,3) by (auto simp: generate_token_def token_prefix_def plain_char_def)
  have "toks \<noteq> []" using t(1) by auto
  then have "token_set_load p tokens_path (Inr (printed_tokens p toks)) = Inr (token_entries p toks)"
    using tokens_file_roundtrip [OF laws _ dist(1) valid] by (simp add: token_set_load_def)
  moreover have "resolve_principal p (auth_enabled (token_entries p toks) key secure) now
      (client_headers (on_behalf who (daemon_client_new base (Some t)))) =
      Some \<lparr>token_name = n, pr_scope = sc, pr_via = Bearer, expires_unix = None\<rparr>"
    using client_bearer [OF plain(1)] authenticate_entry [OF t(1) dist(2)]
    by (simp add: resolve_principal_def auth_enabled_def)
  ultimately show ?thesis using resolve_token_plain [where read = read and path = path and t = t, OF plain read] by auto
qed

section \<open>A stream, from the server to the terminal\<close>

text \<open>
  The text of a frame, as the format of server-sent events has it: the name if there is one, the
  data, an empty line. A keep-alive is a comment.
\<close>

datatype text_frame = KeepAlive | NamedFrame string string

fun frame_text :: "text_frame \<Rightarrow> string list" where
  "frame_text KeepAlive = ['':'', []]"
| "frame_text (NamedFrame name payload) =
     (if name = [] then [] else [''event: '' @ name]) @ [''data: '' @ payload, []]"

fun frame_payload :: "(string \<Rightarrow> json option) \<Rightarrow> text_frame \<Rightarrow> (string \<times> json) list" where
  "frame_payload parse KeepAlive = []"
| "frame_payload parse (NamedFrame name payload) =
     (case parse payload of Some v \<Rightarrow> [(name, v)] | None \<Rightarrow> [])"

fun frame_clean :: "text_frame \<Rightarrow> bool" where
  "frame_clean KeepAlive = True"
| "frame_clean (NamedFrame name payload) \<longleftrightarrow>
     trim ('' '' @ name) = name \<and> trim ('' '' @ payload) = payload \<and> payload \<noteq> []"

lemma sse_frame:
  "frame_clean f \<Longrightarrow>
   foldl (sse_line parse) ([], out) (frame_text f) = ([], out @ frame_payload parse f)"
  by (cases f) (auto simp: sse_line_def strip_prefix_def Let_def split: option.split)

text \<open>
  The client hands on what the server sent: of the text of any sequence of frames, with keep-alives
  in between, it delivers the payload of every frame exactly once, in order and under the frame's
  own name, so a gap is never taken for an event.
\<close>

theorem cli_reads_stream:
  assumes "\<forall>f \<in> set fs. frame_clean f"
  shows "stream_events parse (concat (map frame_text fs)) = concat (map (frame_payload parse) fs)"
proof -
  have "foldl (sse_line parse) ([], out) (concat (map frame_text fs)) = ([], out @ concat (map (frame_payload parse) fs))"
    for out using assms by (induction fs arbitrary: out) (simp_all add: sse_frame)
  then show ?thesis by (simp add: stream_events_def)
qed

section \<open>A usage window, from the flag to the server\<close>

lemma day_count_bounds:
  assumes "day_count s = Inr (Some d)"
  shows "1 \<le> d \<and> d \<le> MAX_DAYS"
  using assms by (auto simp: day_count_def Let_def split: list.splits option.splits if_splits)

lemma percent_decode_encode_plus: "CHR ''%'' \<notin> set s \<Longrightarrow> percent_decode (encode_plus s) = s"
proof (induction s)
  case (Cons c cs)
  have "byte (16 * hex_value (CHR ''2'') + hex_value (CHR ''B'')) = CHR ''+''" by (simp add: byte_def) code_simp
  then show ?case
    using Cons by (auto simp: encode_plus_def percent_decode_plain simp del: hex_value.simps)
qed (simp add: encode_plus_def)

lemma parse_i64_show_nat: "n < 2 ^ 63 \<Longrightarrow> parse_i64 (show_nat n) = Some (int n)"
  using show_nat_digits [of n] digits_value_show_nat [of n] by (simp add: parse_digit_bytes)


section \<open>Paths\<close>

text \<open>
  An identifier of unreserved characters reaches its handler: the path is the one the dashboard would
  use. Any other is put into the path as it is.
\<close>

lemma encode_segment_plain: "list_all is_unreserved s \<Longrightarrow> encode_segment s = s"
  by (induction s) auto

lemma cli_agent_paths:
  assumes "list_all is_unreserved i" "i \<noteq> []"
  shows "\<forall>(cmd, route) \<in> {(CmdKill i, ''/api/agents/{id}/kill''), (CmdRespawn i, ''/api/agents/{id}/respawn''),
       (CmdRm i, ''/api/agents/{id}''), (CmdSend i t, ''/api/agents/{id}/input''),
       (CmdEndInput i, ''/api/agents/{id}/end-input'')}.
     \<exists>m path body. cli_request cal cmd = Inr (m, path, body) \<and> match_route route path = Some [i]"
  using agent_route [of i "''/kill''"] agent_route [of i "''/respawn''"] agent_route [of i "''''"]
    agent_route [of i "''/input''"] agent_route [of i "''/end-input''"] assms
  by (simp add: cli_request_def encode_segment_plain)

lemma cli_slash_leaves_route:
  "cli_request cal (CmdWorkspaceRm ''a/config'') = Inr (''DELETE'', ''/api/workspaces/a/config'', None)"
  by (simp add: cli_request_def)

section \<open>Bodies\<close>

lemma spawn_body_read:
  "spawn_body_of_json (spawn_body_json sa) = Some
      \<lparr>sb_prompt = sa_prompt sa, sb_label = sa_label sa, sb_model = sa_model sa,
       sb_isolation = Some (if sa_shared_tree sa then ''shared'' else ''worktree''),
       sb_tool_allowlist = (if sa_tool_allowlist sa = [] then None else Some (sa_tool_allowlist sa)),
       sb_interactive = sa_interactive sa, sb_frontmatter_path = sa_frontmatter sa, sb_provider_ref = None,
       sb_timeout_secs = sa_timeout_secs sa, sb_posture = sa_posture sa\<rparr>"
proof -
  let ?v = "spawn_body_json sa"
  note get = spawn_body_json_def json_get_member member_simps
  have tools: "with_default None (nullable as_strings) ?v ''tool_allowlist'' =
      Some (if sa_tool_allowlist sa = [] then None else Some (sa_tool_allowlist sa))"
    by (cases "sa_tool_allowlist sa = []") (simp_all add: with_default_def get)
  have posture: "with_default Supervised posture_of_json ?v ''permission_posture'' = Some (sa_posture sa)"
    by (cases "sa_posture sa") (simp_all add: with_default_def get posture_of_json_def)
  have inter: "with_default False as_bool ?v ''interactive'' = Some (sa_interactive sa)"
    by (cases "sa_interactive sa") (simp_all add: with_default_def get)
  have prompt: "need as_str ?v ''prompt'' = Some (sa_prompt sa)" by (simp add: need_def get)
  have label: "json_get ?v ''label'' = map_option JString (sa_label sa)"
    by (cases "sa_label sa") (simp_all add: get)
  have model: "json_get ?v ''model'' = map_option JString (sa_model sa)"
    by (cases "sa_model sa") (simp_all add: get)
  have frontmatter: "json_get ?v ''frontmatter_path'' = map_option JString (sa_frontmatter sa)"
    by (cases "sa_frontmatter sa") (simp_all add: get)
  have timeout: "json_get ?v ''timeout_secs'' = map_option json_nat (sa_timeout_secs sa)"
    by (cases "sa_timeout_secs sa") (simp_all add: get)
  have isolation: "json_get ?v ''isolation'' = Some (JString (if sa_shared_tree sa then ''shared'' else ''worktree''))"
    by (simp add: get)
  have provider: "json_get ?v ''provider_ref'' = None" by (simp add: get)
  show ?thesis
    by (simp add: spawn_body_of_json_def prompt tools posture inter read_optional(1) [OF label]
        read_optional(1) [OF model] read_optional(1) [OF frontmatter] read_optional(2) [OF timeout]
        read_optional(3) [OF provider] read_optional(4) [OF isolation])
qed

lemma template_read:
  "template_of_json (template_json aa) =
      Some \<lparr>t_task = aa_task aa, t_label = aa_label aa, t_model = aa_model aa, t_tool_allowlist = None,
            t_frontmatter_path = None, t_provider_ref = None, t_timeout_secs = aa_timeout_secs aa,
            t_isolation_worktree = (\<not> aa_shared_tree aa), t_posture = Supervised\<rparr>"
proof -
  let ?t = "template_json aa"
  note get = template_json_def json_get_member member_simps
  have label: "json_get ?t ''label'' = map_option JString (aa_label aa)"
    by (cases "aa_label aa") (simp_all add: get)
  have model: "json_get ?t ''model'' = map_option JString (aa_model aa)"
    by (cases "aa_model aa") (simp_all add: get)
  have timeout: "json_get ?t ''timeout_secs'' = map_option json_nat (aa_timeout_secs aa)"
    by (cases "aa_timeout_secs aa") (simp_all add: get)
  have task: "need as_str ?t ''task'' = Some (aa_task aa)" by (simp add: need_def get)
  have isolation: "json_get ?t ''isolation_worktree'' = Some (JBool (\<not> aa_shared_tree aa))" by (simp add: get)
  have absent: "json_get ?t k = None" if "k \<in> {''tool_allowlist'', ''frontmatter_path'', ''provider_ref'', ''permission_posture''}" for k
    using that by (auto simp: get)
  show ?thesis
    by (simp add: template_of_json_def task read_optional(1) [OF label] read_optional(1) [OF model]
        read_optional(2) [OF timeout] read_optional(3) [OF absent] read_optional(4) [OF isolation])
qed

text \<open>
  C38. What the command line asks for is what the server starts: the body of \<open>spawn\<close> is read as exactly the
  request of the flags, for any prompt and any name, with nothing dropped and no default changed; and
  the body of \<open>automation add\<close>, which is sent when exactly one trigger is given, as that automation.
\<close>

theorem cli_body_arrives:
  "(\<exists>b. spawn_body_of_json (spawn_body_json sa) = Some b \<and>
      spawn_request_of b =
        \<lparr>rq_prompt = sa_prompt sa, rq_label = sa_label sa, rq_model = sa_model sa,
         rq_isolation_worktree = (\<not> sa_shared_tree sa),
         rq_tool_allowlist = (if sa_tool_allowlist sa = [] then None else Some (sa_tool_allowlist sa)),
         rq_interactive = sa_interactive sa, rq_frontmatter_path = sa_frontmatter sa,
         rq_timeout_secs = sa_timeout_secs sa, rq_provider_ref = None, rq_permission_posture = sa_posture sa\<rparr>) \<and>
   (case automation_body aa of
      Inl _ \<Rightarrow> aa_webhook aa = (aa_schedule aa \<noteq> None)
    | Inr v \<Rightarrow> create_automation_of_json v = Some
        \<lparr>cab_id = aa_id aa, cab_workspace = aa_workspace aa,
         cab_trigger = (case aa_schedule aa of Some s \<Rightarrow> Cron s | None \<Rightarrow> Webhook),
         cab_template =
           \<lparr>t_task = aa_task aa, t_label = aa_label aa, t_model = aa_model aa, t_tool_allowlist = None,
            t_frontmatter_path = None, t_provider_ref = None, t_timeout_secs = aa_timeout_secs aa,
            t_isolation_worktree = (\<not> aa_shared_tree aa), t_posture = Supervised\<rparr>,
         cab_enabled = (\<not> aa_disabled aa)\<rparr>)"
proof (rule conjI)
  show "\<exists>b. spawn_body_of_json (spawn_body_json sa) = Some b \<and>
      spawn_request_of b =
        \<lparr>rq_prompt = sa_prompt sa, rq_label = sa_label sa, rq_model = sa_model sa,
         rq_isolation_worktree = (\<not> sa_shared_tree sa),
         rq_tool_allowlist = (if sa_tool_allowlist sa = [] then None else Some (sa_tool_allowlist sa)),
         rq_interactive = sa_interactive sa, rq_frontmatter_path = sa_frontmatter sa,
         rq_timeout_secs = sa_timeout_secs sa, rq_provider_ref = None, rq_permission_posture = sa_posture sa\<rparr>"
    by (simp add: spawn_body_read spawn_request_of_def body_isolation_worktree_def)
next
  let ?t = "template_json aa"
  note template = template_read [of aa]
  show "case automation_body aa of
      Inl _ \<Rightarrow> aa_webhook aa = (aa_schedule aa \<noteq> None)
    | Inr v \<Rightarrow> create_automation_of_json v = Some
        \<lparr>cab_id = aa_id aa, cab_workspace = aa_workspace aa,
         cab_trigger = (case aa_schedule aa of Some s \<Rightarrow> Cron s | None \<Rightarrow> Webhook),
         cab_template =
           \<lparr>t_task = aa_task aa, t_label = aa_label aa, t_model = aa_model aa, t_tool_allowlist = None,
            t_frontmatter_path = None, t_provider_ref = None, t_timeout_secs = aa_timeout_secs aa,
            t_isolation_worktree = (\<not> aa_shared_tree aa), t_posture = Supervised\<rparr>,
         cab_enabled = (\<not> aa_disabled aa)\<rparr>"
    by (cases "aa_schedule aa"; cases "aa_webhook aa")
      (simp_all add: automation_body_def Let_def create_automation_of_json_def trigger_of_json_def need_def
        with_default_def json_get_member member_simps template)
qed

section \<open>Witnesses\<close>

theorem new_token_signs_in_witness:
  "\<exists>es. token_set_load sample_auth ''tokens'' (Inr (printed_tokens sample_auth [(''ci'', Operate, generate_token sample_auth [7])])) = Inr es \<and>
    resolve_principal sample_auth (auth_enabled es [] False) 0
      (client_headers (on_behalf None (daemon_client_new ''http://h/'' (Some (generate_token sample_auth [7]))))) =
    Some \<lparr>token_name = ''ci'', pr_scope = Operate, pr_via = Bearer, expires_unix = None\<rparr>"
proof -
  let ?t = "generate_token sample_auth [7]"
  have "b64url sample_auth [7] = ''07''" by (simp add: sample_auth_def sample_hex_def nibble_char_def byte_def) code_simp
  then have plain: "list_all plain_char (b64url sample_auth [7])" by (simp add: plain_char_def)
  have plain_t: "list_all plain_char ?t" "?t \<noteq> []"
    using plain by (simp_all add: generate_token_def token_prefix_def plain_char_def)
  have valid: "\<forall>(n, sc, t) \<in> set [(''ci'', Operate, ?t)]. validate_token_name sample_auth n = Inr ()"
    by (simp add: validate_token_name_def name_char_def is_ascii_lowercase_def)
  let ?read = "\<lambda>_::string. Inr (?t @ [CHR 0x0A]) :: string + string"
  have mem: "(''ci'', Operate, ?t) \<in> set [(''ci'', Operate, ?t)]" by simp
  obtain es where es: "token_set_load sample_auth ''tokens'' (Inr (printed_tokens sample_auth [(''ci'', Operate, ?t)])) = Inr es"
    and tok: "\<forall>tok \<in> {resolve_token ?read None (Some ''t''), resolve_token ?read (Some ?t) None}. \<exists>credential. tok = Inr credential \<and>
       resolve_principal sample_auth (auth_enabled es [] False) 0
         (client_headers (on_behalf None (daemon_client_new ''http://h/'' credential))) =
       Some \<lparr>token_name = ''ci'', pr_scope = Operate, pr_via = Bearer, expires_unix = None\<rparr>"
    using new_token_signs_in [where read = ?read and path = "''t''" and flag = None and key = "[]" and secure = False
        and now = 0 and who = None and base = "''http://h/''" and tokens_path = "''tokens''",
        OF sample_hex_laws valid _ _ mem refl plain] by auto
  have "resolve_token ?read (Some ?t) None = Inr (Some ?t)"
    using resolve_token_plain(2) [where read = ?read, OF plain_t refl] .
  then show ?thesis using es tok by auto
qed

theorem cli_reads_stream_witness:
  "stream_events (\<lambda>_. Some JNull) (concat (map frame_text [KeepAlive, NamedFrame '''' ''{}'', NamedFrame ''gap'' ''{}''])) =
     [('''', JNull), (''gap'', JNull)]"
proof -
  have "list_all plain_char ''{}''" "list_all plain_char ''gap''" by (simp_all add: plain_char_def)
  then have "\<forall>f \<in> set [KeepAlive, NamedFrame '''' ''{}'', NamedFrame ''gap'' ''{}'']. frame_clean f"
    using trim_space_plain [of "[]"] trim_space_plain [of "''{}''"] trim_space_plain [of "''gap''"] by simp
  then show ?thesis by (subst cli_reads_stream) simp_all
qed

definition sample_calendar :: cli_calendar where
  "sample_calendar =
     \<lparr>cc_date = (\<lambda>_. None), cc_instant = (\<lambda>_. Some 0), cc_stamp = (\<lambda>_. ''1970-01-01T00:00:00+00:00''),
      cc_debug = (\<lambda>s. s)\<rparr>"



end
