(* ===== verification/Cli_Output.thy ===== *)
theory Cli_Output
  imports Cli Dash_Stream
begin

text \<open>
  What the command line client prints (\<open>cli/src/main.rs\<close>, \<open>usage.rs\<close>) and the run of a command: its
  requests over the network, the errors, the text. The text of a number with four decimals and the
  pretty printing of JSON are parameters, as is the network. Characters outside ASCII are their UTF-8
  bytes.
\<close>

section \<open>Layout\<close>

definition arrow :: string where "arrow = [CHR 0xE2, CHR 0x86, CHR 0x92]"
definition mdash :: string where "mdash = [CHR 0xE2, CHR 0x80, CHR 0x94]"
definition gear :: string where "gear = [CHR 0xE2, CHR 0x9A, CHR 0x99]"
definition tick_mark :: string where "tick_mark = [CHR 0xE2, CHR 0x9C, CHR 0x93]"
definition cross_mark :: string where "cross_mark = [CHR 0xE2, CHR 0x9C, CHR 0x97]"
definition warn_sign :: string where "warn_sign = [CHR 0xE2, CHR 0x9A, CHR 0xA0]"

definition squote :: "string \<Rightarrow> string" where
  "squote s = [CHR 0x27] @ s @ [CHR 0x27]"

definition println :: "string \<Rightarrow> string" where
  "println s = s @ [CHR 0x0A]"

text \<open>\<open>{:<n}\<close> and \<open>{:>n}\<close> count characters.\<close>

definition pad_right :: "nat \<Rightarrow> string \<Rightarrow> string" where
  "pad_right n s = s @ replicate (n - length (utf8_chars s)) (CHR '' '')"

definition pad_left :: "nat \<Rightarrow> string \<Rightarrow> string" where
  "pad_left n s = replicate (n - length (utf8_chars s)) (CHR '' '') @ s"

text \<open>\<open>v["k"]\<close> is \<open>null\<close> where there is no such member.\<close>

definition at_key :: "json \<Rightarrow> string \<Rightarrow> json" where
  "at_key v k = (case json_get v k of Some x \<Rightarrow> x | None \<Rightarrow> JNull)"

definition str_or :: "string \<Rightarrow> json \<Rightarrow> string" where
  "str_or d v = (case as_str v of Some s \<Rightarrow> s | None \<Rightarrow> d)"

definition bool_or :: "bool \<Rightarrow> json \<Rightarrow> bool" where
  "bool_or d v = (case as_bool v of Some b \<Rightarrow> b | None \<Rightarrow> d)"

definition nat_or :: "nat \<Rightarrow> json \<Rightarrow> nat" where
  "nat_or d v = (case as_u64_json v of Some n \<Rightarrow> n | None \<Rightarrow> d)"

fun as_array :: "json \<Rightarrow> json list option" where
  "as_array (JArray vs) = Some vs"
| "as_array _ = None"

record print_port =
  pp_f4 :: "json \<Rightarrow> string"
  pp_usd4 :: "f64 \<Rightarrow> string"
  pp_pretty :: "json \<Rightarrow> string"
  pp_report :: "json \<Rightarrow> usage_report option"
  pp_shown :: "string \<Rightarrow> string option"
  pp_add :: "f64 \<Rightarrow> f64 \<Rightarrow> f64"

section \<open>Events\<close>

definition print_event :: "print_port \<Rightarrow> string \<Rightarrow> json \<Rightarrow> string" where
  "print_event pp name ev =
     (if name = ''gap''
      then println (''[gap] fell behind '' @ mdash @ '' recovered '' @ show_nat (nat_or 0 (at_key ev ''skipped'')) @
                    '' dropped event(s) from history'')
      else let k = at_key ev ''kind''; tag = str_or '''' (at_key k ''kind'')
        in if tag = ''output'' then str_or '''' (at_key k ''chunk'')
           else if tag = ''tool_started'' then println (gear @ '' '' @ str_or ''?'' (at_key k ''name''))
           else if tag = ''tool_finished''
             then println ((if bool_or False (at_key k ''ok'') then tick_mark else cross_mark) @ '' '' @
                           str_or ''?'' (at_key k ''name''))
           else if tag = ''agent_init'' then println (''[init] model='' @ str_or ''?'' (at_key k ''model''))
           else if tag = ''agent_finished''
             then println (''[finished] '' @ str_or ''?'' (at_key k ''outcome'') @ '' '' @ mdash @ '' $'' @
                           pp_f4 pp (at_key k ''cost_usd'') @ '', '' @ show_nat (nat_or 0 (at_key k ''turns'')) @ '' turns'')
           else if tag = ''status_changed''
             then println (''[status] '' @ str_or ''?'' (at_key k ''from'') @ '' '' @ arrow @ '' '' @ str_or ''?'' (at_key k ''to''))
           else if tag = ''store_persist_failed''
             then println (warn_sign @ '' [persist-gap] event seq '' @ show_nat (nat_or 0 (at_key k ''lost_seq'')) @
                           '' was not durably stored: '' @ str_or '''' (at_key k ''detail''))
           else println (''['' @ tag @ '']''))"

section \<open>Listings\<close>

definition print_run :: "json \<Rightarrow> string" where
  "print_run run =
     (let fired = str_or ''?'' (at_key run ''fired_at''); source = pad_right 9 (str_or ''?'' (at_key run ''source''))
      in println (case (as_str (at_key run ''agent_id''), as_str (at_key run ''error'')) of
           (Some i, _) \<Rightarrow> fired @ ''  '' @ source @ '' ok      '' @ i
         | (None, Some err) \<Rightarrow> fired @ ''  '' @ source @ '' FAILED  '' @ err
         | (None, None) \<Rightarrow> fired @ ''  '' @ source @ '' ?''))"

definition automation_line :: "json \<Rightarrow> string" where
  "automation_line a =
     (let i = str_or ''?'' (at_key a ''id''); w = str_or ''?'' (at_key a ''workspace'');
          trig = (case as_str (at_key (at_key a ''trigger'') ''kind'') of
                    Some t \<Rightarrow> if t = ''cron'' then str_or ''?'' (at_key (at_key a ''trigger'') ''schedule'')
                              else if t = ''webhook'' then ''webhook'' else ''?''
                  | None \<Rightarrow> ''?'');
          state = (if bool_or True (at_key a ''enabled'') then '''' else ''  (disabled)'');
          fired = (case as_str (at_key a ''last_fired_at'') of Some t \<Rightarrow> ''  last '' @ t | None \<Rightarrow> ''  never fired'')
      in println (pad_right 20 i @ '' '' @ pad_right 16 trig @ '' '' @ w @ fired @ state))"

definition print_automations :: "json \<Rightarrow> string" where
  "print_automations list =
     (case as_array list of
        None \<Rightarrow> ''''
      | Some [] \<Rightarrow> println ''(no automations configured)''
      | Some arr \<Rightarrow> concat (map automation_line arr))"

definition join :: "string \<Rightarrow> string list \<Rightarrow> string" where
  "join sep ss = (case ss of [] \<Rightarrow> [] | s # rest \<Rightarrow> s @ concat (map (\<lambda>t. sep @ t) rest))"

definition workspace_lines :: "json \<Rightarrow> string" where
  "workspace_lines r =
     (let n = str_or ''?'' (at_key r ''name''); dir = str_or ''?'' (at_key r ''root'');
          health = str_or ''?'' (at_key (at_key r ''health'') ''state'');
          count = nat_or 0 (at_key r ''agent_count'');
          provider = (case as_str (at_key (at_key r ''config'') ''provider'') of Some p \<Rightarrow> ''  '' @ p | None \<Rightarrow> '''');
          sources = (case as_array (at_key r ''sources'') of
                       Some a \<Rightarrow> List.map_filter (\<lambda>s. as_str (at_key s ''name'')) a | None \<Rightarrow> [])
      in println (pad_right 16 n @ '' '' @ pad_right 12 health @ '' '' @ show_nat count @ '' agents   '' @ dir @ provider) @
         (if sources = [] then '''' else println (pad_right 16 '''' @ '' sources: '' @ join '', '' sources)))"

definition print_workspaces :: "json \<Rightarrow> string" where
  "print_workspaces v =
     (case as_array v of
        None \<Rightarrow> ''''
      | Some [] \<Rightarrow> println ''(no workspaces registered)''
      | Some arr \<Rightarrow> concat (map workspace_lines arr))"

definition agent_line :: "json \<Rightarrow> string" where
  "agent_line a =
     println (''  '' @ pad_right 14 (str_or ''?'' (at_key a ''id'')) @ '' '' @
       pad_right 9 (str_or ''?'' (at_key a ''status'')) @ '' '' @
       pad_right 9 (if bool_or False (at_key a ''isolated'') then ''worktree'' else ''shared'') @ '' '' @
       str_or '''' (at_key a ''name''))"

definition fleet_workspace_lines :: "json \<Rightarrow> string" where
  "fleet_workspace_lines r =
     (let provider = (case as_str (at_key (at_key r ''config'') ''provider'') of
                        Some p \<Rightarrow> ''  provider='' @ p | None \<Rightarrow> '''');
          agents = (case as_array (at_key r ''agents'') of Some a \<Rightarrow> a | None \<Rightarrow> [])
      in println ([CHR 0x0A] @ str_or ''?'' (at_key r ''name'') @ ''  ['' @
            str_or ''?'' (at_key (at_key r ''health'') ''state'') @ '']'' @ provider) @
         (if agents = [] then println ''  (no agents)'' else '''') @ concat (map agent_line agents))"

definition print_fleet :: "json \<Rightarrow> string" where
  "print_fleet fleet =
     println (''host: '' @ str_or ''?'' (at_key fleet ''host'')) @
     (case as_array (at_key fleet ''workspaces'') of
        None \<Rightarrow> ''''
      | Some [] \<Rightarrow> println ''(no workspaces registered)''
      | Some ws \<Rightarrow> concat (map fleet_workspace_lines ws))"

section \<open>The usage table (\<open>usage.rs\<close>)\<close>

definition shown :: "print_port \<Rightarrow> string \<Rightarrow> string" where
  "shown pp s = (case pp_shown pp s of Some t \<Rightarrow> t | None \<Rightarrow> s)"

definition table_line :: "nat \<Rightarrow> string list \<Rightarrow> string" where
  "table_line name_width cells =
     println (pad_right name_width (cells ! 0) @ ''  '' @ pad_left 10 (cells ! 1) @ ''  '' @ pad_left 7 (cells ! 2) @
              ''  '' @ pad_left 6 (cells ! 3) @ ''  '' @ pad_left 6 (cells ! 4) @ ''  '' @ pad_left 6 (cells ! 5) @
              ''  '' @ pad_left 7 (cells ! 6))"

definition row_cells :: "print_port \<Rightarrow> usage_row_shown \<Rightarrow> string list" where
  "row_cells pp r =
     [us_name r, ''$'' @ pp_usd4 pp (us_cost_usd r), show_nat (us_turns r), show_nat (oc_done (us_outcomes r)),
      show_nat (oc_failed (us_outcomes r)), show_nat (oc_killed (us_outcomes r)),
      show_nat (oc_crashed (us_outcomes r))]"

definition timed_out_note :: "nat \<Rightarrow> string" where
  "timed_out_note n =
     (if n = 0 then ''''
      else if n = 1
      then [CHR 0x0A] @ println ''killed includes 1 run stopped by its wall-clock time limit''
      else [CHR 0x0A] @ println (''killed includes '' @ show_nat n @ '' runs stopped by their wall-clock time limit''))"

definition render :: "print_port \<Rightarrow> usage_report \<Rightarrow> string option \<Rightarrow> string" where
  "render pp report workspace =
     (let since = shown pp (ur_since report); until = shown pp (ur_until report); groups = ur_groups report
      in if groups = []
         then (case workspace of
                 Some w \<Rightarrow> println (''no usage recorded for workspace '' @ squote w @ '' between '' @ since @ '' and '' @ until)
               | None \<Rightarrow> println (''no usage recorded between '' @ since @ '' and '' @ until))
         else
           (let rows = table_rows (pp_add pp) groups;
                name_width = Max (set (length ''WORKSPACE'' # map (\<lambda>r. length (us_name r)) rows))
            in println (''usage '' @ since @ '' '' @ arrow @ '' '' @ until) @ [CHR 0x0A] @
               table_line name_width [''WORKSPACE'', ''COST'', ''TURNS'', ''DONE'', ''FAILED'', ''KILLED'', ''CRASHED''] @
               concat (map (\<lambda>r. table_line name_width (row_cells pp r)) rows) @
               timed_out_note (oc_timed_out (us_outcomes (total_row (pp_add pp) groups)))))"

section \<open>Running a command\<close>

text \<open>
  A request over the network: method, URL, headers, body; the answer is an error or the text of the body.
  The network has a state, so it may answer differently every time.
\<close>

type_synonym 'x network =
  "string \<times> string \<times> headers \<times> json option \<Rightarrow> 'x \<Rightarrow> (http_error + string) \<times> 'x"

definition cli_call ::
  "(string \<Rightarrow> json option) \<Rightarrow> 'x network \<Rightarrow> daemon_client \<Rightarrow> string \<Rightarrow> string \<Rightarrow> json option \<Rightarrow> 'x \<Rightarrow>
   (string + string) \<times> 'x" where
  "cli_call parse net c meth path body x =
     apfst (\<lambda>r. case r of Inl e \<Rightarrow> Inl (map_err parse e) | Inr txt \<Rightarrow> Inr txt)
       (net (meth, client_url c path, client_headers c, body) x)"

definition get_json ::
  "(string \<Rightarrow> json option) \<Rightarrow> 'x network \<Rightarrow> daemon_client \<Rightarrow> string \<Rightarrow> 'x \<Rightarrow> (string + json) \<times> 'x" where
  "get_json parse net c path x =
     apfst (\<lambda>r. rbind r (\<lambda>txt. ok_or (parse txt) ''parsing JSON response'')) (cli_call parse net c ''GET'' path None x)"

definition post_json ::
  "(string \<Rightarrow> json option) \<Rightarrow> 'x network \<Rightarrow> daemon_client \<Rightarrow> string \<Rightarrow> json \<Rightarrow> 'x \<Rightarrow> (string + json) \<times> 'x" where
  "post_json parse net c path body x =
     apfst (\<lambda>r. rbind r (\<lambda>txt. Inr (if trim txt = [] then JNull
                                    else case parse txt of Some v \<Rightarrow> v | None \<Rightarrow> JNull)))
       (cli_call parse net c ''POST'' path (Some body) x)"

definition put_json ::
  "(string \<Rightarrow> json option) \<Rightarrow> 'x network \<Rightarrow> daemon_client \<Rightarrow> string \<Rightarrow> json \<Rightarrow> 'x \<Rightarrow> (string + unit) \<times> 'x" where
  "put_json parse net c path body x =
     apfst (\<lambda>r. rbind r (\<lambda>_. Inr ())) (cli_call parse net c ''PUT'' path (Some body) x)"

definition delete_req ::
  "(string \<Rightarrow> json option) \<Rightarrow> 'x network \<Rightarrow> daemon_client \<Rightarrow> string \<Rightarrow> 'x \<Rightarrow> (string + unit) \<times> 'x" where
  "delete_req parse net c path x =
     apfst (\<lambda>r. rbind r (\<lambda>_. Inr ())) (cli_call parse net c ''DELETE'' path None x)"

text \<open>What a command prints when it is answered; \<open>v\<close> is the parsed answer, \<open>null\<close> where none is read.\<close>

definition created_text :: "string \<Rightarrow> json \<Rightarrow> string" where
  "created_text i v =
     println (''created automation '' @ squote i) @
     (case as_str (at_key v ''webhook_secret'') of
        None \<Rightarrow> ''''
      | Some secret \<Rightarrow>
          println '''' @ println (''  webhook URL:  POST /api/automations/'' @ i @ ''/trigger'') @
          println (''  signing key:  '' @ secret) @ println '''' @
          println ''Sign the raw request body with HMAC-SHA256 and send it as'' @
          println ''  X-Prospero-Signature: sha256=<hex>'' @
          println (''This key is shown once and is not recoverable '' @ mdash @ '' store it now.''))"

definition runs_text :: "string \<Rightarrow> json \<Rightarrow> string" where
  "runs_text i v =
     (case as_array v of
        Some (r # rs) \<Rightarrow> concat (map print_run (r # rs))
      | _ \<Rightarrow> println (''no runs recorded for '' @ squote i))"

definition spawned_text :: "spawn_args \<Rightarrow> json \<Rightarrow> string" where
  "spawned_text a v =
     println (''spawned agent '' @ str_or ''?'' (at_key v ''agent_id'') @ '' in workspace '' @ squote (sa_workspace a) @ '' ('' @
              (if bool_or True (at_key v ''isolated'') then ''worktree'' else ''shared tree'') @ '')'')"

definition whoami_text :: "json \<Rightarrow> string" where
  "whoami_text v =
     (if as_str (at_key v ''auth'') = Some ''disabled'' then println ''authentication is disabled on this prosperod''
      else println (str_or ''?'' (at_key v ''token_name'') @ '' ('' @ str_or ''?'' (at_key v ''scope'') @ '')''))"

fun reply_text :: "print_port \<Rightarrow> cli_command \<Rightarrow> json \<Rightarrow> string + string" where
  "reply_text pp (CmdWorkspaceAdd n dir) v = Inr (println (''registered workspace '' @ squote n @ '' at '' @ dir))"
| "reply_text pp CmdWorkspaceList v = Inr (print_workspaces v)"
| "reply_text pp (CmdWorkspaceConfig a) v = Inr (println (''updated provider config for workspace '' @ squote (ca_name a)))"
| "reply_text pp (CmdWorkspaceRm n) v = Inr (println (''unregistered workspace '' @ squote n))"
| "reply_text pp (CmdAutomationAdd a) v = Inr (created_text (aa_id a) v)"
| "reply_text pp CmdAutomationLs v = Inr (print_automations v)"
| "reply_text pp (CmdAutomationRun i) v = Inr (print_run (at_key v ''run''))"
| "reply_text pp (CmdAutomationRuns i limit) v = Inr (runs_text i v)"
| "reply_text pp (CmdAutomationEnabled i on) v =
     Inr (println ((if on then ''enabled'' else ''disabled'') @ '' automation '' @ squote i))"
| "reply_text pp (CmdAutomationRm i) v = Inr (println (''removed automation '' @ squote i))"
| "reply_text pp (CmdSpawn a) v = Inr (spawned_text a v)"
| "reply_text pp (CmdUsage since ws as_json) v =
     (let report = (case ws of Some w \<Rightarrow> only_workspace v w | None \<Rightarrow> v)
      in if as_json then Inr (println (pp_pretty pp report))
         else case pp_report pp report of
           Some typed \<Rightarrow> Inr (render pp typed ws)
         | None \<Rightarrow> Inl ([CHR ''t''] @ ''he server'' @ [CHR 0x27] @ ''s usage report did not match this CLI'' @ [CHR 0x27] @ ''s version''))"
| "reply_text pp CmdLs v = Inr (print_fleet v)"
| "reply_text pp (CmdKill i) v = Inr (println (''kill requested for '' @ i))"
| "reply_text pp (CmdRespawn i) v = Inr (println (''respawned '' @ i @ '' as '' @ str_or ''?'' (at_key v ''agent_id'')))"
| "reply_text pp (CmdRm i) v = Inr (println (''removed '' @ i))"
| "reply_text pp (CmdSend i t) v = Inr (println (''sent message to '' @ i))"
| "reply_text pp (CmdEndInput i) v = Inr (println (''end-input sent to '' @ i))"
| "reply_text pp CmdWhoami v = Inr (whoami_text v)"
| "reply_text pp (CmdFollow i from) v = Inr ''''"

definition follow_text :: "(string \<Rightarrow> json option) \<Rightarrow> print_port \<Rightarrow> string list \<Rightarrow> string" where
  "follow_text parse pp lines = concat (map (\<lambda>(name, v). print_event pp name v) (stream_events parse lines))"

text \<open>
  A command: its request, then what it prints and how it ends. \<open>follow\<close> prints while the stream is open;
  here the stream has ended, with its lines as the text of the answer.
\<close>

definition cli_run ::
  "cli_calendar \<Rightarrow> (string \<Rightarrow> json option) \<Rightarrow> print_port \<Rightarrow> 'x network \<Rightarrow> daemon_client \<Rightarrow> cli_command \<Rightarrow> 'x \<Rightarrow>
   (string \<times> (string + unit)) \<times> 'x" where
  "cli_run cal parse pp net c cmd x =
     (case cli_request cal cmd of
        Inl e \<Rightarrow> (([], Inl e), x)
      | Inr (meth, path, body) \<Rightarrow>
          (let answer = (\<lambda>r. case rbind r (reply_text pp cmd) of Inl e \<Rightarrow> ([], Inl e) | Inr t \<Rightarrow> (t, Inr ()))
           in case cmd of
             CmdFollow i _ \<Rightarrow>
               (let intro = println (mdash @ '' following '' @ i @ '' (Ctrl-C to stop) '' @ mdash)
                in apfst (\<lambda>r. case r of
                       Inl _ \<Rightarrow> (intro, Inl ''streaming agent events'')
                     | Inr txt \<Rightarrow> (intro @ follow_text parse pp (str_lines txt), Inr ()))
                     (cli_call parse net c meth path None x))
           | _ \<Rightarrow>
               if meth = ''GET'' then apfst answer (get_json parse net c path x)
               else if meth = ''POST'' then apfst answer (post_json parse net c path (case body of Some b \<Rightarrow> b | None \<Rightarrow> JNull) x)
               else if meth = ''PUT''
               then apfst (\<lambda>r. answer (rbind r (\<lambda>_. Inr JNull))) (put_json parse net c path (case body of Some b \<Rightarrow> b | None \<Rightarrow> JNull) x)
               else apfst (\<lambda>r. answer (rbind r (\<lambda>_. Inr JNull))) (delete_req parse net c path x)))"

text \<open>
  \<open>status\<close>: the daemon is up when one of two probes is answered; the second goes without the credential.
\<close>

definition cli_status ::
  "(string \<Rightarrow> json option) \<Rightarrow> 'x network \<Rightarrow> string \<Rightarrow> daemon_client \<Rightarrow> 'x \<Rightarrow> string \<times> 'x" where
  "cli_status parse net addr c x =
     (case get_json parse net c ''/healthz'' x of
        (first, x) \<Rightarrow>
          (case (if is_ok first then (True, x)
                 else apfst is_ok (net (''GET'', addr @ ''/healthz'', [], None) x)) of
             (healthy, x) \<Rightarrow>
               (case get_json parse net c ''/api/fleet'' x of
                  (fleet, x) \<Rightarrow>
                    (println (''daemon: '' @ (if healthy then ''up'' else ''unreachable'')) @
                     (case fleet of Inr v \<Rightarrow> print_fleet v | Inl _ \<Rightarrow> ''''), x))))"

section \<open>Following an agent\<close>

text \<open>The text of an event and of a gap, from what they are.\<close>

fun kind_text :: "print_port \<Rightarrow> event_kind \<Rightarrow> string" where
  "kind_text pp (Output _ chunk) = chunk"
| "kind_text pp (ToolStarted _ name _) = println (gear @ '' '' @ name)"
| "kind_text pp (ToolFinished _ name ok _ _) = println ((if ok then tick_mark else cross_mark) @ '' '' @ name)"
| "kind_text pp (AgentInit model _ _) = println (''[init] model='' @ model)"
| "kind_text pp (AgentFinished outcome cost turns) =
     println (''[finished] '' @ outcome @ '' '' @ mdash @ '' $'' @ pp_f4 pp (json_f64 cost) @ '', '' @ show_nat turns @ '' turns'')"
| "kind_text pp (StatusChanged a b) = println (''[status] '' @ status_text a @ '' '' @ arrow @ '' '' @ status_text b)"
| "kind_text pp (StorePersistFailed n detail) =
     println (warn_sign @ '' [persist-gap] event seq '' @ show_nat n @ '' was not durably stored: '' @ detail)"
| "kind_text pp k = println (''['' @ kind_tag k @ '']'')"

fun frame_shown :: "print_port \<Rightarrow> frame \<Rightarrow> string" where
  "frame_shown pp (EventFrame e) = kind_text pp (kind e)"
| "frame_shown pp (Gap skipped _) =
     println (''[gap] fell behind '' @ mdash @ '' recovered '' @ show_nat skipped @ '' dropped event(s) from history'')"

text \<open>The frames as the lines of the response, keep-alive comments in between.\<close>

fun text_of_item :: "sse_item \<Rightarrow> text_frame" where
  "text_of_item (SseMessage (Some p)) = NamedFrame '''' p"
| "text_of_item (SseGap (Some p)) = NamedFrame ''gap'' p"
| "text_of_item _ = KeepAlive"

definition gap_json :: "nat \<Rightarrow> nat \<Rightarrow> json" where
  "gap_json skipped last_seq = json_object [(''skipped'', json_nat skipped), (''last_seq'', json_nat last_seq)]"

lemma at_key_object: "at_key (json_object ms) k = (case member ms k of Some v \<Rightarrow> v | None \<Rightarrow> JNull)"
  by (simp add: at_key_def json_get_member)

lemma print_event_json: "print_event pp '''' (event_json e) = kind_text pp (kind e)"
proof -
  have "at_key (event_json e) ''kind'' = kind_json (kind e)"
    by (cases "actor e"; cases "on_behalf_of e") (simp_all add: event_json_def at_key_object member_simps)
  moreover have "at_key (kind_json k) ''kind'' = JString (kind_tag k)" for k
    by (cases k) (simp_all add: kind_json_def at_key_object member_simps)
  ultimately show ?thesis
    by (cases "kind e")
      (simp_all add: print_event_def Let_def str_or_def bool_or_def nat_or_def kind_json_def at_key_object member_simps json_nat_def)
qed

lemma print_event_gap: "print_event pp ''gap'' (gap_json n m) = frame_shown pp (Gap n m)"
  by (simp add: print_event_def gap_json_def at_key_object member_simps nat_or_def json_nat_def)

text \<open>
  C40. What \<open>follow\<close> prints is what the server streams: every event and gap of the agent's stream gives its own
  text, in order and nothing else - the output of the agent verbatim - whatever keep-alives come in
  between.
\<close>

theorem follow_prints_stream:
  assumes fs: "fs = agent_stream ops i from s items"
    and enc: "\<And>e. EventFrame e \<in> set fs \<Longrightarrow>
        parse (encode e) = Some (event_json e) \<and> trim ('' '' @ encode e) = encode e \<and> encode e \<noteq> []"
    and gap: "\<And>n m. Gap n m \<in> set fs \<Longrightarrow>
        parse (encode_gap n m) = Some (gap_json n m) \<and> trim ('' '' @ encode_gap n m) = encode_gap n m \<and> encode_gap n m \<noteq> []"
    and lines: "filter (\<lambda>t. t \<noteq> KeepAlive) tfs = map (\<lambda>f. text_of_item (frame_to_event encode encode_gap f)) fs"
  shows "follow_text parse pp (concat (map frame_text tfs)) = concat (map (frame_shown pp) fs)"
proof -
  let ?t = "\<lambda>f. text_of_item (frame_to_event encode encode_gap f)"
  have name: "trim ('' '' @ ''gap'') = ''gap''" "trim ('' '' @ []) = []"
    using trim_space_plain [of "''gap''"] trim_space_plain [of "[]"] by (simp_all add: plain_char_def)
  have one: "frame_clean (?t f)"
      "concat (map (\<lambda>(name, v). print_event pp name v) (frame_payload parse (?t f))) = frame_shown pp f"
    if "f \<in> set fs" for f
    using enc gap that name by (cases f; simp add: print_event_json print_event_gap [simplified])+
  have all: "\<lbrakk>filter (\<lambda>t. t \<noteq> KeepAlive) ts = map ?t gs; set gs \<subseteq> set fs\<rbrakk> \<Longrightarrow>
      (\<forall>t \<in> set ts. frame_clean t) \<and>
      concat (map (\<lambda>(name, v). print_event pp name v) (concat (map (frame_payload parse) ts))) = concat (map (frame_shown pp) gs)"
    for ts gs
  proof (induction ts arbitrary: gs)
    case (Cons t ts)
    show ?case
    proof (cases "t = KeepAlive")
      case False
      then obtain f gs' where "gs = f # gs'" "t = ?t f" "filter (\<lambda>t. t \<noteq> KeepAlive) ts = map ?t gs'"
        using Cons.prems by (cases gs) auto
      then show ?thesis using Cons.IH [of gs'] Cons.prems(2) one by auto
    qed (use Cons in simp)
  qed simp
  show ?thesis
    using all [OF lines order_refl] cli_reads_stream [of tfs parse] by (simp add: follow_text_def)
qed

section \<open>Witnesses\<close>

definition sample_print :: print_port where
  "sample_print =
     \<lparr>pp_f4 = (\<lambda>_. ''0.0000''), pp_usd4 = (\<lambda>_. ''0.0000''), pp_pretty = (\<lambda>_. []), pp_report = (\<lambda>_. None),
      pp_shown = Some, pp_add = (\<lambda>a _. a)\<rparr>"

definition sample_line :: "fleet_event \<Rightarrow> string" where
  "sample_line e = (if seq e = 1 then ''x'' else ''y'')"

definition sample_parse :: "string \<Rightarrow> json option" where
  "sample_parse s =
     (if s = ''x'' then Some (event_json (row_event gone_dec (sample_row 1)))
      else Some (event_json (row_event gone_dec (sample_row 2))))"

theorem follow_prints_stream_witness:
  "follow_text sample_parse sample_print (concat (map frame_text [KeepAlive, NamedFrame '''' ''x'', NamedFrame '''' ''y''])) =
     println ''[agent_gone]'' @ println ''[agent_gone]''"
proof -
  let ?e1 = "row_event gone_dec (sample_row 1)" and ?e2 = "row_event gone_dec (sample_row 2)"
  have s: "seq ?e1 = 1" "seq ?e2 = 2" "kind ?e1 = AgentGone" "kind ?e2 = AgentGone" "\<not> is_terminal_event ?e1"
      "\<not> is_terminal_event ?e2"
    by (simp_all add: row_event_def of_row_def sample_row_def as_u64_def is_terminal_event_def)
  have run: "[EventFrame ?e1, EventFrame ?e2] = agent_stream gone_ops ''a'' 0 sample_db []"
    by (simp add: agent_stream_def history_def sqlite_ops_def sql_replay_def statement_def sample_db_def sample_row_def
        as_i64_def is_terminal_event_def row_event_def of_row_def as_u64_def)
  have trims: "trim ('' '' @ ''x'') = ''x''" "trim ('' '' @ ''y'') = ''y''"
    using trim_space_plain [of "''x''"] trim_space_plain [of "''y''"] by (simp_all add: plain_char_def)
  show ?thesis
    by (subst follow_prints_stream [OF run, where encode = sample_line and encode_gap = "\<lambda>_ _. []"])
      (use s trims in \<open>auto simp: sample_line_def sample_parse_def\<close>)
qed


end
