(* ===== verification/Spec2Isabelle.thy ===== *)
theory Spec2Isabelle
  imports Usage_Sql Emitter_Race Fleet_Log Automation_Race Api_Props K8s_Views K8s_Fake Dash_Timeline Dash_Stream Dash_Charts Dash_Assets
    Transport Cli_Output
begin

text \<open>
  \<^bold>\<open>Prospero\<close> is a control plane for fleets of coding agents. Each managed workspace has a local daemon
  (\<^emph>\<open>caliband\<close>) that runs the agents; prospero polls the daemons, attaches to the agents' output
  streams, normalises what it sees into events, appends them to a durable log and serves them live
  to its clients. Several replicas may share one Postgres log, with leases that say which of them
  writes for which stream.

  The theories, in the order of their dependencies:

  \<^item> \<open>Prelude\<close>, \<open>Rust_Str\<close>, \<open>Json\<close>: results, the casts between machine integers, Rust strings as UTF-8
    byte lists with the \<open>str\<close> methods the source uses, JSON values.
  \<^item> \<open>Fleet_Types\<close>, \<open>Core_Error\<close>: the data of \<open>crates/types\<close>, the errors of \<open>core/src/error.rs\<close> and their
    HTTP responses (\<open>api/src/error.rs\<close>).
  \<^item> \<open>Event_Store\<close>: the \<open>Store\<close> trait as a record of operations over an abstract state; its contract is
    the locales \<open>event_store\<close>, \<open>unique_event_store\<close> and \<open>fleet_log\<close>. \<open>Jsonl_Store\<close> (\<open>core/src/store.rs\<close>) and
    \<open>Sql_Store\<close> (\<open>sqlite_store.rs\<close>, \<open>postgres_store.rs\<close>) interpret them. \<open>Usage_Sql\<close> shows that the SQL
    aggregation is the reference fold.
  \<^item> \<open>Emitter\<close> (\<open>fleet.rs\<close>, \<open>Emitter\<close>; \<open>metrics.rs\<close>): sequencing, persistence with retries, gap markers.
    \<open>Emitter_Race\<close>: the interleavings of concurrent emissions as a step relation.
  \<^item> \<open>Live_Tail\<close> (\<open>bus.rs\<close>, \<open>distributed_bus.rs\<close>, \<open>api/src/sse.rs\<close>, \<open>sse/tail.rs\<close>): subscriptions, the
    doorbells of the distributed bus, the agent and the fleet stream.
  \<^item> \<open>Ownership\<close> (\<open>ownership.rs\<close>, \<open>leased_ownership.rs\<close>), \<open>Registry\<close> (\<open>registry.rs\<close>, \<open>provider_env.rs\<close>),
    \<open>Deadline\<close> (\<open>deadline.rs\<close>).
  \<^item> \<open>Caliband\<close> (\<open>core/src/caliband\<close>, \<open>discovery.rs\<close>): the client of the daemon, the frames of its streams,
    the discovery of its socket. \<open>Attach\<close> (\<open>fleet.rs\<close>): the reconnecting reader of one agent.
  \<^item> \<open>Fleet_Manager\<close> (\<open>fleet.rs\<close>, \<open>FleetManager\<close>): every operation of the control plane. \<open>Fleet_Props\<close>: frames
    and the invariant. \<open>Fleet_Log\<close>: what the manager writes to the log.
  \<^item> \<open>Auth_Tokens\<close> (\<open>core/src/auth.rs\<close>, \<open>actor.rs\<close>): token hashes, the tokens file, claimed subjects.
    \<open>Api_Auth\<close> (\<open>api/src/auth\<close>): the scope table, session cookies, the middleware in front of every handler.
  \<^item> \<open>Config_Store\<close> (\<open>config_store.rs\<close>, \<open>postgres_config_store.rs\<close>): the \<open>ConfigStore\<close> trait as a record, its
    contract as the locale \<open>config_store\<close>, and the two SQL backends that interpret it.
  \<^item> \<open>Fleet_Provider\<close> (\<open>fleet_provider.rs\<close>): the seam between the API and a backend of the fleet, and its
    local implementation on the manager.
  \<^item> \<open>Automation\<close> (\<open>automation.rs\<close>): schedules, templates, webhooks and the engine. \<open>Automation_Props\<close>: what a
    template renders and when a webhook fires. \<open>Automation_Race\<close>: the ticks of several replicas as a step
    relation over one database.
  \<^item> \<open>Usage_Report\<close> (\<open>api/src/dto.rs\<close>), \<open>Api_Handlers\<close> (\<open>api/src/handlers.rs\<close>, \<open>automations.rs\<close>, \<open>mcp.rs\<close>): the
    HTTP handlers and MCP tools over the seams. \<open>Api_Props\<close>: properties of handlers behind the middleware.
  \<^item> \<open>K8s_Crd\<close> (\<open>k8s/crd.rs\<close>, \<open>status.rs\<close>, \<open>workspace_api.rs\<close>), \<open>K8s_Fleet\<close> (\<open>k8s/fleet.rs\<close>): the custom
    resources and the second backend of the fleet, with its watch loop, its attach sessions and its
    provider. \<open>K8s_Props\<close>: the runs of one process as a step relation, what a poll records and
    broadcasts, what a subscriber sees. \<open>K8s_Views\<close>: names, settled verdicts, the snapshot, configuration.
    \<open>K8s_Fake\<close> (\<open>k8s/fake.rs\<close>): what the backend relies on of its API server as the locales \<open>task_store\<close> and
    \<open>workspace_store\<close>, the life of an agent and the workspace administration over them, and the
    in-memory servers that interpret them.
  \<^item> \<open>Dash_Stream\<close>, \<open>Dash_View\<close>, \<open>Dash_Timeline\<close>, \<open>Dash_Forms\<close>, \<open>Dash_App\<close> (\<open>crates/dashboard\<close>): the browser client.
    The pane that follows one agent over the server's stream, what the screen shows of the fleet, the
    timeline of a run, the workspace forms, and the session, the polling and the controls, whose requests
    are checked against the server's route table and scopes. \<open>Dash_Charts\<close> (\<open>charts.rs\<close>): the series, scales and
    shapes of its charts. \<open>Dash_Assets\<close> (\<open>api/build.rs\<close>, \<open>api/src/dashboard.rs\<close>): the bundle the server embeds
    and serves.
  \<^item> \<open>Daemon\<close> (\<open>daemon/src/main.rs\<close>): the start-up, with what it touches in order and how the arguments decide
    the authentication, the stores, the ownership and the backend, and the shutdown. \<open>Transport\<close>
    (\<open>caliband/transport.rs\<close>): the dial with its TLS handshake and token preamble, joined to the start-up
    that decides which client exists at all.
  \<^item> \<open>Wire_Json\<close> (the serde attributes of \<open>crates/types\<close>): the JSON of events and request bodies. \<open>Cli\<close>
    (\<open>crates/cli\<close>): the command line client, its credential, requests and stream reader next to the parts of
    the server it talks to. \<open>Cli_Output\<close>: the text it prints and the run of a command.

  Not modelled: \<open>pg.rs\<close> (plumbing around a connection library), \<open>openapi.rs\<close> (a static document),
  \<open>testkit.rs\<close> (the fake daemon of the tests), the markup and components of the dashboard, the parsing of
  command lines, signals and the HTTP server. They have no logic of the program's own, or none apart
  from the library they wrap.

  Conventions. Counters and sequence numbers of type \<open>u64\<close> are natural numbers, with the casts to
  \<open>i64\<close> written out where the source has them. An \<open>f64\<close> is its bit pattern; sums are a parameter.
  The charts and the lease times compute with real numbers, so their rounding is left out.
  Third-party code (the SQL driver, \<open>serde_json\<close>, \<open>chrono\<close>, SHA-256, TLS, the daemon) is a parameter of the
  definitions; what a theorem needs of it is a hypothesis, and a witness instantiates it. Failing
  drivers and files are schedules of faults in the state, so a theorem quantifies over every
  pattern of failures. Loops that wait on the outside are recursions over the list of what the
  outside delivers, or carry a bound on the number of connections with a theorem that says which
  bound is enough.
\<close>

end
